(* ===== verification/Prelude.thy ===== *)
theory Prelude
  imports Main "HOL-Library.Word" "HOL-Library.Monad_Syntax"
begin

text \<open>
  The vocabulary every component shares: the machine integers of the RV64 build, the byte
  memory with its little-endian accessors, the rounding and field macros of \<open>bbl/bbl.h\<close>,
  and the generic lemmas about them.

  Conventions of the whole development.  A C function that changes state becomes a function
  from the state to \<open>('result \<times> 'state) option\<close>; \<open>None\<close> means that control never comes back:
  the code reached \<open>panic\<close> or a failed \<open>kassert\<close> (both end in the endless loop of \<open>die\<close>),
  or a polling loop that is never satisfied; or that the C standard gives the execution no
  meaning.  A function that can do none of these is a plain total function.
\<close>

unbundle bit_operations_syntax

section \<open>Machine integers\<close>

type_synonym u8 = "8 word"
type_synonym u16 = "16 word"
type_synonym u32 = "32 word"
type_synonym u64 = "64 word"
type_synonym i128 = "128 word"

named_theorems const_defs \<open>the constants of the headers\<close>
named_theorems word_arith \<open>unsigned and signed readings of word operations\<close>

definition b2w :: "bool \<Rightarrow> 'a::len word" where
  "b2w b = (if b then 1 else 0)"

text \<open>\<open>ROUNDUP\<close>, \<open>ROUNDDOWN\<close>, \<open>EXTRACT_FIELD\<close>, \<open>INSERT_FIELD\<close>, \<open>MIN\<close>, \<open>MAX\<close>, \<open>CLAMP\<close> at
  type \<open>uintptr_t\<close>, with the wrap-around of the 64-bit type.\<close>

definition ROUNDUP :: "u64 \<Rightarrow> u64 \<Rightarrow> u64" where
  "ROUNDUP a b = ((a - 1) div b + 1) * b"

definition ROUNDDOWN :: "u64 \<Rightarrow> u64 \<Rightarrow> u64" where
  "ROUNDDOWN a b = a div b * b"

definition EXTRACT_FIELD :: "u64 \<Rightarrow> u64 \<Rightarrow> u64" where
  "EXTRACT_FIELD val which = (val AND which) div (which AND NOT (which - 1))"

definition INSERT_FIELD :: "u64 \<Rightarrow> u64 \<Rightarrow> u64 \<Rightarrow> u64" where
  "INSERT_FIELD val which fieldval =
     (val AND NOT which) OR (fieldval * (which AND NOT (which - 1)))"

definition CLAMP :: "u64 \<Rightarrow> u64 \<Rightarrow> u64 \<Rightarrow> u64" where
  "CLAMP a lo hi = min (max a lo) hi"

section \<open>Bytes and little-endian words\<close>

type_synonym mem = "u64 \<Rightarrow> u8"

fun le_word :: "u8 list \<Rightarrow> 'a::len word" where
  "le_word [] = 0"
| "le_word (b # bs) = ucast b OR push_bit 8 (le_word bs)"

fun le_bytes :: "nat \<Rightarrow> 'a::len word \<Rightarrow> u8 list" where
  "le_bytes 0 w = []"
| "le_bytes (Suc n) w = ucast w # le_bytes n (drop_bit 8 w)"

definition mem_read :: "mem \<Rightarrow> u64 \<Rightarrow> nat \<Rightarrow> u8 list" where
  "mem_read m a n = map (\<lambda>i. m (a + of_nat i)) [0..<n]"

definition mem_write :: "mem \<Rightarrow> u64 \<Rightarrow> u8 list \<Rightarrow> mem" where
  "mem_write m a bs = (\<lambda>x. if unat (x - a) < length bs then bs ! unat (x - a) else m x)"

definition rd64 :: "mem \<Rightarrow> u64 \<Rightarrow> u64" where
  "rd64 m a = le_word (mem_read m a 8)"

definition wr64 :: "mem \<Rightarrow> u64 \<Rightarrow> u64 \<Rightarrow> mem" where
  "wr64 m a v = mem_write m a (le_bytes 8 v)"

section \<open>Sequences of operations\<close>

fun fold_opt :: "('a \<Rightarrow> 's \<Rightarrow> 's option) \<Rightarrow> 'a list \<Rightarrow> 's \<Rightarrow> 's option" where
  "fold_opt f [] s = Some s"
| "fold_opt f (x # xs) s = do { s \<leftarrow> f x s; fold_opt f xs s }"

section \<open>Generic lemmas\<close>

subsection \<open>Words\<close>

lemma b2w_simps [simp]: "b2w True = 1" "b2w False = 0"
  by (simp_all add: b2w_def)

lemma b2w_eq_0_iff [simp]: "b2w b = (0 :: 'a::len word) \<longleftrightarrow> \<not> b"
  by (simp add: b2w_def)

text \<open>Case analysis on the low bits of a word, to be closed by evaluation.\<close>

lemma take_bit_cases:
  fixes x :: "'a::len word"
  assumes "\<forall>k \<in> set [0..<2 ^ n]. P (of_nat k)"
  shows "P (take_bit n x)"
proof -
  have "unat (take_bit n x) < 2 ^ n"
    by (simp only: unsigned_take_bit_eq take_bit_nat_less_exp)
  with assms have "P (of_nat (unat (take_bit n x)))"
    by (metis atLeastLessThan_upt atLeastLessThan_iff zero_le)
  then show ?thesis by simp
qed

lemma take_bit_cases2:
  fixes x :: "'a::len word" and y :: "'b::len word"
  assumes "\<forall>j \<in> set [0..<2 ^ m]. \<forall>k \<in> set [0..<2 ^ n]. P (of_nat j) (of_nat k)"
  shows "P (take_bit m x) (take_bit n y)"
  by (rule take_bit_cases [where P = "\<lambda>u. P u (take_bit n y)"],
      intro ballI, rule take_bit_cases) (use assms in blast)

lemma and_low_mask:
  fixes x :: "'a::len word"
  shows "x AND 7 = take_bit 3 x" "x AND 0x1F = take_bit 5 x" "x AND 0x1FF = take_bit 9 x"
    "x AND 0xFFF = take_bit 12 x"
  by (simp_all add: take_bit_eq_mask mask_eq_exp_minus_1)

lemma take_bit_push_bit_0 [simp]:
  "n \<le> m \<Longrightarrow> take_bit n (push_bit m x) = 0" for x :: "'a::len word"
  by (simp add: take_bit_push_bit)

lemma less_exp_take_bit: "x < 2 ^ n \<Longrightarrow> take_bit n x = x" for x :: "'a::len word"
  by (simp add: take_bit_eq_mask less_mask_eq)

lemma length_le_bytes [simp]: "length (le_bytes n w) = n"
  by (induction n arbitrary: w) simp_all

lemma le_word_le_bytes:
  "(le_word (le_bytes n w) :: 'a::len word) = take_bit (8 * n) (w :: 'a word)"
proof (induction n arbitrary: w)
  case 0
  then show ?case by simp
next
  case (Suc n)
  have "(ucast (ucast w :: u8) OR push_bit 8 (take_bit (8 * n) (drop_bit 8 w)) :: 'a word)
    = take_bit (8 * Suc n) w"
    by (rule bit_word_eqI) (auto simp: bit_simps)
  with Suc.IH [of "drop_bit 8 w"] show ?case by simp
qed

lemma le_word_le_bytes_full:
  "LENGTH('a) \<le> 8 * n \<Longrightarrow> (le_word (le_bytes n w) :: 'a::len word) = (w :: 'a word)"
  by (simp add: le_word_le_bytes take_bit_word_eq_self)

subsection \<open>Words as naturals\<close>

lemma unat_bound: "unat (a :: 'a::len word) < 2 ^ LENGTH('a)"
  by (fact unsigned_less)

lemma add_carry:
  fixes a b :: "'a::len word"
  shows "unat a + unat b = unat (a + b) + 2 ^ LENGTH('a) * of_bool (a + b < a)"
proof (cases "unat a + unat b < 2 ^ LENGTH('a)")
  case True
  then show ?thesis by (simp add: unat_plus_if' word_less_nat_alt)
next
  case False
  then have "unat (a + b) + 2 ^ LENGTH('a) = unat a + unat b" by (simp add: unat_plus_if')
  moreover from this have "unat (a + b) < unat a" using unat_bound [of b] by linarith
  ultimately show ?thesis by (simp add: word_less_nat_alt)
qed

lemma add_carry64: "unat a + unat b = unat (a + b) + 2 ^ 64 * of_bool (a + b < a)" for a b :: u64
  using add_carry [of a b] by simp

lemma sub_borrow:
  fixes a b :: "'a::len word"
  shows "unat (a - b) + unat b = unat a + 2 ^ LENGTH('a) * of_bool (a < b)"
proof (cases "a < b")
  case True
  then have "unat (a - b) = unat a + 2 ^ LENGTH('a) - unat b" by (simp add: unat_sub_if' word_less_nat_alt)
  moreover have "unat b \<le> unat a + 2 ^ LENGTH('a)" using unat_bound [of b] by linarith
  ultimately show ?thesis using True by simp
next
  case False
  then show ?thesis by (simp add: unat_sub_if' word_less_nat_alt)
qed

lemma mod_decomp: "x = r + m * q \<Longrightarrow> r < m \<Longrightarrow> x mod m = r" for x r m q :: nat
  by simp

lemma unat_b2w [simp]: "unat (b2w b :: 'a::len word) = of_bool b"
  by (cases b) simp_all

lemma unat_drop_bit: "unat (drop_bit n a) = unat a div 2 ^ n" for a :: "'a::len word"
  by (simp only: unsigned_drop_bit_eq take_bit_nat_eq_self [OF unat_bound]) (simp add: drop_bit_eq_div)

lemma unat_push_bit: "unat (push_bit n a) = unat a * 2 ^ n mod 2 ^ LENGTH('a)" for a :: "'a::len word"
  by (simp only: unsigned_push_bit_eq) (simp add: push_bit_eq_mult take_bit_eq_mod)

lemma unat_or_disjoint:
  fixes a b :: "'a::len word"
  assumes "a AND b = 0"
  shows "unat (a OR b) = unat a + unat b"
proof -
  have "unat a AND unat b = 0" using assms by (metis unsigned_and_eq unsigned_0)
  then show ?thesis
    by (metis unsigned_or_eq disjunctive_add_eq_or)
qed

lemma mod_shift:
  fixes x y a m :: nat
  assumes "(x + y) mod m = a" "y \<le> a" "0 < m"
  shows "x mod m = a - y"
proof -
  have "x + y = a + m * ((x + y) div m)"
    using mod_mult_div_eq [of "x + y" m] unfolding assms(1) by simp
  with assms(2) have "x = a - y + m * ((x + y) div m)" by linarith
  moreover have "a - y < m" using mod_less_divisor [OF assms(3), of "x + y"] assms(1) by linarith
  ultimately show ?thesis by (rule mod_decomp)
qed

lemma and_low_high:
  fixes x y :: "'a::len word"
  assumes x: "unat x = q * 2 ^ n" and y: "unat y < 2 ^ n"
  shows "x AND y = 0"
proof (rule bit_word_eqI)
  fix i
  have "take_bit n x = 0"
    by (simp only: word_unat_eq_iff unsigned_take_bit_eq x) (simp add: take_bit_eq_mod)
  then have "i < n \<Longrightarrow> \<not> bit x i" by (metis bit_take_bit_iff bit_0_eq bot_apply bot_bool_def)
  moreover have "take_bit n y = y"
    using y by (simp only: word_unat_eq_iff unsigned_take_bit_eq take_bit_nat_eq_self)
  then have "n \<le> i \<Longrightarrow> \<not> bit y i" by (metis bit_take_bit_iff not_le)
  ultimately show "bit (x AND y) i \<longleftrightarrow> bit 0 i" by (cases "i < n") (auto simp: bit_and_iff)
qed

subsection \<open>Memory\<close>

lemma length_mem_read [simp]: "length (mem_read m a n) = n"
  by (simp add: mem_read_def)

lemma nth_mem_read [simp]: "i < n \<Longrightarrow> mem_read m a n ! i = m (a + of_nat i)"
  by (simp add: mem_read_def)

lemma mem_read_write_same:
  assumes "length bs \<le> 2 ^ 64"
  shows "mem_read (mem_write m a bs) a (length bs) = bs"
proof (rule nth_equalityI)
  fix i assume "i < length (mem_read (mem_write m a bs) a (length bs))"
  then have i: "i < length bs" by simp
  with assms have "unat (of_nat i :: u64) = i"
    by (simp add: unat_of_nat take_bit_nat_eq_self)
  with i show "mem_read (mem_write m a bs) a (length bs) ! i = bs ! i"
    by (simp add: mem_write_def)
qed simp

definition disjoint_ranges :: "u64 \<Rightarrow> nat \<Rightarrow> u64 \<Rightarrow> nat \<Rightarrow> bool" where
  "disjoint_ranges a n b k \<longleftrightarrow> (\<forall>i<n. k \<le> unat (a + of_nat i - b))"

lemma mem_read_write_disjoint:
  assumes "disjoint_ranges a n b (length bs)"
  shows "mem_read (mem_write m b bs) a n = mem_read m a n"
  using assms by (auto simp: mem_read_def mem_write_def disjoint_ranges_def)

lemma rd64_wr64_same [simp]: "rd64 (wr64 m a v) a = v"
  using mem_read_write_same [of "le_bytes 8 v" m a]
  by (simp add: rd64_def wr64_def le_word_le_bytes_full)

end
