(* ===== verification/Encoding.thy ===== *)
theory Encoding
  imports Prelude
begin

text \<open>
  The constants of \<open>bbl/encoding.h\<close>, \<open>bbl/bits.h\<close> and \<open>bbl/vm.h\<close> the modelled code uses, for
  the RV64 build (\<open>__riscv64\<close> defined), and the page-table permission macros.  Numeral
  constants are abbreviations, so that the simplifier computes with them.
\<close>

section \<open>Control and status registers\<close>

abbreviation (input) MSTATUS_IE :: u64 where "MSTATUS_IE \<equiv> 0x00000001"
abbreviation (input) MSTATUS_PRV :: u64 where "MSTATUS_PRV \<equiv> 0x00000006"
abbreviation (input) MSTATUS_IE1 :: u64 where "MSTATUS_IE1 \<equiv> 0x00000008"
abbreviation (input) MSTATUS_PRV1 :: u64 where "MSTATUS_PRV1 \<equiv> 0x00000030"
abbreviation (input) MSTATUS_IE2 :: u64 where "MSTATUS_IE2 \<equiv> 0x00000040"
abbreviation (input) MSTATUS_PRV2 :: u64 where "MSTATUS_PRV2 \<equiv> 0x00000180"
abbreviation (input) MSTATUS_IE3 :: u64 where "MSTATUS_IE3 \<equiv> 0x00000200"
abbreviation (input) MSTATUS_PRV3 :: u64 where "MSTATUS_PRV3 \<equiv> 0x00000C00"
abbreviation (input) MSTATUS_FS :: u64 where "MSTATUS_FS \<equiv> 0x00003000"
abbreviation (input) MSTATUS_XS :: u64 where "MSTATUS_XS \<equiv> 0x0000C000"
abbreviation (input) MSTATUS_MPRV :: u64 where "MSTATUS_MPRV \<equiv> 0x00010000"
abbreviation (input) MSTATUS_VM :: u64 where "MSTATUS_VM \<equiv> 0x003E0000"

abbreviation (input) MIP_SSIP :: u64 where "MIP_SSIP \<equiv> 0x00000002"
abbreviation (input) MIP_MSIP :: u64 where "MIP_MSIP \<equiv> 0x00000008"
abbreviation (input) MIP_STIP :: u64 where "MIP_STIP \<equiv> 0x00000020"
abbreviation (input) MIP_MTIP :: u64 where "MIP_MTIP \<equiv> 0x00000080"

abbreviation (input) PRV_U :: u64 where "PRV_U \<equiv> 0"
abbreviation (input) PRV_S :: u64 where "PRV_S \<equiv> 1"
abbreviation (input) PRV_M :: u64 where "PRV_M \<equiv> 3"

abbreviation (input) VM_SV39 :: u64 where "VM_SV39 \<equiv> 9"

abbreviation (input) CSR_FFLAGS :: u32 where "CSR_FFLAGS \<equiv> 0x1"
abbreviation (input) CSR_FRM :: u32 where "CSR_FRM \<equiv> 0x2"
abbreviation (input) CSR_FCSR :: u32 where "CSR_FCSR \<equiv> 0x3"

abbreviation (input) CAUSE_ILLEGAL_INSTRUCTION :: u64 where "CAUSE_ILLEGAL_INSTRUCTION \<equiv> 0x2"
abbreviation (input) CAUSE_FAULT_LOAD :: u64 where "CAUSE_FAULT_LOAD \<equiv> 0x5"
abbreviation (input) CAUSE_FAULT_STORE :: u64 where "CAUSE_FAULT_STORE \<equiv> 0x7"
abbreviation (input) CAUSE_USER_ECALL :: u64 where "CAUSE_USER_ECALL \<equiv> 0x8"
abbreviation (input) CAUSE_MACHINE_ECALL :: u64 where "CAUSE_MACHINE_ECALL \<equiv> 0xb"
abbreviation (input) CAUSE_TAG_TRAP :: u64 where "CAUSE_TAG_TRAP \<equiv> 0xc"
abbreviation (input) CAUSE_DEBUG_TAG_TRAP :: u64 where "CAUSE_DEBUG_TAG_TRAP \<equiv> 0xd"

section \<open>Instruction encodings\<close>

abbreviation (input) MATCH_LW :: u32 where "MATCH_LW \<equiv> 0x2003"
abbreviation (input) MASK_LW :: u32 where "MASK_LW \<equiv> 0x707f"
abbreviation (input) MATCH_LD :: u32 where "MATCH_LD \<equiv> 0x3003"
abbreviation (input) MASK_LD :: u32 where "MASK_LD \<equiv> 0x707f"
abbreviation (input) MATCH_LWU :: u32 where "MATCH_LWU \<equiv> 0x6003"
abbreviation (input) MASK_LWU :: u32 where "MASK_LWU \<equiv> 0x707f"
abbreviation (input) MATCH_LH :: u32 where "MATCH_LH \<equiv> 0x1003"
abbreviation (input) MASK_LH :: u32 where "MASK_LH \<equiv> 0x707f"
abbreviation (input) MATCH_LHU :: u32 where "MATCH_LHU \<equiv> 0x5003"
abbreviation (input) MASK_LHU :: u32 where "MASK_LHU \<equiv> 0x707f"
abbreviation (input) MATCH_FLD :: u32 where "MATCH_FLD \<equiv> 0x3007"
abbreviation (input) MASK_FLD :: u32 where "MASK_FLD \<equiv> 0x707f"
abbreviation (input) MATCH_FLW :: u32 where "MATCH_FLW \<equiv> 0x2007"
abbreviation (input) MASK_FLW :: u32 where "MASK_FLW \<equiv> 0x707f"
abbreviation (input) MATCH_SW :: u32 where "MATCH_SW \<equiv> 0x2023"
abbreviation (input) MASK_SW :: u32 where "MASK_SW \<equiv> 0x707f"
abbreviation (input) MATCH_SD :: u32 where "MATCH_SD \<equiv> 0x3023"
abbreviation (input) MASK_SD :: u32 where "MASK_SD \<equiv> 0x707f"
abbreviation (input) MATCH_SH :: u32 where "MATCH_SH \<equiv> 0x1023"
abbreviation (input) MASK_SH :: u32 where "MASK_SH \<equiv> 0x707f"
abbreviation (input) MATCH_FSD :: u32 where "MATCH_FSD \<equiv> 0x3027"
abbreviation (input) MASK_FSD :: u32 where "MASK_FSD \<equiv> 0x707f"
abbreviation (input) MATCH_FSW :: u32 where "MATCH_FSW \<equiv> 0x2027"
abbreviation (input) MASK_FSW :: u32 where "MASK_FSW \<equiv> 0x707f"
abbreviation (input) MATCH_MUL :: u32 where "MATCH_MUL \<equiv> 0x2000033"
abbreviation (input) MASK_MUL :: u32 where "MASK_MUL \<equiv> 0xfe00707f"
abbreviation (input) MATCH_MULH :: u32 where "MATCH_MULH \<equiv> 0x2001033"
abbreviation (input) MASK_MULH :: u32 where "MASK_MULH \<equiv> 0xfe00707f"
abbreviation (input) MATCH_MULHSU :: u32 where "MATCH_MULHSU \<equiv> 0x2002033"
abbreviation (input) MASK_MULHSU :: u32 where "MASK_MULHSU \<equiv> 0xfe00707f"
abbreviation (input) MATCH_MULHU :: u32 where "MATCH_MULHU \<equiv> 0x2003033"
abbreviation (input) MASK_MULHU :: u32 where "MASK_MULHU \<equiv> 0xfe00707f"
abbreviation (input) MATCH_DIV :: u32 where "MATCH_DIV \<equiv> 0x2004033"
abbreviation (input) MASK_DIV :: u32 where "MASK_DIV \<equiv> 0xfe00707f"
abbreviation (input) MATCH_DIVU :: u32 where "MATCH_DIVU \<equiv> 0x2005033"
abbreviation (input) MASK_DIVU :: u32 where "MASK_DIVU \<equiv> 0xfe00707f"
abbreviation (input) MATCH_REM :: u32 where "MATCH_REM \<equiv> 0x2006033"
abbreviation (input) MASK_REM :: u32 where "MASK_REM \<equiv> 0xfe00707f"
abbreviation (input) MATCH_REMU :: u32 where "MATCH_REMU \<equiv> 0x2007033"
abbreviation (input) MASK_REMU :: u32 where "MASK_REMU \<equiv> 0xfe00707f"
abbreviation (input) MATCH_MULW :: u32 where "MATCH_MULW \<equiv> 0x200003b"
abbreviation (input) MATCH_DIVW :: u32 where "MATCH_DIVW \<equiv> 0x200403b"
abbreviation (input) MATCH_DIVUW :: u32 where "MATCH_DIVUW \<equiv> 0x200503b"
abbreviation (input) MATCH_REMW :: u32 where "MATCH_REMW \<equiv> 0x200603b"
abbreviation (input) MATCH_REMUW :: u32 where "MATCH_REMUW \<equiv> 0x200703b"
abbreviation (input) MATCH_FMV_X_S :: u32 where "MATCH_FMV_X_S \<equiv> 0xe0000053"
abbreviation (input) MASK_FMV_X_S :: u32 where "MASK_FMV_X_S \<equiv> 0xfff0707f"
abbreviation (input) MATCH_FMV_X_D :: u32 where "MATCH_FMV_X_D \<equiv> 0xe2000053"
abbreviation (input) MASK_FMV_X_D :: u32 where "MASK_FMV_X_D \<equiv> 0xfff0707f"
abbreviation (input) MATCH_FMV_S_X :: u32 where "MATCH_FMV_S_X \<equiv> 0xf0000053"
abbreviation (input) MASK_FMV_S_X :: u32 where "MASK_FMV_S_X \<equiv> 0xfff0707f"
abbreviation (input) MATCH_FMV_D_X :: u32 where "MATCH_FMV_D_X \<equiv> 0xf2000053"
abbreviation (input) MASK_FMV_D_X :: u32 where "MASK_FMV_D_X \<equiv> 0xfff0707f"

section \<open>Page tables\<close>

abbreviation (input) PTE_V :: u64 where "PTE_V \<equiv> 0x001"
abbreviation (input) PTE_TYPE_TABLE :: u64 where "PTE_TYPE_TABLE \<equiv> 0x00"
abbreviation (input) PTE_TYPE_UR_SR :: u64 where "PTE_TYPE_UR_SR \<equiv> 0x08"
abbreviation (input) PTE_TYPE_URW_SRW :: u64 where "PTE_TYPE_URW_SRW \<equiv> 0x0A"
abbreviation (input) PTE_TYPE_URX_SRX :: u64 where "PTE_TYPE_URX_SRX \<equiv> 0x0C"
abbreviation (input) PTE_TYPE_URWX_SRWX :: u64 where "PTE_TYPE_URWX_SRWX \<equiv> 0x0E"
abbreviation (input) PTE_TYPE_SR :: u64 where "PTE_TYPE_SR \<equiv> 0x10"
abbreviation (input) PTE_TYPE_SRW :: u64 where "PTE_TYPE_SRW \<equiv> 0x12"
abbreviation (input) PTE_TYPE_SRX :: u64 where "PTE_TYPE_SRX \<equiv> 0x14"
abbreviation (input) PTE_TYPE_SRWX :: u64 where "PTE_TYPE_SRWX \<equiv> 0x16"

abbreviation (input) PTE_PPN_SHIFT :: nat where "PTE_PPN_SHIFT \<equiv> 10"
abbreviation (input) RISCV_PGLEVEL_BITS :: nat where "RISCV_PGLEVEL_BITS \<equiv> 9"
abbreviation (input) RISCV_PGSHIFT :: nat where "RISCV_PGSHIFT \<equiv> 12"
abbreviation (input) RISCV_PGSIZE :: u64 where "RISCV_PGSIZE \<equiv> 4096"
abbreviation (input) SUPERPAGE_SIZE :: u64 where "SUPERPAGE_SIZE \<equiv> 0x200000"
abbreviation (input) MEGAPAGE_SIZE :: u64 where "MEGAPAGE_SIZE \<equiv> 0x40000000"
abbreviation (input) VA_BITS :: nat where "VA_BITS \<equiv> 39"

text \<open>The permission macros: bit \<open>PTE & 0x1F\<close> of a 32-bit table.\<close>

definition PTE_TABLE :: "u64 \<Rightarrow> bool" where
  "PTE_TABLE pte = (drop_bit (unat (pte AND 0x1F)) (0x0000000A :: u32) AND 1 \<noteq> 0)"

definition PTE_UR :: "u64 \<Rightarrow> bool" where
  "PTE_UR pte = (drop_bit (unat (pte AND 0x1F)) (0x0000AAA0 :: u32) AND 1 \<noteq> 0)"

definition PTE_UW :: "u64 \<Rightarrow> bool" where
  "PTE_UW pte = (drop_bit (unat (pte AND 0x1F)) (0x00008880 :: u32) AND 1 \<noteq> 0)"

definition PTE_UX :: "u64 \<Rightarrow> bool" where
  "PTE_UX pte = (drop_bit (unat (pte AND 0x1F)) (0x0000A0A0 :: u32) AND 1 \<noteq> 0)"

definition PTE_SR :: "u64 \<Rightarrow> bool" where
  "PTE_SR pte = (drop_bit (unat (pte AND 0x1F)) (0xAAAAAAA0 :: u32) AND 1 \<noteq> 0)"

definition PTE_SW :: "u64 \<Rightarrow> bool" where
  "PTE_SW pte = (drop_bit (unat (pte AND 0x1F)) (0x88888880 :: u32) AND 1 \<noteq> 0)"

definition PTE_SX :: "u64 \<Rightarrow> bool" where
  "PTE_SX pte = (drop_bit (unat (pte AND 0x1F)) (0xA0A0A000 :: u32) AND 1 \<noteq> 0)"

lemmas PTE_perm_defs = PTE_TABLE_def PTE_UR_def PTE_UW_def PTE_UX_def PTE_SR_def PTE_SW_def
  PTE_SX_def

section \<open>Protection and mapping flags\<close>

abbreviation (input) PROT_NONE :: u32 where "PROT_NONE \<equiv> 0"
abbreviation (input) PROT_READ :: u32 where "PROT_READ \<equiv> 1"
abbreviation (input) PROT_WRITE :: u32 where "PROT_WRITE \<equiv> 2"
abbreviation (input) PROT_EXEC :: u32 where "PROT_EXEC \<equiv> 4"

abbreviation (input) MAP_PRIVATE :: u32 where "MAP_PRIVATE \<equiv> 0x2"
abbreviation (input) MAP_FIXED :: u32 where "MAP_FIXED \<equiv> 0x10"
abbreviation (input) MAP_ANONYMOUS :: u32 where "MAP_ANONYMOUS \<equiv> 0x20"
abbreviation (input) MAP_POPULATE :: u32 where "MAP_POPULATE \<equiv> 0x8000"

text \<open>Error numbers of \<open>errno.h\<close>, negated as the code returns them in a \<open>uintptr_t\<close>.\<close>

abbreviation (input) ENOMEM :: u64 where "ENOMEM \<equiv> 12"
abbreviation (input) EACCES :: u64 where "EACCES \<equiv> 13"
abbreviation (input) EFAULT :: u64 where "EFAULT \<equiv> 14"
abbreviation (input) EINVAL :: u64 where "EINVAL \<equiv> 22"
abbreviation (input) EBADF :: u64 where "EBADF \<equiv> 9"
abbreviation (input) ENOSYS :: u64 where "ENOSYS \<equiv> 88"

end
