(* ===== verification/Sync.thy ===== *)
theory Sync
  imports Encoding
begin

text \<open>
  The spin lock of \<open>bbl/atomic.h\<close> (the \<open>ENABLE_ATOMICS\<close> build), twice.  First as the
  sequential code sees it: a lock word that is taken, or found taken and never released, so
  that \<open>spinlock_lock\<close> does not return.  Second as several harts see it: a step relation with
  one step per memory access (\<open>atomic_read\<close>, \<open>atomic_swap\<close>, \<open>atomic_set\<close>), whose reachable
  states never have two harts past the lock.
\<close>

section \<open>Sequential view\<close>

definition spinlock_lock :: "u32 \<Rightarrow> u32 option" where
  "spinlock_lock lck = (if lck = 0 then Some (- 1) else None)"

definition spinlock_unlock :: "u32 \<Rightarrow> u32" where
  "spinlock_unlock lck = 0"

text \<open>\<open>disable_irqsave\<close> returns the old \<open>sstatus\<close> and clears its \<open>IE\<close> bit,
  \<open>enable_irqrestore\<close> sets the bit again if it was set.\<close>

definition disable_irqsave :: "u64 \<Rightarrow> u64 \<times> u64" where
  "disable_irqsave sstatus = (sstatus, sstatus AND NOT 1)"

definition enable_irqrestore :: "u64 \<Rightarrow> u64 \<Rightarrow> u64" where
  "enable_irqrestore flags sstatus = sstatus OR (flags AND 1)"

definition spinlock_lock_irqsave :: "u32 \<Rightarrow> u64 \<Rightarrow> (u64 \<times> u32 \<times> u64) option" where
  "spinlock_lock_irqsave lck sstatus =
     (let (flags, sstatus) = disable_irqsave sstatus in
      do { lck \<leftarrow> spinlock_lock lck; Some (flags, lck, sstatus) })"

definition spinlock_unlock_irqrestore :: "u32 \<Rightarrow> u64 \<Rightarrow> u64 \<Rightarrow> u32 \<times> u64" where
  "spinlock_unlock_irqrestore lck flags sstatus =
     (spinlock_unlock lck, enable_irqrestore flags sstatus)"

lemma enable_disable_irq: "enable_irqrestore flags (flags AND NOT 1) = flags"
  unfolding enable_irqrestore_def
  by (rule bit_word_eqI) (auto simp: bit_simps)

lemma enable_disable_irq' [simp]: "enable_irqrestore flags (flags AND - 2) = flags"
  using enable_disable_irq [of flags] by simp

lemma spinlock_lock_0 [simp]: "spinlock_lock 0 = Some (- 1)"
  by (simp add: spinlock_lock_def)

lemma spinlock_lock_held [simp]: "lck \<noteq> 0 \<Longrightarrow> spinlock_lock lck = None"
  by (simp add: spinlock_lock_def)

section \<open>Concurrent view\<close>

text \<open>
  A hart is outside the lock, in the inner reading loop of \<open>spinlock_lock\<close>, about to swap,
  or inside the critical section.
\<close>

datatype lock_pc = Outside | Reading | Swapping | Inside

record lock_sys =
  lock_word :: u32
  pcs :: "nat \<Rightarrow> lock_pc"

definition lock_init :: lock_sys where
  "lock_init = \<lparr>lock_word = 0, pcs = (\<lambda>_. Outside)\<rparr>"

inductive lock_step :: "lock_sys \<Rightarrow> lock_sys \<Rightarrow> bool" where
  enter: "pcs s h = Outside \<Longrightarrow> lock_step s (s\<lparr>pcs := (pcs s)(h := Reading)\<rparr>)"
| read_busy: "pcs s h = Reading \<Longrightarrow> lock_word s \<noteq> 0 \<Longrightarrow> lock_step s s"
| read_free: "pcs s h = Reading \<Longrightarrow> lock_word s = 0 \<Longrightarrow>
     lock_step s (s\<lparr>pcs := (pcs s)(h := Swapping)\<rparr>)"
| swap_lost: "pcs s h = Swapping \<Longrightarrow> lock_word s \<noteq> 0 \<Longrightarrow>
     lock_step s (s\<lparr>lock_word := - 1, pcs := (pcs s)(h := Reading)\<rparr>)"
| swap_won: "pcs s h = Swapping \<Longrightarrow> lock_word s = 0 \<Longrightarrow>
     lock_step s (s\<lparr>lock_word := - 1, pcs := (pcs s)(h := Inside)\<rparr>)"
| unlock: "pcs s h = Inside \<Longrightarrow>
     lock_step s (s\<lparr>lock_word := spinlock_unlock (lock_word s), pcs := (pcs s)(h := Outside)\<rparr>)"

inductive lock_reachable :: "lock_sys \<Rightarrow> bool" where
  start: "lock_reachable lock_init"
| step: "lock_reachable s \<Longrightarrow> lock_step s t \<Longrightarrow> lock_reachable t"

definition lock_inv :: "lock_sys \<Rightarrow> bool" where
  "lock_inv s \<longleftrightarrow>
     (\<forall>h k. pcs s h = Inside \<longrightarrow> pcs s k = Inside \<longrightarrow> h = k) \<and> (lock_word s = 0 \<longleftrightarrow> (\<forall>h. pcs s h \<noteq> Inside))"

lemma lock_inv_step: "lock_step s t \<Longrightarrow> lock_inv s \<Longrightarrow> lock_inv t"
proof (induction rule: lock_step.induct)
  case (enter s h)
  then show ?case unfolding lock_inv_def by simp (metis lock_pc.distinct(5))
next
  case (read_busy s h)
  then show ?case by simp
next
  case (read_free s h)
  then show ?case unfolding lock_inv_def by simp
next
  case (swap_lost s h)
  then show ?case unfolding lock_inv_def by simp (metis lock_pc.distinct(11))
next
  case (swap_won s h)
  then show ?case unfolding lock_inv_def by auto
next
  case (unlock s h)
  then show ?case unfolding lock_inv_def by (auto simp: spinlock_unlock_def)
qed

lemma lock_inv_reachable: "lock_reachable s \<Longrightarrow> lock_inv s"
  by (induction rule: lock_reachable.induct)
     (simp add: lock_inv_def lock_init_def, rule lock_inv_step)

text \<open>
  C4: mutual exclusion of \<open>spinlock_lock\<close>/\<open>spinlock_unlock\<close>: in every state any number of harts can
  reach by interleaving their reads, swaps and stores of the lock word, at most one hart is between
  \<open>spinlock_lock\<close> and \<open>spinlock_unlock\<close>, and the lock word is 0 exactly if none is.
\<close>

theorem spinlock_mutual_exclusion:
  assumes "lock_reachable s"
  shows "(\<forall>h k. pcs s h = Inside \<longrightarrow> pcs s k = Inside \<longrightarrow> h = k) \<and> (lock_word s = 0 \<longleftrightarrow> (\<forall>h. pcs s h \<noteq> Inside))"
  using lock_inv_reachable [OF assms] unfolding lock_inv_def .

lemma lock_run_example: "\<exists>s. lock_reachable s \<and> pcs s 0 = Inside \<and> pcs s 1 = Reading"
proof -
  define s1 where "s1 = lock_init\<lparr>pcs := (pcs lock_init)(0 := Reading)\<rparr>"
  define s2 where "s2 = s1\<lparr>pcs := (pcs s1)(1 := Reading)\<rparr>"
  define s3 where "s3 = s2\<lparr>pcs := (pcs s2)(0 := Swapping)\<rparr>"
  define s4 where "s4 = s3\<lparr>lock_word := - 1, pcs := (pcs s3)(0 := Inside)\<rparr>"
  have "lock_step lock_init s1" unfolding s1_def by (rule lock_step.enter) (simp add: lock_init_def)
  moreover have "lock_step s1 s2" unfolding s2_def by (rule lock_step.enter) (simp add: s1_def lock_init_def)
  moreover have "lock_step s2 s3"
    unfolding s3_def by (rule lock_step.read_free) (simp_all add: s2_def s1_def lock_init_def)
  moreover have "lock_step s3 s4"
    unfolding s4_def by (rule lock_step.swap_won) (simp_all add: s3_def s2_def s1_def lock_init_def)
  ultimately have "lock_reachable s4" by (meson lock_reachable.start lock_reachable.step)
  moreover have "pcs s4 0 = Inside" "pcs s4 1 = Reading" by (simp_all add: s4_def s3_def s2_def)
  ultimately show ?thesis by blast
qed

theorem spinlock_mutual_exclusion_witness:
  "\<exists>s. lock_reachable s \<and> pcs s 0 = Inside \<and> lock_word s \<noteq> 0 \<and> (\<forall>k. pcs s k = Inside \<longrightarrow> k = 0)"
proof -
  obtain s where s: "lock_reachable s" "pcs s 0 = Inside" using lock_run_example by blast
  show ?thesis using spinlock_mutual_exclusion [OF s(1)] s by blast
qed

end
