(* ===== verification/File.thy ===== *)
theory File
  imports Sync
begin

text \<open>
  \<open>bbl/file.c\<close>: the table of 32 reference-counted files the boot loader keeps on top of
  FatFs.  The FatFs entry points are a record of functions, so that the table is modelled for
  every file system that offers them; \<open>'fs\<close> is the state of the file system and the disk
  below it, \<open>'fil\<close> the type of a \<open>FIL\<close> object.  A file pointer \<open>file_t*\<close> is an index
  into the table, \<open>NULL\<close> is \<open>None\<close>.
\<close>

section \<open>Data\<close>

text \<open>A result code \<open>FRESULT\<close> is a number, 0 is \<open>FR_OK\<close>.\<close>

record ('fs, 'fil) fatfs =
  f_open :: "string \<Rightarrow> u8 \<Rightarrow> 'fil \<Rightarrow> 'fs \<Rightarrow> u32 \<times> 'fil \<times> 'fs"
  f_close :: "'fil \<Rightarrow> 'fs \<Rightarrow> u32 \<times> 'fil \<times> 'fs"
  f_lseek :: "'fil \<Rightarrow> u32 \<Rightarrow> 'fs \<Rightarrow> u32 \<times> 'fil \<times> 'fs"
  f_read :: "'fil \<Rightarrow> u32 \<Rightarrow> 'fs \<Rightarrow> u32 \<times> u8 list \<times> 'fil \<times> 'fs"
  f_write :: "'fil \<Rightarrow> u8 list \<Rightarrow> 'fs \<Rightarrow> u32 \<times> u32 \<times> 'fil \<times> 'fs"
  f_stat :: "string \<Rightarrow> 'fs \<Rightarrow> u32 \<times> u32 \<times> 'fs"

record 'fil file_t =
  fd :: 'fil
  offset :: u32
  refcnt :: u32

record ('fs, 'fil) file_state =
  disk :: 'fs
  files :: "'fil file_t list"
  file_lock :: u32
  refcnt_lock :: u32
  sstatus :: u64
  ram :: mem

abbreviation (input) MAX_FILES :: nat where "MAX_FILES \<equiv> 32"
abbreviation (input) FA_READ :: u8 where "FA_READ \<equiv> 0x01"
abbreviation (input) FA_WRITE :: u8 where "FA_WRITE \<equiv> 0x02"
abbreviation (input) O_RDONLY :: u32 where "O_RDONLY \<equiv> 0"
abbreviation (input) O_WRONLY :: u32 where "O_WRONLY \<equiv> 1"
abbreviation (input) O_RDWR :: u32 where "O_RDWR \<equiv> 2"
abbreviation (input) O_ACCMODE :: u32 where "O_ACCMODE \<equiv> 3"
abbreviation (input) SEEK_SET :: u32 where "SEEK_SET \<equiv> 0"
abbreviation (input) SEEK_CUR :: u32 where "SEEK_CUR \<equiv> 1"

section \<open>Operations\<close>

definition lock_refcnt :: "('fs, 'fil, 'z) file_state_scheme
    \<Rightarrow> (u64 \<times> ('fs, 'fil, 'z) file_state_scheme) option" where
  "lock_refcnt s = do {
     (flags, l, st) \<leftarrow> spinlock_lock_irqsave (refcnt_lock s) (sstatus s);
     Some (flags, s\<lparr>refcnt_lock := l, sstatus := st\<rparr>) }"

definition unlock_refcnt :: "u64 \<Rightarrow> ('fs, 'fil, 'z) file_state_scheme
    \<Rightarrow> ('fs, 'fil, 'z) file_state_scheme" where
  "unlock_refcnt flags s =
     (let (l, st) = spinlock_unlock_irqrestore (refcnt_lock s) flags (sstatus s)
      in s\<lparr>refcnt_lock := l, sstatus := st\<rparr>)"

definition lock_file :: "('fs, 'fil, 'z) file_state_scheme
    \<Rightarrow> (u64 \<times> ('fs, 'fil, 'z) file_state_scheme) option" where
  "lock_file s = do {
     (flags, l, st) \<leftarrow> spinlock_lock_irqsave (file_lock s) (sstatus s);
     Some (flags, s\<lparr>file_lock := l, sstatus := st\<rparr>) }"

definition unlock_file :: "u64 \<Rightarrow> ('fs, 'fil, 'z) file_state_scheme
    \<Rightarrow> ('fs, 'fil, 'z) file_state_scheme" where
  "unlock_file flags s =
     (let (l, st) = spinlock_unlock_irqrestore (file_lock s) flags (sstatus s)
      in s\<lparr>file_lock := l, sstatus := st\<rparr>)"

text \<open>\<open>long prev = f->refcnt\<close> is the unsigned count; the stored value is cut to 32 bits.\<close>

definition file_incref :: "nat \<Rightarrow> ('fs, 'fil, 'z) file_state_scheme
    \<Rightarrow> ('fs, 'fil, 'z) file_state_scheme option" where
  "file_incref i s = do {
     (flags, s) \<leftarrow> lock_refcnt s;
     let f = files s ! i;
     let prev = refcnt f;
     let s = s\<lparr>files := (files s)[i := f\<lparr>refcnt := prev + 1\<rparr>]\<rparr>;
     let s = unlock_refcnt flags s;
     if 0 < prev then Some s else None }"

definition file_decref :: "('fs, 'fil) fatfs \<Rightarrow> nat \<Rightarrow> ('fs, 'fil, 'z) file_state_scheme
    \<Rightarrow> ('fs, 'fil, 'z) file_state_scheme option" where
  "file_decref F i s = do {
     (flags, s) \<leftarrow> lock_refcnt s;
     let f = files s ! i;
     let prev = refcnt f;
     let f = f\<lparr>refcnt := prev - 1\<rparr>;
     let s = (if prev = 2 then
                (let (rt, fil, d) = f_close F (fd f) (disk s)
                 in s\<lparr>files := (files s)[i := f\<lparr>refcnt := 0, offset := 0, fd := fil\<rparr>], disk := d\<rparr>)
              else s\<lparr>files := (files s)[i := f]\<rparr>);
     Some (unlock_refcnt flags s) }"

text \<open>The scan with \<open>atomic_cas(&f->refcnt, 0, 2)\<close>; a full table is a panic.\<close>

fun file_get_free_from :: "nat \<Rightarrow> 'fil file_t list \<Rightarrow> (nat \<times> 'fil file_t list) option" where
  "file_get_free_from i [] = None"
| "file_get_free_from i (f # fs) =
     (if refcnt f = 0 then Some (i, f\<lparr>refcnt := 2\<rparr> # fs)
      else do { (j, fs') \<leftarrow> file_get_free_from (Suc i) fs; Some (j, f # fs') })"

definition file_get_free :: "('fs, 'fil, 'z) file_state_scheme
    \<Rightarrow> (nat \<times> ('fs, 'fil, 'z) file_state_scheme) option" where
  "file_get_free s = do {
     (i, fs) \<leftarrow> file_get_free_from 0 (files s);
     Some (i, s\<lparr>files := fs\<rparr>) }"

definition file_init :: "('fs, 'fil, 'z) file_state_scheme \<Rightarrow> ('fs, 'fil, 'z) file_state_scheme"
  where
  "file_init s = s\<lparr>files := map (\<lambda>f. f\<lparr>offset := 0, refcnt := 0\<rparr>) (files s)\<rparr>"

definition open_mode :: "u32 \<Rightarrow> u8" where
  "open_mode flags =
     (let mode = 0;
          mode = (if flags AND O_ACCMODE = O_RDONLY then FA_READ else mode);
          mode = (if flags AND O_ACCMODE = O_WRONLY then FA_WRITE else mode);
          mode = (if flags AND O_ACCMODE = O_RDWR then FA_READ OR FA_WRITE else mode)
      in mode)"

definition file_openat :: "('fs, 'fil) fatfs \<Rightarrow> string \<Rightarrow> u32 \<Rightarrow> ('fs, 'fil, 'z) file_state_scheme
    \<Rightarrow> (nat option \<times> ('fs, 'fil, 'z) file_state_scheme) option" where
  "file_openat F fn flags s = do {
     (i, s) \<leftarrow> file_get_free s;
     let f = files s ! i;
     let (rt, fil, d) = f_open F fn (open_mode flags) (fd f) (disk s);
     if rt \<noteq> 0 then None
     else Some (Some i, s\<lparr>files := (files s)[i := f\<lparr>fd := fil\<rparr>], disk := d\<rparr>) }"

definition file_open :: "('fs, 'fil) fatfs \<Rightarrow> string \<Rightarrow> u32 \<Rightarrow> ('fs, 'fil, 'z) file_state_scheme
    \<Rightarrow> (nat option \<times> ('fs, 'fil, 'z) file_state_scheme) option" where
  "file_open F fn flags s = file_openat F fn flags s"

text \<open>Seek and transfer on the \<open>FIL\<close> of a table entry, with the result codes.  Sizes and
  offsets are cut to the 32 bits of the FatFs interface.\<close>

definition fil_lseek :: "('fs, 'fil) fatfs \<Rightarrow> nat \<Rightarrow> u32 \<Rightarrow> ('fs, 'fil, 'z) file_state_scheme
    \<Rightarrow> u32 \<times> ('fs, 'fil, 'z) file_state_scheme" where
  "fil_lseek F i ofs s =
     (let f = files s ! i; (rt, fil, d) = f_lseek F (fd f) ofs (disk s)
      in (rt, s\<lparr>files := (files s)[i := f\<lparr>fd := fil\<rparr>], disk := d\<rparr>))"

definition fil_read :: "('fs, 'fil) fatfs \<Rightarrow> nat \<Rightarrow> u64 \<Rightarrow> u32 \<Rightarrow> ('fs, 'fil, 'z) file_state_scheme
    \<Rightarrow> u32 \<times> u32 \<times> ('fs, 'fil, 'z) file_state_scheme" where
  "fil_read F i buf btr s =
     (let f = files s ! i; (rt, bs, fil, d) = f_read F (fd f) btr (disk s)
      in (rt, of_nat (length bs),
          s\<lparr>files := (files s)[i := f\<lparr>fd := fil\<rparr>], disk := d, ram := mem_write (ram s) buf bs\<rparr>))"

definition fil_write :: "('fs, 'fil) fatfs \<Rightarrow> nat \<Rightarrow> u64 \<Rightarrow> u32 \<Rightarrow> ('fs, 'fil, 'z) file_state_scheme
    \<Rightarrow> u32 \<times> u32 \<times> ('fs, 'fil, 'z) file_state_scheme" where
  "fil_write F i buf btw s =
     (let f = files s ! i;
          (rt, bw, fil, d) = f_write F (fd f) (mem_read (ram s) buf (unat btw)) (disk s)
      in (rt, bw, s\<lparr>files := (files s)[i := f\<lparr>fd := fil\<rparr>], disk := d\<rparr>))"

definition add_offset :: "nat \<Rightarrow> u32 \<Rightarrow> ('fs, 'fil, 'z) file_state_scheme
    \<Rightarrow> ('fs, 'fil, 'z) file_state_scheme" where
  "add_offset i n s =
     (let f = files s ! i in s\<lparr>files := (files s)[i := f\<lparr>offset := offset f + n\<rparr>]\<rparr>)"

text \<open>\<open>populate_mapping\<close> (of \<open>vm.c\<close>) touches one word of every page of the buffer, adding
  0 to it or reading it, and so changes nothing of this state.\<close>

definition file_read :: "('fs, 'fil) fatfs \<Rightarrow> nat \<Rightarrow> u64 \<Rightarrow> u64 \<Rightarrow> ('fs, 'fil, 'z) file_state_scheme
    \<Rightarrow> (u64 \<times> ('fs, 'fil, 'z) file_state_scheme) option" where
  "file_read F i buf sz s = do {
     (flags, s) \<leftarrow> lock_file s;
     let (_, s) = fil_lseek F i (offset (files s ! i)) s;
     let (_, rsize, s) = fil_read F i buf (ucast sz) s;
     let s = add_offset i rsize s;
     Some (ucast rsize, unlock_file flags s) }"

definition file_pread :: "('fs, 'fil) fatfs \<Rightarrow> nat \<Rightarrow> u64 \<Rightarrow> u64 \<Rightarrow> u64
    \<Rightarrow> ('fs, 'fil, 'z) file_state_scheme \<Rightarrow> (u64 \<times> ('fs, 'fil, 'z) file_state_scheme) option" where
  "file_pread F i buf sz off s = do {
     (flags, s) \<leftarrow> lock_file s;
     let (rt, s) = fil_lseek F i (ucast off) s;
     if rt \<noteq> 0 then None
     else let (_, rsize, s) = fil_read F i buf (ucast sz) s
          in (if rt \<noteq> 0 then None else Some (ucast rsize, unlock_file flags s)) }"

definition file_write :: "('fs, 'fil) fatfs \<Rightarrow> nat \<Rightarrow> u64 \<Rightarrow> u64 \<Rightarrow> ('fs, 'fil, 'z) file_state_scheme
    \<Rightarrow> (u64 \<times> ('fs, 'fil, 'z) file_state_scheme) option" where
  "file_write F i buf sz s = do {
     (flags, s) \<leftarrow> lock_file s;
     let (_, s) = fil_lseek F i (offset (files s ! i)) s;
     let (_, wsize, s) = fil_write F i buf (ucast sz) s;
     let s = add_offset i wsize s;
     Some (ucast wsize, unlock_file flags s) }"

definition file_pwrite :: "('fs, 'fil) fatfs \<Rightarrow> nat \<Rightarrow> u64 \<Rightarrow> u64 \<Rightarrow> u64
    \<Rightarrow> ('fs, 'fil, 'z) file_state_scheme \<Rightarrow> (u64 \<times> ('fs, 'fil, 'z) file_state_scheme) option" where
  "file_pwrite F i buf sz off s = do {
     (flags, s) \<leftarrow> lock_file s;
     let (_, s) = fil_lseek F i (ucast off) s;
     let (_, wsize, s) = fil_write F i buf (ucast sz) s;
     Some (ucast wsize, unlock_file flags s) }"

definition file_truncate :: "nat \<Rightarrow> u64 \<Rightarrow> ('fs, 'fil, 'z) file_state_scheme
    \<Rightarrow> (u32 \<times> ('fs, 'fil, 'z) file_state_scheme) option" where
  "file_truncate i len s = None"

text \<open>In the \<open>SEEK_CUR\<close> branch \<open>f->offset + ptr\<close> is a 64-bit sum, cut to 32 bits for FatFs and
  returned whole; no branch stores the new position in \<open>f->offset\<close>.\<close>

definition file_lseek :: "('fs, 'fil) fatfs \<Rightarrow> nat \<Rightarrow> u64 \<Rightarrow> u32 \<Rightarrow> ('fs, 'fil, 'z) file_state_scheme
    \<Rightarrow> (u64 \<times> ('fs, 'fil, 'z) file_state_scheme) option" where
  "file_lseek F i ptr dir s =
     (if dir = SEEK_SET then
        (let (rt, s') = fil_lseek F i (ucast ptr) s in
         Some (if rt \<noteq> 0 then - 1 else ptr, s'))
      else if dir = SEEK_CUR then
        (let pos = ucast (offset (files s ! i)) + ptr;
             (rt, s') = fil_lseek F i (ucast pos) s in
         Some (if rt \<noteq> 0 then - 1 else pos, s'))
      else None)"

section \<open>Frame lemmas\<close>

lemma lock_refcnt_Some:
  "lock_refcnt s = Some (flags, s') \<longleftrightarrow>
     refcnt_lock s = 0 \<and> flags = sstatus s \<and>
     s' = s\<lparr>refcnt_lock := - 1, sstatus := sstatus s AND NOT 1\<rparr>"
  by (auto simp: lock_refcnt_def spinlock_lock_irqsave_def disable_irqsave_def spinlock_lock_def
      split: if_splits)

lemma lock_file_Some:
  "lock_file s = Some (flags, s') \<longleftrightarrow>
     file_lock s = 0 \<and> flags = sstatus s \<and>
     s' = s\<lparr>file_lock := - 1, sstatus := sstatus s AND NOT 1\<rparr>"
  by (auto simp: lock_file_def spinlock_lock_irqsave_def disable_irqsave_def spinlock_lock_def
      split: if_splits)

lemma unlock_refcnt_simp:
  "unlock_refcnt flags s =
     s\<lparr>refcnt_lock := 0, sstatus := enable_irqrestore flags (sstatus s)\<rparr>"
  by (simp add: unlock_refcnt_def spinlock_unlock_irqrestore_def spinlock_unlock_def)

lemma unlock_file_simp:
  "unlock_file flags s =
     s\<lparr>file_lock := 0, sstatus := enable_irqrestore flags (sstatus s)\<rparr>"
  by (simp add: unlock_file_def spinlock_unlock_irqrestore_def spinlock_unlock_def)

lemmas lock_simps = lock_refcnt_Some lock_file_Some unlock_refcnt_simp unlock_file_simp

lemma file_incref_eq:
  assumes "refcnt_lock s = 0" "0 < refcnt (files s ! i)"
  shows "file_incref i s =
    Some (s\<lparr>files := (files s)[i := (files s ! i)\<lparr>refcnt := refcnt (files s ! i) + 1\<rparr>]\<rparr>)"
  using assms
  by (cases s) (simp add: file_incref_def lock_refcnt_def spinlock_lock_irqsave_def
      disable_irqsave_def unlock_refcnt_simp Let_def)

lemma file_incref_dead:
  "refcnt (files s ! i) = 0 \<Longrightarrow> file_incref i s = None"
  by (cases "lock_refcnt s") (auto simp: file_incref_def lock_simps Let_def)


lemma file_decref_keep:
  assumes "refcnt_lock s = 0" "refcnt (files s ! i) \<noteq> 2"
  shows "file_decref F i s =
    Some (s\<lparr>files := (files s)[i := (files s ! i)\<lparr>refcnt := refcnt (files s ! i) - 1\<rparr>]\<rparr>)"
  using assms
  by (cases s) (simp add: file_decref_def lock_refcnt_def spinlock_lock_irqsave_def
      disable_irqsave_def unlock_refcnt_simp Let_def)

lemma file_decref_close:
  assumes "refcnt_lock s = 0" "refcnt (files s ! i) = 2" "f_close F (fd (files s ! i)) (disk s) = (rt, fil, d)"
  shows "file_decref F i s =
    Some (s\<lparr>files := (files s)[i := \<lparr>fd = fil, offset = 0, refcnt = 0\<rparr>], disk := d\<rparr>)"
  using assms
  by (cases s, cases "files s ! i") (simp add: file_decref_def lock_refcnt_def spinlock_lock_irqsave_def
      disable_irqsave_def unlock_refcnt_simp Let_def)

section \<open>Reference counts\<close>

text \<open>A table entry that is in use counts its holders plus one; \<open>file_get_free\<close> hands it out with
  the count 2.\<close>

datatype ref_op = Incref | Decref

fun run_ref :: "('fs, 'fil) fatfs \<Rightarrow> nat \<Rightarrow> ref_op \<Rightarrow> ('fs, 'fil, 'z) file_state_scheme
    \<Rightarrow> ('fs, 'fil, 'z) file_state_scheme option" where
  "run_ref F i Incref s = file_incref i s"
| "run_ref F i Decref s = file_decref F i s"

text \<open>The holders left after a sequence of operations, or \<open>None\<close> if the last one gives up its
  reference before the end.\<close>

fun holders :: "nat \<Rightarrow> ref_op list \<Rightarrow> nat option" where
  "holders n [] = Some n"
| "holders n (Incref # ops) = holders (Suc n) ops"
| "holders n (Decref # ops) = (if n \<le> 1 then None else holders (n - 1) ops)"

lemma run_refs_count:
  assumes "refcnt_lock s = 0" "i < length (files s)" "unat (refcnt (files s ! i)) = Suc n" "0 < n"
    and "holders n ops = Some k" "n + length ops + 2 < 2 ^ 32"
  shows "\<exists>c. fold_opt (run_ref F i) ops s = Some (s\<lparr>files := (files s)[i := (files s ! i)\<lparr>refcnt := c\<rparr>]\<rparr>)
    \<and> unat c = Suc k \<and> 0 < k"
  using assms
proof (induction ops arbitrary: s n)
  case Nil
  then show ?case by (intro exI [of _ "refcnt (files s ! i)"]) simp
next
  case (Cons x ops)
  let ?r = "refcnt (files s ! i)"
  show ?case
  proof (cases x)
    case Incref
    have "unat (?r + 1) = Suc (Suc n)" using Cons.prems by (simp add: unat_word_ariths(1))
    moreover have "0 < ?r" using Cons.prems(3) by (simp add: word_less_nat_alt)
    ultimately show ?thesis
      using Cons.IH [of "s\<lparr>files := (files s)[i := (files s ! i)\<lparr>refcnt := ?r + 1\<rparr>]\<rparr>" "Suc n"] Cons.prems Incref
      by (simp add: file_incref_eq)
  next
    case Decref
    then have n: "1 < n" using Cons.prems(5) by (auto split: if_splits)
    have "?r \<noteq> 2" using Cons.prems(3) n by auto
    moreover have "unat (?r - 1) = Suc (n - 1)" using Cons.prems(3) n by (subst unat_minus_one) auto
    ultimately show ?thesis
      using Cons.IH [of "s\<lparr>files := (files s)[i := (files s ! i)\<lparr>refcnt := ?r - 1\<rparr>]\<rparr>" "n - 1"] Cons.prems Decref n
      by (simp add: file_decref_keep)
  qed
qed

text \<open>
  C21: the file behind a table entry is closed exactly when its last holder drops it.  Any sequence
  of \<open>file_incref\<close> and \<open>file_decref\<close> on an entry just handed out that leaves \<open>k\<close> holders returns,
  changes nothing but the count, and does not call \<open>f_close\<close>; when one holder is left, the next
  \<open>file_decref\<close> calls \<open>f_close\<close> and frees the entry.
\<close>

theorem file_closed_at_last_decref:
  assumes "refcnt_lock s = 0" "i < length (files s)" "refcnt (files s ! i) = 2"
    and "holders 1 ops = Some k" "length ops < 2 ^ 31"
  shows "\<exists>s'. fold_opt (run_ref F i) ops s = Some s' \<and> unat (refcnt (files s' ! i)) = k + 1 \<and> disk s' = disk s
    \<and> (\<forall>j. j \<noteq> i \<longrightarrow> files s' ! j = files s ! j) \<and> sstatus s' = sstatus s \<and> refcnt_lock s' = 0
    \<and> (k = 1 \<longrightarrow> (\<forall>rt fil d. f_close F (fd (files s ! i)) (disk s) = (rt, fil, d) \<longrightarrow>
         file_decref F i s' = Some (s'\<lparr>files := (files s)[i := \<lparr>fd = fil, offset = 0, refcnt = 0\<rparr>], disk := d\<rparr>)))"
proof -
  obtain c where c: "fold_opt (run_ref F i) ops s = Some (s\<lparr>files := (files s)[i := (files s ! i)\<lparr>refcnt := c\<rparr>]\<rparr>)"
    "unat c = Suc k" "0 < k"
    using run_refs_count [OF assms(1,2) _ _ assms(4)] assms(3,5) by auto
  define s' where "s' = s\<lparr>files := (files s)[i := (files s ! i)\<lparr>refcnt := c\<rparr>]\<rparr>"
  have "file_decref F i s' = Some (s'\<lparr>files := (files s)[i := \<lparr>fd = fil, offset = 0, refcnt = 0\<rparr>], disk := d\<rparr>)"
    if "k = 1" "f_close F (fd (files s ! i)) (disk s) = (rt, fil, d)" for rt fil d
  proof -
    have "c = 2" using c(2) that(1) by (simp add: word_unat_eq_iff)
    then show ?thesis using that assms file_decref_close [of s' i F rt fil d] by (simp add: s'_def)
  qed
  moreover have "unat (refcnt (files s' ! i)) = k + 1" "\<forall>j. j \<noteq> i \<longrightarrow> files s' ! j = files s ! j"
    "disk s' = disk s" "sstatus s' = sstatus s" "refcnt_lock s' = 0"
    using c(2) assms(1,2) by (simp_all add: s'_def)
  ultimately show ?thesis using c(1) [folded s'_def] by blast
qed

theorem file_closed_at_last_decref_witness:
  "\<exists>s'. fold_opt (run_ref \<lparr>f_open = (\<lambda>_ _ fil fs. (0, fil, fs)), f_close = (\<lambda>fil fs. (0, fil, Suc fs)),
       f_lseek = (\<lambda>fil _ fs. (0, fil, fs)), f_read = (\<lambda>fil _ fs. (0, [], fil, fs)),
       f_write = (\<lambda>fil _ fs. (0, 0, fil, fs)), f_stat = (\<lambda>_ fs. (0, 0, fs))\<rparr> 0) [Incref, Incref, Decref]
     \<lparr>disk = 0, files = [\<lparr>fd = (), offset = 5, refcnt = 2\<rparr>], file_lock = 0, refcnt_lock = 0, sstatus = 1, ram = (\<lambda>_. 0)\<rparr>
     = Some s' \<and> unat (refcnt (files s' ! 0)) = 3 \<and> disk s' = 0"
proof -
  let ?s = "\<lparr>disk = 0 :: nat, files = [\<lparr>fd = (), offset = 5, refcnt = 2\<rparr>], file_lock = 0, refcnt_lock = 0, sstatus = 1, ram = (\<lambda>_. 0)\<rparr>"
  have "refcnt_lock ?s = 0" "0 < length (files ?s)" "refcnt (files ?s ! 0) = 2" "holders 1 [Incref, Incref, Decref] = Some 2"
    "length [Incref, Incref, Decref] < 2 ^ 31" by simp_all
  from file_closed_at_last_decref [OF this] show ?thesis by fastforce
qed

end
