(* ===== verification/Vm.thy ===== *)
theory Vm
  imports File
begin

text \<open>
  \<open>bbl/vm.c\<close>: the page allocator, the table of mapped regions (\<open>vmr_t\<close>), the three-level
  Sv39 page table, demand paging, \<open>mmap\<close>, \<open>munmap\<close>, \<open>brk\<close>, \<open>mprotect\<close> and the start-up
  code that builds the kernel mappings.

  Memory is split by type, as the code uses it: \<open>pt\<close> holds the 64-bit words of page-table
  pages (at their byte addresses), \<open>vmr_tab\<close> the region descriptors, \<open>ram\<close> (of the file
  state) the bytes of every other page.  A pointer to a page-table entry is the address of
  its word, \<open>NULL\<close> is 0; a pointer to a descriptor is \<open>vmrs + 40 * i\<close>, since
  \<open>sizeof(vmr_t)\<close> is 40.
\<close>

section \<open>Data\<close>

record vmr_t =
  v_addr :: u64
  v_length :: u64
  v_file :: "nat option"
  v_offset :: u64
  v_refcnt :: u32
  v_prot :: u32

record elf_info =
  elf64 :: u32
  phent :: u32
  phnum :: u32
  is_supervisor :: bool
  phdr :: u64
  phdr_size :: u64
  first_free_paddr :: u64
  first_user_vaddr :: u64
  first_vaddr_after_user :: u64
  bias :: u64
  entry :: u64
  brk_min :: u64
  brk :: u64
  brk_max :: u64
  mmap_max :: u64
  stack_bottom :: u64
  stack_top :: u64
  info_t0 :: u64

record ('fs, 'fil) vm_state = "('fs, 'fil) file_state" +
  vm_lock :: u32
  vmrs :: u64
  vmr_tab :: "vmr_t list"
  root_page_table :: u64
  first_free_page :: u64
  next_free_page :: u64
  free_pages :: u64
  pt :: "u64 \<Rightarrow> u64"
  current :: elf_info
  have_vm :: bool
  mem_size :: u64
  num_harts :: u32
  sptbr :: u64

abbreviation (input) MAX_VMR :: nat where "MAX_VMR \<equiv> 102"

definition vmr0 :: vmr_t where
  "vmr0 = \<lparr>v_addr = 0, v_length = 0, v_file = None, v_offset = 0, v_refcnt = 0, v_prot = 0\<rparr>"

definition kassert :: "bool \<Rightarrow> unit option" where
  "kassert b = (if b then Some () else None)"

text \<open>\<open>memset(p, 0, n)\<close> on page-table words and on bytes.\<close>

definition zero_range :: "(u64 \<Rightarrow> 'a::zero) \<Rightarrow> u64 \<Rightarrow> u64 \<Rightarrow> u64 \<Rightarrow> 'a" where
  "zero_range m a n = (\<lambda>x. if x - a < n then 0 else m x)"

section \<open>Page allocator and region descriptors\<close>

definition page_alloc :: "('fs, 'fil, 'z) vm_state_scheme \<Rightarrow> (u64 \<times> ('fs, 'fil, 'z) vm_state_scheme) option"
  where
  "page_alloc s = do {
     kassert (next_free_page s \<noteq> free_pages s);
     let addr = first_free_page s + RISCV_PGSIZE * next_free_page s;
     let s = s\<lparr>next_free_page := next_free_page s + 1\<rparr>;
     Some (addr, s\<lparr>pt := zero_range (pt s) addr RISCV_PGSIZE\<rparr>) }"

definition lock_vm :: "('fs, 'fil, 'z) vm_state_scheme \<Rightarrow> ('fs, 'fil, 'z) vm_state_scheme option" where
  "lock_vm s = do { l \<leftarrow> spinlock_lock (vm_lock s); Some (s\<lparr>vm_lock := l\<rparr>) }"

definition unlock_vm :: "('fs, 'fil, 'z) vm_state_scheme \<Rightarrow> ('fs, 'fil, 'z) vm_state_scheme" where
  "unlock_vm s = s\<lparr>vm_lock := spinlock_unlock (vm_lock s)\<rparr>"

definition vmr_ptr :: "('fs, 'fil, 'z) vm_state_scheme \<Rightarrow> nat \<Rightarrow> u64" where
  "vmr_ptr s i = vmrs s + 40 * of_nat i"

text \<open>The descriptor a pointer designates; a word that is no such pointer has none.\<close>

definition vmr_index :: "('fs, 'fil, 'z) vm_state_scheme \<Rightarrow> u64 \<Rightarrow> nat option" where
  "vmr_index s p =
     (let i = unat ((p - vmrs s) div 40)
      in if vmrs s \<noteq> 0 \<and> p = vmr_ptr s i \<and> i < length (vmr_tab s) then Some i else None)"

fun find_free_vmr :: "nat \<Rightarrow> vmr_t list \<Rightarrow> nat option" where
  "find_free_vmr i [] = None"
| "find_free_vmr i (v # vs) = (if v_refcnt v = 0 then Some i else find_free_vmr (Suc i) vs)"

text \<open>The table page is allocated on first use, under \<open>vm_lock\<close>.\<close>

definition vmr_table_init :: "('fs, 'fil, 'z) vm_state_scheme
    \<Rightarrow> ('fs, 'fil, 'z) vm_state_scheme option" where
  "vmr_table_init s =
     (if vmrs s = 0 then do {
        s \<leftarrow> lock_vm s;
        s \<leftarrow> (if vmrs s = 0 then do {
                (p, s) \<leftarrow> page_alloc s;
                Some (s\<lparr>vmrs := p, vmr_tab := replicate MAX_VMR vmr0\<rparr>) }
              else Some s);
        Some (unlock_vm s) }
      else Some s)"

definition vmr_alloc :: "u64 \<Rightarrow> u64 \<Rightarrow> nat option \<Rightarrow> u64 \<Rightarrow> u32 \<Rightarrow> u32
    \<Rightarrow> ('fs, 'fil, 'z) vm_state_scheme \<Rightarrow> (nat option \<times> ('fs, 'fil, 'z) vm_state_scheme) option" where
  "vmr_alloc addr len file ofs cnt prot s = do {
     s \<leftarrow> vmr_table_init s;
     case find_free_vmr 0 (vmr_tab s) of
       None \<Rightarrow> Some (None, s)
     | Some i \<Rightarrow> do {
         s \<leftarrow> (case file of None \<Rightarrow> Some s | Some f \<Rightarrow> file_incref f s);
         Some (Some i, s\<lparr>vmr_tab := (vmr_tab s)[i :=
           \<lparr>v_addr = addr, v_length = len, v_file = file, v_offset = ofs, v_refcnt = cnt,
            v_prot = prot\<rparr>]\<rparr>) } }"

definition vmr_decref :: "('fs, 'fil) fatfs \<Rightarrow> nat \<Rightarrow> u32 \<Rightarrow> ('fs, 'fil, 'z) vm_state_scheme
    \<Rightarrow> ('fs, 'fil, 'z) vm_state_scheme option" where
  "vmr_decref F i dec s =
     (let v = vmr_tab s ! i;
          v = v\<lparr>v_refcnt := v_refcnt v - dec\<rparr>;
          s = s\<lparr>vmr_tab := (vmr_tab s)[i := v]\<rparr>
      in if v_refcnt v = 0 then
           (case v_file v of None \<Rightarrow> Some s | Some f \<Rightarrow> file_decref F f s)
         else Some s)"

section \<open>Page-table entries\<close>

definition pte_ppn :: "u64 \<Rightarrow> u64" where
  "pte_ppn pte = drop_bit PTE_PPN_SHIFT pte"

definition ptd_create :: "u64 \<Rightarrow> u64" where
  "ptd_create ppn = push_bit PTE_PPN_SHIFT ppn OR PTE_V OR PTE_TYPE_TABLE"

definition pte_user_type :: "u32 \<Rightarrow> u64" where
  "pte_user_type prot =
     (if prot = PROT_NONE then PTE_TYPE_SR
      else if prot = PROT_READ then PTE_TYPE_UR_SR
      else if prot = PROT_WRITE then PTE_TYPE_URW_SRW
      else if prot = PROT_EXEC then PTE_TYPE_URX_SRX
      else if prot = PROT_READ OR PROT_WRITE then PTE_TYPE_URW_SRW
      else if prot = PROT_READ OR PROT_EXEC then PTE_TYPE_URX_SRX
      else if prot = PROT_WRITE OR PROT_EXEC then PTE_TYPE_URWX_SRWX
      else PTE_TYPE_URWX_SRWX)"

definition pte_super_type :: "u32 \<Rightarrow> u64" where
  "pte_super_type prot =
     (if prot = PROT_READ then PTE_TYPE_SR
      else if prot = PROT_WRITE then PTE_TYPE_SRW
      else if prot = PROT_EXEC then PTE_TYPE_SRX
      else if prot = PROT_READ OR PROT_WRITE then PTE_TYPE_SRW
      else if prot = PROT_READ OR PROT_EXEC then PTE_TYPE_SRX
      else if prot = PROT_WRITE OR PROT_EXEC then PTE_TYPE_SRWX
      else PTE_TYPE_SRWX)"

definition pte_create :: "u64 \<Rightarrow> u32 \<Rightarrow> bool \<Rightarrow> u64 option" where
  "pte_create ppn prot user =
     (let pte = push_bit PTE_PPN_SHIFT ppn OR PTE_V;
          prot = prot AND (PROT_READ OR PROT_WRITE OR PROT_EXEC)
      in if user then Some (pte OR pte_user_type prot)
         else do { kassert (prot \<noteq> PROT_NONE); Some (pte OR pte_super_type prot) })"

definition ppn :: "u64 \<Rightarrow> u64" where
  "ppn addr = drop_bit RISCV_PGSHIFT addr"

definition pt_idx :: "u64 \<Rightarrow> nat \<Rightarrow> u64" where
  "pt_idx addr level = drop_bit (RISCV_PGLEVEL_BITS * level + RISCV_PGSHIFT) addr AND 511"

section \<open>The page-table walk\<close>

definition maybe_create_root_page_table :: "('fs, 'fil, 'z) vm_state_scheme
    \<Rightarrow> ('fs, 'fil, 'z) vm_state_scheme option" where
  "maybe_create_root_page_table s =
     (if root_page_table s \<noteq> 0 then Some s
      else do {
        (p, s) \<leftarrow> page_alloc s;
        let s = s\<lparr>root_page_table := p\<rparr>;
        Some (if have_vm s then s\<lparr>sptbr := p\<rparr> else s) })"

text \<open>The \<open>for\<close> loop over the upper levels; the result is the address of the leaf entry, or
  0 when a table is missing and none is to be created.\<close>

fun walk_loop :: "u64 \<Rightarrow> bool \<Rightarrow> nat \<Rightarrow> u64 \<Rightarrow> ('fs, 'fil, 'z) vm_state_scheme
    \<Rightarrow> (u64 \<times> ('fs, 'fil, 'z) vm_state_scheme) option" where
  "walk_loop addr create 0 t s = Some (t + 8 * pt_idx addr 0, s)"
| "walk_loop addr create (Suc i) t s =
     (let e = t + 8 * pt_idx addr (Suc i)
      in if pt s e AND PTE_V = 0 then
           (if \<not> create then Some (0, s)
            else do {
              (page, s) \<leftarrow> page_alloc s;
              let s = s\<lparr>pt := (pt s)(e := ptd_create (ppn page))\<rparr>;
              walk_loop addr create i (push_bit RISCV_PGSHIFT (pte_ppn (pt s e))) s })
         else do {
           kassert (PTE_TABLE (pt s e));
           walk_loop addr create i (push_bit RISCV_PGSHIFT (pte_ppn (pt s e))) s })"

definition walk_internal :: "u64 \<Rightarrow> bool \<Rightarrow> ('fs, 'fil, 'z) vm_state_scheme
    \<Rightarrow> (u64 \<times> ('fs, 'fil, 'z) vm_state_scheme) option" where
  "walk_internal addr create s = do {
     s \<leftarrow> maybe_create_root_page_table s;
     walk_loop addr create ((VA_BITS - RISCV_PGSHIFT) div RISCV_PGLEVEL_BITS - 1)
       (root_page_table s) s }"

definition walk :: "u64 \<Rightarrow> ('fs, 'fil, 'z) vm_state_scheme
    \<Rightarrow> (u64 \<times> ('fs, 'fil, 'z) vm_state_scheme) option" where
  "walk addr s = walk_internal addr False s"

definition walk_create :: "u64 \<Rightarrow> ('fs, 'fil, 'z) vm_state_scheme
    \<Rightarrow> (u64 \<times> ('fs, 'fil, 'z) vm_state_scheme) option" where
  "walk_create addr s = walk_internal addr True s"

definition va_avail :: "u64 \<Rightarrow> ('fs, 'fil, 'z) vm_state_scheme
    \<Rightarrow> (bool \<times> ('fs, 'fil, 'z) vm_state_scheme) option" where
  "va_avail vaddr s = do {
     (pte, s) \<leftarrow> walk vaddr s;
     Some (pte = 0 \<or> pt s pte = 0, s) }"

text \<open>\<open>for (a = last; a > first && __va_avail(a); a -= RISCV_PGSIZE);\<close>\<close>

partial_function (option) vm_alloc_down :: "u64 \<Rightarrow> u64 \<Rightarrow> ('fs, 'fil, 'z) vm_state_scheme
    \<Rightarrow> (u64 \<times> ('fs, 'fil, 'z) vm_state_scheme) option" where
  "vm_alloc_down first a s =
     (if a > first then do {
        (av, s) \<leftarrow> va_avail a s;
        if av then vm_alloc_down first (a - RISCV_PGSIZE) s else Some (a, s) }
      else Some (a, s))"

partial_function (option) vm_alloc_up :: "u64 \<Rightarrow> u64 \<Rightarrow> u64 \<Rightarrow> ('fs, 'fil, 'z) vm_state_scheme
    \<Rightarrow> (u64 \<times> ('fs, 'fil, 'z) vm_state_scheme) option" where
  "vm_alloc_up npage end a s =
     (if a \<le> end then do {
        (av, s) \<leftarrow> va_avail a s;
        if \<not> av then vm_alloc_up npage end (a + RISCV_PGSIZE) s
        else do {
          (a', s) \<leftarrow> vm_alloc_down a (a + (npage - 1) * RISCV_PGSIZE) s;
          if a' > a then vm_alloc_up npage end (a' + RISCV_PGSIZE) s
          else Some (a', s) } }
      else Some (0, s))"

definition vm_alloc :: "u64 \<Rightarrow> ('fs, 'fil, 'z) vm_state_scheme
    \<Rightarrow> (u64 \<times> ('fs, 'fil, 'z) vm_state_scheme) option" where
  "vm_alloc npage s =
     vm_alloc_up npage (mmap_max (current s) - npage * RISCV_PGSIZE) (brk (current s)) s"

definition valid_user_range :: "elf_info \<Rightarrow> u64 \<Rightarrow> u64 \<Rightarrow> bool" where
  "valid_user_range cur vaddr len =
     (if vaddr + len < vaddr then False
      else vaddr \<ge> first_free_paddr cur \<and> vaddr + len \<le> mmap_max cur)"

section \<open>Demand paging\<close>

text \<open>Filling a page on its first access: from the file behind the region, or with zeros.\<close>

definition fill_page :: "('fs, 'fil) fatfs \<Rightarrow> vmr_t \<Rightarrow> u64 \<Rightarrow> ('fs, 'fil, 'z) vm_state_scheme
    \<Rightarrow> ('fs, 'fil, 'z) vm_state_scheme option" where
  "fill_page F v vaddr s =
     (case v_file v of
        Some f \<Rightarrow> do {
          let flen = min RISCV_PGSIZE (v_length v - (vaddr - v_addr v));
          (ret, s) \<leftarrow> file_pread F f vaddr flen (vaddr - v_addr v + v_offset v) s;
          kassert (0 <s ret);
          Some (if ret <s RISCV_PGSIZE
                then s\<lparr>ram := zero_range (ram s) (vaddr + ret) (RISCV_PGSIZE - ret)\<rparr> else s) }
      | None \<Rightarrow> Some (s\<lparr>ram := zero_range (ram s) vaddr RISCV_PGSIZE\<rparr>))"

definition check_perms :: "u64 \<Rightarrow> u32 \<Rightarrow> ('fs, 'fil, 'z) vm_state_scheme
    \<Rightarrow> (u64 \<times> ('fs, 'fil, 'z) vm_state_scheme) option" where
  "check_perms pte prot s = do {
     perms \<leftarrow> pte_create 0 prot True;
     Some (if pt s pte AND perms \<noteq> perms then - 1 else 0, s) }"

definition handle_page_fault_nolock :: "('fs, 'fil) fatfs \<Rightarrow> u64 \<Rightarrow> u32
    \<Rightarrow> ('fs, 'fil, 'z) vm_state_scheme \<Rightarrow> (u64 \<times> ('fs, 'fil, 'z) vm_state_scheme) option" where
  "handle_page_fault_nolock F vaddr prot s = do {
     let vpn = drop_bit RISCV_PGSHIFT vaddr;
     let vaddr = push_bit RISCV_PGSHIFT vpn;
     (pte, s) \<leftarrow> walk vaddr s;
     if pte = 0 \<or> pt s pte = 0 \<or> \<not> valid_user_range (current s) vaddr 1 then Some (- 1, s)
     else if pt s pte AND PTE_V = 0 then do {
       i \<leftarrow> vmr_index s (pt s pte);
       let v = vmr_tab s ! i;
       e \<leftarrow> pte_create vpn (PROT_READ OR PROT_WRITE) False;
       let s = s\<lparr>pt := (pt s)(pte := e)\<rparr>;
       s \<leftarrow> fill_page F v vaddr s;
       s \<leftarrow> vmr_decref F i 1 s;
       e \<leftarrow> pte_create vpn (v_prot (vmr_tab s ! i)) True;
       check_perms pte prot (s\<lparr>pt := (pt s)(pte := e)\<rparr>) }
     else check_perms pte prot s }"

definition handle_page_fault :: "('fs, 'fil) fatfs \<Rightarrow> u64 \<Rightarrow> u32
    \<Rightarrow> ('fs, 'fil, 'z) vm_state_scheme \<Rightarrow> (u64 \<times> ('fs, 'fil, 'z) vm_state_scheme) option" where
  "handle_page_fault F vaddr prot s = do {
     s \<leftarrow> lock_vm s;
     (ret, s) \<leftarrow> handle_page_fault_nolock F vaddr prot s;
     Some (ret, unlock_vm s) }"

section \<open>Mapping and unmapping\<close>

text \<open>\<open>for (uintptr_t a = lo; a < hi; a += RISCV_PGSIZE) body\<close>\<close>

partial_function (option) page_loop :: "(u64 \<Rightarrow> 's \<Rightarrow> 's option) \<Rightarrow> u64 \<Rightarrow> u64 \<Rightarrow> 's \<Rightarrow> 's option" where
  "page_loop body a hi s =
     (if a < hi then do { s \<leftarrow> body a s; page_loop body (a + RISCV_PGSIZE) hi s } else Some s)"

definition munmap_page :: "('fs, 'fil) fatfs \<Rightarrow> u64 \<Rightarrow> ('fs, 'fil, 'z) vm_state_scheme
    \<Rightarrow> ('fs, 'fil, 'z) vm_state_scheme option" where
  "munmap_page F a s = do {
     (pte, s) \<leftarrow> walk a s;
     if pte = 0 \<or> pt s pte = 0 then Some s
     else do {
       s \<leftarrow> (if pt s pte AND PTE_V = 0 then do {
               i \<leftarrow> vmr_index s (pt s pte);
               vmr_decref F i 1 s }
             else Some s);
       Some (s\<lparr>pt := (pt s)(pte := 0)\<rparr>) } }"

definition do_munmap_nolock :: "('fs, 'fil) fatfs \<Rightarrow> u64 \<Rightarrow> u64 \<Rightarrow> ('fs, 'fil, 'z) vm_state_scheme
    \<Rightarrow> ('fs, 'fil, 'z) vm_state_scheme option" where
  "do_munmap_nolock F addr len s = page_loop (munmap_page F) addr (addr + len) s"

definition mmap_page :: "('fs, 'fil) fatfs \<Rightarrow> u64 \<Rightarrow> u64 \<Rightarrow> ('fs, 'fil, 'z) vm_state_scheme
    \<Rightarrow> ('fs, 'fil, 'z) vm_state_scheme option" where
  "mmap_page F v a s = do {
     (pte, s) \<leftarrow> walk_create a s;
     kassert (pte \<noteq> 0);
     s \<leftarrow> (if pt s pte \<noteq> 0 then do_munmap_nolock F a RISCV_PGSIZE s else Some s);
     Some (s\<lparr>pt := (pt s)(pte := v)\<rparr>) }"

definition populate_page :: "('fs, 'fil) fatfs \<Rightarrow> u32 \<Rightarrow> u64 \<Rightarrow> ('fs, 'fil, 'z) vm_state_scheme
    \<Rightarrow> ('fs, 'fil, 'z) vm_state_scheme option" where
  "populate_page F prot a s = do {
     (r, s) \<leftarrow> handle_page_fault_nolock F a prot s;
     kassert (r = 0);
     Some s }"

definition mmap_addr :: "u64 \<Rightarrow> u64 \<Rightarrow> u64 \<Rightarrow> u32 \<Rightarrow> ('fs, 'fil, 'z) vm_state_scheme
    \<Rightarrow> (u64 option \<times> ('fs, 'fil, 'z) vm_state_scheme) option" where
  "mmap_addr addr len npage flags s =
     (if flags AND MAP_FIXED \<noteq> 0 then
        Some (if addr AND (RISCV_PGSIZE - 1) \<noteq> 0 \<or> \<not> valid_user_range (current s) addr len
              then None else Some addr, s)
      else do {
        (addr, s) \<leftarrow> vm_alloc npage s;
        Some (if addr = 0 then None else Some addr, s) })"

definition do_mmap_nolock :: "('fs, 'fil) fatfs \<Rightarrow> u64 \<Rightarrow> u64 \<Rightarrow> u32 \<Rightarrow> u32 \<Rightarrow> nat option \<Rightarrow> u64
    \<Rightarrow> ('fs, 'fil, 'z) vm_state_scheme \<Rightarrow> (u64 \<times> ('fs, 'fil, 'z) vm_state_scheme) option" where
  "do_mmap_nolock F addr len prot flags f ofs s = do {
     let npage = (len - 1) div RISCV_PGSIZE + 1;
     (r, s) \<leftarrow> mmap_addr addr len npage flags s;
     case r of None \<Rightarrow> Some (- 1, s)
     | Some addr \<Rightarrow> do {
         (v, s) \<leftarrow> vmr_alloc addr len f ofs (ucast npage) prot s;
         case v of None \<Rightarrow> Some (- 1, s)
         | Some i \<Rightarrow> do {
             s \<leftarrow> page_loop (mmap_page F (vmr_ptr s i)) addr (addr + len) s;
             s \<leftarrow> (if \<not> have_vm s \<or> flags AND MAP_POPULATE \<noteq> 0
                   then page_loop (populate_page F prot) addr (addr + len) s else Some s);
             Some (addr, s) } } }"

definition do_munmap :: "('fs, 'fil) fatfs \<Rightarrow> u64 \<Rightarrow> u64 \<Rightarrow> ('fs, 'fil, 'z) vm_state_scheme
    \<Rightarrow> (u64 \<times> ('fs, 'fil, 'z) vm_state_scheme) option" where
  "do_munmap F addr len s =
     (if addr AND (RISCV_PGSIZE - 1) \<noteq> 0 \<or> \<not> valid_user_range (current s) addr len
      then Some (- EINVAL, s)
      else do {
        s \<leftarrow> lock_vm s;
        s \<leftarrow> do_munmap_nolock F addr len s;
        Some (0, unlock_vm s) })"

definition do_mmap :: "('fs, 'fil) fatfs \<Rightarrow> u64 \<Rightarrow> u64 \<Rightarrow> u32 \<Rightarrow> u32 \<Rightarrow> nat option \<Rightarrow> u64
    \<Rightarrow> ('fs, 'fil, 'z) vm_state_scheme \<Rightarrow> (u64 \<times> ('fs, 'fil, 'z) vm_state_scheme) option" where
  "do_mmap F addr len prot flags f ofs s =
     (if flags AND MAP_PRIVATE = 0 \<or> len = 0 \<or> ofs AND (RISCV_PGSIZE - 1) \<noteq> 0
      then Some (- EINVAL, s)
      else if flags AND MAP_ANONYMOUS = 0 \<and> f = None then Some (- EBADF, s)
      else do {
        s \<leftarrow> lock_vm s;
        (addr, s) \<leftarrow> do_mmap_nolock F addr len prot flags f ofs s;
        let s = (if addr < brk_max (current s)
                 then s\<lparr>current := (current s)\<lparr>brk_max := addr\<rparr>\<rparr> else s);
        Some (addr, unlock_vm s) })"

definition do_brk_nolock :: "('fs, 'fil) fatfs \<Rightarrow> u64 \<Rightarrow> ('fs, 'fil, 'z) vm_state_scheme
    \<Rightarrow> (u64 \<times> ('fs, 'fil, 'z) vm_state_scheme) option" where
  "do_brk_nolock F addr s = do {
     let newbrk = (if addr < brk_min (current s) then brk_min (current s)
                   else if addr > brk_max (current s) then brk_max (current s) else addr);
     let s = (if brk (current s) = 0
              then s\<lparr>current := (current s)\<lparr>brk := ROUNDUP (brk_min (current s)) RISCV_PGSIZE\<rparr>\<rparr>
              else s);
     let newbrk_page = ROUNDUP newbrk RISCV_PGSIZE;
     s \<leftarrow> (if brk (current s) > newbrk_page then
             do_munmap_nolock F newbrk_page (brk (current s) - newbrk_page) s
           else if brk (current s) < newbrk_page then do {
             (r, s') \<leftarrow> do_mmap_nolock F (brk (current s)) (newbrk_page - brk (current s)) (- 1)
                         (MAP_FIXED OR MAP_PRIVATE OR MAP_ANONYMOUS) None 0 s;
             kassert (r = brk (current s'));
             Some s' }
           else Some s);
     Some (newbrk, s\<lparr>current := (current s)\<lparr>brk := newbrk_page\<rparr>\<rparr>) }"

definition do_brk :: "('fs, 'fil) fatfs \<Rightarrow> u64 \<Rightarrow> ('fs, 'fil, 'z) vm_state_scheme
    \<Rightarrow> (u64 \<times> ('fs, 'fil, 'z) vm_state_scheme) option" where
  "do_brk F addr s = do {
     s \<leftarrow> lock_vm s;
     (addr, s) \<leftarrow> do_brk_nolock F addr s;
     Some (addr, unlock_vm s) }"

definition do_mremap :: "u64 \<Rightarrow> u64 \<Rightarrow> u64 \<Rightarrow> u32 \<Rightarrow> u64" where
  "do_mremap addr old_size new_size flags = - ENOSYS"

text \<open>One iteration of \<open>do_mprotect\<close>: 0 to go on, an error code to break out.\<close>

definition mprotect_page :: "u32 \<Rightarrow> u64 \<Rightarrow> ('fs, 'fil, 'z) vm_state_scheme
    \<Rightarrow> (u64 \<times> ('fs, 'fil, 'z) vm_state_scheme) option" where
  "mprotect_page prot a s = do {
     (pte, s) \<leftarrow> walk a s;
     if pte = 0 \<or> pt s pte = 0 then Some (- ENOMEM, s)
     else if pt s pte AND PTE_V = 0 then do {
       i \<leftarrow> vmr_index s (pt s pte);
       let v = vmr_tab s ! i;
       if (v_prot v XOR prot) AND NOT (v_prot v) \<noteq> 0 then Some (- EACCES, s)
       else Some (0, s\<lparr>vmr_tab := (vmr_tab s)[i := v\<lparr>v_prot := prot\<rparr>]\<rparr>) }
     else if (prot AND PROT_WRITE \<noteq> 0 \<and> \<not> PTE_UW (pt s pte))
           \<or> (prot AND PROT_EXEC \<noteq> 0 \<and> \<not> PTE_UX (pt s pte)) then Some (- EACCES, s)
     else do {
       e \<leftarrow> pte_create (pte_ppn (pt s pte)) prot True;
       Some (0, s\<lparr>pt := (pt s)(pte := e)\<rparr>) } }"

partial_function (option) mprotect_loop :: "u32 \<Rightarrow> u64 \<Rightarrow> u64 \<Rightarrow> ('fs, 'fil, 'z) vm_state_scheme
    \<Rightarrow> (u64 \<times> ('fs, 'fil, 'z) vm_state_scheme) option" where
  "mprotect_loop prot a hi s =
     (if a < hi then do {
        (r, s) \<leftarrow> mprotect_page prot a s;
        if r \<noteq> 0 then Some (r, s) else mprotect_loop prot (a + RISCV_PGSIZE) hi s }
      else Some (0, s))"

definition do_mprotect :: "u64 \<Rightarrow> u64 \<Rightarrow> u32 \<Rightarrow> ('fs, 'fil, 'z) vm_state_scheme
    \<Rightarrow> (u64 \<times> ('fs, 'fil, 'z) vm_state_scheme) option" where
  "do_mprotect addr len prot s =
     (if addr AND (RISCV_PGSIZE - 1) \<noteq> 0 then Some (- EINVAL, s)
      else do {
        s \<leftarrow> lock_vm s;
        (res, s) \<leftarrow> mprotect_loop prot addr (addr + len) s;
        Some (res, unlock_vm s) })"

section \<open>Start-up\<close>

text \<open>The loop of \<open>__map_kernel_range\<close>, with \<open>n - i\<close> iterations left.\<close>

fun map_kernel_loop :: "u64 \<Rightarrow> u64 \<Rightarrow> u32 \<Rightarrow> nat \<Rightarrow> u64 \<Rightarrow> ('fs, 'fil, 'z) vm_state_scheme
    \<Rightarrow> ('fs, 'fil, 'z) vm_state_scheme option" where
  "map_kernel_loop vaddr paddr prot 0 a s = Some s"
| "map_kernel_loop vaddr paddr prot (Suc n) a s = do {
     (pte, s) \<leftarrow> walk_create a s;
     kassert (pte \<noteq> 0);
     e \<leftarrow> pte_create (drop_bit RISCV_PGSHIFT (a - vaddr + paddr)) prot False;
     map_kernel_loop vaddr paddr prot n (a + RISCV_PGSIZE) (s\<lparr>pt := (pt s)(pte := e)\<rparr>) }"

definition map_kernel_range :: "u64 \<Rightarrow> u64 \<Rightarrow> u64 \<Rightarrow> u32 \<Rightarrow> ('fs, 'fil, 'z) vm_state_scheme
    \<Rightarrow> ('fs, 'fil, 'z) vm_state_scheme option" where
  "map_kernel_range vaddr paddr len prot s =
     map_kernel_loop vaddr paddr prot (unat (ROUNDUP len RISCV_PGSIZE div RISCV_PGSIZE)) vaddr s"

text \<open>The words \<open>populate_mapping\<close> touches, in order; adding 0 to them or reading them changes
  nothing.\<close>

definition populate_mapping :: "u64 \<Rightarrow> u64 \<Rightarrow> u64 list option" where
  "populate_mapping start sz =
     page_loop (\<lambda>a as. Some (as @ [a])) (ROUNDDOWN start RISCV_PGSIZE) (start + sz) []"

text \<open>\<open>end_addr\<close> is the linker symbol \<open>_end\<close>.\<close>

definition sbi_top_paddr :: "u64 \<Rightarrow> u64" where
  "sbi_top_paddr end_addr = ROUNDUP end_addr RISCV_PGSIZE"

definition vm_init :: "u64 \<Rightarrow> ('fs, 'fil, 'z) vm_state_scheme \<Rightarrow> ('fs, 'fil, 'z) vm_state_scheme" where
  "vm_init end_addr s =
     (let ffp = sbi_top_paddr end_addr + ucast (num_harts s * 4096);
          mem_pages = drop_bit RISCV_PGSHIFT (mem_size s);
          free = max 8 (drop_bit (RISCV_PGLEVEL_BITS - 1) mem_pages);
          first = mem_size s - free * RISCV_PGSIZE
      in s\<lparr>free_pages := free, first_free_page := first,
           current := (current s)\<lparr>first_free_paddr := ffp, mmap_max := first, brk_max := first\<rparr>\<rparr>)"

text \<open>The loops of \<open>supervisor_vm_init\<close>: the root entries of the middle tables, the superpages
  of physical memory, and the pages of the machine-mode code.\<close>

fun root_pt_loop :: "u64 \<Rightarrow> u64 \<Rightarrow> u64 \<Rightarrow> nat \<Rightarrow> (u64 \<Rightarrow> u64) \<Rightarrow> u64 \<Rightarrow> u64" where
  "root_pt_loop root_pt middle_pt num 0 m = m"
| "root_pt_loop root_pt middle_pt num (Suc i) m =
     (root_pt_loop root_pt middle_pt num i m)
       (root_pt + 8 * (512 - num + of_nat i) :=
          ptd_create (drop_bit RISCV_PGSHIFT middle_pt + of_nat i))"

partial_function (option) superpage_loop :: "u64 \<Rightarrow> u64 \<Rightarrow> u64 \<Rightarrow> u64 \<Rightarrow> u64 \<Rightarrow> (u64 \<Rightarrow> u64)
    \<Rightarrow> (u64 \<Rightarrow> u64) option" where
  "superpage_loop middle_pt first memsz vaddr paddr m =
     (if paddr < memsz then do {
        let l2_idx = (drop_bit (RISCV_PGLEVEL_BITS + RISCV_PGSHIFT) first AND 511)
                     + drop_bit (RISCV_PGLEVEL_BITS + RISCV_PGSHIFT) (vaddr - first);
        e \<leftarrow> pte_create (drop_bit RISCV_PGSHIFT paddr) (PROT_READ OR PROT_WRITE OR PROT_EXEC) False;
        superpage_loop middle_pt first memsz (vaddr + SUPERPAGE_SIZE) (paddr + SUPERPAGE_SIZE)
          (m(middle_pt + 8 * l2_idx := e)) }
      else Some m)"

fun sbi_pt_loop :: "u64 \<Rightarrow> u64 \<Rightarrow> nat \<Rightarrow> (u64 \<Rightarrow> u64) \<Rightarrow> (u64 \<Rightarrow> u64) option" where
  "sbi_pt_loop sbi_pt num 0 m = Some m"
| "sbi_pt_loop sbi_pt num (Suc i) m = do {
     m \<leftarrow> sbi_pt_loop sbi_pt num i m;
     e \<leftarrow> pte_create (of_nat i) (PROT_READ OR PROT_EXEC) False;
     Some (m(sbi_pt + 8 * (512 - num + of_nat i) := e)) }"

definition supervisor_vm_init :: "u64 \<Rightarrow> ('fs, 'fil, 'z) vm_state_scheme
    \<Rightarrow> ('fs, 'fil, 'z) vm_state_scheme option" where
  "supervisor_vm_init end_addr s = do {
     let c = current s;
     let highest_va = - first_free_paddr c;
     let s = s\<lparr>mem_size := min (mem_size s) (highest_va - first_user_vaddr c) AND - SUPERPAGE_SIZE\<rparr>;
     let sbi_pt = first_vaddr_after_user c + bias c;
     let m = zero_range (pt s) sbi_pt RISCV_PGSIZE;
     let middle_pt = sbi_pt + RISCV_PGSIZE;
     let num = (- first_user_vaddr c - 1) div MEGAPAGE_SIZE + 1;
     let root_pt = middle_pt + num * RISCV_PGSIZE;
     let m = zero_range m middle_pt ((num + 1) * RISCV_PGSIZE);
     let m = root_pt_loop root_pt middle_pt num (unat num) m;
     m \<leftarrow> superpage_loop middle_pt (first_user_vaddr c) (mem_size s) (first_user_vaddr c)
           (first_user_vaddr c + bias c) m;
     let s = s\<lparr>current := c\<lparr>first_vaddr_after_user :=
               first_vaddr_after_user c + (root_pt + RISCV_PGSIZE - sbi_pt)\<rparr>\<rparr>;
     let num_sbi_pages = sbi_top_paddr end_addr div RISCV_PGSIZE;
     m \<leftarrow> sbi_pt_loop sbi_pt num_sbi_pages (unat num_sbi_pages) m;
     let sbi_pte = middle_pt + 8 * (push_bit RISCV_PGLEVEL_BITS num - 1);
     kassert (m sbi_pte = 0);
     let m = m(sbi_pte := ptd_create (drop_bit RISCV_PGSHIFT sbi_pt));
     kassert (next_free_page s = 0);
     Some (s\<lparr>pt := m, free_pages := 0, root_page_table := root_pt, sptbr := root_pt\<rparr>) }"

text \<open>The result is the kernel stack's top.\<close>

definition pk_vm_init :: "('fs, 'fil) fatfs \<Rightarrow> ('fs, 'fil, 'z) vm_state_scheme
    \<Rightarrow> (u64 \<times> ('fs, 'fil, 'z) vm_state_scheme) option" where
  "pk_vm_init F s = do {
     let s = (if elf64 (current s) = 0
              then s\<lparr>current := (current s)\<lparr>mmap_max := min (mmap_max (current s)) 0x80000000\<rparr>\<rparr>
              else s);
     s \<leftarrow> map_kernel_range 0 0 (first_free_paddr (current s))
           (PROT_READ OR PROT_WRITE OR PROT_EXEC) s;
     s \<leftarrow> map_kernel_range (first_free_page s) (first_free_page s) (free_pages s * RISCV_PGSIZE)
           (PROT_READ OR PROT_WRITE) s;
     let stack_size = RISCV_PGSIZE * CLAMP (mem_size s div (RISCV_PGSIZE * 32)) 1 256;
     (b, s) \<leftarrow> do_mmap_nolock F (mmap_max (current s) - stack_size) stack_size
                (PROT_READ OR PROT_WRITE OR PROT_EXEC) (MAP_PRIVATE OR MAP_ANONYMOUS OR MAP_FIXED)
                None 0 s;
     let s = s\<lparr>current := (current s)\<lparr>stack_bottom := b, stack_top := b + stack_size\<rparr>\<rparr>;
     kassert (b \<noteq> - 1);
     (p, s) \<leftarrow> page_alloc s;
     Some (p + RISCV_PGSIZE, s) }"

end
