(* ===== verification/Vm_Table.thy ===== *)
theory Vm_Table
  imports Vm
begin

text \<open>
  Correctness of the page-table code of \<open>bbl/vm.c\<close>.  The abstract view of the three-level
  table is a function \<open>look\<close> from 27-bit page numbers to leaf entries; the invariant
  \<open>pt_wf\<close> says that the tables form a tree of allocated pages.  Walks keep the abstract view,
  and storing through the pointer a walk returns is a function update of it.
\<close>

section \<open>Page-table entries\<close>

lemma pte_low_bits: "take_bit 5 (push_bit 10 p OR t) = take_bit 5 (t :: u64)"
  by simp

lemma pte_create_user_low:
  "pte_create p prot True = Some e \<Longrightarrow> take_bit 5 e = 1 OR pte_user_type (take_bit 3 prot)"
  by (auto simp: pte_create_def Let_def pte_low_bits or.assoc and_low_mask)
     (auto simp: pte_user_type_def)

lemma pte_create_super_low:
  "pte_create p prot False = Some e \<Longrightarrow>
     take_bit 5 e = 1 OR pte_super_type (take_bit 3 prot) \<and> take_bit 3 prot \<noteq> 0"
  by (auto simp: pte_create_def Let_def pte_low_bits or.assoc and_low_mask kassert_def
      split: if_splits)
     (auto simp: pte_super_type_def)

lemma low_bits_perms:
  fixes prot :: u32 and e :: u64
  shows "prot AND 2 = take_bit 3 prot AND 2" "prot AND 4 = take_bit 3 prot AND 4"
    "e AND 1 = take_bit 5 e AND 1" "e AND 0x18 = take_bit 5 e AND 0x18"
  unfolding and_low_mask [symmetric] by (simp_all add: and.assoc)

lemma pte_create_valid:
  assumes "pte_create p prot user = Some e"
  shows "e AND PTE_V \<noteq> 0" "\<not> PTE_TABLE e" "e AND 0x18 = 0x08 \<or> e AND 0x18 = 0x10"
proof -
  have "e AND PTE_V \<noteq> 0 \<and> \<not> PTE_TABLE e \<and> (e AND 0x18 = 0x08 \<or> e AND 0x18 = 0x10)"
  proof (cases user)
    case True
    with assms have "take_bit 5 e = 1 OR pte_user_type (take_bit 3 prot)"
      by (simp add: pte_create_user_low)
    then show ?thesis
      unfolding PTE_perm_defs and_low_mask low_bits_perms(1,2) [of prot] low_bits_perms(3,4) [of e]
      by (elim ssubst) (rule take_bit_cases, code_simp)
  next
    case False
    with assms have "take_bit 5 e = 1 OR pte_super_type (take_bit 3 prot)"
      by (simp add: pte_create_super_low)
    then show ?thesis
      unfolding PTE_perm_defs and_low_mask low_bits_perms(1,2) [of prot] low_bits_perms(3,4) [of e]
      by (elim ssubst) (rule take_bit_cases, code_simp)
  qed
  then show "e AND PTE_V \<noteq> 0" "\<not> PTE_TABLE e" "e AND 0x18 = 0x08 \<or> e AND 0x18 = 0x10"
    by auto
qed

lemma pte_ppn_push:
  "drop_bit 10 t = 0 \<Longrightarrow> p < 2 ^ 54 \<Longrightarrow> pte_ppn (push_bit 10 p OR t) = p"
  unfolding pte_ppn_def drop_bit_or
  by (drule less_exp_take_bit)
     (auto intro!: bit_word_eqI simp: bit_simps bit_eq_iff [of "take_bit 54 p"])

lemma pte_create_ppn:
  "pte_create p prot user = Some e \<Longrightarrow> p < 2 ^ 54 \<Longrightarrow> pte_ppn e = p"
  by (cases user) (auto simp: pte_create_def Let_def kassert_def pte_ppn_push or.assoc
    pte_user_type_def pte_super_type_def split: if_splits)

lemma pte_table_page:
  assumes "take_bit 12 page = 0"
  shows "push_bit 12 (pte_ppn (ptd_create (ppn page))) = page"
proof (rule bit_word_eqI)
  fix n assume n: "n < LENGTH(64)"
  have "bit (take_bit 12 page) n = False" using assms by simp
  then have "n < 12 \<longrightarrow> \<not> bit page n" by (simp add: bit_take_bit_iff)
  with n show "bit (push_bit 12 (pte_ppn (ptd_create (ppn page)))) n = bit page n"
    by (auto simp: pte_ppn_def ptd_create_def ppn_def bit_simps)
qed

lemma ptd_create_table: "PTE_TABLE (ptd_create p)" "ptd_create p AND PTE_V \<noteq> 0"
proof -
  show "PTE_TABLE (ptd_create p)"
    unfolding ptd_create_def PTE_perm_defs and_low_mask or.assoc pte_low_bits by simp
  have "bit (ptd_create p AND PTE_V) 0" by (simp add: ptd_create_def bit_simps)
  then show "ptd_create p AND PTE_V \<noteq> 0" by auto
qed

text \<open>The comparison at the end of \<open>__handle_page_fault\<close>: it lets an access through exactly
  when the entry grants it to the user.\<close>

lemma check_perms_iff:
  assumes "pt s pte AND PTE_V \<noteq> 0" "pt s pte AND 0x18 = 0x08 \<or> pt s pte AND 0x18 = 0x10" "prot AND 7 \<noteq> 0"
  shows "check_perms pte prot s =
    Some (if PTE_UR (pt s pte) \<and> (prot AND PROT_WRITE \<noteq> 0 \<longrightarrow> PTE_UW (pt s pte))
             \<and> (prot AND PROT_EXEC \<noteq> 0 \<longrightarrow> PTE_UX (pt s pte)) then 0 else - 1, s)"
proof -
  define e where "e = pt s pte"
  obtain perms where perms: "pte_create 0 prot True = Some perms"
    and eq: "perms = 1 OR pte_user_type (take_bit 3 prot)"
    by (simp add: pte_create_def Let_def and_low_mask)
  have low: "e AND perms = take_bit 5 e AND perms"
    unfolding eq pte_user_type_def and_low_mask [symmetric] by (simp add: and.assoc)
  have "e AND 1 \<noteq> 0 \<longrightarrow> (e AND 0x18 = 0x08 \<or> e AND 0x18 = 0x10) \<longrightarrow> prot AND 7 \<noteq> 0 \<longrightarrow>
    (e AND perms = perms) = (PTE_UR e \<and> (prot AND PROT_WRITE \<noteq> 0 \<longrightarrow> PTE_UW e)
             \<and> (prot AND PROT_EXEC \<noteq> 0 \<longrightarrow> PTE_UX e))"
    unfolding PTE_perm_defs and_low_mask low_bits_perms(1,2) [of prot] low_bits_perms(3,4) [of e] low unfolding eq
    by (rule take_bit_cases2) code_simp
  with assms perms show ?thesis
    by (auto simp: check_perms_def e_def)
qed


section \<open>The abstract view of the tables\<close>

type_synonym vpn = "27 word"

definition vpn :: "u64 \<Rightarrow> vpn" where
  "vpn a = ucast (drop_bit 12 a)"

definition vpn_idx :: "vpn \<Rightarrow> nat \<Rightarrow> u64" where
  "vpn_idx v i = take_bit 9 (ucast (drop_bit (9 * i) v))"

fun leaf :: "(u64 \<Rightarrow> u64) \<Rightarrow> nat \<Rightarrow> u64 \<Rightarrow> vpn \<Rightarrow> u64 option" where
  "leaf m 0 t v = Some (t + 8 * vpn_idx v 0)"
| "leaf m (Suc i) t v =
     (let e = m (t + 8 * vpn_idx v (Suc i))
      in if e AND PTE_V = 0 then None else leaf m i (push_bit 12 (pte_ppn e)) v)"

definition entry_at :: "(u64 \<Rightarrow> u64) \<Rightarrow> nat \<Rightarrow> u64 \<Rightarrow> vpn \<Rightarrow> u64" where
  "entry_at m i t v = (case leaf m i t v of None \<Rightarrow> 0 | Some e \<Rightarrow> m e)"

definition look :: "('fs, 'fil, 'z) vm_state_scheme \<Rightarrow> vpn \<Rightarrow> u64" where
  "look s v = (if root_page_table s = 0 then 0 else entry_at (pt s) 2 (root_page_table s) v)"

lemma pt_idx_vpn: "i \<le> 2 \<Longrightarrow> pt_idx a i = vpn_idx (vpn a) i"
  unfolding pt_idx_def vpn_idx_def vpn_def and_low_mask
  by (rule bit_word_eqI) (auto simp: bit_simps ac_simps)

lemma vpn_idx_less: "unat (vpn_idx v i) < 512"
  using take_bit_nat_less_exp [of 9 "unat (ucast (drop_bit (9 * i) v) :: u64)"]
  by (simp add: vpn_idx_def unsigned_take_bit_eq)

lemma prefix_step:
  assumes "drop_bit (9 * Suc i) v = drop_bit (9 * Suc i) w" "vpn_idx v i = vpn_idx w i"
  shows "drop_bit (9 * i) v = drop_bit (9 * i) w"
proof (rule bit_word_eqI)
  fix n assume "n < LENGTH(27)"
  have hi: "\<And>k. bit v (9 * i + 9 + k) = bit w (9 * i + 9 + k)"
    using arg_cong [OF assms(1), of "\<lambda>x. bit x k" for k] by (simp add: bit_drop_bit_eq ac_simps)
  have lo: "bit v (9 * i + k) = bit w (9 * i + k)" if "k < 9" for k
    using arg_cong [OF assms(2), of "\<lambda>x. bit x k"] that
    by (simp add: vpn_idx_def bit_take_bit_iff bit_unsigned_iff bit_drop_bit_eq)
  show "bit (drop_bit (9 * i) v) n = bit (drop_bit (9 * i) w) n"
    using hi [of "n - 9"] lo [of n] by (cases "n < 9") (simp_all add: bit_simps)
qed

lemma prefix_idx:
  assumes "drop_bit (9 * i) v = drop_bit (9 * i) w" 
  shows "vpn_idx v i = vpn_idx w i" "drop_bit (9 * Suc i) v = drop_bit (9 * Suc i) w"
proof -
  show "vpn_idx v i = vpn_idx w i" by (simp add: vpn_idx_def assms)
  show "drop_bit (9 * Suc i) v = drop_bit (9 * Suc i) w"
    using arg_cong [OF assms, of "drop_bit 9"] by simp
qed

section \<open>The page pool\<close>

definition pool_ok :: "('fs, 'fil, 'z) vm_state_scheme \<Rightarrow> bool" where
  "pool_ok s \<longleftrightarrow> first_free_page s \<noteq> 0 \<and> take_bit 12 (first_free_page s) = 0
     \<and> unat (first_free_page s) + 4096 * unat (free_pages s) \<le> 2 ^ 64
     \<and> next_free_page s \<le> free_pages s"

definition pool_page :: "('fs, 'fil, 'z) vm_state_scheme \<Rightarrow> nat \<Rightarrow> u64" where
  "pool_page s k = first_free_page s + 4096 * of_nat k"

definition allocated :: "('fs, 'fil, 'z) vm_state_scheme \<Rightarrow> u64 \<Rightarrow> bool" where
  "allocated s t \<longleftrightarrow> (\<exists>k < unat (next_free_page s). t = pool_page s k)"

definition page_base :: "u64 \<Rightarrow> bool" where
  "page_base t \<longleftrightarrow> t \<noteq> 0 \<and> 4096 dvd unat t"

lemma page_base_max: "page_base t \<Longrightarrow> unat t + 4096 \<le> 2 ^ 64"
  using unsigned_less [of t, where 'a=nat] unfolding page_base_def by (auto elim!: dvdE)

lemma unat_off:
  assumes "page_base t" "k < 4096"
  shows "unat (t + of_nat k) = unat t + k"
proof -
  have "unat (of_nat k :: u64) = k" using assms(2) by (simp add: unat_of_nat take_bit_nat_eq_self)
  then show ?thesis using page_base_max [OF assms(1)] assms(2) by (simp add: unat_add_lem [THEN iffD1])
qed

lemma entry_addr: "t + 8 * vpn_idx v i = t + of_nat (8 * unat (vpn_idx v i))" by simp

lemma entry_inj:
  assumes "page_base t" "page_base t'" "t + 8 * vpn_idx v i = t' + 8 * vpn_idx w j"
  shows "t = t' \<and> vpn_idx v i = vpn_idx w j"
proof -
  have *: "unat t + 8 * unat (vpn_idx v i) = unat t' + 8 * unat (vpn_idx w j)"
    using assms(3) unat_off [OF assms(1), of "8 * unat (vpn_idx v i)"]
      unat_off [OF assms(2), of "8 * unat (vpn_idx w j)"] vpn_idx_less [of v i] vpn_idx_less [of w j]
    by simp
  moreover have "4096 dvd unat t" "4096 dvd unat t'" using assms by (simp_all add: page_base_def)
  ultimately have "unat t = unat t'" using vpn_idx_less [of v i] vpn_idx_less [of w j]
    by (auto elim!: dvdE)
  with * show ?thesis by (simp add: word_unat_eq_iff [of t] word_unat_eq_iff [of "vpn_idx v i"])
qed

lemma aligned_iff: "take_bit 12 t = 0 \<longleftrightarrow> 4096 dvd unat (t :: u64)"
proof -
  have "take_bit 12 t = 0 \<longleftrightarrow> unat (take_bit 12 t) = 0"
    by (simp only: word_unat_eq_iff unsigned_0)
  also have "unat (take_bit 12 t) = unat t mod 4096"
    by (simp only: unsigned_take_bit_eq take_bit_nat_def) simp
  finally show ?thesis by (simp add: dvd_eq_mod_eq_0)
qed

lemma page_base_take_bit: "page_base t \<Longrightarrow> take_bit 12 t = 0"
  by (simp add: page_base_def aligned_iff)

lemma pool_page_unat:
  assumes "pool_ok s" "k < unat (free_pages s)"
  shows "unat (pool_page s k) = unat (first_free_page s) + 4096 * k"
proof -
  have lt: "unat (first_free_page s) + 4096 * k < 2 ^ 64" using assms by (simp add: pool_ok_def)
  then have "unat (of_nat (unat (first_free_page s) + 4096 * k) :: u64) = unat (first_free_page s) + 4096 * k"
    by (simp only: unat_of_nat take_bit_nat_eq_self) (simp add: take_bit_nat_eq_self)
  then show ?thesis by (simp add: pool_page_def)
qed

lemma pool_page_base:
  assumes "pool_ok s" "k < unat (free_pages s)"
  shows "page_base (pool_page s k)"
proof -
  have "4096 dvd unat (first_free_page s)" "unat (first_free_page s) \<noteq> 0"
    using assms(1) by (auto simp: pool_ok_def aligned_iff unat_eq_0)
  then show ?thesis unfolding page_base_def word_unat_eq_iff pool_page_unat [OF assms] by auto
qed

lemma next_le_free: "pool_ok s \<Longrightarrow> unat (next_free_page s) \<le> unat (free_pages s)"
  by (simp add: pool_ok_def word_le_nat_alt)

lemma allocated_base: "pool_ok s \<Longrightarrow> allocated s t \<Longrightarrow> page_base t"
  using next_le_free by (fastforce simp: allocated_def intro: pool_page_base)

text \<open>A page that is still free lies apart from every allocated one.\<close>

lemma zero_range_other:
  assumes "page_base t" "page_base p" "t \<noteq> p" "k < 4096"
  shows "zero_range m p RISCV_PGSIZE (t + of_nat k) = m (t + of_nat k)"
proof -
  have "\<not> unat (t + of_nat k - p) < 4096"
  proof (cases "p \<le> t + of_nat k")
    case True
    then have "unat (t + of_nat k - p) = unat t + k - unat p"
      by (simp add: unat_sub unat_off [OF assms(1,4)])
    moreover have "unat t \<noteq> unat p" using assms(3) by (simp add: word_unat_eq_iff)
    moreover have "unat p \<le> unat t + k" using True by (simp add: word_le_nat_alt unat_off [OF assms(1,4)])
    ultimately show ?thesis using assms by (auto simp: page_base_def elim!: dvdE)
  next
    case False
    then have "unat (t + of_nat k) < unat p" by (simp add: word_le_nat_alt)
    then have "unat (t + of_nat k - p) = 2 ^ 64 + unat (t + of_nat k) - unat p"
      by (simp add: unat_sub_if')
    then show ?thesis using page_base_max [OF assms(2)] by simp
  qed
  then show ?thesis by (simp add: zero_range_def word_less_nat_alt)
qed

lemma zero_range_same:
  assumes "k < 4096"
  shows "zero_range m p RISCV_PGSIZE (p + of_nat k) = 0"
proof -
  have "unat (of_nat k :: u64) = k" using assms by (simp add: unat_of_nat take_bit_nat_eq_self)
  with assms show ?thesis by (simp add: zero_range_def word_less_nat_alt)
qed


lemma zero_entry:
  "zero_range m p RISCV_PGSIZE (p + 8 * vpn_idx v i) = 0"
  using zero_range_same [of "8 * unat (vpn_idx v i)" m p] vpn_idx_less [of v i] by simp

lemma zero_entry_other:
  "page_base t \<Longrightarrow> page_base p \<Longrightarrow> t \<noteq> p \<Longrightarrow>
    zero_range m p RISCV_PGSIZE (t + 8 * vpn_idx v i) = m (t + 8 * vpn_idx v i)"
  using zero_range_other [of t p "8 * unat (vpn_idx v i)" m] vpn_idx_less [of v i] by simp

section \<open>The tables form a tree\<close>

text \<open>\<open>own t = Some (i, p)\<close>: page \<open>t\<close> is the level-\<open>i\<close> table of the page numbers that agree with
  \<open>p\<close> above level \<open>i\<close>.\<close>

definition table_inv :: "(u64 \<rightharpoonup> nat \<times> vpn) \<Rightarrow> ('fs, 'fil, 'z) vm_state_scheme \<Rightarrow> bool" where
  "table_inv own s \<longleftrightarrow>
     (root_page_table s \<noteq> 0 \<longrightarrow> own (root_page_table s) = Some (2, 0))
     \<and> (\<forall>t i p. own t = Some (i, p) \<longrightarrow> i \<le> 2 \<and> allocated s t)
     \<and> (\<forall>t i v. own t = Some (Suc i, drop_bit (9 * Suc (Suc i)) v) \<longrightarrow>
          pt s (t + 8 * vpn_idx v (Suc i)) AND PTE_V \<noteq> 0 \<longrightarrow>
          PTE_TABLE (pt s (t + 8 * vpn_idx v (Suc i)))
          \<and> own (push_bit 12 (pte_ppn (pt s (t + 8 * vpn_idx v (Suc i))))) = Some (i, drop_bit (9 * Suc i) v))"

definition pt_wf :: "('fs, 'fil, 'z) vm_state_scheme \<Rightarrow> bool" where
  "pt_wf s \<longleftrightarrow> pool_ok s \<and> (\<exists>own. table_inv own s)"

lemma table_invI:
  assumes "root_page_table s \<noteq> 0 \<Longrightarrow> own (root_page_table s) = Some (2, 0)"
    and "\<And>t i p. own t = Some (i, p) \<Longrightarrow> i \<le> 2 \<and> allocated s t"
    and "\<And>t i v. own t = Some (Suc i, drop_bit (9 * Suc (Suc i)) v) \<Longrightarrow>
          pt s (t + 8 * vpn_idx v (Suc i)) AND PTE_V \<noteq> 0 \<Longrightarrow>
          PTE_TABLE (pt s (t + 8 * vpn_idx v (Suc i)))
          \<and> own (push_bit 12 (pte_ppn (pt s (t + 8 * vpn_idx v (Suc i))))) = Some (i, drop_bit (9 * Suc i) v)"
  shows "table_inv own s"
  unfolding table_inv_def
proof (intro conjI allI impI)
  show "own (root_page_table s) = Some (2, 0)" if "root_page_table s \<noteq> 0"
    using that by (rule assms(1))
qed (insert assms(2,3), blast+)

lemma table_inv_root: "table_inv own s \<Longrightarrow> root_page_table s \<noteq> 0 \<Longrightarrow> own (root_page_table s) = Some (2, 0)"
  unfolding table_inv_def by blast

lemma table_inv_alloc: "table_inv own s \<Longrightarrow> own t = Some (i, p) \<Longrightarrow> i \<le> 2 \<and> allocated s t"
  unfolding table_inv_def by blast

lemma table_inv_base: "table_inv own s \<Longrightarrow> pool_ok s \<Longrightarrow> own t = Some ip \<Longrightarrow> page_base t"
  by (cases ip) (auto dest: table_inv_alloc intro: allocated_base)

lemma table_inv_next:
  assumes "table_inv own s" "own t = Some (Suc i, drop_bit (9 * Suc (Suc i)) v)"
    "pt s (t + 8 * vpn_idx v (Suc i)) AND PTE_V \<noteq> 0"
  shows "PTE_TABLE (pt s (t + 8 * vpn_idx v (Suc i)))"
    "own (push_bit 12 (pte_ppn (pt s (t + 8 * vpn_idx v (Suc i))))) = Some (i, drop_bit (9 * Suc i) v)"
  using assms unfolding table_inv_def by blast+

lemma leaf_owned:
  assumes "table_inv own s" "own t = Some (i, drop_bit (9 * Suc i) v)" "leaf (pt s) i t v = Some e"
  shows "\<exists>tv. own tv = Some (0, drop_bit 9 v) \<and> e = tv + 8 * vpn_idx v 0"
  using assms
proof (induction i arbitrary: t)
  case (Suc i)
  show ?case
    using Suc.prems by (intro Suc.IH) (auto simp: Let_def dest: table_inv_next split: if_splits)
qed auto

text \<open>Storing a leaf entry changes the abstract view at that page number alone.\<close>

lemma entry_at_upd:
  assumes inv: "table_inv own s" "pool_ok s"
    and tv: "own tv = Some (0, drop_bit 9 v)"
    and "own t = Some (i, drop_bit (9 * Suc i) w)" "v \<noteq> w"
  shows "entry_at ((pt s)(tv + 8 * vpn_idx v 0 := x)) i t w = entry_at (pt s) i t w"
  using assms(4)
proof (induction i arbitrary: t)
  case 0
  have "tv + 8 * vpn_idx v 0 \<noteq> t + 8 * vpn_idx w 0"
  proof
    assume "tv + 8 * vpn_idx v 0 = t + 8 * vpn_idx w 0"
    with entry_inj [of tv t] table_inv_base [OF inv] tv 0 have "tv = t" "vpn_idx v 0 = vpn_idx w 0" by blast+
    with tv 0 prefix_step [of 0 v w] \<open>v \<noteq> w\<close> show False by simp
  qed
  then show ?case by (simp add: entry_at_def)
next
  case (Suc i)
  have "tv + 8 * vpn_idx v 0 \<noteq> t + 8 * vpn_idx w (Suc i)"
    using entry_inj [of tv t] table_inv_base [OF inv] tv Suc.prems by fastforce
  moreover have "pt s (t + 8 * vpn_idx w (Suc i)) AND PTE_V \<noteq> 0 \<Longrightarrow>
     own (push_bit 12 (pte_ppn (pt s (t + 8 * vpn_idx w (Suc i))))) = Some (i, drop_bit (9 * Suc i) w)"
    using table_inv_next [OF inv(1) Suc.prems] by blast
  ultimately show ?case using Suc.IH by (simp add: entry_at_def Let_def)
qed


lemma page_alloc_Some:
  "page_alloc s = Some (p, s') \<longleftrightarrow> next_free_page s \<noteq> free_pages s \<and>
     p = pool_page s (unat (next_free_page s)) \<and>
     s' = s\<lparr>next_free_page := next_free_page s + 1, pt := zero_range (pt s) p RISCV_PGSIZE\<rparr>"
  by (auto simp: page_alloc_def kassert_def pool_page_def Let_def)

lemma page_alloc_pool:
  assumes "pool_ok s" "page_alloc s = Some (p, s')"
  shows "pool_ok s'" "page_base p" "\<not> allocated s p" "allocated s' p"
    "allocated s t \<Longrightarrow> allocated s' t"
proof -
  note a = assms(2) [unfolded page_alloc_Some]
  have lt: "next_free_page s < free_pages s"
    using assms(1) a by (simp add: pool_ok_def order_less_le)
  then have nx: "unat (next_free_page s + 1) = Suc (unat (next_free_page s))"
    using unsigned_less [of "free_pages s", where 'a = nat]
    by (simp add: word_less_nat_alt unat_word_ariths(1))
  have k: "unat (next_free_page s) < unat (free_pages s)"
    using lt by (simp add: word_less_nat_alt)
  show "pool_ok s'" using assms(1) a k nx by (simp add: pool_ok_def word_le_nat_alt)
  show "page_base p" using a pool_page_base [OF assms(1) k] by simp
  show "\<not> allocated s p"
  proof
    assume "allocated s p"
    then obtain j where j: "j < unat (next_free_page s)" "p = pool_page s j" by (auto simp: allocated_def)
    with a have "unat (pool_page s j) = unat (pool_page s (unat (next_free_page s)))" by simp
    with j(1) k show False by (simp add: pool_page_unat [OF assms(1)])
  qed
  have pp: "pool_page s' = pool_page s" "next_free_page s' = next_free_page s + 1"
    using a by (simp_all add: pool_page_def fun_eq_iff)
  show "allocated s' p" using a nx pp by (auto simp: allocated_def)
  show "allocated s t \<Longrightarrow> allocated s' t"
    unfolding allocated_def unfolding pp nx by (metis less_SucI)
qed

text \<open>How tables grow: owners stay, valid entries stay, and so does the abstract view.\<close>

definition tab_ext :: "(u64 \<rightharpoonup> nat \<times> vpn) \<Rightarrow> (u64 \<Rightarrow> u64) \<Rightarrow> (u64 \<rightharpoonup> nat \<times> vpn) \<Rightarrow> (u64 \<Rightarrow> u64) \<Rightarrow> bool"
  where
  "tab_ext own m own' m' \<longleftrightarrow> own \<subseteq>\<^sub>m own'
     \<and> (\<forall>u ip w j. own u = Some ip \<longrightarrow> m (u + 8 * vpn_idx w j) AND PTE_V \<noteq> 0 \<longrightarrow>
          m' (u + 8 * vpn_idx w j) = m (u + 8 * vpn_idx w j))
     \<and> (\<forall>j u w. own u = Some (j, drop_bit (9 * Suc j) w) \<longrightarrow> entry_at m' j u w = entry_at m j u w)"

lemma tab_extI:
  assumes "own \<subseteq>\<^sub>m own'"
    and "\<And>u ip w j. own u = Some ip \<Longrightarrow> m (u + 8 * vpn_idx w j) AND PTE_V \<noteq> 0 \<Longrightarrow>
          m' (u + 8 * vpn_idx w j) = m (u + 8 * vpn_idx w j)"
    and "\<And>j u w. own u = Some (j, drop_bit (9 * Suc j) w) \<Longrightarrow> entry_at m' j u w = entry_at m j u w"
  shows "tab_ext own m own' m'"
  unfolding tab_ext_def by (intro conjI allI impI assms)

lemma tab_extD:
  assumes "tab_ext own m own' m'"
  shows "own \<subseteq>\<^sub>m own'"
    and "own u = Some ip \<Longrightarrow> m (u + 8 * vpn_idx w j) AND PTE_V \<noteq> 0 \<Longrightarrow>
          m' (u + 8 * vpn_idx w j) = m (u + 8 * vpn_idx w j)"
    and "own u = Some (j, drop_bit (9 * Suc j) w) \<Longrightarrow> entry_at m' j u w = entry_at m j u w"
  using assms unfolding tab_ext_def by blast+

lemma tab_ext_refl: "tab_ext own m own m"
  by (simp add: tab_ext_def)

lemma map_le_Some: "f \<subseteq>\<^sub>m g \<Longrightarrow> f x = Some y \<Longrightarrow> g x = Some y"
  by (metis domI map_le_def)

lemma tab_ext_trans:
  assumes "tab_ext o1 m1 o2 m2" "tab_ext o2 m2 o3 m3"
  shows "tab_ext o1 m1 o3 m3"
proof (rule tab_extI)
  show "o1 \<subseteq>\<^sub>m o3" using tab_extD(1) assms by (metis map_le_trans)
  show "m3 (u + 8 * vpn_idx w j) = m1 (u + 8 * vpn_idx w j)"
    if "o1 u = Some ip" "m1 (u + 8 * vpn_idx w j) AND PTE_V \<noteq> 0" for u ip w j
    using that tab_extD(2) [OF assms(1) that]
      tab_extD(2) [OF assms(2) map_le_Some [OF tab_extD(1) [OF assms(1)] that(1)], of w j] by simp
  show "entry_at m3 j u w = entry_at m1 j u w" if "o1 u = Some (j, drop_bit (9 * Suc j) w)" for j u w
    using tab_extD(3) [OF assms(1) that]
      tab_extD(3) [OF assms(2) map_le_Some [OF tab_extD(1) [OF assms(1)] that]] by simp
qed

lemma alloc_table:
  assumes inv: "table_inv own s" "pool_ok s"
    and t: "own t = Some (Suc i, drop_bit (9 * Suc (Suc i)) v)"
    and e: "e = t + 8 * vpn_idx v (Suc i)" "pt s e AND PTE_V = 0"
    and al: "page_alloc s = Some (page, s1)"
    and s2: "s2 = s1\<lparr>pt := (pt s1)(e := ptd_create (ppn page))\<rparr>"
    and own': "own' = own(page \<mapsto> (i, drop_bit (9 * Suc i) v))"
  shows "table_inv own' s2" "own page = None" "tab_ext own (pt s) own' (pt s2)"
    "push_bit 12 (pte_ppn (pt s2 e)) = page"
proof -
  note s1 = al [unfolded page_alloc_Some]
  note pool = page_alloc_pool [OF inv(2) al]
  show np: "own page = None"
    using table_inv_alloc [OF inv(1)] pool(3) by (cases "own page") auto
  have base: "\<And>u ip. own u = Some ip \<Longrightarrow> page_base u \<and> u \<noteq> page"
    using table_inv_base [OF inv] np by auto
  have m: "pt s2 = (zero_range (pt s) page RISCV_PGSIZE)(e := ptd_create (ppn page))"
    using s1 s2 by simp
  have V: "pt s2 e AND PTE_V \<noteq> 0" by (simp add: m ptd_create_table)
  show pp: "push_bit 12 (pte_ppn (pt s2 e)) = page"
    using pool(2) by (simp add: m pte_table_page page_base_take_bit)
  have same: "pt s2 (u + 8 * vpn_idx w j) = pt s (u + 8 * vpn_idx w j)"
    if "own u = Some ip" "u + 8 * vpn_idx w j \<noteq> e" for u ip w j
    using that base pool(2) by (simp add: m zero_entry_other)
  have eq: "u = t \<and> vpn_idx w j = vpn_idx v (Suc i)"
    if "own u = Some ip" "u + 8 * vpn_idx w j = e" for u ip w j
    using entry_inj [of u t w j v "Suc i"] that base t e(1) by auto
  have zero: "pt s2 (page + 8 * vpn_idx w j) = 0" for w j
    using entry_inj [of page t w j v "Suc i"] pool(2) base t e(1) by (auto simp: m zero_entry)
  have view: "entry_at (pt s2) j u w = entry_at (pt s) j u w"
    if "own u = Some (j, drop_bit (9 * Suc j) w)" for j u w
    using that
  proof (induction j arbitrary: u)
    case 0
    then have "u + 8 * vpn_idx w 0 \<noteq> e" using eq t by fastforce
    with same [OF 0] show ?case by (simp add: entry_at_def)
  next
    case (Suc j)
    show ?case
    proof (cases "u + 8 * vpn_idx w (Suc j) = e")
      case True
      have "entry_at (pt s2) j page w = 0"
        using zero by (cases j) (simp_all add: entry_at_def)
      with V show ?thesis using True e(2) pp by (simp add: entry_at_def)
    next
      case False
      with same [OF Suc.prems False] table_inv_next [OF inv(1) Suc.prems] Suc.IH
      show ?thesis by (auto simp: entry_at_def Let_def)
    qed
  qed
  have valid: "pt s2 (u + 8 * vpn_idx w j) = pt s (u + 8 * vpn_idx w j)"
    if "own u = Some ip" "pt s (u + 8 * vpn_idx w j) AND PTE_V \<noteq> 0" for u ip w j
    using same [OF that(1), of w j] that(2) e(2) by auto
  have sub: "own \<subseteq>\<^sub>m own'"
    using np by (auto simp: map_le_def own')
  show "tab_ext own (pt s) own' (pt s2)"
    by (rule tab_extI) (fact sub valid view)+
  have step: "PTE_TABLE (pt s2 x) \<and> own' (push_bit 12 (pte_ppn (pt s2 x))) = Some (j, drop_bit (9 * Suc j) w)"
    if "own' u = Some (Suc j, drop_bit (9 * Suc (Suc j)) w)"
       "x = u + 8 * vpn_idx w (Suc j)" "pt s2 x AND PTE_V \<noteq> 0" for u j w x
  proof (cases "u = page \<or> x = e")
    case True
    then have "x = e" "own u = Some (Suc j, drop_bit (9 * Suc (Suc j)) w)"
      using that zero np base t by (auto simp: own' split: if_splits)
    with eq [of u _ w "Suc j"] that(2) t have "j = i" "drop_bit (9 * Suc (Suc i)) w = drop_bit (9 * Suc (Suc i)) v" "vpn_idx w (Suc i) = vpn_idx v (Suc i)"
      by auto
    with prefix_step [of "Suc i" w v] have "drop_bit (9 * Suc i) w = drop_bit (9 * Suc i) v" by blast
    with \<open>x = e\<close> \<open>j = i\<close> show ?thesis using pp by (simp add: m ptd_create_table own')
  next
    case False
    with that(1) have u: "own u = Some (Suc j, drop_bit (9 * Suc (Suc j)) w)" by (auto simp: own' split: if_splits)
    with same [OF u, of w "Suc j"] False that(2) have "pt s2 x = pt s x" by auto
    with table_inv_next [OF inv(1) u] that(2,3) np show ?thesis by (auto simp: own')
  qed
  have dom: "j \<le> 2 \<and> allocated s2 u" if "own' u = Some (j, p)" for u j p
  proof -
    have "allocated s1 u" "j \<le> 2"
      using that table_inv_alloc [OF inv(1)] table_inv_alloc [OF inv(1) t] pool(4,5) by (auto simp: own' split: if_splits)
    then show ?thesis by (simp add: s2 allocated_def pool_page_def)
  qed
  have root: "root_page_table s2 \<noteq> 0 \<Longrightarrow> own' (root_page_table s2) = Some (2, 0)"
    using table_inv_root [OF inv(1)] s1 s2 np by (auto simp: own')
  show "table_inv own' s2"
  proof (rule table_invI)
    fix u j w
    assume "own' u = Some (Suc j, drop_bit (9 * Suc (Suc j)) w)" "pt s2 (u + 8 * vpn_idx w (Suc j)) AND PTE_V \<noteq> 0"
    then show "PTE_TABLE (pt s2 (u + 8 * vpn_idx w (Suc j))) \<and>
       own' (push_bit 12 (pte_ppn (pt s2 (u + 8 * vpn_idx w (Suc j))))) = Some (j, drop_bit (9 * Suc j) w)"
      by (intro step [where u = u]) simp_all
  qed (rule root dom, assumption)+
qed

text \<open>A walk that may create tables returns the address of the leaf entry and keeps the
  abstract view; only page-table words and the pool's counter change.\<close>

lemma walk_loop_create:
  assumes "table_inv own s" "pool_ok s" "own t = Some (i, drop_bit (9 * Suc i) (vpn a))"
    "walk_loop a True i t s = Some (e, s')"
  shows "\<exists>own' m n. s' = s\<lparr>pt := m, next_free_page := n\<rparr> \<and> table_inv own' s' \<and> pool_ok s'
     \<and> leaf m i t (vpn a) = Some e \<and> tab_ext own (pt s) own' m"
  using assms
proof (induction i arbitrary: own t s)
  case 0
  then show ?case
    by (intro exI [of _ own] exI [of _ "pt s"] exI [of _ "next_free_page s"])
      (auto simp: pt_idx_vpn tab_ext_refl)
next
  case (Suc i)
  have i2: "Suc i \<le> 2" using table_inv_alloc [OF Suc.prems(1,3)] by simp
  define x where "x = t + 8 * vpn_idx (vpn a) (Suc i)"
  have x: "t + 8 * pt_idx a (Suc i) = x" by (simp add: x_def pt_idx_vpn [OF i2])
  show ?case
  proof (cases "pt s x AND PTE_V = 0")
    case True
    then obtain page s1 where al: "page_alloc s = Some (page, s1)"
      using Suc.prems(4) by (cases "page_alloc s") (auto simp: x)
    define s2 where "s2 = s1\<lparr>pt := (pt s1)(x := ptd_create (ppn page))\<rparr>"
    note T = alloc_table [OF Suc.prems(1-3) x_def True al s2_def refl]
    note P = page_alloc_pool [OF Suc.prems(2) al]
    have "pool_ok s2" using P(1) by (simp add: s2_def pool_ok_def)
    moreover have w: "walk_loop a True i page s2 = Some (e, s')"
      using Suc.prems(4) True al T(4) by (simp add: x s2_def)
    ultimately obtain own' m n where IH: "s' = s2\<lparr>pt := m, next_free_page := n\<rparr>"
       "table_inv own' s'" "pool_ok s'" "leaf m i page (vpn a) = Some e"
       "tab_ext (own(page \<mapsto> (i, drop_bit (9 * Suc i) (vpn a)))) (pt s2) own' m"
      using Suc.IH [OF T(1) _ fun_upd_same] by blast
    have V: "pt s2 x AND PTE_V \<noteq> 0" by (simp add: s2_def ptd_create_table)
    moreover have "(own(page \<mapsto> (i, drop_bit (9 * Suc i) (vpn a)))) t = Some (Suc i, drop_bit (9 * Suc (Suc i)) (vpn a))"
      using Suc.prems(3) T(2) by auto
    ultimately have "m x = pt s2 x" using tab_extD(2) [OF IH(5)] unfolding x_def by blast
    with IH(4) V T(4) have "leaf m (Suc i) t (vpn a) = Some e" by (simp add: x_def)
    moreover have "s' = s\<lparr>pt := m, next_free_page := n\<rparr>"
      using IH(1) al by (simp add: s2_def page_alloc_Some)
    ultimately show ?thesis using IH tab_ext_trans [OF T(3)] by blast
  next
    case False
    note N = table_inv_next [OF Suc.prems(1,3) False [unfolded x_def]]
    have "walk_loop a True i (push_bit 12 (pte_ppn (pt s x))) s = Some (e, s')"
      using Suc.prems(4) False N(1) by (simp add: x x_def [symmetric] kassert_def)
    then obtain own' m n where IH: "s' = s\<lparr>pt := m, next_free_page := n\<rparr>"
       "table_inv own' s'" "pool_ok s'" "leaf m i (push_bit 12 (pte_ppn (pt s x))) (vpn a) = Some e"
       "tab_ext own (pt s) own' m"
      using Suc.IH [OF Suc.prems(1,2) N(2)] x_def by blast
    moreover have "m x = pt s x" using tab_extD(2) [OF IH(5) Suc.prems(3)] False
      unfolding x_def by blast
    ultimately have "leaf m (Suc i) t (vpn a) = Some e" using False by (simp add: x_def)
    then show ?thesis using IH by blast
  qed
qed

lemma walk_loop_find:
  assumes "table_inv own s" "own t = Some (i, drop_bit (9 * Suc i) (vpn a))" 
  shows "walk_loop a False i t s = Some (case leaf (pt s) i t (vpn a) of None \<Rightarrow> 0 | Some e \<Rightarrow> e, s)"
  using assms(2)
proof (induction i arbitrary: t)
  case 0
  then show ?case by (simp add: pt_idx_vpn)
next
  case (Suc i)
  have i2: "Suc i \<le> 2" using table_inv_alloc [OF assms(1) Suc.prems] by simp
  show ?case
    using Suc.IH table_inv_next [OF assms(1) Suc.prems]
    by (auto simp: pt_idx_vpn [OF i2] Let_def kassert_def)
qed


lemma leaf_upd:
  assumes inv: "table_inv own s" "pool_ok s"
    and tv: "own tv = Some (0, drop_bit 9 v)"
    and "own t = Some (i, drop_bit (9 * Suc i) w)"
  shows "leaf ((pt s)(tv + 8 * vpn_idx v 0 := x)) i t w = leaf (pt s) i t w"
  using assms(4)
proof (induction i arbitrary: t)
  case (Suc i)
  have "tv + 8 * vpn_idx v 0 \<noteq> t + 8 * vpn_idx w (Suc i)"
    using entry_inj [of tv t] table_inv_base [OF inv] tv Suc.prems by fastforce
  then show ?case using Suc.IH table_inv_next [OF inv(1) Suc.prems] by (auto simp: Let_def)
qed simp

text \<open>\<open>is_slot s v e\<close>: \<open>e\<close> is the address of the leaf entry of page \<open>v\<close>.\<close>

definition is_slot :: "('fs, 'fil, 'z) vm_state_scheme \<Rightarrow> vpn \<Rightarrow> u64 \<Rightarrow> bool" where
  "is_slot s v e \<longleftrightarrow> root_page_table s \<noteq> 0 \<and> leaf (pt s) 2 (root_page_table s) v = Some e"

lemma table_inv_root_key:
  "table_inv own s \<Longrightarrow> root_page_table s \<noteq> 0 \<Longrightarrow>
     own (root_page_table s) = Some (2, drop_bit (9 * Suc 2) v)"
proof -
  have "drop_bit (9 * Suc 2) v = 0" by (rule bit_word_eqI) (simp add: bit_simps)
  then show "table_inv own s \<Longrightarrow> root_page_table s \<noteq> 0 \<Longrightarrow> ?thesis" by (simp add: table_inv_root)
qed

lemma slot_owned:
  assumes "table_inv own s" "is_slot s v e"
  obtains tv where "own tv = Some (0, drop_bit 9 v)" "e = tv + 8 * vpn_idx v 0"
  using leaf_owned [OF assms(1) table_inv_root_key [OF assms(1)]] assms(2)
  unfolding is_slot_def by blast

lemma slot_entry: "is_slot s v e \<Longrightarrow> pt s e = look s v"
  by (simp add: is_slot_def look_def entry_at_def)

lemma slot_nonnull: "pt_wf s \<Longrightarrow> is_slot s v e \<Longrightarrow> e \<noteq> 0"
proof -
  assume "pt_wf s" "is_slot s v e"
  then obtain own tv where *: "table_inv own s" "pool_ok s" "own tv = Some (0, drop_bit 9 v)" "e = tv + 8 * vpn_idx v 0"
    using slot_owned unfolding pt_wf_def by metis
  then have "page_base tv" by (metis table_inv_base)
  then have "unat e = unat tv + 8 * unat (vpn_idx v 0)" "unat tv \<noteq> 0"
    using unat_off [of tv "8 * unat (vpn_idx v 0)"] vpn_idx_less [of v 0] *(4) by (auto simp: page_base_def unat_eq_0)
  then show "e \<noteq> 0" by auto
qed

lemma table_inv_slot_upd:
  assumes "table_inv own s" "pool_ok s" "is_slot s v e"
  shows "table_inv own (s\<lparr>pt := (pt s)(e := x)\<rparr>)"
proof (rule table_invI)
  obtain tv where tv: "own tv = Some (0, drop_bit 9 v)" "e = tv + 8 * vpn_idx v 0"
    using slot_owned [OF assms(1,3)] .
  fix t i w
  let ?s = "s\<lparr>pt := (pt s)(e := x)\<rparr>"
  assume t: "own t = Some (Suc i, drop_bit (9 * Suc (Suc i)) w)"
    and V: "pt ?s (t + 8 * vpn_idx w (Suc i)) AND PTE_V \<noteq> 0"
  have "e \<noteq> t + 8 * vpn_idx w (Suc i)"
    using entry_inj [of tv t] table_inv_base [OF assms(1,2)] tv t by fastforce
  then have "pt ?s (t + 8 * vpn_idx w (Suc i)) = pt s (t + 8 * vpn_idx w (Suc i))" by simp
  with table_inv_next [OF assms(1) t] V
  show "PTE_TABLE (pt ?s (t + 8 * vpn_idx w (Suc i))) \<and>
    own (push_bit 12 (pte_ppn (pt ?s (t + 8 * vpn_idx w (Suc i))))) = Some (i, drop_bit (9 * Suc i) w)"
    by simp
qed (use table_inv_root [OF assms(1)] table_inv_alloc [OF assms(1)] in \<open>auto simp: allocated_def pool_page_def\<close>)

text \<open>Storing through a leaf pointer is an update of the abstract map.\<close>

lemma slot_upd:
  assumes "pt_wf s" "is_slot s v e"
  shows "pt_wf (s\<lparr>pt := (pt s)(e := x)\<rparr>)" "look (s\<lparr>pt := (pt s)(e := x)\<rparr>) = (look s)(v := x)"
    "is_slot (s\<lparr>pt := (pt s)(e := x)\<rparr>) w e' = is_slot s w e'"
proof -
  obtain own where inv: "table_inv own s" "pool_ok s" using assms(1) by (auto simp: pt_wf_def)
  obtain tv where tv: "own tv = Some (0, drop_bit 9 v)" "e = tv + 8 * vpn_idx v 0"
    using slot_owned [OF inv(1) assms(2)] .
  have r: "root_page_table s \<noteq> 0" using assms(2) by (simp add: is_slot_def)
  note key = table_inv_root_key [OF inv(1) r]
  show "pt_wf (s\<lparr>pt := (pt s)(e := x)\<rparr>)"
    using table_inv_slot_upd [OF inv assms(2)] inv(2) by (auto simp: pt_wf_def pool_ok_def)
  show "is_slot (s\<lparr>pt := (pt s)(e := x)\<rparr>) w e' = is_slot s w e'"
    using leaf_upd [OF inv tv(1) key] tv(2) by (simp add: is_slot_def)
  show "look (s\<lparr>pt := (pt s)(e := x)\<rparr>) = (look s)(v := x)"
  proof
    fix w
    show "look (s\<lparr>pt := (pt s)(e := x)\<rparr>) w = ((look s)(v := x)) w"
    proof (cases "w = v")
      case True
      then show ?thesis using leaf_upd [OF inv tv(1) key] tv(2) assms(2)
        by (simp add: look_def entry_at_def is_slot_def)
    next
      case False
      then show ?thesis using entry_at_upd [OF inv tv(1) key] tv(2) by (simp add: look_def)
    qed
  qed
qed

section \<open>What a walk does\<close>

text \<open>The fields a walk may change.\<close>

definition tables_only :: "('fs, 'fil, 'z) vm_state_scheme \<Rightarrow> ('fs, 'fil, 'z) vm_state_scheme \<Rightarrow> bool" where
  "tables_only s s' \<longleftrightarrow> s' = s\<lparr>pt := pt s', next_free_page := next_free_page s',
     root_page_table := root_page_table s', sptbr := sptbr s'\<rparr>"

lemma tables_only_trans: "tables_only s t \<Longrightarrow> tables_only t u \<Longrightarrow> tables_only s u"
  unfolding tables_only_def by (cases s, cases t, cases u) simp

lemma tables_only_refl [simp]: "tables_only s s"
  by (simp add: tables_only_def)

lemma tables_only_fields:
  assumes "tables_only s s'"
  shows "vmrs s' = vmrs s" "vmr_tab s' = vmr_tab s" "current s' = current s" "vm_lock s' = vm_lock s"
    "have_vm s' = have_vm s" "free_pages s' = free_pages s" "first_free_page s' = first_free_page s"
    "files s' = files s" "disk s' = disk s" "ram s' = ram s" "refcnt_lock s' = refcnt_lock s"
    "file_lock s' = file_lock s" "sstatus s' = sstatus s" "mem_size s' = mem_size s"
  using assms unfolding tables_only_def by (cases s, cases s', simp)+

lemma look_nil: "root_page_table s = 0 \<Longrightarrow> look s = (\<lambda>_. 0)"
  by (simp add: look_def fun_eq_iff)

lemma create_root:
  assumes "pt_wf s" "maybe_create_root_page_table s = Some s'"
  shows "pt_wf s'" "look s' = look s" "root_page_table s' \<noteq> 0" "tables_only s s'"
proof -
  have "pt_wf s' \<and> look s' = look s \<and> root_page_table s' \<noteq> 0 \<and> tables_only s s'"
  proof (cases "root_page_table s = 0")
    case False
    with assms show ?thesis by (simp add: maybe_create_root_page_table_def)
  next
    case True
    obtain p s1 where al: "page_alloc s = Some (p, s1)"
      and s': "s' = (if have_vm s then s1\<lparr>root_page_table := p, sptbr := p\<rparr> else s1\<lparr>root_page_table := p\<rparr>)"
      using assms(2) True
      by (cases "page_alloc s") (auto simp: maybe_create_root_page_table_def page_alloc_Some Let_def)
    have pool: "pool_ok s" using assms(1) by (simp add: pt_wf_def)
    note P = page_alloc_pool [OF pool al] and s1 = al [unfolded page_alloc_Some]
    have m: "pt s' = zero_range (pt s) p RISCV_PGSIZE" "root_page_table s' = p" using s1 s' by simp_all
    have "table_inv [p \<mapsto> (2, 0)] s'"
    proof (rule table_invI)
      show "i \<le> 2 \<and> allocated s' t" if "[p \<mapsto> (2, 0)] t = Some (i, q)" for t q and i :: nat
        using that P(4) s' by (auto simp: allocated_def pool_page_def split: if_splits)
    qed (auto simp: m zero_entry split: if_splits)
    moreover have "pool_ok s'" using P(1) s' by (simp add: pool_ok_def)
    moreover have "look s' = look s"
      using True by (simp add: look_nil fun_eq_iff look_def [of s'] entry_at_def m numeral_2_eq_2 zero_entry)
    moreover have "p \<noteq> 0" using P(2) by (simp add: page_base_def)
    moreover have "tables_only s s'" using s1 s' by (simp add: tables_only_def)
    ultimately show ?thesis using m by (auto simp: pt_wf_def)
  qed
  then show "pt_wf s'" "look s' = look s" "root_page_table s' \<noteq> 0" "tables_only s s'" by auto
qed

lemma walk_create_spec:
  assumes "pt_wf s" "walk_create a s = Some (e, s')"
  shows "pt_wf s'" "look s' = look s" "tables_only s s'" "is_slot s' (vpn a) e"
    "root_page_table s' \<noteq> 0"
proof -
  obtain s1 where s1: "maybe_create_root_page_table s = Some s1"
    "walk_loop a True 2 (root_page_table s1) s1 = Some (e, s')"
    using assms(2) by (cases "maybe_create_root_page_table s")
      (auto simp: walk_create_def walk_internal_def)
  note R = create_root [OF assms(1) s1(1)]
  obtain own where own: "table_inv own s1" "pool_ok s1" using R(1) by (auto simp: pt_wf_def)
  obtain own' m n where W: "s' = s1\<lparr>pt := m, next_free_page := n\<rparr>" "table_inv own' s'" "pool_ok s'"
    "leaf m 2 (root_page_table s1) (vpn a) = Some e" "tab_ext own (pt s1) own' m"
    using walk_loop_create [OF own table_inv_root_key [OF own(1) R(3)] s1(2)] by blast
  show "pt_wf s'" using W by (auto simp: pt_wf_def)
  show "is_slot s' (vpn a) e" "root_page_table s' \<noteq> 0" using W R(3) by (simp_all add: is_slot_def)
  have "look s' w = look s1 w" for w
    using tab_extD(3) [OF W(5) table_inv_root_key [OF own(1) R(3)]] W(1) by (simp add: look_def)
  with R(2) show "look s' = look s" by auto
  have "tables_only s1 s'" using W(1) by (simp add: tables_only_def)
  with R(4) show "tables_only s s'" by (rule tables_only_trans)
qed

lemma walk_spec:
  assumes "pt_wf s" "walk a s = Some (e, s')"
  shows "pt_wf s'" "look s' = look s" "tables_only s s'"
    "e = 0 \<and> look s (vpn a) = 0 \<or> is_slot s' (vpn a) e" "root_page_table s' \<noteq> 0"
proof -
  obtain s1 where s1: "maybe_create_root_page_table s = Some s1"
    "walk_loop a False 2 (root_page_table s1) s1 = Some (e, s')"
    using assms(2) by (cases "maybe_create_root_page_table s")
      (auto simp: walk_def walk_internal_def)
  note R = create_root [OF assms(1) s1(1)]
  obtain own where own: "table_inv own s1" "pool_ok s1" using R(1) by (auto simp: pt_wf_def)
  have W: "s' = s1" "e = (case leaf (pt s1) 2 (root_page_table s1) (vpn a) of None \<Rightarrow> 0 | Some e \<Rightarrow> e)"
    using walk_loop_find [OF own(1) table_inv_root_key [OF own(1) R(3)]] s1(2) by auto
  show "pt_wf s'" "look s' = look s" "tables_only s s'" "root_page_table s' \<noteq> 0" using R W by auto
  show "e = 0 \<and> look s (vpn a) = 0 \<or> is_slot s' (vpn a) e"
    using W R(3) R(2) [symmetric] by (auto simp: is_slot_def look_def entry_at_def split: option.splits)
qed

text \<open>Walks return: always without creation, once the root exists; with creation while three
  pages are left.\<close>

lemma walk_returns:
  assumes "pt_wf s" "root_page_table s \<noteq> 0"
  shows "\<exists>e. walk a s = Some (e, s)"
proof -
  obtain own where own: "table_inv own s" using assms(1) by (auto simp: pt_wf_def)
  show ?thesis
    using walk_loop_find [OF own table_inv_root_key [OF own assms(2)]] assms(2)
    by (simp add: walk_def walk_internal_def maybe_create_root_page_table_def)
qed

lemma page_alloc_returns:
  "next_free_page s < free_pages s \<Longrightarrow> \<exists>p s'. page_alloc s = Some (p, s') \<and> unat (next_free_page s') = Suc (unat (next_free_page s))"
  using unsigned_less [of "free_pages s", where 'a = nat]
  by (auto simp: page_alloc_Some word_less_nat_alt unat_word_ariths(1))

lemma walk_loop_returns:
  assumes "table_inv own s" "pool_ok s" "own t = Some (i, drop_bit (9 * Suc i) (vpn a))"
    "unat (next_free_page s) + i \<le> unat (free_pages s)"
  shows "\<exists>e s'. walk_loop a True i t s = Some (e, s') \<and> unat (next_free_page s') \<le> unat (next_free_page s) + i"
  using assms
proof (induction i arbitrary: own t s)
  case (Suc i)
  have i2: "Suc i \<le> 2" using table_inv_alloc [OF Suc.prems(1,3)] by simp
  define x where "x = t + 8 * vpn_idx (vpn a) (Suc i)"
  have x: "t + 8 * pt_idx a (Suc i) = x" by (simp add: x_def pt_idx_vpn [OF i2])
  show ?case
  proof (cases "pt s x AND PTE_V = 0")
    case True
    obtain page s1 where al: "page_alloc s = Some (page, s1)" "unat (next_free_page s1) = Suc (unat (next_free_page s))"
      using page_alloc_returns [of s] Suc.prems(4) by (auto simp: word_less_nat_alt)
    define s2 where "s2 = s1\<lparr>pt := (pt s1)(x := ptd_create (ppn page))\<rparr>"
    note T = alloc_table [OF Suc.prems(1-3) x_def True al(1) s2_def refl]
    have "pool_ok s2" using page_alloc_pool(1) [OF Suc.prems(2) al(1)] by (simp add: s2_def pool_ok_def)
    moreover have "unat (next_free_page s2) + i \<le> unat (free_pages s2)"
      using Suc.prems(4) al by (simp add: s2_def page_alloc_Some)
    ultimately obtain e s' where "walk_loop a True i page s2 = Some (e, s')"
      "unat (next_free_page s') \<le> unat (next_free_page s2) + i"
      using Suc.IH [OF T(1) _ fun_upd_same] by blast
    with True al T(4) show ?thesis by (simp add: x s2_def)
  next
    case False
    note N = table_inv_next [OF Suc.prems(1,3) False [unfolded x_def]]
    have "unat (next_free_page s) + i \<le> unat (free_pages s)" using Suc.prems(4) by simp
    then obtain e s' where "walk_loop a True i (push_bit 12 (pte_ppn (pt s x))) s = Some (e, s')"
      "unat (next_free_page s') \<le> unat (next_free_page s) + i"
      using Suc.IH [OF Suc.prems(1,2) N(2)] unfolding x_def by blast
    with False N(1) show ?thesis by (simp add: x x_def [symmetric] kassert_def)
  qed
qed simp

lemma walk_create_returns:
  assumes "pt_wf s" "unat (next_free_page s) + 3 \<le> unat (free_pages s)"
  shows "\<exists>e s'. walk_create a s = Some (e, s') \<and> unat (next_free_page s') \<le> unat (next_free_page s) + 3"
proof -
  obtain s1 where s1: "maybe_create_root_page_table s = Some s1"
    "unat (next_free_page s1) \<le> Suc (unat (next_free_page s))"
    using page_alloc_returns [of s] assms(2)
    by (cases "root_page_table s = 0") (auto simp: maybe_create_root_page_table_def word_less_nat_alt Let_def)
  note R = create_root [OF assms(1) s1(1)]
  obtain own where own: "table_inv own s1" "pool_ok s1" using R(1) by (auto simp: pt_wf_def)
  have "unat (next_free_page s1) + 2 \<le> unat (free_pages s1)"
    using s1(2) assms(2) tables_only_fields(6) [OF R(4)] by simp
  from walk_loop_returns [OF own table_inv_root_key [OF own(1) R(3)] this]
  obtain e s' where "walk_loop a True 2 (root_page_table s1) s1 = Some (e, s')"
    "unat (next_free_page s') \<le> unat (next_free_page s1) + 2" by blast
  then show ?thesis using s1 by (simp add: walk_create_def walk_internal_def)
qed

end
