(* ===== verification/Vm_Region.thy ===== *)
theory Vm_Region
  imports Vm_Table
begin

text \<open>
  Mappings, unmappings and page faults on the abstract page map, with the reference counts of
  the region descriptors.  The invariant \<open>vm_inv x\<close> says that every descriptor counts the
  pages that still point to it (plus \<open>x i\<close> pages about to be mapped), that every entry that is
  not valid is 0 or points to a descriptor, and that the tables are a tree (\<open>pt_wf\<close>).  The loops
  over page ranges share the contract \<open>page_update\<close>.
\<close>


section \<open>Page loops\<close>

definition page_count :: "u64 \<Rightarrow> u64 \<Rightarrow> nat" where
  "page_count a hi = (unat hi - unat a + 4095) div 4096"

fun pages :: "u64 \<Rightarrow> nat \<Rightarrow> u64 list" where
  "pages a 0 = []"
| "pages a (Suc n) = a # pages (a + RISCV_PGSIZE) n"

lemma page_count_step:
  assumes "a < hi" "unat hi + 4096 \<le> 2 ^ 64"
  shows "page_count a hi = Suc (page_count (a + RISCV_PGSIZE) hi)"
proof -
  have lt: "unat a < unat hi" using assms(1) by (simp add: word_less_nat_alt)
  then have "unat (a + RISCV_PGSIZE) = unat a + 4096"
    using assms(2) by (simp add: unat_word_ariths(1))
  with lt show ?thesis unfolding page_count_def by (auto simp: div_if)
qed

text \<open>Away from the top of the address space the loop visits each page of the range once.\<close>

lemma page_loop_fold:
  assumes "unat hi + 4096 \<le> 2 ^ 64"
  shows "page_loop body a hi s = fold_opt body (pages a (page_count a hi)) s"
proof (induction "page_count a hi" arbitrary: a s)
  case 0
  have "\<not> a < hi"
  proof
    assume "a < hi"
    with page_count_step [OF this assms] 0 show False by simp
  qed
  then show ?case using 0 by (subst page_loop.simps) simp
next
  case (Suc n)
  have "a < hi"
  proof (rule ccontr)
    assume "\<not> a < hi"
    then have "unat hi - unat a = 0" by (simp add: word_less_nat_alt)
    with Suc(2) show False by (simp add: page_count_def)
  qed
  with page_count_step [OF this assms] Suc show ?case
    by (subst page_loop.simps) (auto intro!: bind_option_cong)
qed

lemma length_pages [simp]: "length (pages a n) = n"
  by (induction n arbitrary: a) auto

lemma in_pages: "x \<in> set (pages a n) \<longleftrightarrow> (\<exists>k<n. x = a + RISCV_PGSIZE * of_nat k)"
proof (induction n arbitrary: a)
  case (Suc n)
  show ?case unfolding pages.simps list.set insert_iff Suc.IH
    by (auto simp: algebra_simps less_Suc_eq_0_disj)
qed simp


lemma pages_below:
  assumes "unat hi + 4096 \<le> 2 ^ 64" "b \<in> set (pages a (page_count a hi))"
  shows "a \<le> b \<and> b < hi"
  using assms(2)
proof (induction "page_count a hi" arbitrary: a)
  case (Suc n)
  have "a < hi"
  proof (rule ccontr)
    assume "\<not> a < hi"
    then have "unat hi - unat a = 0" by (simp add: word_less_nat_alt)
    with Suc(2) show False by (simp add: page_count_def)
  qed
  note st = page_count_step [OF this assms(1)]
  have "unat a + 4096 < 2 ^ 64" using \<open>a < hi\<close> assms(1) by (simp add: word_less_nat_alt)
  then have "a \<le> a + RISCV_PGSIZE" by (simp add: word_le_nat_alt unat_word_ariths(1))
  with st Suc \<open>a < hi\<close> show ?case by (fastforce dest: order_trans)
qed simp

text \<open>
  A loop body that works on one page: it keeps an invariant, in which a counter of pages still
  to come may occur, leaves the view of every other page alone and establishes \<open>Q\<close> of its own.
\<close>

locale page_update =
  fixes body :: "u64 \<Rightarrow> 's \<Rightarrow> 's option"
    and inv :: "nat \<Rightarrow> 's \<Rightarrow> bool"
    and view :: "'s \<Rightarrow> vpn \<Rightarrow> u64"
    and Q :: "u64 \<Rightarrow> bool"
  assumes step: "inv (Suc n) s \<Longrightarrow> unat a + 8192 \<le> 2 ^ 64 \<Longrightarrow> body a s = Some s' \<Longrightarrow>
    inv n s' \<and> (\<forall>v. v \<noteq> vpn a \<longrightarrow> view s' v = view s v) \<and> Q (view s' (vpn a))"
begin

lemma fold_pages:
  "inv (n + length as) s \<Longrightarrow> \<forall>a\<in>set as. unat a + 8192 \<le> 2 ^ 64 \<Longrightarrow> fold_opt body as s = Some s' \<Longrightarrow>
     inv n s' \<and> (\<forall>v. v \<notin> vpn ` set as \<longrightarrow> view s' v = view s v) \<and> (\<forall>v \<in> vpn ` set as. Q (view s' v))"
proof (induction as arbitrary: s)
  case (Cons a as)
  then obtain s1 where s1: "body a s = Some s1" "fold_opt body as s1 = Some s'"
    by (cases "body a s") auto
  with step [of "n + length as" s a s1] Cons.prems(1,2)
  have st: "inv (n + length as) s1" "\<forall>v. v \<noteq> vpn a \<longrightarrow> view s1 v = view s v" "Q (view s1 (vpn a))" by auto
  then have IH: "inv n s'" "\<forall>v. v \<notin> vpn ` set as \<longrightarrow> view s' v = view s1 v" "\<forall>v \<in> vpn ` set as. Q (view s' v)"
    using Cons.IH [OF _ _ s1(2)] Cons.prems(2) by auto
  then have "Q (view s' (vpn a))" using st(3) by (cases "vpn a \<in> vpn ` set as") auto
  with IH st(2) show ?case by auto
qed auto

lemma loop_pages:
  assumes "unat hi + 8192 \<le> 2 ^ 64" "inv (n + page_count a hi) s" "page_loop body a hi s = Some s'"
  shows "inv n s' \<and> (\<forall>v. v \<notin> vpn ` set (pages a (page_count a hi)) \<longrightarrow> view s' v = view s v)
    \<and> (\<forall>v \<in> vpn ` set (pages a (page_count a hi)). Q (view s' v))"
proof -
  have "\<forall>b\<in>set (pages a (page_count a hi)). unat b + 8192 \<le> 2 ^ 64"
    using pages_below [of hi _ a] assms(1) by (fastforce simp: word_less_nat_alt)
  with fold_pages [of n "pages a (page_count a hi)"] assms show ?thesis by (simp add: page_loop_fold)
qed

end

section \<open>Frames\<close>

lemma more_fields:
  assumes "file_state.more s' = file_state.more s"
  shows "pt s' = pt s" "root_page_table s' = root_page_table s" "vmrs s' = vmrs s" "vmr_tab s' = vmr_tab s"
    "current s' = current s" "vm_lock s' = vm_lock s" "have_vm s' = have_vm s" "free_pages s' = free_pages s"
    "first_free_page s' = first_free_page s" "next_free_page s' = next_free_page s" "sptbr s' = sptbr s"
    "mem_size s' = mem_size s"
  using assms by (cases s, cases s', simp)+

lemma file_decref_frame:
  assumes "file_decref F i s = Some s'"
  shows "file_state.more s' = file_state.more s" "refcnt_lock s' = 0" "file_lock s' = file_lock s" "ram s' = ram s"
  using assms by (auto simp: file_decref_def lock_simps Let_def split: bind_splits prod.splits if_splits)

lemma file_decref_returns: "refcnt_lock s = 0 \<Longrightarrow> \<exists>s'. file_decref F i s = Some s'"
  by (simp add: file_decref_def lock_refcnt_def spinlock_lock_irqsave_def disable_irqsave_def Let_def)

lemma file_incref_frame:
  assumes "file_incref i s = Some s'"
  shows "file_state.more s' = file_state.more s" "refcnt_lock s' = 0" "file_lock s' = file_lock s" "ram s' = ram s"
  using assms by (auto simp: file_incref_def lock_simps Let_def split: bind_splits prod.splits if_splits)

lemma file_pread_frame:
  assumes "file_pread F i buf sz off s = Some (r, s')"
  shows "file_state.more s' = file_state.more s" "refcnt_lock s' = refcnt_lock s" "file_lock s' = 0"
  using assms by (auto simp: file_pread_def fil_lseek_def fil_read_def lock_simps Let_def split: bind_splits prod.splits if_splits)

section \<open>Region reference counts\<close>

definition vmr_refs :: "('fs, 'fil, 'z) vm_state_scheme \<Rightarrow> nat \<Rightarrow> nat" where
  "vmr_refs s i = card {v. look s v = vmr_ptr s i}"

definition regions_ok :: "(nat \<Rightarrow> nat) \<Rightarrow> ('fs, 'fil, 'z) vm_state_scheme \<Rightarrow> bool" where
  "regions_ok x s \<longleftrightarrow>
     (if vmrs s = 0 then vmr_tab s = [] else length (vmr_tab s) = MAX_VMR \<and> page_base (vmrs s))
     \<and> (\<forall>v. look s v \<noteq> 0 \<longrightarrow> look s v AND PTE_V = 0 \<longrightarrow> vmr_index s (look s v) \<noteq> None)
     \<and> (\<forall>i < length (vmr_tab s). unat (v_refcnt (vmr_tab s ! i)) = vmr_refs s i + x i)"

definition vm_inv :: "(nat \<Rightarrow> nat) \<Rightarrow> ('fs, 'fil, 'z) vm_state_scheme \<Rightarrow> bool" where
  "vm_inv x s \<longleftrightarrow> pt_wf s \<and> regions_ok x s \<and> refcnt_lock s = 0 \<and> file_lock s = 0"

abbreviation no_slack :: "nat \<Rightarrow> nat" where "no_slack \<equiv> \<lambda>_. 0"

lemma pt_wf_cong:
  assumes "pt s' = pt s" "root_page_table s' = root_page_table s" "first_free_page s' = first_free_page s"
    "next_free_page s' = next_free_page s" "free_pages s' = free_pages s"
  shows "pt_wf s' = pt_wf s" "look s' = look s" "is_slot s' v e = is_slot s v e"
  unfolding pt_wf_def pool_ok_def table_inv_def allocated_def pool_page_def look_def fun_eq_iff is_slot_def assms
  by simp_all

lemma regions_ok_cong:
  assumes "look s' = look s" "vmrs s' = vmrs s" "vmr_tab s' = vmr_tab s"
  shows "regions_ok x s' = regions_ok x s"
  using assms unfolding regions_ok_def vmr_refs_def vmr_index_def vmr_ptr_def Let_def by simp

lemma vmr_ptr_props:
  assumes "page_base (vmrs s)" "i < MAX_VMR" "length (vmr_tab s) = MAX_VMR"
  shows "vmr_index s (vmr_ptr s i) = Some i" "vmr_ptr s i AND PTE_V = 0" "vmr_ptr s i \<noteq> 0"
proof -
  have k: "unat (of_nat (40 * i) :: u64) = 40 * i"
    using assms(2) by (simp only: unat_of_nat) (simp add: take_bit_nat_eq_self)
  have "vmr_ptr s i - vmrs s = of_nat (40 * i)" by (simp add: vmr_ptr_def)
  then have "unat ((vmr_ptr s i - vmrs s) div 40) = i" using k by (simp add: unat_div)
  then show "vmr_index s (vmr_ptr s i) = Some i"
    using assms by (auto simp: vmr_index_def Let_def page_base_def)
  have u: "unat (vmr_ptr s i) = unat (vmrs s) + 40 * i"
    using unat_off [OF assms(1), of "40 * i"] assms(2) by (simp add: vmr_ptr_def)
  have nz: "unat (vmrs s) \<noteq> 0" "4096 dvd unat (vmrs s)" using assms(1) by (auto simp: page_base_def unat_eq_0)
  with u show "vmr_ptr s i \<noteq> 0" by auto
  have "even (unat (vmr_ptr s i))" using nz u by (auto elim!: dvdE)
  then have "unat (vmr_ptr s i) AND 1 = 0" by (simp add: and_one_eq)
  then have "unat (vmr_ptr s i AND PTE_V) = 0"
    by (simp only: unsigned_and_eq unsigned_1)
  then show "vmr_ptr s i AND PTE_V = 0" by (simp only: unat_eq_0)
qed


text \<open>Counting references after one update of the view.\<close>

lemma card_upd:
  fixes f :: "vpn \<Rightarrow> u64"
  shows "card {v. (f(w := y)) v = p} + of_bool (f w = p) = card {v. f v = p} + of_bool (y = p)"
proof -
  have "{v. (f(w := y)) v = p} = (if y = p then insert w ({v. f v = p} - {w}) else {v. f v = p} - {w})"
    by auto
  moreover have "finite {v. f v = p}" by simp
  ultimately show ?thesis
    by (cases "f w = p") (auto simp: card_insert_if card_Suc_Diff1 simp del: card_Diff_insert)
qed

lemma vmr_refs_upd:
  assumes "look s' = (look s)(w := y)" "vmrs s' = vmrs s"
  shows "vmr_refs s' i + of_bool (look s w = vmr_ptr s i) = vmr_refs s i + of_bool (y = vmr_ptr s i)"
  using card_upd [of "look s" w y "vmr_ptr s i"] assms
  by (simp add: vmr_refs_def vmr_ptr_def)

lemma vmr_index_ptr:
  assumes "vmr_index s p = Some i"
  shows "p = vmr_ptr s i" "i < length (vmr_tab s)" "vmrs s \<noteq> 0"
  using assms by (auto simp: vmr_index_def Let_def split: if_splits)

lemma vmr_decref_frame:
  assumes "vmr_decref F i d s = Some s'"
  shows "pt s' = pt s" "root_page_table s' = root_page_table s" "vmrs s' = vmrs s"
    "current s' = current s" "vm_lock s' = vm_lock s" "have_vm s' = have_vm s" "free_pages s' = free_pages s"
    "first_free_page s' = first_free_page s" "next_free_page s' = next_free_page s"
    "vmr_tab s' = (vmr_tab s)[i := (vmr_tab s ! i)\<lparr>v_refcnt := v_refcnt (vmr_tab s ! i) - d\<rparr>]"
    "refcnt_lock s = 0 \<Longrightarrow> refcnt_lock s' = 0" "file_lock s' = file_lock s" "ram s' = ram s"
  using assms
  by (auto simp: vmr_decref_def Let_def more_fields [OF file_decref_frame(1)] file_decref_frame
      split: if_splits option.splits)


definition entry_ok :: "('fs, 'fil, 'z) vm_state_scheme \<Rightarrow> u64 \<Rightarrow> bool" where
  "entry_ok s y \<longleftrightarrow> (y \<noteq> 0 \<longrightarrow> y AND PTE_V = 0 \<longrightarrow> vmr_index s y \<noteq> None)"

lemma regions_ok_upd:
  assumes "regions_ok x s" "look s' = (look s)(w := y)" "vmrs s' = vmrs s"
    "length (vmr_tab s') = length (vmr_tab s)" "entry_ok s y"
    and cnt: "\<And>i. i < length (vmr_tab s) \<Longrightarrow>
      unat (v_refcnt (vmr_tab s' ! i)) + of_bool (look s w = vmr_ptr s i) + x i
      = unat (v_refcnt (vmr_tab s ! i)) + of_bool (y = vmr_ptr s i) + x' i"
  shows "regions_ok x' s'"
proof -
  have idx: "vmr_index s' p = vmr_index s p" for p
    using assms(3,4) by (simp add: vmr_index_def vmr_ptr_def)
  have len0: "vmr_tab s' = [] \<longleftrightarrow> vmr_tab s = []" using assms(4) by (metis length_0_conv)
  have "unat (v_refcnt (vmr_tab s' ! i)) = vmr_refs s' i + x' i" if "i < length (vmr_tab s)" for i
    using cnt [OF that] vmr_refs_upd [OF assms(2,3), of i] assms(1) that by (auto simp: regions_ok_def)
  then show ?thesis
    using assms(1-5) by (auto simp: regions_ok_def entry_ok_def idx len0 split: if_splits)
qed

lemma regions_ok_props:
  assumes "regions_ok x s" "i < length (vmr_tab s)"
  shows "vmr_index s (vmr_ptr s i) = Some i" "vmr_ptr s i AND PTE_V = 0" "vmr_ptr s i \<noteq> 0"
    "unat (v_refcnt (vmr_tab s ! i)) = vmr_refs s i + x i"
proof -
  have "length (vmr_tab s) = MAX_VMR" "page_base (vmrs s)" using assms by (auto simp: regions_ok_def split: if_splits)
  with vmr_ptr_props [of s i] assms show "vmr_index s (vmr_ptr s i) = Some i" "vmr_ptr s i AND PTE_V = 0" "vmr_ptr s i \<noteq> 0"
    by auto
  show "unat (v_refcnt (vmr_tab s ! i)) = vmr_refs s i + x i" using assms by (simp add: regions_ok_def)
qed

lemma vmr_ptr_inj:
  "regions_ok x s \<Longrightarrow> i < length (vmr_tab s) \<Longrightarrow> j < length (vmr_tab s) \<Longrightarrow>
     vmr_ptr s i = vmr_ptr s j \<longleftrightarrow> i = j"
  using regions_ok_props(1) by (metis option.inject)

lemma vmr_refs_pos: "look s v = vmr_ptr s i \<Longrightarrow> 0 < vmr_refs s i"
  by (auto simp: vmr_refs_def card_gt_0_iff)

text \<open>Dropping one reference while its page still counts.\<close>

lemma decref_count:
  assumes "regions_ok x s" "i < length (vmr_tab s)" "0 < vmr_refs s i + x i" "j < length (vmr_tab s)"
    and "tab = (vmr_tab s)[i := (vmr_tab s ! i)\<lparr>v_refcnt := v_refcnt (vmr_tab s ! i) - 1\<rparr>]"
  shows "unat (v_refcnt (tab ! j)) + of_bool (i = j) = unat (v_refcnt (vmr_tab s ! j))"
proof -
  have "0 < unat (v_refcnt (vmr_tab s ! i))" using regions_ok_props(4) [OF assms(1,2)] assms(3) by simp
  then have "unat (v_refcnt (vmr_tab s ! i) - 1) + 1 = unat (v_refcnt (vmr_tab s ! i))"
    by (subst unat_minus_one) (auto simp: unat_eq_0)
  then show ?thesis using assms(2,4,5) by (auto simp: nth_list_update)
qed

lemma walk_inv:
  assumes "vm_inv x s" "walk a s = Some (e, s')"
  shows "vm_inv x s'"
proof -
  have wf: "pt_wf s" using assms(1) by (simp add: vm_inv_def)
  note W = walk_spec [OF wf assms(2)]
  note F = tables_only_fields [OF W(3)]
  show ?thesis
    using assms(1) W(1) F(11,12) by (simp add: vm_inv_def regions_ok_cong [OF W(2) F(1,2)])
qed

lemma walk_create_inv:
  assumes "vm_inv x s" "walk_create a s = Some (e, s')"
  shows "vm_inv x s'"
proof -
  have wf: "pt_wf s" using assms(1) by (simp add: vm_inv_def)
  note W = walk_create_spec [OF wf assms(2)]
  note F = tables_only_fields [OF W(3)]
  show ?thesis
    using assms(1) W(1) F(11,12) by (simp add: vm_inv_def regions_ok_cong [OF W(2) F(1,2)])
qed

text \<open>What the loop bodies leave alone.\<close>

definition vmr_core :: "vmr_t \<Rightarrow> vmr_t" where
  "vmr_core v = v\<lparr>v_refcnt := 0\<rparr>"

lemma vmr_core_refcnt [simp]: "vmr_core (v\<lparr>v_refcnt := n\<rparr>) = vmr_core v"
  by (simp add: vmr_core_def)

lemma map_core_update:
  "vmr_core w = vmr_core (vs ! i) \<Longrightarrow> map vmr_core (vs[i := w]) = map vmr_core vs"
  by (cases "i < length vs") (auto simp: map_update list_update_same_conv list_update_beyond)

definition vm_frame :: "('fs, 'fil, 'z) vm_state_scheme \<Rightarrow> ('fs, 'fil, 'z) vm_state_scheme \<Rightarrow> bool" where
  "vm_frame s s' \<longleftrightarrow> vmrs s' = vmrs s \<and> current s' = current s \<and> vm_lock s' = vm_lock s
     \<and> have_vm s' = have_vm s \<and> length (vmr_tab s') = length (vmr_tab s) \<and> ram s' = ram s
     \<and> map vmr_core (vmr_tab s') = map vmr_core (vmr_tab s)
     \<and> (root_page_table s \<noteq> 0 \<longrightarrow> root_page_table s' \<noteq> 0)"

lemma vm_frame_trans: "vm_frame s t \<Longrightarrow> vm_frame t u \<Longrightarrow> vm_frame s u"
  by (simp add: vm_frame_def)

lemma set_slot:
  assumes "vm_inv x s" "is_slot s w e" "entry_ok s y"
    and "\<And>i. i < length (vmr_tab s) \<Longrightarrow>
      of_bool (look s w = vmr_ptr s i) + x i = of_bool (y = vmr_ptr s i) + x' i"
    and "s' = s\<lparr>pt := (pt s)(e := y)\<rparr>"
  shows "vm_inv x' s'" "look s' = (look s)(w := y)" "is_slot s' v e' = is_slot s v e'"
proof -
  have wf: "pt_wf s" using assms(1) by (simp add: vm_inv_def)
  note u = slot_upd [OF wf assms(2), of y, folded assms(5)]
  have "regions_ok x' s'"
  proof (rule regions_ok_upd)
    show "regions_ok x s" using assms(1) by (simp add: vm_inv_def)
    show "look s' = (look s)(w := y)" by (rule u(2))
    show "unat (v_refcnt (vmr_tab s' ! i)) + of_bool (look s w = vmr_ptr s i) + x i
      = unat (v_refcnt (vmr_tab s ! i)) + of_bool (y = vmr_ptr s i) + x' i" if "i < length (vmr_tab s)" for i
      using assms(4) [OF that] assms(5) by simp
  qed (use assms in auto)
  then show "vm_inv x' s'" using u(1) assms(1,5) by (simp add: vm_inv_def)
  show "look s' = (look s)(w := y)" by (rule u(2))
  show "is_slot s' v e' = is_slot s v e'" by (rule u(3))
qed


section \<open>Unmapping\<close>

lemma munmap_page_spec:
  assumes inv: "vm_inv x s" and run: "munmap_page F a s = Some s'"
  shows "vm_inv x s'" "look s' = (look s)(vpn a := 0)" "vm_frame s s'"
    "is_slot s (vpn a) e \<Longrightarrow> is_slot s' (vpn a) e"
proof -
  have wf: "pt_wf s" using inv by (simp add: vm_inv_def)
  obtain p s1 where w: "walk a s = Some (p, s1)" using run by (cases "walk a s") (auto simp: munmap_page_def)
  note W = walk_spec [OF wf w] and inv1 = walk_inv [OF inv w]
  note T = tables_only_fields [OF W(3)]
  have fr: "vm_frame s s1" using T W(5) by (simp add: vm_frame_def)
  have *: "vm_inv x s' \<and> look s' = (look s)(vpn a := 0) \<and> vm_frame s1 s' \<and>
     (is_slot s1 (vpn a) e \<longrightarrow> is_slot s' (vpn a) e)"
  proof (cases "p = 0 \<or> pt s1 p = 0")
    case True
    then have "look s (vpn a) = 0" using W(2,4) slot_entry slot_nonnull [OF W(1)] by fastforce
    then have "(look s)(vpn a := 0) = look s" by auto
    moreover have "s' = s1" using run w True by (simp add: munmap_page_def)
    ultimately show ?thesis using inv1 W(2) by (simp add: vm_frame_def)
  next
    case False
    then have slot: "is_slot s1 (vpn a) p" using W(4) by simp
    note ent = slot_entry [OF slot]
    show ?thesis
    proof (cases "pt s1 p AND PTE_V = 0")
      case True
      then obtain i s2 where i: "vmr_index s1 (pt s1 p) = Some i" and d: "vmr_decref F i 1 s1 = Some s2"
        and s': "s' = s2\<lparr>pt := (pt s2)(p := 0)\<rparr>"
        using run w False by (auto simp: munmap_page_def split: bind_splits)
      note I = vmr_index_ptr [OF i] and D = vmr_decref_frame [OF d]
      have reg: "regions_ok x s1" using inv1 by (simp add: vm_inv_def)
      have slot2: "is_slot s2 (vpn a) p" and wf2: "pt_wf s2" and look2: "look s2 = look s1"
        using pt_wf_cong [OF D(1,2,8,9,7)] slot inv1 by (auto simp: vm_inv_def)
      note u = slot_upd [OF wf2 slot2, of 0, folded s']
      have "regions_ok x s'"
      proof (rule regions_ok_upd [OF reg])
        show "look s' = (look s1)(vpn a := 0)" using u(2) look2 by simp
        fix j assume j: "j < length (vmr_tab s1)"
        have tab: "vmr_tab s' = (vmr_tab s1)[i := (vmr_tab s1 ! i)\<lparr>v_refcnt := v_refcnt (vmr_tab s1 ! i) - 1\<rparr>]"
          using D(10) s' by simp
        have "0 < vmr_refs s1 i + x i" using vmr_refs_pos ent I(1) by (simp add: vmr_refs_pos)
        from decref_count [OF reg I(2) this j tab]
        show "unat (v_refcnt (vmr_tab s' ! j)) + of_bool (look s1 (vpn a) = vmr_ptr s1 j) + x j
          = unat (v_refcnt (vmr_tab s1 ! j)) + of_bool (0 = vmr_ptr s1 j) + x j"
          using regions_ok_props(3) [OF reg j] vmr_ptr_inj [OF reg I(2) j] ent I(1) by simp
      qed (use D s' in \<open>auto simp: entry_ok_def\<close>)
      then show ?thesis using u D s' inv1 W(2) look2 pt_wf_cong(3) [OF D(1,2,8,9,7)]
        by (simp add: vm_inv_def vm_frame_def map_core_update)
    next
      case False
      have s': "s' = s1\<lparr>pt := (pt s1)(p := 0)\<rparr>"
        using run w \<open>\<not> (p = 0 \<or> pt s1 p = 0)\<close> False by (simp add: munmap_page_def)
      have reg: "regions_ok x s1" using inv1 by (simp add: vm_inv_def)
      have "of_bool (look s1 (vpn a) = vmr_ptr s1 i) + x i = of_bool (0 = vmr_ptr s1 i) + x i"
        if "i < length (vmr_tab s1)" for i
        using regions_ok_props [OF reg that] False ent by auto
      note S = set_slot [OF inv1 slot _ this s']
      show ?thesis using S W(2) s' by (simp add: entry_ok_def vm_frame_def)
    qed
  qed
  then show "vm_inv x s'" "look s' = (look s)(vpn a := 0)" "vm_frame s s'"
    using vm_frame_trans [OF fr] by auto
  show "is_slot s' (vpn a) e" if "is_slot s (vpn a) e"
    using * walk_returns [OF wf, of a] w that by (auto simp: is_slot_def)
qed


lemma vmr_decref_returns: "refcnt_lock s = 0 \<Longrightarrow> \<exists>s'. vmr_decref F i d s = Some s'"
  by (auto simp: vmr_decref_def Let_def file_decref_returns split: option.splits)

lemma munmap_page_returns:
  assumes inv: "vm_inv x s" and "root_page_table s \<noteq> 0"
  shows "\<exists>s'. munmap_page F a s = Some s'"
proof -
  have wf: "pt_wf s" using inv by (simp add: vm_inv_def)
  obtain p where w: "walk a s = Some (p, s)" using walk_returns [OF wf assms(2)] by blast
  show ?thesis
  proof (cases "p = 0 \<or> pt s p = 0 \<or> pt s p AND PTE_V \<noteq> 0")
    case True
    then show ?thesis using w by (auto simp: munmap_page_def)
  next
    case False
    then have "pt s p = look s (vpn a)" using walk_spec(4) [OF wf w] slot_entry by blast
    then obtain i where "vmr_index s (pt s p) = Some i"
      using inv False by (auto simp: vm_inv_def regions_ok_def)
    moreover obtain s2 where "vmr_decref F i 1 s = Some s2"
      using vmr_decref_returns inv unfolding vm_inv_def by blast
    ultimately show ?thesis using w False by (simp add: munmap_page_def)
  qed
qed

interpretation munmap_loop: page_update "munmap_page F" "\<lambda>_ s. vm_inv x s \<and> vm_frame s0 s" look
    "\<lambda>y. y = 0" for F x s0
proof
  fix s s' a
  assume "vm_inv x s \<and> vm_frame s0 s" "munmap_page F a s = Some s'"
  then show "(vm_inv x s' \<and> vm_frame s0 s') \<and> (\<forall>v. v \<noteq> vpn a \<longrightarrow> look s' v = look s v) \<and> look s' (vpn a) = 0"
    using munmap_page_spec(1-3) [of x s F a s'] vm_frame_trans [of s0 s s'] by auto
qed

lemma page_count_one:
  "unat a + 8192 \<le> 2 ^ 64 \<Longrightarrow> page_count a (a + RISCV_PGSIZE) = 1"
  by (simp add: page_count_def unat_word_ariths(1))

lemma do_munmap_one:
  assumes "unat a + 8192 \<le> 2 ^ 64"
  shows "do_munmap_nolock F a RISCV_PGSIZE s = munmap_page F a s"
proof -
  have "unat (a + RISCV_PGSIZE) + 4096 \<le> 2 ^ 64" using assms by (simp add: unat_word_ariths(1))
  then show ?thesis
    using page_count_one [OF assms]
    by (cases "munmap_page F a s") (simp_all add: do_munmap_nolock_def page_loop_fold)
qed


section \<open>Mapping\<close>

lemma mmap_page_spec:
  assumes inv: "vm_inv x s" and a: "unat a + 8192 \<le> 2 ^ 64"
    and i: "i < length (vmr_tab s)" "x i = Suc n" and run: "mmap_page F (vmr_ptr s i) a s = Some s'"
  shows "vm_inv (x(i := n)) s'" "look s' = (look s)(vpn a := vmr_ptr s i)" "vm_frame s s'"
proof -
  let ?v = "vmr_ptr s i"
  have wf: "pt_wf s" using inv by (simp add: vm_inv_def)
  obtain p s1 where w: "walk_create a s = Some (p, s1)"
    using run by (cases "walk_create a s") (auto simp: mmap_page_def)
  note W = walk_create_spec [OF wf w] and inv1 = walk_create_inv [OF inv w]
  note T = tables_only_fields [OF W(3)]
  have fr: "vm_frame s s1" using T W(5) by (simp add: vm_frame_def)
  obtain s2 where s2: "(if pt s1 p \<noteq> 0 then munmap_page F a s1 else Some s1) = Some s2"
    and s': "s' = s2\<lparr>pt := (pt s2)(p := ?v)\<rparr>"
    using run w by (auto simp: mmap_page_def do_munmap_one [OF a] kassert_def split: bind_splits if_splits)
  have two: "vm_inv x s2 \<and> (look s2)(vpn a := 0) = (look s1)(vpn a := 0) \<and> look s2 (vpn a) = 0
     \<and> vm_frame s1 s2 \<and> is_slot s2 (vpn a) p"
  proof (cases "pt s1 p = 0")
    case True
    then show ?thesis using s2 inv1 W slot_entry [OF W(4)] by (simp add: vm_frame_def)
  next
    case False
    then show ?thesis using s2 munmap_page_spec [OF inv1, of F a s2] W(4) by simp
  qed
  have reg: "regions_ok x s2" and fr2: "vm_frame s s2"
    using two vm_frame_trans [OF fr] by (auto simp: vm_inv_def)
  have ptr: "vmr_ptr s2 j = vmr_ptr s j" for j using fr2 by (simp add: vm_frame_def vmr_ptr_def)
  have len: "length (vmr_tab s2) = length (vmr_tab s)" using fr2 by (simp add: vm_frame_def)
  have cnt: "of_bool (look s2 (vpn a) = vmr_ptr s2 j) + x j = of_bool (?v = vmr_ptr s2 j) + (x(i := n)) j"
    if "j < length (vmr_tab s2)" for j
    using regions_ok_props(3) [OF reg that] vmr_ptr_inj [OF reg _ that, of i] two i len that ptr by auto
  have "entry_ok s2 ?v" using regions_ok_props(1) [OF reg, of i] i len ptr by (simp add: entry_ok_def)
  note S = set_slot [OF _ _ this cnt s']
  have "(look s2)(vpn a := ?v) = (look s)(vpn a := ?v)"
    using two W(2) by (metis fun_upd_upd)
  then show "vm_inv (x(i := n)) s'" "look s' = (look s)(vpn a := ?v)"
    using S(1,2) two by (blast, simp)
  show "vm_frame s s'" using fr2 s' by (simp add: vm_frame_def)
qed


interpretation mmap_loop: page_update "mmap_page F v"
    "\<lambda>n s. vm_inv (x(i := n)) s \<and> i < length (vmr_tab s) \<and> vmr_ptr s i = v \<and> vm_frame s0 s" look
    "\<lambda>y. y = v" for F v x i s0
proof
  fix n s a s'
  assume A: "vm_inv (x(i := Suc n)) s \<and> i < length (vmr_tab s) \<and> vmr_ptr s i = v \<and> vm_frame s0 s"
    and a: "unat a + 8192 \<le> 2 ^ 64" and run: "mmap_page F v a s = Some s'"
  have "mmap_page F (vmr_ptr s i) a s = Some s'" using run A by simp
  note M = mmap_page_spec [OF _ a _ _ this, of "x(i := Suc n)" n]
  have "vm_inv ((x(i := Suc n))(i := n)) s'" "look s' = (look s)(vpn a := vmr_ptr s i)" "vm_frame s s'"
    using M A by auto
  then show "(vm_inv (x(i := n)) s' \<and> i < length (vmr_tab s') \<and> vmr_ptr s' i = v \<and> vm_frame s0 s')
    \<and> (\<forall>w. w \<noteq> vpn a \<longrightarrow> look s' w = look s w) \<and> look s' (vpn a) = v"
    using A vm_frame_trans [of s0 s s'] by (auto simp: vm_frame_def vmr_ptr_def)
qed

section \<open>Page faults\<close>

lemma vm_inv_cong:
  assumes "vm_inv x s" "file_state.more s' = file_state.more s" "refcnt_lock s' = 0" "file_lock s' = 0"
  shows "vm_inv x s'"
proof -
  note m = more_fields [OF assms(2)]
  note c = pt_wf_cong [OF m(1,2,9,10,8)]
  show ?thesis using assms c(1) regions_ok_cong [OF c(2) m(3,4)] by (simp add: vm_inv_def)
qed

lemma decref_inv:
  assumes "vm_inv x s" "i < length (vmr_tab s)" "x i = Suc n" "vmr_decref F i 1 s = Some s'"
  shows "vm_inv (x(i := n)) s'"
proof -
  note D = vmr_decref_frame [OF assms(4)]
  note c = pt_wf_cong [OF D(1,2,8,9,7)]
  have reg: "regions_ok x s" using assms(1) by (simp add: vm_inv_def)
  have "regions_ok (x(i := n)) s'"
  proof (rule regions_ok_upd [OF reg])
    show "look s' = (look s)(0 := look s 0)" using c(2) by simp
    show "entry_ok s (look s 0)" using reg by (simp add: entry_ok_def regions_ok_def)
    fix j assume j: "j < length (vmr_tab s)"
    show "unat (v_refcnt (vmr_tab s' ! j)) + of_bool (look s 0 = vmr_ptr s j) + x j
      = unat (v_refcnt (vmr_tab s ! j)) + of_bool (look s 0 = vmr_ptr s j) + (x(i := n)) j"
      using decref_count [OF reg assms(2) _ j D(10)] assms(3) by auto
  qed (use D in auto)
  then show ?thesis using assms(1) D(11,12) c(1) by (simp add: vm_inv_def)
qed

lemma fill_page_frame:
  assumes "fill_page F v a s = Some s'"
  shows "file_state.more s' = file_state.more s" "refcnt_lock s' = refcnt_lock s"
    "file_lock s = 0 \<Longrightarrow> file_lock s' = 0"
  using assms file_pread_frame
  by (auto simp: fill_page_def kassert_def Let_def split: option.splits bind_splits if_splits)


lemma vpn_page [simp]: "vpn (push_bit 12 (drop_bit 12 a)) = vpn a"
  unfolding vpn_def by (rule bit_word_eqI) (auto simp: bit_simps)

text \<open>The access check on an entry \<open>e\<close>.\<close>

definition grants :: "u64 \<Rightarrow> u32 \<Rightarrow> bool" where
  "grants e prot \<longleftrightarrow> (let perms = 1 OR pte_user_type (take_bit 3 prot) in e AND perms = perms)"

lemma check_perms_grants:
  "check_perms p prot s = Some (if grants (pt s p) prot then 0 else - 1, s)"
  by (simp add: check_perms_def pte_create_def grants_def Let_def and_low_mask)

definition page_user_entry :: "('fs, 'fil, 'z) vm_state_scheme \<Rightarrow> u64 \<Rightarrow> nat \<Rightarrow> u64" where
  "page_user_entry s a i = the (pte_create (drop_bit 12 a) (v_prot (vmr_tab s ! i)) True)"

text \<open>The first access to a page of a region: what the code does between the two stores.\<close>

lemma page_in_spec:
  assumes inv: "vm_inv x s" and slot: "is_slot s w p" and i: "vmr_index s (look s w) = Some i"
    and e1: "pte_create n0 prot0 False = Some e1"
    and fill: "fill_page F v a (s\<lparr>pt := (pt s)(p := e1)\<rparr>) = Some s2" and d: "vmr_decref F i 1 s2 = Some s3"
    and e2: "pte_create n1 prot1 True = Some e2" and s': "s' = s3\<lparr>pt := (pt s3)(p := e2)\<rparr>"
  shows "vm_inv x s'" "look s' = (look s)(w := e2)" "pt s' p = e2"
    "vmr_tab s' = (vmr_tab s)[i := (vmr_tab s ! i)\<lparr>v_refcnt := v_refcnt (vmr_tab s ! i) - 1\<rparr>]"
    "vmrs s' = vmrs s" "current s' = current s" "vm_lock s' = vm_lock s" "have_vm s' = have_vm s"
    "ram s' = ram s2" "root_page_table s' = root_page_table s"
proof -
  define s1 where "s1 = s\<lparr>pt := (pt s)(p := e1)\<rparr>"
  define x1 where "x1 = x(i := Suc (x i))"
  have reg: "regions_ok x s" using inv by (simp add: vm_inv_def)
  note I = vmr_index_ptr [OF i]
  note v1 = pte_create_valid(1) [OF e1] and v2 = pte_create_valid(1) [OF e2]
  have "of_bool (look s w = vmr_ptr s j) + x j = of_bool (e1 = vmr_ptr s j) + x1 j" if "j < length (vmr_tab s)" for j
    using regions_ok_props(2) [OF reg that] vmr_ptr_inj [OF reg I(2) that] I(1) v1 by (auto simp: x1_def)
  note S1 = set_slot [OF inv slot _ this s1_def]
  have inv1: "vm_inv x1 s1" and look1: "look s1 = (look s)(w := e1)" and slot1: "is_slot s1 w p"
    using S1 v1 slot by (auto simp: entry_ok_def)
  note Fi = fill_page_frame [OF fill [folded s1_def]]
  have inv2: "vm_inv x1 s2" by (rule vm_inv_cong [OF inv1 Fi(1)]) (use Fi inv1 in \<open>auto simp: vm_inv_def\<close>)
  note m2 = more_fields [OF Fi(1)]
  note D = vmr_decref_frame [OF d]
  have len: "i < length (vmr_tab s2)" using I(2) m2 by (simp add: s1_def)
  have inv3: "vm_inv (x1(i := x i)) s3" using decref_inv [OF inv2 len _ d, of "x i"] by (simp add: x1_def)
  have x: "x1(i := x i) = x" by (simp add: x1_def)
  note c2 = pt_wf_cong [OF m2(1,2,9,10,8)] and c3 = pt_wf_cong [OF D(1,2,8,9,7)]
  have look3: "look s3 = (look s)(w := e1)" and slot3: "is_slot s3 w p"
    using c2 c3 look1 slot1 by auto
  have reg3: "regions_ok x s3" using inv3 x by (simp add: vm_inv_def)
  have "of_bool (look s3 w = vmr_ptr s3 j) + x j = of_bool (e2 = vmr_ptr s3 j) + x j" if "j < length (vmr_tab s3)" for j
    using regions_ok_props(2) [OF reg3 that] look3 v1 v2 by auto
  note S2 = set_slot [OF inv3 [unfolded x] slot3 _ this s']
  show "vm_inv x s'" "look s' = (look s)(w := e2)"
    using S2 v2 look3 by (auto simp: entry_ok_def)
  show "pt s' p = e2" by (simp add: s')
  show "vmr_tab s' = (vmr_tab s)[i := (vmr_tab s ! i)\<lparr>v_refcnt := v_refcnt (vmr_tab s ! i) - 1\<rparr>]"
    "vmrs s' = vmrs s" "current s' = current s" "vm_lock s' = vm_lock s" "have_vm s' = have_vm s" "ram s' = ram s2"
    "root_page_table s' = root_page_table s"
    using D m2 by (simp_all add: s' s1_def)
qed


definition fault_spec :: "u64 \<Rightarrow> u32 \<Rightarrow> ('fs, 'fil, 'z) vm_state_scheme \<Rightarrow> u64
    \<Rightarrow> ('fs, 'fil, 'z) vm_state_scheme \<Rightarrow> bool" where
  "fault_spec a prot s r s' \<longleftrightarrow>
     (let w = vpn a; e = look s w in
      if e = 0 \<or> \<not> valid_user_range (current s) (push_bit 12 (drop_bit 12 a)) 1
      then r = - 1 \<and> look s' = look s \<and> ram s' = ram s
      else if e AND PTE_V \<noteq> 0
      then r = (if grants e prot then 0 else - 1) \<and> look s' = look s \<and> ram s' = ram s
      else (\<exists>i. vmr_index s e = Some i
        \<and> r = (if grants (page_user_entry s a i) prot then 0 else - 1)
        \<and> look s' = (look s)(w := page_user_entry s a i)))"

lemma page_fault_spec:
  assumes inv: "vm_inv x s" and run: "handle_page_fault_nolock F a prot s = Some (r, s')"
  shows "vm_inv x s' \<and> fault_spec a prot s r s' \<and> vmrs s' = vmrs s \<and> current s' = current s
    \<and> vm_lock s' = vm_lock s \<and> have_vm s' = have_vm s \<and> length (vmr_tab s') = length (vmr_tab s)
    \<and> map vmr_core (vmr_tab s') = map vmr_core (vmr_tab s) \<and> root_page_table s' \<noteq> 0"
proof -
  define page where "page = push_bit 12 (drop_bit 12 a)"
  have wf: "pt_wf s" using inv by (simp add: vm_inv_def)
  obtain p s1 where w: "walk page s = Some (p, s1)"
    using run by (cases "walk page s") (auto simp: handle_page_fault_nolock_def page_def)
  note W = walk_spec [OF wf w] and inv1 = walk_inv [OF inv w]
  note T = tables_only_fields [OF W(3)]
  have vp: "vpn page = vpn a" by (simp add: page_def)
  have idx: "vmr_index s1 e = vmr_index s e" for e using T by (simp add: vmr_index_def vmr_ptr_def)
  note run' = run [unfolded handle_page_fault_nolock_def Let_def, folded page_def]
  show ?thesis
  proof (cases "p = 0 \<or> pt s1 p = 0 \<or> \<not> valid_user_range (current s1) page 1")
    case True
    then have "r = - 1" "s' = s1" using run' w by auto
    moreover have "look s (vpn a) = 0 \<or> \<not> valid_user_range (current s) page 1"
      using True W(2,4) slot_entry slot_nonnull [OF W(1)] T vp by fastforce
    ultimately show ?thesis using T W inv1 by (simp add: fault_spec_def page_def)
  next
    case False
    then have slot: "is_slot s1 (vpn a) p" using W(4) vp by simp
    note ent = slot_entry [OF slot]
    show ?thesis
    proof (cases "pt s1 p AND PTE_V = 0")
      case no: False
      then have "r = (if grants (pt s1 p) prot then 0 else - 1)" "s' = s1"
        using run' w False by (auto simp: check_perms_grants)
      then show ?thesis using T W inv1 ent no False
        by (auto simp: fault_spec_def page_def Let_def)
    next
      case True
      obtain i s2 s3 e1 e2 where i: "vmr_index s1 (look s1 (vpn a)) = Some i"
        and e1: "pte_create (drop_bit 12 a) 3 False = Some e1"
        and f: "fill_page F (vmr_tab s1 ! i) page (s1\<lparr>pt := (pt s1)(p := e1)\<rparr>) = Some s2"
        and d: "vmr_decref F i 1 s2 = Some s3"
        and e2: "pte_create (drop_bit 12 a) (v_prot (vmr_tab s3 ! i)) True = Some e2"
        and c: "check_perms p prot (s3\<lparr>pt := (pt s3)(p := e2)\<rparr>) = Some (r, s')"
        using run' w False True ent by (auto split: bind_splits)
      have s': "s' = s3\<lparr>pt := (pt s3)(p := e2)\<rparr>" using c by (simp add: check_perms_grants)
      note P = page_in_spec [OF inv1 slot i e1 f d e2 s']
      have "v_prot (vmr_tab s3 ! i) = v_prot (vmr_tab s ! i)"
        using P(4) T(2) vmr_index_ptr(2) [OF i] by (simp add: s')
      then have e2': "e2 = page_user_entry s a i" using e2 by (simp add: page_user_entry_def)
      have "r = (if grants e2 prot then 0 else - 1)" using c P(3) by (simp add: check_perms_grants)
      then show ?thesis
        using P T W i True False ent idx e2' by (auto simp: fault_spec_def page_def Let_def map_core_update)
    qed
  qed
qed

text \<open>A page of an anonymous region is filled with zeros, and the fault handler returns.\<close>

lemma page_fault_anon:
  assumes inv: "vm_inv x s" and root: "root_page_table s \<noteq> 0"
    and i: "vmr_index s (look s (vpn a)) = Some i" and "look s (vpn a) AND PTE_V = 0"
    and anon: "v_file (vmr_tab s ! i) = None"
    and valid: "valid_user_range (current s) (push_bit 12 (drop_bit 12 a)) 1"
  shows "\<exists>s'. handle_page_fault_nolock F a prot s
      = Some (if grants (page_user_entry s a i) prot then 0 else - 1, s')
    \<and> ram s' = zero_range (ram s) (push_bit 12 (drop_bit 12 a)) RISCV_PGSIZE"
proof -
  define page where "page = push_bit 12 (drop_bit 12 a)"
  have wf: "pt_wf s" using inv by (simp add: vm_inv_def)
  have reg: "regions_ok x s" using inv by (simp add: vm_inv_def)
  obtain p where w: "walk page s = Some (p, s)" using walk_returns [OF wf root] by blast
  have nz: "look s (vpn a) \<noteq> 0" 
    using vmr_index_ptr [OF i] regions_ok_props(3) [OF reg] by simp
  then have slot: "is_slot s (vpn a) p" using walk_spec(4) [OF wf w] by (simp add: page_def)
  note ent = slot_entry [OF slot]
  obtain e1 where e1: "pte_create (drop_bit 12 a) 3 False = Some e1"
    by (simp add: pte_create_def Let_def kassert_def)
  define s2 where "s2 = s\<lparr>pt := (pt s)(p := e1), ram := zero_range (ram s) page RISCV_PGSIZE\<rparr>"
  have f: "fill_page F (vmr_tab s ! i) page (s\<lparr>pt := (pt s)(p := e1)\<rparr>) = Some s2"
    using anon by (simp add: fill_page_def s2_def)
  have "refcnt_lock s2 = 0" using inv by (simp add: s2_def vm_inv_def)
  then obtain s3 where d: "vmr_decref F i 1 s2 = Some s3" using vmr_decref_returns by blast
  note D = vmr_decref_frame [OF d]
  have prot3: "v_prot (vmr_tab s3 ! i) = v_prot (vmr_tab s ! i)"
    using D(10) vmr_index_ptr(2) [OF i] by (simp add: s2_def)
  obtain e2 where e2: "pte_create (drop_bit 12 a) (v_prot (vmr_tab s ! i)) True = Some e2"
    by (simp add: pte_create_def Let_def)
  have "handle_page_fault_nolock F a prot s = check_perms p prot (s3\<lparr>pt := (pt s3)(p := e2)\<rparr>)"
    unfolding handle_page_fault_nolock_def Let_def page_def [symmetric]
    using w slot_nonnull [OF wf slot] nz ent assms(4) valid i e1 f d e2 prot3
    by (simp add: page_def [symmetric])
  then show ?thesis
    using e2 D(13) by (auto simp: check_perms_grants page_user_entry_def s2_def page_def)
qed


text \<open>What a page fault leaves alone: the frame of the loops, but for the memory it fills.\<close>

definition fault_frame :: "('fs, 'fil, 'z) vm_state_scheme \<Rightarrow> ('fs, 'fil, 'z) vm_state_scheme \<Rightarrow> bool" where
  "fault_frame s s' \<longleftrightarrow> vmrs s' = vmrs s \<and> current s' = current s \<and> vm_lock s' = vm_lock s
     \<and> have_vm s' = have_vm s \<and> length (vmr_tab s') = length (vmr_tab s)
     \<and> map vmr_core (vmr_tab s') = map vmr_core (vmr_tab s)
     \<and> (root_page_table s \<noteq> 0 \<longrightarrow> root_page_table s' \<noteq> 0)"

interpretation populate_loop: page_update "populate_page F prot" "\<lambda>_ s. vm_inv x s \<and> fault_frame s0 s" look
    "\<lambda>y. y AND PTE_V \<noteq> 0 \<and> grants y prot" for F prot x s0
proof
  fix s s' a
  assume A: "vm_inv x s \<and> fault_frame s0 s" and run: "populate_page F prot a s = Some s'"
  have f: "handle_page_fault_nolock F a prot s = Some (0, s')"
    using run by (auto simp: populate_page_def kassert_def split: bind_splits if_splits)
  have S: "vm_inv x s'" "fault_spec a prot s 0 s'" "fault_frame s s'"
    using page_fault_spec [OF _ f, of x] A by (auto simp: fault_frame_def)
  have V: "page_user_entry s a i AND PTE_V \<noteq> 0" for i
    using pte_create_valid(1) [of "drop_bit 12 a" "v_prot (vmr_tab s ! i)" True]
    by (simp add: page_user_entry_def pte_create_def Let_def)
  have "(\<forall>v. v \<noteq> vpn a \<longrightarrow> look s' v = look s v) \<and> look s' (vpn a) AND PTE_V \<noteq> 0 \<and> grants (look s' (vpn a)) prot"
    using S(2) V by (auto simp: fault_spec_def Let_def split: if_splits)
  then show "(vm_inv x s' \<and> fault_frame s0 s') \<and> (\<forall>v. v \<noteq> vpn a \<longrightarrow> look s' v = look s v)
    \<and> look s' (vpn a) AND PTE_V \<noteq> 0 \<and> grants (look s' (vpn a)) prot"
    using S(1,3) A by (auto simp: fault_frame_def)
qed

end
