(* ===== verification/Vm_Map.thy ===== *)
theory Vm_Map
  imports Vm_Region
begin

text \<open>
  The operations of \<open>bbl/vm.c\<close> the rest of the boot loader calls, over the page-level
  specifications of the region theory: \<open>__vm_alloc\<close> (first fit), \<open>__vmr_alloc\<close>,
  \<open>do_mmap\<close>, \<open>do_munmap\<close>, \<open>do_brk\<close>, \<open>do_mprotect\<close>.
\<close>


section \<open>Finding room\<close>

definition avail :: "('fs, 'fil, 'z) vm_state_scheme \<Rightarrow> u64 \<Rightarrow> bool" where
  "avail s a \<longleftrightarrow> look s (vpn a) = 0"

lemma va_avail_eq:
  assumes "pt_wf s" "root_page_table s \<noteq> 0"
  shows "va_avail a s = Some (avail s a, s)"
proof -
  obtain p where w: "walk a s = Some (p, s)" using walk_returns [OF assms] by blast
  note W = walk_spec(4) [OF assms(1) w]
  show ?thesis
  proof (cases "p = 0")
    case True
    then have "look s (vpn a) = 0" using W slot_nonnull [OF assms(1)] by blast
    then show ?thesis using w True by (simp add: va_avail_def avail_def)
  next
    case False
    then show ?thesis using w W slot_entry by (fastforce simp: va_avail_def avail_def)
  qed
qed

text \<open>The inner loop stops at the highest page of the range that is taken, or at the first.\<close>

fun down :: "(nat \<Rightarrow> bool) \<Rightarrow> nat \<Rightarrow> nat" where
  "down f 0 = 0"
| "down f (Suc k) = (if f (Suc k) then down f k else Suc k)"

lemma down_spec:
  "down f k \<le> k" "0 < down f k \<Longrightarrow> \<not> f (down f k)" "down f k < j \<Longrightarrow> j \<le> k \<Longrightarrow> f j"
proof -
  show "down f k \<le> k" by (induction k) auto
  show "0 < down f k \<Longrightarrow> \<not> f (down f k)" by (induction k) (auto split: if_splits)
  show "down f k < j \<Longrightarrow> j \<le> k \<Longrightarrow> f j" by (induction k) (auto simp: le_Suc_eq split: if_splits)
qed

lemma unat_page_add:
  "unat a + 4096 * k < 2 ^ 64 \<Longrightarrow> unat (a + RISCV_PGSIZE * of_nat k) = unat a + 4096 * k"
proof -
  assume lt: "unat a + 4096 * k < 2 ^ 64"
  have "a + RISCV_PGSIZE * of_nat k = of_nat (unat a + 4096 * k)" by simp
  also have "unat \<dots> = unat a + 4096 * k" using lt
    by (simp only: unat_of_nat) (simp add: take_bit_nat_eq_self)
  finally show ?thesis .
qed

lemma vm_alloc_down_eq:
  assumes "pt_wf s" "root_page_table s \<noteq> 0" "unat a + 4096 * k < 2 ^ 64"
  shows "vm_alloc_down a (a + RISCV_PGSIZE * of_nat k) s
    = Some (a + RISCV_PGSIZE * of_nat (down (\<lambda>j. avail s (a + RISCV_PGSIZE * of_nat j)) k), s)"
  using assms(3)
proof (induction k)
  case 0
  then show ?case by (subst vm_alloc_down.simps) simp
next
  case (Suc k)
  have "a < a + RISCV_PGSIZE * of_nat (Suc k)"
    unfolding word_less_nat_alt using unat_page_add [OF Suc.prems] by simp
  moreover have "vm_alloc_down a (a + RISCV_PGSIZE * of_nat (Suc k) - RISCV_PGSIZE) s
      = vm_alloc_down a (a + RISCV_PGSIZE * of_nat k) s"
    by (rule arg_cong [where f = "\<lambda>x. vm_alloc_down a x s"]) (simp add: algebra_simps)
  ultimately show ?case using Suc
    by (subst vm_alloc_down.simps) (simp add: va_avail_eq [OF assms(1,2)] del: of_nat_Suc)
qed

text \<open>The reference: the first of the candidate positions with \<open>n\<close> free pages.\<close>

definition first_fit :: "(nat \<Rightarrow> bool) \<Rightarrow> nat \<Rightarrow> nat \<Rightarrow> nat \<Rightarrow> nat option" where
  "first_fit f n j m = find (\<lambda>j. \<forall>k<n. f (j + k)) [j..<Suc m]"

lemma find_append:
  "find P (xs @ ys) = (case find P xs of None \<Rightarrow> find P ys | Some x \<Rightarrow> Some x)"
  by (induction xs) auto

lemma first_fit_skip:
  assumes "j \<le> m" "\<forall>i. j \<le> i \<and> i < l \<longrightarrow> (\<exists>k<n. \<not> f (i + k))" "j \<le> l"
  shows "first_fit f n j m = first_fit f n l m"
proof (cases "l \<le> Suc m")
  case True
  then have "[j..<Suc m] = [j..<l] @ [l..<Suc m]" using assms(3) by (metis le_add_diff_inverse upt_add_eq_append)
  moreover have "find (\<lambda>j. \<forall>k<n. f (j + k)) [j..<l] = None" using assms(2) by (auto simp: find_None_iff)
  ultimately show ?thesis unfolding first_fit_def by (simp add: find_append del: upt_Suc)
next
  case False
  then have "find (\<lambda>j. \<forall>k<n. f (j + k)) [j..<Suc m] = None" using assms(2) by (auto simp: find_None_iff)
  then show ?thesis using False by (simp add: first_fit_def del: upt_Suc)
qed


lemma vm_alloc_up_eq:
  fixes a :: u64 and s :: "('fs, 'fil, 'z) vm_state_scheme"
  defines "f \<equiv> \<lambda>j. avail s (a + RISCV_PGSIZE * of_nat j)"
  assumes wf: "pt_wf s" "root_page_table s \<noteq> 0"
    and n: "0 < n" "unat a + 4096 * (m + n) < 2 ^ 64"
    and e: "unat stop = unat a + 4096 * m + r" "r < 4096"
    and j: "j \<le> m + n"
  shows "vm_alloc_up (of_nat n) stop (a + RISCV_PGSIZE * of_nat j) s
    = Some (case first_fit f n j m of None \<Rightarrow> 0 | Some i \<Rightarrow> a + RISCV_PGSIZE * of_nat i, s)"
  using j
proof (induction "Suc m - j" arbitrary: j rule: less_induct)
  case less
  let ?a = "a + RISCV_PGSIZE * of_nat j"
  have j: "unat a + 4096 * j < 2 ^ 64" using less.prems n by simp
  show ?case
  proof (cases "j \<le> m")
    case False
    then have "\<not> ?a \<le> stop" using e unat_page_add [OF j] by (simp add: word_le_nat_alt)
    then show ?thesis using False by (subst vm_alloc_up.simps) (simp add: first_fit_def)
  next
    case True
    then have le: "?a \<le> stop" using e unat_page_add [OF j] by (simp add: word_le_nat_alt)
    define d where "d = down (\<lambda>i. avail s (?a + RISCV_PGSIZE * of_nat i)) (n - 1)"
    have fd: "avail s (?a + RISCV_PGSIZE * of_nat i) = f (j + i)" for i
      by (simp add: f_def algebra_simps)
    have skip: "vm_alloc_up (of_nat n) stop (a + RISCV_PGSIZE * of_nat l) s
      = Some (case first_fit f n j m of None \<Rightarrow> 0 | Some i \<Rightarrow> a + RISCV_PGSIZE * of_nat i, s)"
      if "j < l" "\<forall>i. j \<le> i \<and> i < l \<longrightarrow> (\<exists>k<n. \<not> f (i + k))" "l \<le> m + n" for l
      using less.hyps [of l] that True first_fit_skip [OF True that(2)] by simp
    show ?thesis
    proof (cases "f j")
      case no: False
      have "a + RISCV_PGSIZE * of_nat (Suc j) = ?a + RISCV_PGSIZE" by (simp add: algebra_simps)
      moreover have "\<forall>i. j \<le> i \<and> i < Suc j \<longrightarrow> (\<exists>k<n. \<not> f (i + k))"
        using no n by (auto simp: le_less_Suc_eq intro!: exI [of _ 0])
      ultimately show ?thesis using skip [of "Suc j"] True le no fd [of 0] n
        by (subst vm_alloc_up.simps) (simp add: va_avail_eq [OF wf] ac_simps)
    next
      case yes: True
      have "unat ?a + 4096 * (n - 1) < 2 ^ 64" using unat_page_add [OF j] True n by simp
      note dn = vm_alloc_down_eq [OF wf this, folded d_def]
      have lst: "?a + (of_nat n - 1) * RISCV_PGSIZE = ?a + RISCV_PGSIZE * of_nat (n - 1)"
        using n by (simp add: of_nat_diff)
      have d: "d \<le> n - 1" "0 < d \<Longrightarrow> \<not> f (j + d)" "\<And>i. d < i \<Longrightarrow> i \<le> n - 1 \<Longrightarrow> f (j + i)"
        using down_spec [of "\<lambda>i. avail s (?a + RISCV_PGSIZE * of_nat i)" "n - 1"] by (auto simp: d_def fd)
      have "unat ?a + 4096 * d < 2 ^ 64" using unat_page_add [OF j] True n d(1) by simp
      then have gt: "?a < ?a + RISCV_PGSIZE * of_nat d \<longleftrightarrow> 0 < d"
        unfolding word_less_nat_alt using unat_page_add by simp
      have unf: "vm_alloc_up (of_nat n) stop ?a s =
        (if 0 < d then vm_alloc_up (of_nat n) stop (?a + RISCV_PGSIZE * of_nat d + RISCV_PGSIZE) s
         else Some (?a + RISCV_PGSIZE * of_nat d, s))"
        using le yes fd [of 0] dn [folded lst] gt by (subst vm_alloc_up.simps) (simp add: va_avail_eq [OF wf])
      show ?thesis
      proof (cases "0 < d")
        case False
        then have "\<forall>k<n. f (j + k)" using d(3) yes n by (metis Nat.add_0_right One_nat_def Suc_leI Suc_pred gr0I less_Suc_eq_le not_less)
        then have "first_fit f n j m = Some j" using True by (simp add: first_fit_def upt_conv_Cons del: upt_Suc)
        then show ?thesis using unf False by simp
      next
        case True
        have "?a + RISCV_PGSIZE * of_nat d + RISCV_PGSIZE = a + RISCV_PGSIZE * of_nat (j + d + 1)"
          by (simp add: algebra_simps)
        moreover have "\<exists>k<n. \<not> f (i + k)" if "j \<le> i" "i < j + d + 1" for i
          using that d(1) d(2) [OF True] n by (intro exI [of _ "j + d - i"]) auto
        moreover have "j + d + 1 \<le> m + n" using d(1) n \<open>j \<le> m\<close> by simp
        ultimately have "vm_alloc_up (of_nat n) stop (?a + RISCV_PGSIZE * of_nat d + RISCV_PGSIZE) s
          = Some (case first_fit f n j m of None \<Rightarrow> 0 | Some i \<Rightarrow> a + RISCV_PGSIZE * of_nat i, s)"
          using skip [of "j + d + 1"] by (metis less_add_Suc1 Suc_eq_plus1 add.assoc)
        then show ?thesis using unf True by simp
      qed
    qed
  qed
qed


text \<open>\<open>__vm_alloc\<close> is first fit above the break, as long as the request fits below \<open>mmap_max\<close>.\<close>

lemma vm_alloc_first_fit:
  fixes s :: "('fs, 'fil, 'z) vm_state_scheme"
  defines "b \<equiv> brk (current s)" and "hi \<equiv> mmap_max (current s)"
  assumes "pt_wf s" "root_page_table s \<noteq> 0"
    and "0 < n" "unat b + 4096 * n \<le> unat hi" "unat hi + 4096 < 2 ^ 64"
  shows "vm_alloc (of_nat n) s =
    Some (case first_fit (\<lambda>j. avail s (b + RISCV_PGSIZE * of_nat j)) n 0
                ((unat hi - unat b) div 4096 - n) of
            None \<Rightarrow> 0 | Some i \<Rightarrow> b + RISCV_PGSIZE * of_nat i, s)"
proof -
  define m where "m = (unat hi - unat b) div 4096 - n"
  have len: "unat (of_nat (4096 * n) :: u64) = 4096 * n" 
    using assms by (simp only: unat_of_nat) (simp add: take_bit_nat_eq_self)
  have "(of_nat (4096 * n) :: u64) \<le> hi" using assms len by (simp add: word_le_nat_alt)
  then have e: "unat (hi - of_nat (4096 * n)) = unat hi - 4096 * n" by (simp only: unat_sub len)
  have "n \<le> (unat hi - unat b) div 4096" using assms by (simp add: less_eq_div_iff_mult_less_eq)
  then have m: "4096 * m + 4096 * n = 4096 * ((unat hi - unat b) div 4096)" by (simp add: m_def)
  define r where "r = (unat hi - unat b) mod 4096"
  have mr: "unat hi = unat b + 4096 * (m + n) + r" "r < 4096"
    using m mult_div_mod_eq [of 4096 "unat hi - unat b"] assms by (simp_all add: r_def algebra_simps)
  have "vm_alloc_up (of_nat n) (hi - of_nat (4096 * n)) (b + RISCV_PGSIZE * of_nat 0) s
    = Some (case first_fit (\<lambda>j. avail s (b + RISCV_PGSIZE * of_nat j)) n 0 m of
              None \<Rightarrow> 0 | Some i \<Rightarrow> b + RISCV_PGSIZE * of_nat i, s)"
    by (rule vm_alloc_up_eq [where r = r]) (use assms e mr in auto)
  then show ?thesis by (simp add: vm_alloc_def b_def hi_def m_def mult.commute)
qed

lemma first_fit_Some:
  assumes "first_fit f n j m = Some i"
  shows "j \<le> i" "i \<le> m" "\<forall>k<n. f (i + k)" "\<forall>l. j \<le> l \<and> l < i \<longrightarrow> (\<exists>k<n. \<not> f (l + k))"
proof -
  obtain l where l: "l < length [j..<Suc m]" "i = [j..<Suc m] ! l" "\<forall>k<n. f ([j..<Suc m] ! l + k)"
    "\<forall>p<l. \<not> (\<forall>k<n. f ([j..<Suc m] ! p + k))"
    using assms unfolding first_fit_def find_Some_iff by (auto simp del: upt_Suc)
  then have i: "i = j + l" "l < Suc m - j" by (simp_all del: upt_Suc)
  show "j \<le> i" "i \<le> m" using i by auto
  show "\<forall>k<n. f (i + k)" using l by (simp del: upt_Suc)
  show "\<forall>q. j \<le> q \<and> q < i \<longrightarrow> (\<exists>k<n. \<not> f (q + k))"
  proof (intro allI impI)
    fix q assume q: "j \<le> q \<and> q < i"
    then have "q - j < l" using i by auto
    with l(4) have "\<not> (\<forall>k<n. f ([j..<Suc m] ! (q - j) + k))" by blast
    moreover have "[j..<Suc m] ! (q - j) = q" using q i by (subst nth_upt) auto
    ultimately show "\<exists>k<n. \<not> f (q + k)" by simp
  qed
qed


lemma down_all: "(\<And>i. 0 < i \<Longrightarrow> i \<le> k \<Longrightarrow> f i) \<Longrightarrow> down f k = 0"
  by (induction k) auto

text \<open>A request larger than \<open>mmap_max\<close>: the bound \<open>end\<close> wraps around, and the first free range
  above the break is returned although it does not lie below \<open>mmap_max\<close>.\<close>

lemma vm_alloc_wraps:
  fixes s :: "('fs, 'fil, 'z) vm_state_scheme"
  defines "b \<equiv> brk (current s)" and "hi \<equiv> mmap_max (current s)"
  assumes wf: "pt_wf s" "root_page_table s \<noteq> 0"
    and n: "unat hi < 4096 * n" "unat b + 4096 * n \<le> 2 ^ 64 - 4096"
    and free: "\<And>k. k < n \<Longrightarrow> avail s (b + RISCV_PGSIZE * of_nat k)"
  shows "vm_alloc (of_nat n) s = Some (b, s)"
    and "\<not> valid_user_range (current s) b (RISCV_PGSIZE * of_nat n)"
proof -
  have len: "unat (of_nat (4096 * n) :: u64) = 4096 * n"
    using n by (simp only: unat_of_nat) (simp add: take_bit_nat_eq_self)
  then have len': "unat (RISCV_PGSIZE * of_nat n) = 4096 * n" by simp
  have n0: "0 < n" using n(1) by (cases n) auto
  have lst: "b + (of_nat n - 1) * RISCV_PGSIZE = b + RISCV_PGSIZE * of_nat (n - 1)"
    using n0 by (simp add: of_nat_diff)
  have "unat (hi - RISCV_PGSIZE * of_nat n) = 2 ^ 64 + unat hi - 4096 * n"
    using n(1) unfolding unat_sub_if' len' by simp
  then have le: "b \<le> hi - RISCV_PGSIZE * of_nat n" using n(2) by (simp add: word_le_nat_alt)
  have "unat b + 4096 * (n - 1) < 2 ^ 64" using n(2) by simp
  note dn = vm_alloc_down_eq [OF wf this, folded lst]
  have "down (\<lambda>j. avail s (b + RISCV_PGSIZE * of_nat j)) (n - 1) = 0"
    using free n0 by (intro down_all) auto
  with dn have dn': "vm_alloc_down b (b + (of_nat n - 1) * RISCV_PGSIZE) s = Some (b, s)" by simp
  show "vm_alloc (of_nat n) s = Some (b, s)"
    unfolding vm_alloc_def b_def [symmetric] hi_def [symmetric]
    using le dn' free [of 0] n0
    by (subst vm_alloc_up.simps) (simp add: va_avail_eq [OF wf] mult.commute)
  have "unat (b + RISCV_PGSIZE * of_nat n) = unat b + 4096 * n"
    using n(2) by (intro unat_page_add) simp
  then show "\<not> valid_user_range (current s) b (RISCV_PGSIZE * of_nat n)"
    using n(1) by (auto simp: valid_user_range_def word_le_nat_alt hi_def [symmetric] split: if_splits)
qed


section \<open>Region descriptors\<close>

lemma leaf_agree:
  assumes "table_inv own s" "own t = Some (i, drop_bit (9 * Suc i) v)"
    and "\<And>u ip w j. own u = Some ip \<Longrightarrow> m (u + 8 * vpn_idx w j) = pt s (u + 8 * vpn_idx w j)"
  shows "leaf m i t v = leaf (pt s) i t v"
  using assms(2)
proof (induction i arbitrary: t)
  case (Suc i)
  then show ?case using assms(3) [OF Suc.prems] table_inv_next [OF assms(1) Suc.prems] by (auto simp: Let_def)
qed simp

text \<open>Taking a page from the pool for something else than a table.\<close>

lemma page_alloc_view:
  assumes "pt_wf s" "page_alloc s = Some (p, s')"
  shows "pt_wf s'" "look s' = look s" "page_base p" "root_page_table s' = root_page_table s"
proof -
  obtain own where inv: "table_inv own s" "pool_ok s" using assms(1) by (auto simp: pt_wf_def)
  note P = page_alloc_pool [OF inv(2) assms(2)] and s' = assms(2) [unfolded page_alloc_Some]
  show "page_base p" by (rule P(2))
  show root: "root_page_table s' = root_page_table s" using s' by simp
  have base: "page_base u \<and> u \<noteq> p" if "own u = Some ip" for u ip
    using table_inv_base [OF inv] table_inv_alloc [OF inv(1)] P(3) that by (cases ip) auto
  have same: "pt s' (u + 8 * vpn_idx w j) = pt s (u + 8 * vpn_idx w j)" if "own u = Some ip" for u ip w j
    using base [OF that] s' P(2) by (simp add: zero_entry_other)
  have "table_inv own s'"
  proof (rule table_invI)
    show "own (root_page_table s') = Some (2, 0)" if "root_page_table s' \<noteq> 0"
      using table_inv_root [OF inv(1)] that root by simp
    show "i \<le> 2 \<and> allocated s' t" if "own t = Some (i, q)" for t i q
      using table_inv_alloc [OF inv(1) that] P(5) by blast
    show "PTE_TABLE (pt s' (t + 8 * vpn_idx v (Suc i))) \<and>
      own (push_bit 12 (pte_ppn (pt s' (t + 8 * vpn_idx v (Suc i))))) = Some (i, drop_bit (9 * Suc i) v)"
      if "own t = Some (Suc i, drop_bit (9 * Suc (Suc i)) v)" "pt s' (t + 8 * vpn_idx v (Suc i)) AND PTE_V \<noteq> 0"
      for t i v
      using table_inv_next [OF inv(1) that(1)] same [OF that(1)] that(2) by simp
  qed
  with P(1) show "pt_wf s'" by (auto simp: pt_wf_def)
  show "look s' = look s"
  proof
    fix v
    show "look s' v = look s v"
    proof (cases "root_page_table s = 0")
      case False
      note key = table_inv_root_key [OF inv(1) False]
      have lf: "leaf (pt s') 2 (root_page_table s) v = leaf (pt s) 2 (root_page_table s) v"
        by (rule leaf_agree [OF inv(1) key]) (rule same)
      show ?thesis
      proof (cases "leaf (pt s) 2 (root_page_table s) v")
        case None
        then show ?thesis using lf root by (simp add: look_def entry_at_def)
      next
        case (Some e)
        obtain tv where "own tv = Some (0, drop_bit 9 v)" "e = tv + 8 * vpn_idx v 0"
          using leaf_owned [OF inv(1) key Some] by blast
        with same Some lf root show ?thesis by (simp add: look_def entry_at_def)
      qed
    qed (simp add: look_def root)
  qed
qed

lemma vmr_table_init_held:
  "vmrs s = 0 \<Longrightarrow> vm_lock s \<noteq> 0 \<Longrightarrow> vmr_table_init s = None"
  by (simp add: vmr_table_init_def lock_vm_def)

lemma vmr_table_init_spec:
  assumes inv: "vm_inv x s" and run: "vmr_table_init s = Some s'" and x: "\<And>i. x i = 0"
  shows "vm_inv x s'" "look s' = look s" "vmrs s' \<noteq> 0" "current s' = current s" "have_vm s' = have_vm s"
    "vm_lock s' = vm_lock s" "ram s' = ram s" "root_page_table s' = root_page_table s"
    "vmrs s \<noteq> 0 \<Longrightarrow> s' = s"
proof -
  have "vm_inv x s' \<and> look s' = look s \<and> vmrs s' \<noteq> 0 \<and> current s' = current s \<and> have_vm s' = have_vm s
    \<and> vm_lock s' = vm_lock s \<and> ram s' = ram s \<and> root_page_table s' = root_page_table s \<and> (vmrs s \<noteq> 0 \<longrightarrow> s' = s)"
  proof (cases "vmrs s = 0")
    case False
    then show ?thesis using inv run by (simp add: vmr_table_init_def)
  next
    case True
    have lk: "vm_lock s = 0" using run True vmr_table_init_held by (metis option.distinct(1))
    define s0 where "s0 = s\<lparr>vm_lock := - 1\<rparr>"
    obtain p s1 where al: "page_alloc s0 = Some (p, s1)"
      and s': "s' = s1\<lparr>vmrs := p, vmr_tab := replicate MAX_VMR vmr0, vm_lock := 0\<rparr>"
      using run True lk
      by (auto simp: vmr_table_init_def lock_vm_def unlock_vm_def spinlock_unlock_def s0_def split: bind_splits)
    note c0 = pt_wf_cong [of s0 s]
    have wf: "pt_wf s0" "look s0 = look s" using c0 inv by (auto simp: s0_def vm_inv_def)
    note V = page_alloc_view [OF wf(1) al] and A = al [unfolded page_alloc_Some]
    note c1 = pt_wf_cong [of s' s1]
    have wf': "pt_wf s'" "look s' = look s" using c1 V wf by (auto simp: s')
    have ent: "look s v = 0 \<or> look s v AND PTE_V \<noteq> 0" for v
      using inv True vmr_index_ptr(3) [of s "look s v"] by (auto simp: vm_inv_def regions_ok_def)
    have "vmr_refs s' i = 0" if "i < MAX_VMR" for i
    proof -
      have "vmrs s' = p" "length (vmr_tab s') = MAX_VMR" by (simp_all add: s')
      then have "look s v \<noteq> vmr_ptr s' i" for v using vmr_ptr_props(2,3) [of s' i] ent [of v] that V(3) by auto
      then show ?thesis unfolding vmr_refs_def wf'(2) by simp
    qed
    then have "regions_ok x s'"
      using ent V(3) x unfolding regions_ok_def wf'(2) by (auto simp: s' page_base_def vmr0_def)
    then show ?thesis using wf' inv True V(3,4) A by (simp add: vm_inv_def s' s0_def page_base_def lk)
  qed
  then show "vm_inv x s'" "look s' = look s" "vmrs s' \<noteq> 0" "current s' = current s" "have_vm s' = have_vm s"
    "vm_lock s' = vm_lock s" "ram s' = ram s" "root_page_table s' = root_page_table s" "vmrs s \<noteq> 0 \<Longrightarrow> s' = s" by auto
qed


lemma find_free_vmr_Some:
  "find_free_vmr k vs = Some i \<Longrightarrow> k \<le> i \<and> i < k + length vs \<and> v_refcnt (vs ! (i - k)) = 0"
proof (induction vs arbitrary: k)
  case (Cons v vs)
  then show ?case by (fastforce split: if_splits simp: nth_Cons' dest: Cons.IH [of "Suc k"])
qed simp

lemma find_free_vmr_None: "find_free_vmr k vs = None \<longleftrightarrow> (\<forall>v \<in> set vs. v_refcnt v \<noteq> 0)"
  by (induction vs arbitrary: k) auto

definition new_vmr :: "u64 \<Rightarrow> u64 \<Rightarrow> nat option \<Rightarrow> u64 \<Rightarrow> u32 \<Rightarrow> u32 \<Rightarrow> vmr_t" where
  "new_vmr addr len file ofs cnt prot =
     \<lparr>v_addr = addr, v_length = len, v_file = file, v_offset = ofs, v_refcnt = cnt, v_prot = prot\<rparr>"

text \<open>A descriptor is taken from the free ones, and counts the pages about to be mapped.\<close>

lemma vmr_alloc_spec:
  assumes inv: "vm_inv no_slack s" and run: "vmr_alloc addr len file ofs cnt prot s = Some (r, s')"
  shows "look s' = look s" "current s' = current s" "have_vm s' = have_vm s" "vm_lock s' = vm_lock s"
    "ram s' = ram s" "root_page_table s' = root_page_table s"
    "case r of None \<Rightarrow> vm_inv no_slack s' \<and> (\<forall>v \<in> set (vmr_tab s'). v_refcnt v \<noteq> 0)
     | Some i \<Rightarrow> vm_inv (no_slack(i := unat cnt)) s' \<and> i < length (vmr_tab s')
         \<and> vmr_tab s' ! i = new_vmr addr len file ofs cnt prot \<and> vmr_refs s' i = 0"
proof -
  obtain s1 where i: "vmr_table_init s = Some s1" using run by (cases "vmr_table_init s") (auto simp: vmr_alloc_def)
  note I = vmr_table_init_spec [OF inv i refl]
  have *: "look s' = look s \<and> current s' = current s \<and> have_vm s' = have_vm s \<and> vm_lock s' = vm_lock s \<and>
    ram s' = ram s \<and> root_page_table s' = root_page_table s \<and>
    (case r of None \<Rightarrow> vm_inv no_slack s' \<and> (\<forall>v \<in> set (vmr_tab s'). v_refcnt v \<noteq> 0)
     | Some i \<Rightarrow> vm_inv (no_slack(i := unat cnt)) s' \<and> i < length (vmr_tab s')
         \<and> vmr_tab s' ! i = new_vmr addr len file ofs cnt prot \<and> vmr_refs s' i = 0)"
  proof (cases "find_free_vmr 0 (vmr_tab s1)")
    case None
    then have "r = None" "s' = s1" using run i by (auto simp: vmr_alloc_def)
    with None I show ?thesis by (simp add: find_free_vmr_None)
  next
    case (Some j)
    note fnd = find_free_vmr_Some [OF Some, simplified]
    obtain s2 where s2: "file_state.more s2 = file_state.more s1" "refcnt_lock s2 = 0" "file_lock s2 = 0" "ram s2 = ram s1"
      and s': "s' = s2\<lparr>vmr_tab := (vmr_tab s2)[j := new_vmr addr len file ofs cnt prot]\<rparr>" and r: "r = Some j"
    proof (cases "file")
      case None
      then show ?thesis using that [of s1] run i Some I(1) by (auto simp: vmr_alloc_def new_vmr_def vm_inv_def)
    next
      case f: (Some f)
      then obtain s2 where "file_incref f s1 = Some s2"
        using run i Some by (cases "file_incref f s1") (auto simp: vmr_alloc_def)
      then show ?thesis using that [of s2] run i Some f I(1) file_incref_frame [of f s1 s2]
        by (auto simp: vmr_alloc_def new_vmr_def vm_inv_def)
    qed
    note m = more_fields [OF s2(1)]
    note c = pt_wf_cong [OF m(1,2,9,10,8)]
    have cs: "pt_wf s' = pt_wf s2" "look s' = look s2" using pt_wf_cong [of s' s2] by (auto simp: s')
    have reg: "regions_ok no_slack s1" using I(1) by (simp add: vm_inv_def)
    have refs0: "vmr_refs s1 j = 0" using regions_ok_props(4) [OF reg, of j] fnd by simp
    have "regions_ok (no_slack(j := unat cnt)) s'"
    proof (rule regions_ok_upd [OF reg])
      show "look s' = (look s1)(0 := look s1 0)" using cs c by simp
      show "entry_ok s1 (look s1 0)" using reg by (simp add: entry_ok_def regions_ok_def)
      fix k assume k: "k < length (vmr_tab s1)"
      have "look s1 0 \<noteq> vmr_ptr s1 j" using refs0 vmr_refs_pos by fastforce
      then show "unat (v_refcnt (vmr_tab s' ! k)) + of_bool (look s1 0 = vmr_ptr s1 k) + 0
        = unat (v_refcnt (vmr_tab s1 ! k)) + of_bool (look s1 0 = vmr_ptr s1 k) + (no_slack(j := unat cnt)) k"
        using fnd k m(4) by (simp add: s' nth_list_update new_vmr_def)
    qed (use m in \<open>auto simp: s'\<close>)
    moreover have "vmr_refs s' j = 0" using refs0 cs c m(3) by (simp add: vmr_refs_def vmr_ptr_def s')
    ultimately show ?thesis using I cs c m s2 fnd r by (simp add: vm_inv_def) (simp add: s')
  qed
  then show "look s' = look s" "current s' = current s" "have_vm s' = have_vm s" "vm_lock s' = vm_lock s"
    "ram s' = ram s" "root_page_table s' = root_page_table s" by auto
  from * show "case r of None \<Rightarrow> vm_inv no_slack s' \<and> (\<forall>v \<in> set (vmr_tab s'). v_refcnt v \<noteq> 0)
     | Some i \<Rightarrow> vm_inv (no_slack(i := unat cnt)) s' \<and> i < length (vmr_tab s')
         \<and> vmr_tab s' ! i = new_vmr addr len file ofs cnt prot \<and> vmr_refs s' i = 0" by blast
qed


section \<open>\<open>munmap\<close> and \<open>mmap\<close>\<close>

definition range_vpns :: "u64 \<Rightarrow> u64 \<Rightarrow> vpn set" where
  "range_vpns addr len = vpn ` set (pages addr (page_count addr (addr + len)))"

lemma lock_vm_Some: "lock_vm s = Some s' \<longleftrightarrow> vm_lock s = 0 \<and> s' = s\<lparr>vm_lock := - 1\<rparr>"
  by (auto simp: lock_vm_def spinlock_lock_def split: if_splits)

lemma vm_inv_lock: "vm_inv x (s\<lparr>vm_lock := l\<rparr>) = vm_inv x s" "look (s\<lparr>vm_lock := l\<rparr>) = look s"
proof -
  note c = pt_wf_cong [of "s\<lparr>vm_lock := l\<rparr>" s]
  show "look (s\<lparr>vm_lock := l\<rparr>) = look s" using c by simp
  then show "vm_inv x (s\<lparr>vm_lock := l\<rparr>) = vm_inv x s"
    using c regions_ok_cong [of "s\<lparr>vm_lock := l\<rparr>" s x] by (simp add: vm_inv_def)
qed

lemma munmap_fold_returns:
  "vm_inv x s \<Longrightarrow> root_page_table s \<noteq> 0 \<Longrightarrow> \<exists>s'. fold_opt (munmap_page F) as s = Some s'"
proof (induction as arbitrary: s)
  case (Cons a as)
  obtain s1 where s1: "munmap_page F a s = Some s1" using munmap_page_returns [OF Cons.prems] by blast
  with munmap_page_spec [OF Cons.prems(1) s1] Cons.prems(2) have "vm_inv x s1" "root_page_table s1 \<noteq> 0"
    by (auto simp: vm_frame_def)
  with Cons.IH s1 show ?case by simp
qed simp

lemma do_munmap_nolock_spec:
  assumes inv: "vm_inv x s" and root: "root_page_table s \<noteq> 0" and hi: "unat (addr + len) + 8192 \<le> 2 ^ 64"
  obtains s' where "do_munmap_nolock F addr len s = Some s'" "vm_inv x s'" "vm_frame s s'"
    "\<forall>v \<in> range_vpns addr len. look s' v = 0" "\<forall>v. v \<notin> range_vpns addr len \<longrightarrow> look s' v = look s v"
proof -
  obtain s' where r: "do_munmap_nolock F addr len s = Some s'"
    using munmap_fold_returns [OF inv root] hi by (auto simp: do_munmap_nolock_def page_loop_fold)
  have "(vm_inv x s' \<and> vm_frame s s') \<and> (\<forall>v. v \<notin> range_vpns addr len \<longrightarrow> look s' v = look s v)
    \<and> (\<forall>v \<in> range_vpns addr len. look s' v = 0)"
    unfolding range_vpns_def
    by (rule munmap_loop.loop_pages [OF hi]) (use inv r in \<open>auto simp: vm_frame_def do_munmap_nolock_def\<close>)
  with that [OF r] show ?thesis by blast
qed

lemma valid_user_range_bound:
  "valid_user_range cur addr len \<Longrightarrow> addr \<le> addr + len \<and> addr + len \<le> mmap_max cur"
  by (auto simp: valid_user_range_def not_less split: if_splits)

lemma do_munmap_spec:
  assumes inv: "vm_inv no_slack s" and root: "root_page_table s \<noteq> 0" and lock: "vm_lock s = 0"
    and hi: "unat (mmap_max (current s)) + 8192 \<le> 2 ^ 64"
    and ok: "take_bit 12 addr = 0" "valid_user_range (current s) addr len"
  obtains s' where "do_munmap F addr len s = Some (0, s')" "vm_inv no_slack s'" "vm_frame s s'"
    "\<forall>v \<in> range_vpns addr len. look s' v = 0" "\<forall>v. v \<notin> range_vpns addr len \<longrightarrow> look s' v = look s v"
proof -
  let ?s = "s\<lparr>vm_lock := - 1\<rparr>"
  have "unat (addr + len) + 8192 \<le> 2 ^ 64"
    using valid_user_range_bound [OF ok(2)] hi by (simp add: word_le_nat_alt)
  then obtain s' where s': "do_munmap_nolock F addr len ?s = Some s'" "vm_inv no_slack s'" "vm_frame ?s s'"
    "\<forall>v \<in> range_vpns addr len. look s' v = 0" "\<forall>v. v \<notin> range_vpns addr len \<longrightarrow> look s' v = look s v"
    using do_munmap_nolock_spec [of no_slack ?s addr len F] inv root by (auto simp: vm_inv_lock)
  have "do_munmap F addr len s = Some (0, s'\<lparr>vm_lock := 0\<rparr>)"
    using ok s'(1) lock by (simp add: do_munmap_def and_low_mask lock_vm_def unlock_vm_def spinlock_unlock_def)
  moreover have "vm_frame s (s'\<lparr>vm_lock := 0\<rparr>)" using s'(3) lock by (simp add: vm_frame_def)
  ultimately show ?thesis using that s' by (simp add: vm_inv_lock)
qed


text \<open>Where a new mapping goes.\<close>

lemma page_total:
  assumes "len \<noteq> 0" "unat len + 4096 \<le> 2 ^ 64"
  shows "unat ((len - 1) div RISCV_PGSIZE + 1) = (unat len + 4095) div 4096"
proof -
  have l: "unat (len - 1) = unat len - 1" using assms(1) by (simp add: unat_minus_one)
  have "0 < unat len" using assms(1) by (simp add: unat_gt_0)
  then have "(unat len - 1) div 4096 + 1 = (unat len + 4095) div 4096" by linarith
  moreover have "unat ((len - 1) div RISCV_PGSIZE + 1) = (unat len - 1) div 4096 + 1"
    using assms(2) l by (simp add: unat_word_ariths(1) unat_div)
  ultimately show ?thesis by simp
qed

lemma page_count_range:
  assumes "unat addr + unat len < 2 ^ 64"
  shows "page_count addr (addr + len) = (unat len + 4095) div 4096"
  using assms by (simp add: page_count_def unat_word_ariths(1))

lemma vm_alloc_result:
  fixes s :: "('fs, 'fil, 'z) vm_state_scheme"
  assumes wf: "pt_wf s" "root_page_table s \<noteq> 0" and n: "0 < n" "4096 * n \<le> unat (mmap_max (current s))"
    and hi: "unat (mmap_max (current s)) + 4096 < 2 ^ 64"
  shows "\<exists>r. vm_alloc (of_nat n) s = Some (r, s) \<and> (r = 0 \<or> brk (current s) \<le> r
    \<and> unat r + 4096 * n \<le> unat (mmap_max (current s)) \<and> (\<forall>k<n. avail s (r + RISCV_PGSIZE * of_nat k)))"
proof (cases "unat (brk (current s)) + 4096 * n \<le> unat (mmap_max (current s))")
  case True
  let ?b = "brk (current s)" and ?f = "\<lambda>j. avail s (brk (current s) + RISCV_PGSIZE * of_nat j)"
  let ?m = "(unat (mmap_max (current s)) - unat ?b) div 4096 - n"
  note ff = vm_alloc_first_fit [OF wf n(1) True hi]
  show ?thesis
  proof (cases "first_fit ?f n 0 ?m")
    case None
    then show ?thesis using ff by simp
  next
    case (Some i)
    note F = first_fit_Some [OF Some]
    have "4096 * ?m + 4096 * n \<le> unat (mmap_max (current s)) - unat ?b"
      using True by (simp add: diff_mult_distrib2)
    then have b: "unat ?b + 4096 * i + 4096 * n \<le> unat (mmap_max (current s))" using F(2) True by linarith
    then have "unat (?b + RISCV_PGSIZE * of_nat i) = unat ?b + 4096 * i" using hi by (intro unat_page_add) simp
    moreover have "\<forall>k<n. avail s (?b + RISCV_PGSIZE * of_nat i + RISCV_PGSIZE * of_nat k)"
      using F(3) by (simp add: algebra_simps)
    ultimately show ?thesis using ff Some b by (simp add: word_le_nat_alt)
  qed
next
  case False
  have len: "unat (of_nat (4096 * n) :: u64) = 4096 * n"
    using n hi by (simp only: unat_of_nat) (simp add: take_bit_nat_eq_self)
  have "(of_nat (4096 * n) :: u64) \<le> mmap_max (current s)" unfolding word_le_nat_alt len by (rule n(2))
  then have "unat (mmap_max (current s) - of_nat (4096 * n)) = unat (mmap_max (current s)) - 4096 * n"
    by (simp only: unat_sub len)
  then have "\<not> brk (current s) \<le> mmap_max (current s) - of_nat (4096 * n)"
    unfolding word_le_nat_alt using False n(2) by simp
  then have "vm_alloc (of_nat n) s = Some (0, s)"
    unfolding vm_alloc_def by (subst vm_alloc_up.simps) (simp add: mult.commute)
  then show ?thesis by simp
qed

lemma mmap_addr_spec:
  assumes inv: "vm_inv x s" and root: "root_page_table s \<noteq> 0" and hi: "unat (mmap_max (current s)) \<le> 2 ^ 39"
    and len: "len \<noteq> 0" "4096 * ((unat len + 4095) div 4096) \<le> unat (mmap_max (current s))"
    and run: "mmap_addr addr len ((len - 1) div RISCV_PGSIZE + 1) flags s = Some (r, s')"
  shows "s' = s \<and> (\<forall>b. r = Some b \<longrightarrow> unat b + unat len \<le> unat (mmap_max (current s)) \<and>
    (if flags AND MAP_FIXED \<noteq> 0 then b = addr else \<forall>v \<in> range_vpns b len. look s v = 0))"
proof -
  define n where "n = (unat len + 4095) div 4096"
  have wf: "pt_wf s" using inv by (simp add: vm_inv_def)
  have "0 < unat len" using len(1) by (simp add: unat_gt_0)
  then have l: "unat len \<le> 4096 * n" "0 < n" by (auto simp: n_def)
  have np: "(len - 1) div RISCV_PGSIZE + 1 = of_nat n"
  proof -
    have "unat ((len - 1) div RISCV_PGSIZE + 1) = n"
      using page_total [OF len(1)] len(2) hi l unfolding n_def by simp
    from arg_cong [OF this, of "of_nat :: nat \<Rightarrow> u64"] show ?thesis by simp
  qed
  show ?thesis
  proof (cases "flags AND MAP_FIXED = 0")
    case False
    then have "s' = s" and r: "r = Some b \<Longrightarrow> b = addr \<and> valid_user_range (current s) addr len" for b
      using run by (auto simp: mmap_addr_def split: if_splits)
    moreover have "unat addr + unat len \<le> unat (mmap_max (current s))" if "valid_user_range (current s) addr len"
      using valid_user_range_bound [OF that] unsigned_less [of len, where 'a = nat]
      by (auto simp: word_le_nat_alt unat_plus_if' split: if_splits)
    ultimately show ?thesis using False by auto
  next
    case True
    obtain q where q: "vm_alloc (of_nat n) s = Some (q, s)" "q = 0 \<or> 
       unat q + 4096 * n \<le> unat (mmap_max (current s)) \<and> (\<forall>k<n. avail s (q + RISCV_PGSIZE * of_nat k))"
      using vm_alloc_result [OF wf root l(2)] len(2) hi unfolding n_def by auto
    then have r: "s' = s" "r = (if q = 0 then None else Some q)" using run True by (auto simp: mmap_addr_def np)
    have "look s v = 0" if "v \<in> range_vpns q len" "q \<noteq> 0" for v
    proof -
      have "page_count q (q + len) = n" using q that(2) l hi page_count_range [of q len] by (simp add: n_def)
      then show ?thesis using that q(2) by (auto simp: range_vpns_def in_pages avail_def)
    qed
    then show ?thesis using r True q(2) l by auto
  qed
qed


text \<open>The outcome of \<open>__do_mmap\<close>: refused with the map unchanged, or a range mapped lazily to one
  new descriptor (or, without virtual memory or with \<open>MAP_POPULATE\<close>, to present pages that
  grant the requested access).\<close>

definition mmap_outcome :: "u64 \<Rightarrow> u64 \<Rightarrow> u32 \<Rightarrow> u32 \<Rightarrow> nat option \<Rightarrow> u64
    \<Rightarrow> ('fs, 'fil, 'z) vm_state_scheme \<Rightarrow> u64 \<Rightarrow> ('fs, 'fil, 'z) vm_state_scheme \<Rightarrow> bool" where
  "mmap_outcome addr len prot flags f ofs s r s' \<longleftrightarrow>
     r = - 1 \<and> look s' = look s
     \<or> unat r + unat len \<le> unat (mmap_max (current s))
       \<and> (if flags AND MAP_FIXED \<noteq> 0 then r = addr else \<forall>v \<in> range_vpns r len. look s v = 0)
       \<and> (\<forall>v. v \<notin> range_vpns r len \<longrightarrow> look s' v = look s v)
       \<and> (if have_vm s \<and> flags AND MAP_POPULATE = 0
          then \<exists>i < length (vmr_tab s'). v_addr (vmr_tab s' ! i) = r \<and> v_length (vmr_tab s' ! i) = len
             \<and> v_file (vmr_tab s' ! i) = f \<and> v_offset (vmr_tab s' ! i) = ofs \<and> v_prot (vmr_tab s' ! i) = prot
             \<and> (\<forall>v \<in> range_vpns r len. look s' v = vmr_ptr s' i)
          else \<forall>v \<in> range_vpns r len. look s' v AND PTE_V \<noteq> 0 \<and> grants (look s' v) prot)"


lemma core_nth:
  assumes "map vmr_core vs = map vmr_core ws" "i < length vs"
  shows "v_addr (vs ! i) = v_addr (ws ! i)" "v_length (vs ! i) = v_length (ws ! i)"
    "v_file (vs ! i) = v_file (ws ! i)" "v_offset (vs ! i) = v_offset (ws ! i)" "v_prot (vs ! i) = v_prot (ws ! i)"
proof -
  have "i < length ws" using assms map_eq_imp_length_eq by metis
  with assms have "vmr_core (vs ! i) = vmr_core (ws ! i)" by (metis nth_map)
  then show "v_addr (vs ! i) = v_addr (ws ! i)" "v_length (vs ! i) = v_length (ws ! i)"
    "v_file (vs ! i) = v_file (ws ! i)" "v_offset (vs ! i) = v_offset (ws ! i)" "v_prot (vs ! i) = v_prot (ws ! i)"
    by (cases "vs ! i", cases "ws ! i", simp add: vmr_core_def)+
qed

lemma mmap_range_spec:
  assumes inv: "vm_inv (no_slack(i := page_count addr (addr + len))) s" and i: "i < length (vmr_tab s)"
    and hi: "unat (addr + len) + 8192 \<le> 2 ^ 64"
    and run: "page_loop (mmap_page F (vmr_ptr s i)) addr (addr + len) s = Some s'"
  shows "vm_inv no_slack s'" "vm_frame s s'" "\<forall>v \<in> range_vpns addr len. look s' v = vmr_ptr s i"
    "\<forall>v. v \<notin> range_vpns addr len \<longrightarrow> look s' v = look s v"
proof -
  have "(vm_inv (no_slack(i := 0)) s' \<and> i < length (vmr_tab s') \<and> vmr_ptr s' i = vmr_ptr s i \<and> vm_frame s s')
     \<and> (\<forall>v. v \<notin> range_vpns addr len \<longrightarrow> look s' v = look s v) \<and> (\<forall>v \<in> range_vpns addr len. look s' v = vmr_ptr s i)"
    unfolding range_vpns_def
    by (rule mmap_loop.loop_pages [OF hi _ run]) (use inv i in \<open>auto simp: vm_frame_def\<close>)
  then show "vm_inv no_slack s'" "vm_frame s s'" "\<forall>v \<in> range_vpns addr len. look s' v = vmr_ptr s i"
    "\<forall>v. v \<notin> range_vpns addr len \<longrightarrow> look s' v = look s v"
    by (auto simp: fun_upd_idem)
qed

lemma mmap_install:
  assumes inv: "vm_inv (no_slack(i := page_count a (a + len))) s1" and i: "i < length (vmr_tab s1)"
    and desc: "vmr_tab s1 ! i = new_vmr a len f ofs cnt prot" and hi: "unat (a + len) + 8192 \<le> 2 ^ 64"
    and s2: "page_loop (mmap_page F (vmr_ptr s1 i)) a (a + len) s1 = Some s2"
    and s3: "(if \<not> have_vm s2 \<or> flags AND MAP_POPULATE \<noteq> 0
             then page_loop (populate_page F prot) a (a + len) s2 else Some s2) = Some s'"
  shows "vm_inv no_slack s'" "fault_frame s1 s'" "\<forall>v. v \<notin> range_vpns a len \<longrightarrow> look s' v = look s1 v"
    "if have_vm s1 \<and> flags AND MAP_POPULATE = 0
     then i < length (vmr_tab s') \<and> v_addr (vmr_tab s' ! i) = a \<and> v_length (vmr_tab s' ! i) = len
             \<and> v_file (vmr_tab s' ! i) = f \<and> v_offset (vmr_tab s' ! i) = ofs \<and> v_prot (vmr_tab s' ! i) = prot
             \<and> (\<forall>v \<in> range_vpns a len. look s' v = vmr_ptr s' i)
     else \<forall>v \<in> range_vpns a len. look s' v AND PTE_V \<noteq> 0 \<and> grants (look s' v) prot"
proof -
  note M = mmap_range_spec [OF inv i hi s2]
  have ff: "fault_frame s1 s2" and hv: "have_vm s2 = have_vm s1"
    using M(2) by (auto simp: vm_frame_def fault_frame_def)
  have *: "vm_inv no_slack s' \<and> fault_frame s1 s' \<and> (\<forall>v. v \<notin> range_vpns a len \<longrightarrow> look s' v = look s1 v) \<and>
    (if have_vm s1 \<and> flags AND MAP_POPULATE = 0
     then i < length (vmr_tab s') \<and> v_addr (vmr_tab s' ! i) = a \<and> v_length (vmr_tab s' ! i) = len
             \<and> v_file (vmr_tab s' ! i) = f \<and> v_offset (vmr_tab s' ! i) = ofs \<and> v_prot (vmr_tab s' ! i) = prot
             \<and> (\<forall>v \<in> range_vpns a len. look s' v = vmr_ptr s' i)
     else \<forall>v \<in> range_vpns a len. look s' v AND PTE_V \<noteq> 0 \<and> grants (look s' v) prot)"
  proof (cases "have_vm s1 \<and> flags AND MAP_POPULATE = 0")
    case True
    then have "s' = s2" using s3 hv by auto
    moreover have "i < length (vmr_tab s2)" "vmr_ptr s2 i = vmr_ptr s1 i"
      using M(2) i by (auto simp: vm_frame_def vmr_ptr_def)
    moreover have "map vmr_core (vmr_tab s2) = map vmr_core (vmr_tab s1)" using M(2) by (simp add: vm_frame_def)
    note core_nth [OF this, of i]
    ultimately show ?thesis using M ff True desc by (simp add: new_vmr_def)
  next
    case False
    then have run: "page_loop (populate_page F prot) a (a + len) s2 = Some s'" using s3 hv by (auto split: if_splits)
    have "(vm_inv no_slack s' \<and> fault_frame s1 s') \<and> (\<forall>v. v \<notin> range_vpns a len \<longrightarrow> look s' v = look s2 v)
      \<and> (\<forall>v \<in> range_vpns a len. look s' v AND PTE_V \<noteq> 0 \<and> grants (look s' v) prot)"
      unfolding range_vpns_def
      by (rule populate_loop.loop_pages [OF hi _ run]) (use M(1) ff in auto)
    then show ?thesis using M(4) False by auto
  qed
  then show "vm_inv no_slack s'" "fault_frame s1 s'" "\<forall>v. v \<notin> range_vpns a len \<longrightarrow> look s' v = look s1 v" by auto
  from * show "if have_vm s1 \<and> flags AND MAP_POPULATE = 0
     then i < length (vmr_tab s') \<and> v_addr (vmr_tab s' ! i) = a \<and> v_length (vmr_tab s' ! i) = len
             \<and> v_file (vmr_tab s' ! i) = f \<and> v_offset (vmr_tab s' ! i) = ofs \<and> v_prot (vmr_tab s' ! i) = prot
             \<and> (\<forall>v \<in> range_vpns a len. look s' v = vmr_ptr s' i)
     else \<forall>v \<in> range_vpns a len. look s' v AND PTE_V \<noteq> 0 \<and> grants (look s' v) prot" by blast
qed

lemma do_mmap_nolock_spec:
  assumes inv: "vm_inv no_slack s" and root: "root_page_table s \<noteq> 0" and hi: "unat (mmap_max (current s)) \<le> 2 ^ 39"
    and len: "len \<noteq> 0" "4096 * ((unat len + 4095) div 4096) \<le> unat (mmap_max (current s))"
    and run: "do_mmap_nolock F addr len prot flags f ofs s = Some (r, s')"
  shows "vm_inv no_slack s'" "current s' = current s" "vm_lock s' = vm_lock s" "root_page_table s' \<noteq> 0"
    "mmap_outcome addr len prot flags f ofs s r s'"
proof -
  define np where "np = (len - 1) div RISCV_PGSIZE + 1"
  have "vm_inv no_slack s' \<and> current s' = current s \<and> vm_lock s' = vm_lock s \<and> root_page_table s' \<noteq> 0 \<and>
    mmap_outcome addr len prot flags f ofs s r s'"
  proof -
    obtain b s0 where b: "mmap_addr addr len np flags s = Some (b, s0)"
      using run by (auto simp: do_mmap_nolock_def np_def [symmetric] split: bind_splits)
    note A = mmap_addr_spec [OF inv root hi len b [unfolded np_def]]
    show ?thesis
    proof (cases b)
      case None
      then have "r = - 1" "s' = s" using run b A by (auto simp: do_mmap_nolock_def np_def [symmetric])
      then show ?thesis using inv root by (simp add: mmap_outcome_def)
    next
      case (Some a)
      have bnd: "unat a + unat len \<le> unat (mmap_max (current s))" using A Some by simp
      obtain v s1 where v: "vmr_alloc a len f ofs (ucast np) prot s = Some (v, s1)"
        using run b A Some by (auto simp: do_mmap_nolock_def np_def [symmetric] split: bind_splits)
      note V = vmr_alloc_spec [OF inv v]
      show ?thesis
      proof (cases v)
        case None
        then have "r = - 1" "s' = s1" using run b A Some v by (auto simp: do_mmap_nolock_def np_def [symmetric])
        then show ?thesis using V None root by (simp add: mmap_outcome_def)
      next
        case i: (Some i)
        obtain s2 where s2: "page_loop (mmap_page F (vmr_ptr s1 i)) a (a + len) s1 = Some s2"
          and s3: "(if \<not> have_vm s2 \<or> flags AND MAP_POPULATE \<noteq> 0
             then page_loop (populate_page F prot) a (a + len) s2 else Some s2) = Some s'" and r: "r = a"
          using run b A Some v i by (auto simp: do_mmap_nolock_def np_def [symmetric] split: bind_splits)
        have al: "unat (a + len) = unat a + unat len" using bnd hi by (simp add: unat_word_ariths(1))
        then have hi2: "unat (a + len) + 8192 \<le> 2 ^ 64" using bnd hi by simp
        have cnt: "unat (ucast np :: u32) = page_count a (a + len)"
        proof -
          have "unat np = (unat len + 4095) div 4096" using page_total [OF len(1)] bnd hi by (simp add: np_def)
          moreover have "(unat len + 4095) div 4096 < 2 ^ 32" using bnd hi by (simp add: div_less_iff_less_mult)
          ultimately show ?thesis using page_count_range [of a len] bnd hi
            by (simp add: unsigned_ucast_eq take_bit_nat_eq_self)
        qed
        have V': "vm_inv (no_slack(i := page_count a (a + len))) s1" "i < length (vmr_tab s1)"
           "vmr_tab s1 ! i = new_vmr a len f ofs (ucast np) prot"
          using V(7) i cnt by auto
        note M = mmap_install [OF V' hi2 s2 s3]
        have "(if have_vm s \<and> flags AND MAP_POPULATE = 0
          then \<exists>i < length (vmr_tab s'). v_addr (vmr_tab s' ! i) = r \<and> v_length (vmr_tab s' ! i) = len
             \<and> v_file (vmr_tab s' ! i) = f \<and> v_offset (vmr_tab s' ! i) = ofs \<and> v_prot (vmr_tab s' ! i) = prot
             \<and> (\<forall>v \<in> range_vpns r len. look s' v = vmr_ptr s' i)
          else \<forall>v \<in> range_vpns r len. look s' v AND PTE_V \<noteq> 0 \<and> grants (look s' v) prot)"
          using M(4) V(3) r by (auto split: if_splits)
        moreover have "\<forall>v. v \<notin> range_vpns r len \<longrightarrow> look s' v = look s v" using M(3) V(1) r by simp
        ultimately have "mmap_outcome addr len prot flags f ofs s r s'"
          using A Some r unfolding mmap_outcome_def by auto
        then show ?thesis using M(1,2) V root by (auto simp: fault_frame_def)
      qed
    qed
  qed
  then show "vm_inv no_slack s'" "current s' = current s" "vm_lock s' = vm_lock s" "root_page_table s' \<noteq> 0"
    "mmap_outcome addr len prot flags f ofs s r s'" by auto
qed


section \<open>\<open>mprotect\<close>\<close>

text \<open>\<open>s'\<close> grants no write or execute access that \<open>s\<close> does not grant.\<close>

definition no_new_rights :: "('fs, 'fil, 'z) vm_state_scheme \<Rightarrow> ('fs, 'fil, 'z) vm_state_scheme \<Rightarrow> bool" where
  "no_new_rights s s' \<longleftrightarrow>
     (\<forall>v. look s v = look s' v \<or> look s v AND PTE_V \<noteq> 0 \<and> look s' v AND PTE_V \<noteq> 0
        \<and> (PTE_UW (look s' v) \<longrightarrow> PTE_UW (look s v)) \<and> (PTE_UX (look s' v) \<longrightarrow> PTE_UX (look s v)))
     \<and> (\<forall>i. v_prot (vmr_tab s' ! i) AND NOT (v_prot (vmr_tab s ! i)) = 0)"

lemma no_new_rights_refl: "no_new_rights s s"
  by (simp add: no_new_rights_def)

lemma and_not_trans: "a AND NOT b = 0 \<Longrightarrow> b AND NOT c = 0 \<Longrightarrow> a AND NOT c = (0 :: u32)"
proof -
  assume "a AND NOT b = 0" "b AND NOT c = 0"
  then have "\<And>n. n < 32 \<Longrightarrow> bit a n \<Longrightarrow> bit c n" by (auto simp: bit_eq_iff bit_simps)
  then show "a AND NOT c = 0" by (auto simp: bit_eq_iff bit_simps)
qed

lemma no_new_rights_trans:
  assumes "no_new_rights s t" "no_new_rights t u"
  shows "no_new_rights s u"
  unfolding no_new_rights_def
proof (intro conjI allI)
  fix v
  show "look s v = look u v \<or> look s v AND PTE_V \<noteq> 0 \<and> look u v AND PTE_V \<noteq> 0
        \<and> (PTE_UW (look u v) \<longrightarrow> PTE_UW (look s v)) \<and> (PTE_UX (look u v) \<longrightarrow> PTE_UX (look s v))"
    using assms unfolding no_new_rights_def by metis
next
  fix i
  show "v_prot (vmr_tab u ! i) AND NOT (v_prot (vmr_tab s ! i)) = 0"
    using assms and_not_trans unfolding no_new_rights_def by blast
qed

lemma xor_and_not: "(p XOR q) AND NOT p = q AND NOT (p :: u32)"
  by (auto simp: bit_eq_iff bit_simps)

lemma pte_create_user_perms:
  assumes "pte_create p prot True = Some e"
  shows "PTE_UR e \<longleftrightarrow> prot AND 7 \<noteq> 0" "PTE_UW e \<longleftrightarrow> prot AND PROT_WRITE \<noteq> 0"
    "PTE_UX e \<longleftrightarrow> prot AND PROT_EXEC \<noteq> 0"
proof -
  have "(PTE_UR e \<longleftrightarrow> prot AND 7 \<noteq> 0) \<and> (PTE_UW e \<longleftrightarrow> prot AND PROT_WRITE \<noteq> 0) \<and> (PTE_UX e \<longleftrightarrow> prot AND PROT_EXEC \<noteq> 0)"
    unfolding PTE_perm_defs and_low_mask low_bits_perms(1,2) [of prot] pte_create_user_low [OF assms]
    by (rule take_bit_cases) code_simp
  then show "PTE_UR e \<longleftrightarrow> prot AND 7 \<noteq> 0" "PTE_UW e \<longleftrightarrow> prot AND PROT_WRITE \<noteq> 0"
    "PTE_UX e \<longleftrightarrow> prot AND PROT_EXEC \<noteq> 0" by blast+
qed

definition prot_frame :: "('fs, 'fil, 'z) vm_state_scheme \<Rightarrow> ('fs, 'fil, 'z) vm_state_scheme \<Rightarrow> bool" where
  "prot_frame s s' \<longleftrightarrow> s' = s\<lparr>pt := pt s', vmr_tab := vmr_tab s'\<rparr> \<and> no_new_rights s s'"

lemma mprotect_page_spec:
  assumes inv: "vm_inv x s" and root: "root_page_table s \<noteq> 0"
  obtains r s' where "mprotect_page prot a s = Some (r, s')" "vm_inv x s'" "prot_frame s s'"
    "r \<in> {0, - ENOMEM, - EACCES}"
proof -
  have wf: "pt_wf s" and reg: "regions_ok x s" using inv by (auto simp: vm_inv_def)
  obtain p where w: "walk a s = Some (p, s)" using walk_returns [OF wf root] by blast
  note W = walk_spec(4) [OF wf w]
  have same: "prot_frame s s" by (simp add: prot_frame_def no_new_rights_refl)
  show ?thesis
  proof (cases "p = 0 \<or> pt s p = 0")
    case True
    then show ?thesis using that [of "- ENOMEM" s] w inv same by (simp add: mprotect_page_def)
  next
    case False
    then have slot: "is_slot s (vpn a) p" and ent: "pt s p = look s (vpn a)" using W slot_entry by blast+
    show ?thesis
    proof (cases "pt s p AND PTE_V = 0")
      case True
      then obtain i where i: "vmr_index s (pt s p) = Some i"
        using reg False ent by (auto simp: regions_ok_def)
      define v where "v = vmr_tab s ! i"
      define s' where "s' = s\<lparr>vmr_tab := (vmr_tab s)[i := v\<lparr>v_prot := prot\<rparr>]\<rparr>"
      show ?thesis
      proof (cases "prot AND NOT (v_prot v) = 0")
        case no: False
        then show ?thesis using that [of "- EACCES" s] w inv same False True i
          by (simp add: mprotect_page_def v_def xor_and_not)
      next
        case yes: True
        have c: "pt_wf s' = pt_wf s" "look s' = look s" using pt_wf_cong [of s' s] by (auto simp: s'_def)
        have "regions_ok x s'"
        proof (rule regions_ok_upd [OF reg])
          show "look s' = (look s)(0 := look s 0)" using c by simp
          show "entry_ok s (look s 0)" using reg by (simp add: entry_ok_def regions_ok_def)
        qed (use vmr_index_ptr(2) [OF i] in \<open>auto simp: s'_def v_def nth_list_update\<close>)
        then have inv': "vm_inv x s'" using inv c by (simp add: vm_inv_def s'_def)
        have nn: "no_new_rights s s'"
          unfolding no_new_rights_def c(2) using yes vmr_index_ptr(2) [OF i]
          by (auto simp: s'_def v_def nth_list_update)
        have "mprotect_page prot a s = Some (0, s')"
          using w False True i yes by (simp add: mprotect_page_def v_def s'_def xor_and_not)
        then show ?thesis using that inv' nn by (simp add: prot_frame_def s'_def)
      qed
    next
      case valid: False
      show ?thesis
      proof (cases "(prot AND PROT_WRITE \<noteq> 0 \<and> \<not> PTE_UW (pt s p)) \<or> (prot AND PROT_EXEC \<noteq> 0 \<and> \<not> PTE_UX (pt s p))")
        case True
        then show ?thesis using that [of "- EACCES" s] w inv same False valid by (simp add: mprotect_page_def)
      next
        case ok: False
        obtain e where e: "pte_create (pte_ppn (pt s p)) prot True = Some e" by (simp add: pte_create_def Let_def)
        define s' where "s' = s\<lparr>pt := (pt s)(p := e)\<rparr>"
        note ev = pte_create_valid(1) [OF e] and ep = pte_create_user_perms [OF e]
        have "of_bool (look s (vpn a) = vmr_ptr s i) + x i = of_bool (e = vmr_ptr s i) + x i"
          if "i < length (vmr_tab s)" for i
          using regions_ok_props(2) [OF reg that] valid ev ent by auto
        note S = set_slot [OF inv slot _ this s'_def]
        have inv': "vm_inv x s'" and lk: "look s' = (look s)(vpn a := e)" using S ev by (auto simp: entry_ok_def)
        have tab: "vmr_tab s' = vmr_tab s" by (simp add: s'_def)
        have "no_new_rights s s'"
          unfolding no_new_rights_def lk tab using ok valid ev ep(2,3) ent by auto
        moreover have "mprotect_page prot a s = Some (0, s')"
          using w False valid ok e by (auto simp: mprotect_page_def s'_def)
        ultimately show ?thesis using that inv' by (simp add: prot_frame_def s'_def)
      qed
    qed
  qed
qed


lemma prot_frame_trans: "prot_frame s t \<Longrightarrow> prot_frame t u \<Longrightarrow> prot_frame s u"
  using no_new_rights_trans unfolding prot_frame_def by (cases s, cases t, cases u) fastforce

lemma prot_frame_root: "prot_frame s s' \<Longrightarrow> root_page_table s' = root_page_table s"
  unfolding prot_frame_def by (cases s, cases s') simp

lemma mprotect_loop_spec:
  assumes "unat hi + 4096 \<le> 2 ^ 64" "vm_inv x s" "root_page_table s \<noteq> 0"
  shows "\<exists>r s'. mprotect_loop prot a hi s = Some (r, s') \<and> vm_inv x s' \<and> prot_frame s s'
    \<and> r \<in> {0, - ENOMEM, - EACCES}"
  using assms(2,3)
proof (induction "page_count a hi" arbitrary: a s)
  case 0
  then have "\<not> a < hi" using page_count_step [OF _ assms(1)] by fastforce
  then show ?case using 0 by (subst mprotect_loop.simps) (simp add: prot_frame_def no_new_rights_refl)
next
  case (Suc n)
  obtain r s1 where p: "mprotect_page prot a s = Some (r, s1)" "vm_inv x s1" "prot_frame s s1" "r \<in> {0, - ENOMEM, - EACCES}"
    using mprotect_page_spec [OF Suc.prems] by metis
  have "a < hi"
  proof (rule ccontr)
    assume "\<not> a < hi"
    then have "unat hi - unat a = 0" by (simp add: word_less_nat_alt)
    with Suc(2) show False by (simp add: page_count_def)
  qed
  note st = page_count_step [OF this assms(1)]
  show ?case
  proof (cases "r = 0")
    case False
    then show ?thesis using p \<open>a < hi\<close> by (subst mprotect_loop.simps) simp
  next
    case True
    have "n = page_count (a + RISCV_PGSIZE) hi" using st Suc(2) by simp
    then obtain r' s' where "mprotect_loop prot (a + RISCV_PGSIZE) hi s1 = Some (r', s')" "vm_inv x s'"
      "prot_frame s1 s'" "r' \<in> {0, - ENOMEM, - EACCES}"
      using Suc.hyps(1) [OF _ p(2)] prot_frame_root [OF p(3)] Suc.prems(2) by metis
    then show ?thesis using p True \<open>a < hi\<close> prot_frame_trans [OF p(3)] by (subst mprotect_loop.simps) simp
  qed
qed

lemma vpn_next: "vpn (a + RISCV_PGSIZE) = vpn a + 1"
proof -
  have v: "unat (vpn x) = unat x div 4096 mod 2 ^ 27" for x
    by (simp add: vpn_def unsigned_ucast_eq take_bit_eq_mod unat_drop_bit)
  have "(unat a + 4096) mod (4096 * 2 ^ 52) div 4096 = (unat a + 4096) div 4096 mod 2 ^ 52"
    unfolding mod_mult2_eq by simp
  moreover have "(unat a + 4096) div 4096 = unat a div 4096 + 1" by (simp add: div_add_self2)
  ultimately have "unat (a + RISCV_PGSIZE) div 4096 = (unat a div 4096 + 1) mod 2 ^ 52" by (simp add: unat_word_ariths)
  then have "unat (vpn (a + RISCV_PGSIZE)) = (unat a div 4096 + 1) mod 2 ^ 52 mod 2 ^ 27" by (simp only: v)
  also have "\<dots> = (unat (vpn a) + 1) mod 2 ^ 27" unfolding v by (simp add: mod_mod_cancel mod_Suc_eq)
  finally show ?thesis by (simp add: word_unat_eq_iff unat_word_ariths)
qed

text \<open>The loop wraps when the range ends in the top page; it then still comes to a page that is not mapped.\<close>

lemma mprotect_loop_unmapped:
  assumes "look s v = 0" "vm_inv x s" "root_page_table s \<noteq> 0"
  shows "\<exists>r s'. mprotect_loop prot a hi s = Some (r, s') \<and> vm_inv x s' \<and> prot_frame s s'
    \<and> r \<in> {0, - ENOMEM, - EACCES}"
  using assms
proof (induction "unat (v - vpn a)" arbitrary: a s)
  case 0
  then have "look s (vpn a) = 0" by (simp add: unat_eq_0)
  moreover have wf: "pt_wf s" using 0 by (simp add: vm_inv_def)
  moreover obtain p where w: "walk a s = Some (p, s)" using walk_returns [OF wf] 0 by blast
  ultimately have "p = 0 \<or> pt s p = 0" using walk_spec(4) [OF wf w] slot_entry by fastforce
  then have "mprotect_page prot a s = Some (- ENOMEM, s)" using w by (simp add: mprotect_page_def)
  then show ?case using 0 by (subst mprotect_loop.simps) (simp add: prot_frame_def no_new_rights_refl)
next
  case (Suc n)
  obtain r s1 where p: "mprotect_page prot a s = Some (r, s1)" "vm_inv x s1" "prot_frame s s1" "r \<in> {0, - ENOMEM, - EACCES}"
    using mprotect_page_spec [OF Suc.prems(2,3)] by metis
  show ?case
  proof (cases "a < hi \<and> r = 0")
    case False
    then show ?thesis using p Suc.prems by (subst mprotect_loop.simps) (auto simp: prot_frame_def no_new_rights_refl)
  next
    case True
    have l: "look s1 v = 0" using p(3) Suc.prems(1) unfolding prot_frame_def no_new_rights_def by (metis and_zero_eq and.commute)
    have "v - vpn a \<noteq> 0" using Suc(2) by (metis unat_0 nat.distinct(1))
    then have "unat (v - vpn a - 1) = unat (v - vpn a) - 1" by (rule unat_minus_one)
    then have n: "n = unat (v - vpn (a + RISCV_PGSIZE))" using Suc(2) by (simp add: vpn_next diff_diff_eq)
    obtain r' s' where "mprotect_loop prot (a + RISCV_PGSIZE) hi s1 = Some (r', s')" "vm_inv x s'"
      "prot_frame s1 s'" "r' \<in> {0, - ENOMEM, - EACCES}"
      using Suc.hyps(1) [OF n l p(2)] prot_frame_root [OF p(3)] Suc.prems(3) by metis
    then show ?thesis using p True prot_frame_trans [OF p(3)] by (subst mprotect_loop.simps) simp
  qed
qed

lemma do_mprotect_spec:
  assumes inv: "vm_inv no_slack s" and "root_page_table s \<noteq> 0" "vm_lock s = 0"
    "look s v = 0 \<or> unat (addr + len) + 4096 \<le> 2 ^ 64"
  shows "\<exists>r s'. do_mprotect addr len prot s = Some (r, s') \<and> vm_inv no_slack s' \<and> no_new_rights s s'
    \<and> vm_lock s' = 0 \<and> ram s' = ram s \<and> r \<in> {0, - EINVAL, - ENOMEM, - EACCES}"
proof (cases "take_bit 12 addr = 0")
  case False
  then show ?thesis using assms by (simp add: do_mprotect_def and_low_mask no_new_rights_refl)
next
  case True
  let ?s = "s\<lparr>vm_lock := - 1\<rparr>"
  have "\<exists>r s'. mprotect_loop prot addr (addr + len) ?s = Some (r, s') \<and> vm_inv no_slack s' \<and> prot_frame ?s s'
    \<and> r \<in> {0, - ENOMEM, - EACCES}"
    using assms(4) mprotect_loop_spec [of "addr + len" no_slack ?s prot addr]
      mprotect_loop_unmapped [of ?s v no_slack prot addr "addr + len"] inv assms(2) by (auto simp: vm_inv_lock)
  then obtain r s' where l: "mprotect_loop prot addr (addr + len) ?s = Some (r, s')" "vm_inv no_slack s'" "prot_frame ?s s'"
    "r \<in> {0, - ENOMEM, - EACCES}" by blast
  have "no_new_rights s (s'\<lparr>vm_lock := 0\<rparr>)"
    using l(3) by (simp add: prot_frame_def no_new_rights_def vm_inv_lock)
  moreover have "ram s' = ram s" using l(3) unfolding prot_frame_def by (cases s') (cases s, simp)
  moreover have "do_mprotect addr len prot s = Some (r, s'\<lparr>vm_lock := 0\<rparr>)"
    using True l(1) assms(3) by (simp add: do_mprotect_def and_low_mask lock_vm_def unlock_vm_def spinlock_unlock_def)
  ultimately show ?thesis using l(2,4) by (auto simp: vm_inv_lock)
qed


section \<open>\<open>brk\<close>\<close>

text \<open>The layout of the user part of the address space.\<close>

definition layout_ok :: "elf_info \<Rightarrow> bool" where
  "layout_ok c \<longleftrightarrow> first_free_paddr c \<le> brk_min c \<and> brk_min c \<noteq> 0 \<and> brk_min c \<le> brk_max c \<and> brk_max c \<le> mmap_max c
     \<and> unat (mmap_max c) \<le> 2 ^ 39 \<and> take_bit 12 (mmap_max c) = 0
     \<and> (brk c = 0 \<or> take_bit 12 (brk c) = 0 \<and> brk_min c \<le> brk c \<and> brk c \<le> mmap_max c)"

lemma ROUNDUP_unat:
  assumes "a \<noteq> 0" "unat a \<le> 2 ^ 63"
  shows "unat (ROUNDUP a RISCV_PGSIZE) = 4096 * ((unat a + 4095) div 4096)"
proof -
  have p: "0 < unat a" using assms(1) by (simp add: unat_gt_0)
  have "unat ((a - 1) div RISCV_PGSIZE + 1) = (unat a + 4095) div 4096"
    using page_total [of a] assms by simp
  moreover have "4096 * ((unat a + 4095) div 4096) < 2 ^ 64" using assms(2) by (simp add: mult.commute)
  ultimately show ?thesis unfolding ROUNDUP_def by (subst unat_word_ariths(2)) (simp add: mult.commute)
qed

lemma ROUNDUP_le:
  assumes "a \<noteq> 0" "a \<le> b" "take_bit 12 b = 0" "unat b \<le> 2 ^ 39"
  shows "a \<le> ROUNDUP a RISCV_PGSIZE" "ROUNDUP a RISCV_PGSIZE \<le> b" "take_bit 12 (ROUNDUP a RISCV_PGSIZE) = 0"
proof -
  have ab: "unat a \<le> unat b" using assms(2) by (simp add: word_le_nat_alt)
  have u: "unat (ROUNDUP a RISCV_PGSIZE) = 4096 * ((unat a + 4095) div 4096)"
    using ROUNDUP_unat [OF assms(1)] ab assms(4) by simp
  show "a \<le> ROUNDUP a RISCV_PGSIZE" unfolding word_le_nat_alt u by linarith
  obtain k where k: "unat b = 4096 * k" using assms(3) by (auto simp: aligned_iff)
  have "(unat a + 4095) div 4096 \<le> k" using ab k by linarith
  then show "ROUNDUP a RISCV_PGSIZE \<le> b" unfolding word_le_nat_alt u k by simp
  show "take_bit 12 (ROUNDUP a RISCV_PGSIZE) = 0" unfolding aligned_iff u by simp
qed

definition clamp_brk :: "elf_info \<Rightarrow> u64 \<Rightarrow> u64" where
  "clamp_brk c addr = max (brk_min c) (min addr (brk_max c))"

definition old_brk :: "elf_info \<Rightarrow> u64" where
  "old_brk c = (if brk c = 0 then ROUNDUP (brk_min c) RISCV_PGSIZE else brk c)"

lemma newbrk_clamp:
  "brk_min c \<le> brk_max c \<Longrightarrow>
   (if addr < brk_min c then brk_min c else if addr > brk_max c then brk_max c else addr) = clamp_brk c addr"
  by (auto simp: clamp_brk_def max_def min_def)

lemma vm_inv_current: "vm_inv x (s\<lparr>current := c\<rparr>) = vm_inv x s" "look (s\<lparr>current := c\<rparr>) = look s"
proof -
  note c = pt_wf_cong [of "s\<lparr>current := c\<rparr>" s]
  show "look (s\<lparr>current := c\<rparr>) = look s" using c by simp
  then show "vm_inv x (s\<lparr>current := c\<rparr>) = vm_inv x s"
    using c regions_ok_cong [of "s\<lparr>current := c\<rparr>" s x] by (simp add: vm_inv_def)
qed

text \<open>What \<open>__do_brk\<close> leaves: pages between the new and the old break unmapped, or pages between
  the old and the new break mapped.\<close>

definition brk_outcome :: "u64 \<Rightarrow> u64 \<Rightarrow> ('fs, 'fil, 'z) vm_state_scheme \<Rightarrow> ('fs, 'fil, 'z) vm_state_scheme \<Rightarrow> bool" where
  "brk_outcome old new s s' \<longleftrightarrow>
     (if new < old then (\<forall>v \<in> range_vpns new (old - new). look s' v = 0)
        \<and> (\<forall>v. v \<notin> range_vpns new (old - new) \<longrightarrow> look s' v = look s v)
      else (\<forall>v \<in> range_vpns old (new - old). look s' v \<noteq> 0)
        \<and> (\<forall>v. v \<notin> range_vpns old (new - old) \<longrightarrow> look s' v = look s v))"

lemma aligned_diff:
  assumes "take_bit 12 old = 0" "take_bit 12 new = 0" "old < (new :: u64)"
  shows "4096 * ((unat (new - old) + 4095) div 4096) = unat new - unat old"
proof -
  have d: "unat (new - old) = unat new - unat old" using assms(3) by (simp add: unat_sub)
  obtain j k where "unat old = 4096 * j" "unat new = 4096 * k" using assms by (auto simp: aligned_iff elim!: dvdE)
  then have "unat (new - old) = 4096 * (k - j)" unfolding d by (simp add: diff_mult_distrib2)
  then show ?thesis using d by simp
qed

lemma brk_move:
  assumes inv: "vm_inv no_slack s" and root: "root_page_table s \<noteq> 0"
    and lim: "old \<le> mmap_max (current s)" "new \<le> mmap_max (current s)" "unat (mmap_max (current s)) \<le> 2 ^ 39"
    and al: "take_bit 12 old = 0 \<and> take_bit 12 new = 0 \<and> brk (current s) = old"
    and mid: "(if old > new then do_munmap_nolock F new (old - new) s
       else if old < new then do {
         (r, s') \<leftarrow> do_mmap_nolock F old (new - old) prot 0x32 f ofs s;
         kassert (r = brk (current s'));
         Some s' }
       else Some s) = Some s1"
  shows "vm_inv no_slack s1 \<and> current s1 = current s \<and> vm_lock s1 = vm_lock s \<and> brk_outcome old new s s1"
proof -
  have o: "unat old \<le> 2 ^ 39" "unat new \<le> 2 ^ 39" using lim by (simp_all add: word_le_nat_alt)
  consider "new < old" | "old < new" | "old = new" by fastforce
  then show ?thesis
  proof cases
    case 1
    have "unat (new + (old - new)) + 8192 \<le> 2 ^ 64" using o by simp
    from do_munmap_nolock_spec [OF inv root this, of F]
    obtain s' where "do_munmap_nolock F new (old - new) s = Some s'" "vm_inv no_slack s'" "vm_frame s s'"
      "\<forall>v \<in> range_vpns new (old - new). look s' v = 0" "\<forall>v. v \<notin> range_vpns new (old - new) \<longrightarrow> look s' v = look s v"
      by metis
    then show ?thesis using mid 1 by (simp add: vm_frame_def brk_outcome_def)
  next
    case 2
    have "new - old \<noteq> 0" using 2 by auto
    moreover have "4096 * ((unat (new - old) + 4095) div 4096) \<le> unat (mmap_max (current s))"
      using aligned_diff [OF _ _ 2] al lim(2) by (simp add: word_le_nat_alt)
    moreover obtain r where m: "do_mmap_nolock F old (new - old) prot 0x32 f ofs s = Some (r, s1)" and r: "r = brk (current s1)"
      using mid 2 by (auto simp: kassert_def split: bind_splits if_splits)
    ultimately have M: "vm_inv no_slack s1" "current s1 = current s" "vm_lock s1 = vm_lock s"
      "mmap_outcome old (new - old) prot 0x32 f ofs s r s1"
      using do_mmap_nolock_spec [OF inv root lim(3) _ _ m] by blast+
    have "r = old" using r M(2) al by simp
    moreover have "old \<noteq> - 1" using o(1) by (auto simp: unsigned_minus_1_eq_mask mask_eq_exp_minus_1)
    ultimately have out: "\<forall>v. v \<notin> range_vpns old (new - old) \<longrightarrow> look s1 v = look s v"
       "if have_vm s then \<exists>i < length (vmr_tab s1). \<forall>v \<in> range_vpns old (new - old). look s1 v = vmr_ptr s1 i
        else \<forall>v \<in> range_vpns old (new - old). look s1 v AND PTE_V \<noteq> 0"
      using M(4) by (auto simp: mmap_outcome_def split: if_splits)
    have reg: "regions_ok no_slack s1" using M(1) by (simp add: vm_inv_def)
    have "look s1 v \<noteq> 0" if "v \<in> range_vpns old (new - old)" for v
      using out(2) that regions_ok_props(3) [OF reg] by (auto split: if_splits)
    then show ?thesis using M out 2 by (auto simp: brk_outcome_def)
  next
    case 3
    then show ?thesis using mid inv by (simp add: brk_outcome_def range_vpns_def page_count_def)
  qed
qed

lemma do_brk_nolock_spec:
  assumes inv: "vm_inv no_slack s" and root: "root_page_table s \<noteq> 0" and lay: "layout_ok (current s)"
    and run: "do_brk_nolock F addr s = Some (r, s')"
  defines "new \<equiv> ROUNDUP (clamp_brk (current s) addr) RISCV_PGSIZE" and "old \<equiv> old_brk (current s)"
  shows "r = clamp_brk (current s) addr" "vm_inv no_slack s'" "current s' = (current s)\<lparr>brk := new\<rparr>"
    "vm_lock s' = vm_lock s" "brk_outcome old new s s'" "layout_ok (current s')"
proof -
  let ?c = "current s" and ?a = "clamp_brk (current s) addr"
  note L = lay [unfolded layout_ok_def]
  have a: "?a \<noteq> 0" "brk_min ?c \<le> ?a" "?a \<le> mmap_max ?c"
    using L by (auto simp: clamp_brk_def max_def min_def)
  have new: "?a \<le> new" "new \<le> mmap_max ?c" "take_bit 12 new = 0"
    using ROUNDUP_le [OF a(1,3)] L by (auto simp: new_def)
  have old: "old \<le> mmap_max ?c" "take_bit 12 old = 0" "brk_min ?c \<le> old"
    using ROUNDUP_le [of "brk_min ?c" "mmap_max ?c"] L by (auto simp: old_def old_brk_def)
  define s0 where "s0 = s\<lparr>current := ?c\<lparr>brk := old\<rparr>\<rparr>"
  have inv0: "vm_inv no_slack s0" "look s0 = look s" "root_page_table s0 \<noteq> 0"
    using inv root by (auto simp: s0_def vm_inv_current)
  have s0: "(if brk ?c = 0 then s\<lparr>current := ?c\<lparr>brk := ROUNDUP (brk_min ?c) RISCV_PGSIZE\<rparr>\<rparr> else s) = s0"
    by (simp add: s0_def old_def old_brk_def)
  define M where "M = (if old > new then do_munmap_nolock F new (old - new) s0
       else if old < new then do {
         (r, s') \<leftarrow> do_mmap_nolock F old (new - old) (- 1) 0x32 None 0 s0;
         kassert (r = brk (current s'));
         Some s' }
       else Some s0)"
  have cl: "brk_min ?c \<le> brk_max ?c" and b0: "brk (current s0) = old" using L by (auto simp: s0_def)
  have "do_brk_nolock F addr s = do { s1 \<leftarrow> M; Some (?a, s1\<lparr>current := (current s1)\<lparr>brk := new\<rparr>\<rparr>) }"
    unfolding do_brk_nolock_def Let_def newbrk_clamp [OF cl] new_def [symmetric] s0 b0 M_def by simp
  then obtain s1 where mid: "M = Some s1" and r: "r = ?a" and s': "s' = s1\<lparr>current := (current s1)\<lparr>brk := new\<rparr>\<rparr>"
    using run by (cases M) auto
  have "vm_inv no_slack s1 \<and> current s1 = current s0 \<and> vm_lock s1 = vm_lock s0 \<and> brk_outcome old new s0 s1"
    by (rule brk_move [OF inv0(1,3) _ _ _ _ mid [unfolded M_def]]) (use new old L in \<open>auto simp: s0_def\<close>)
  then show "r = ?a" "vm_inv no_slack s'" "current s' = ?c\<lparr>brk := new\<rparr>" "vm_lock s' = vm_lock s"
    "brk_outcome old new s s'"
    by (auto simp: r s' s0_def vm_inv_current brk_outcome_def)
  then show "layout_ok (current s')" using L new a by (auto simp: layout_ok_def)
qed

lemma do_mmap_spec:
  assumes inv: "vm_inv no_slack s" and root: "root_page_table s \<noteq> 0" and lock: "vm_lock s = 0"
    and hi: "unat (mmap_max (current s)) \<le> 2 ^ 39"
    and args: "flags AND MAP_PRIVATE \<noteq> 0" "len \<noteq> 0" "take_bit 12 ofs = 0" "flags AND MAP_ANONYMOUS \<noteq> 0 \<or> f \<noteq> None"
    and fits: "4096 * ((unat len + 4095) div 4096) \<le> unat (mmap_max (current s))"
    and run: "do_mmap F addr len prot flags f ofs s = Some (r, s')"
  shows "vm_inv no_slack s'" "vm_lock s' = 0" "current s' = (current s)\<lparr>brk_max := min r (brk_max (current s))\<rparr>"
    "mmap_outcome addr len prot flags f ofs s r s'"
proof -
  let ?s = "s\<lparr>vm_lock := - 1\<rparr>"
  obtain s1 where m: "do_mmap_nolock F addr len prot flags f ofs ?s = Some (r, s1)"
    and s': "s' = s1\<lparr>current := (current s1)\<lparr>brk_max := min r (brk_max (current s1))\<rparr>, vm_lock := 0\<rparr>"
    using run args lock
    by (auto simp: do_mmap_def and_low_mask lock_vm_def unlock_vm_def spinlock_unlock_def min_def not_less
        split: bind_splits if_splits)
  have *: "vm_inv no_slack ?s" using inv by (simp add: vm_inv_lock)
  note M = do_mmap_nolock_spec [OF * _ _ args(2) _ m]
  have M': "vm_inv no_slack s1" "current s1 = current s" "mmap_outcome addr len prot flags f ofs ?s r s1"
    using M root hi fits by auto
  show "vm_inv no_slack s'" "vm_lock s' = 0" using M'(1) by (simp_all add: s' vm_inv_lock vm_inv_current)
  show "current s' = (current s)\<lparr>brk_max := min r (brk_max (current s))\<rparr>" by (simp add: s' M'(2))
  have eqs: "vmr_ptr s' i = vmr_ptr s1 i" "vmr_tab s' = vmr_tab s1" "look s' = look s1" "look ?s = look s"
    "have_vm ?s = have_vm s" "current ?s = current s" for i
    by (simp_all add: s' vmr_ptr_def vm_inv_lock vm_inv_current)
  show "mmap_outcome addr len prot flags f ofs s r s'"
    using M'(3) unfolding mmap_outcome_def eqs .
qed


section \<open>Mapping returns\<close>

text \<open>A mapping uses at most three pages of the pool per page mapped.\<close>

lemma munmap_page_pool:
  assumes "pt_wf s" "root_page_table s \<noteq> 0" "munmap_page F a s = Some s'"
  shows "next_free_page s' = next_free_page s" "free_pages s' = free_pages s"
proof -
  obtain p where w: "walk a s = Some (p, s)" using walk_returns [OF assms(1,2)] by blast
  show "next_free_page s' = next_free_page s" "free_pages s' = free_pages s"
    using assms(3) w vmr_decref_frame(7,9)
    by (auto simp: munmap_page_def split: bind_splits if_splits)
qed

lemma mmap_page_returns:
  assumes inv: "vm_inv x s" and a: "unat a + 8192 \<le> 2 ^ 64" and n: "unat (next_free_page s) + 3 \<le> unat (free_pages s)"
  shows "\<exists>s'. mmap_page F v a s = Some s' \<and> unat (next_free_page s') \<le> unat (next_free_page s) + 3
    \<and> free_pages s' = free_pages s"
proof -
  have wf: "pt_wf s" using inv by (simp add: vm_inv_def)
  obtain p s1 where w: "walk_create a s = Some (p, s1)" "unat (next_free_page s1) \<le> unat (next_free_page s) + 3"
    using walk_create_returns [OF wf n] by blast
  note W = walk_create_spec [OF wf w(1)] and inv1 = walk_create_inv [OF inv w(1)]
  note nz = slot_nonnull [OF W(1,4)] and T = tables_only_fields(6) [OF W(3)]
  show ?thesis
  proof (cases "pt s1 p = 0")
    case True
    then show ?thesis using w nz T by (simp add: mmap_page_def kassert_def)
  next
    case False
    obtain s2 where s2: "munmap_page F a s1 = Some s2" using munmap_page_returns [OF inv1 W(5)] by blast
    note P = munmap_page_pool [OF W(1,5) s2]
    show ?thesis using w nz T False s2 P by (simp add: mmap_page_def kassert_def do_munmap_one [OF a])
  qed
qed

lemma mmap_fold_returns:
  "vm_inv (x(i := length as)) s \<Longrightarrow> i < length (vmr_tab s) \<Longrightarrow> vmr_ptr s i = v \<Longrightarrow>
   \<forall>a\<in>set as. unat a + 8192 \<le> 2 ^ 64 \<Longrightarrow> unat (next_free_page s) + 3 * length as \<le> unat (free_pages s) \<Longrightarrow>
   \<exists>s'. fold_opt (mmap_page F v) as s = Some s'"
proof (induction as arbitrary: s)
  case (Cons a as)
  have a: "unat a + 8192 \<le> 2 ^ 64" using Cons.prems(4) by simp
  obtain s1 where s1: "mmap_page F v a s = Some s1" "unat (next_free_page s1) \<le> unat (next_free_page s) + 3"
    "free_pages s1 = free_pages s"
    using mmap_page_returns [OF Cons.prems(1) a] Cons.prems(5) by fastforce
  have "mmap_page F (vmr_ptr s i) a s = Some s1" using s1 Cons.prems(3) by simp
  note M = mmap_page_spec [OF Cons.prems(1) a Cons.prems(2) _ this, of "length as", unfolded fun_upd_upd]
  have "(x(i := length (a # as))) i = Suc (length as)" by simp
  then have "vm_inv (x(i := length as)) s1" "vm_frame s s1" using M by blast+
  moreover from this(2) have "i < length (vmr_tab s1)" "vmr_ptr s1 i = v"
    using Cons.prems(2,3) by (auto simp: vm_frame_def vmr_ptr_def)
  moreover have "\<forall>a\<in>set as. unat a + 8192 \<le> 2 ^ 64" using Cons.prems(4) by simp
  moreover have "unat (next_free_page s1) + 3 * length as \<le> unat (free_pages s1)"
    using Cons.prems(5) s1(2,3) by simp
  ultimately obtain s' where "fold_opt (mmap_page F v) as s1 = Some s'" using Cons.IH by blast
  then show ?case using s1(1) by simp
qed simp

lemma find_free_vmr_exists: "v \<in> set vs \<Longrightarrow> v_refcnt v = 0 \<Longrightarrow> \<exists>i. find_free_vmr k vs = Some i"
  using find_free_vmr_None by (metis option.exhaust)

text \<open>An anonymous mapping at a fixed valid place succeeds as long as a descriptor is free.\<close>

lemma do_mmap_fixed_returns:
  assumes inv: "vm_inv no_slack s" and tab: "vmrs s \<noteq> 0" "v \<in> set (vmr_tab s)" "v_refcnt v = 0"
    and hi: "unat (mmap_max (current s)) \<le> 2 ^ 39"
    and arg: "take_bit 12 addr = 0" "valid_user_range (current s) addr len" "len \<noteq> 0"
    and fl: "flags AND MAP_FIXED \<noteq> 0" "flags AND MAP_POPULATE = 0" "have_vm s"
    and pool: "unat (next_free_page s) + 3 * ((unat len + 4095) div 4096) \<le> unat (free_pages s)"
  shows "\<exists>s'. do_mmap_nolock F addr len prot flags None ofs s = Some (addr, s')"
proof -
  define np where "np = (len - 1) div RISCV_PGSIZE + 1"
  obtain i where i: "find_free_vmr 0 (vmr_tab s) = Some i" using find_free_vmr_exists [OF tab(2,3)] by blast
  define s1 where "s1 = s\<lparr>vmr_tab := (vmr_tab s)[i := new_vmr addr len None ofs (ucast np) prot]\<rparr>"
  have v: "vmr_alloc addr len None ofs (ucast np) prot s = Some (Some i, s1)"
    using tab(1) i by (simp add: vmr_alloc_def vmr_table_init_def s1_def new_vmr_def)
  note V = vmr_alloc_spec(7) [OF inv v, simplified]
  have bnd: "unat addr + unat len \<le> unat (mmap_max (current s))"
    using valid_user_range_bound [OF arg(2)] unsigned_less [of len, where 'a = nat]
    by (auto simp: word_le_nat_alt unat_plus_if' split: if_splits)
  then have cnt: "page_count addr (addr + len) = (unat len + 4095) div 4096"
    using hi by (intro page_count_range) simp
  have cnt': "unat (ucast np :: u32) = page_count addr (addr + len)"
  proof -
    have "unat np = (unat len + 4095) div 4096" using page_total [OF arg(3)] bnd hi by (simp add: np_def)
    moreover have "(unat len + 4095) div 4096 < 2 ^ 32" using bnd hi by (simp add: div_less_iff_less_mult)
    ultimately show ?thesis using cnt by (simp add: unsigned_ucast_eq take_bit_nat_eq_self)
  qed
  have hi2: "unat (addr + len) + 8192 \<le> 2 ^ 64" using bnd hi by (simp add: unat_word_ariths(1))
  then have "\<forall>b\<in>set (pages addr (page_count addr (addr + len))). unat b + 8192 \<le> 2 ^ 64"
    using pages_below [of "addr + len" _ addr] by (fastforce simp: word_less_nat_alt)
  then obtain s2 where "fold_opt (mmap_page F (vmr_ptr s1 i)) (pages addr (page_count addr (addr + len))) s1 = Some s2"
    using mmap_fold_returns [of no_slack i "pages addr (page_count addr (addr + len))" s1 "vmr_ptr s1 i" F] V cnt cnt' pool
    by (auto simp: s1_def)
  then have s2: "page_loop (mmap_page F (vmr_ptr s1 i)) addr (addr + len) s1 = Some s2"
    using hi2 by (simp add: page_loop_fold)
  have V': "vm_inv (no_slack(i := page_count addr (addr + len))) s1" "i < length (vmr_tab s1)" using V cnt' by auto
  have "have_vm s2" using mmap_range_spec(2) [OF V' hi2 s2] fl(3) by (simp add: vm_frame_def s1_def)
  then show ?thesis
    using v s2 arg fl by (simp add: do_mmap_nolock_def mmap_addr_def np_def and_low_mask)
qed

end
