(* ===== verification/Vm_Props.thy ===== *)
theory Vm_Props
  imports Vm_Map
begin


text \<open>
  The properties of \<open>bbl/vm.c\<close>: page-table entries, the table walk, page faults, \<open>munmap\<close>,
  \<open>mmap\<close>, \<open>brk\<close>, \<open>mprotect\<close> and the search for free address space, each with a witness on a
  small machine: 128 MB of memory, an empty root table and an empty descriptor table.
\<close>

definition info_example :: elf_info where
  "info_example = \<lparr>elf64 = 1, phent = 0, phnum = 0, is_supervisor = False, phdr = 0, phdr_size = 0,
     first_free_paddr = 0x100000, first_user_vaddr = 0, first_vaddr_after_user = 0, bias = 0, entry = 0,
     brk_min = 0x200000, brk = 0x200000, brk_max = 0x7000000, mmap_max = 0x7000000,
     stack_bottom = 0, stack_top = 0, info_t0 = 0\<rparr>"

definition vm_example :: "(unit, unit) vm_state" where
  "vm_example = \<lparr>disk = (), files = [], file_lock = 0, refcnt_lock = 0, sstatus = 1, ram = (\<lambda>_. 7),
     vm_lock = 0, vmrs = 0x7001000, vmr_tab = replicate 102 vmr0, root_page_table = 0x7000000,
     first_free_page = 0x7000000, next_free_page = 2, free_pages = 64, pt = (\<lambda>_. 0),
     current = info_example, have_vm = True, mem_size = 0x8000000, num_harts = 1, sptbr = 0x7000000\<rparr>"

definition fatfs_example :: "(unit, unit) fatfs" where
  "fatfs_example = \<lparr>f_open = (\<lambda>_ _ fil fs. (0, fil, fs)), f_close = (\<lambda>fil fs. (0, fil, fs)),
     f_lseek = (\<lambda>fil _ fs. (0, fil, fs)), f_read = (\<lambda>fil _ fs. (0, [], fil, fs)),
     f_write = (\<lambda>fil _ fs. (0, 0, fil, fs)), f_stat = (\<lambda>_ fs. (0, 0, fs))\<rparr>"

lemma vm_example_fields [simp]:
  "current vm_example = info_example" "root_page_table vm_example = 0x7000000" "vm_lock vm_example = 0"
  "vmrs vm_example = 0x7001000" "vmr_tab vm_example = replicate 102 vmr0" "have_vm vm_example = True"
  "next_free_page vm_example = 2" "free_pages vm_example = 64" "pt vm_example = (\<lambda>_. 0)"
  by (simp_all add: vm_example_def)

lemma vm_example_look: "look vm_example = (\<lambda>_. 0)"
  by (simp add: look_def fun_eq_iff entry_at_def numeral_2_eq_2)

lemma vm_example_wf: "pt_wf vm_example"
proof -
  have "table_inv [0x7000000 \<mapsto> (2, 0)] vm_example"
  proof (rule table_invI)
    show "i \<le> 2 \<and> allocated vm_example t" if "[0x7000000 \<mapsto> (2, 0)] t = Some (i, q)" for t q and i :: nat
      using that by (auto simp: allocated_def pool_page_def vm_example_def split: if_splits intro!: exI [of _ 0])
  qed (auto split: if_splits)
  then show ?thesis by (auto simp: pt_wf_def pool_ok_def vm_example_def)
qed

lemma vm_example_inv: "vm_inv no_slack vm_example"
proof -
  have "vmr_refs vm_example i = 0" if "i < 102" for i
    using vmr_ptr_props(3) [of vm_example i] that
    by (auto simp: vmr_refs_def vm_example_look page_base_def card_eq_0_iff)
  then show ?thesis using vm_example_wf
    by (auto simp: vm_inv_def regions_ok_def vm_example_look page_base_def vmr0_def) (simp_all add: vm_example_def)
qed


section \<open>Page-table entries\<close>

text \<open>
  C23: an entry made by \<open>pte_create\<close> for the user gives back its page number, is valid, is not
  taken for a pointer to a table, and grants reading, writing and executing exactly as the
  protection bits say (reading comes with any access); a kernel entry grants the user nothing.
\<close>

theorem pte_create_correct:
  assumes "p < 2 ^ 54" "pte_create p prot user = Some e"
  shows "pte_ppn e = p \<and> e AND PTE_V \<noteq> 0 \<and> \<not> PTE_TABLE e
    \<and> (PTE_UR e \<longleftrightarrow> user \<and> prot AND (PROT_READ OR PROT_WRITE OR PROT_EXEC) \<noteq> 0)
    \<and> (PTE_UW e \<longleftrightarrow> user \<and> prot AND PROT_WRITE \<noteq> 0)
    \<and> (PTE_UX e \<longleftrightarrow> user \<and> prot AND PROT_EXEC \<noteq> 0)
    \<and> (\<not> user \<longrightarrow> PTE_SR e \<and> (PTE_SW e \<longleftrightarrow> prot AND PROT_WRITE \<noteq> 0) \<and> (PTE_SX e \<longleftrightarrow> prot AND PROT_EXEC \<noteq> 0))"
proof (cases user)
  case True
  with pte_create_user_perms [of p prot e] pte_create_valid [OF assms(2)] pte_create_ppn [OF assms(2,1)] assms(2)
  show ?thesis by simp
next
  case False
  with assms(2) have low: "take_bit 5 e = 1 OR pte_super_type (take_bit 3 prot)" "take_bit 3 prot \<noteq> 0"
    by (auto dest: pte_create_super_low)
  have "take_bit 3 prot \<noteq> 0 \<longrightarrow> \<not> PTE_UR e \<and> \<not> PTE_UW e \<and> \<not> PTE_UX e \<and> PTE_SR e
    \<and> (PTE_SW e \<longleftrightarrow> prot AND PROT_WRITE \<noteq> 0) \<and> (PTE_SX e \<longleftrightarrow> prot AND PROT_EXEC \<noteq> 0)"
    unfolding PTE_perm_defs and_low_mask low_bits_perms(1,2) [of prot] low(1)
    by (rule take_bit_cases) code_simp
  with False low(2) pte_create_valid [OF assms(2)] pte_create_ppn [OF assms(2,1)] show ?thesis by simp
qed

theorem pte_create_correct_witness:
  "pte_create 0x80 PROT_WRITE True = Some 0x2000B \<and> pte_ppn 0x2000B = 0x80 \<and> PTE_UR 0x2000B \<and> PTE_UW 0x2000B \<and> \<not> PTE_UX 0x2000B"
proof -
  have e: "pte_create 0x80 PROT_WRITE True = Some 0x2000B" by code_simp
  show ?thesis using pte_create_correct [OF _ e] e by simp
qed

section \<open>The table walk\<close>

text \<open>
  C22: \<open>__walk_create\<close> returns while three pages of the pool are left, changes no mapping and
  gives a non-null pointer through which a store is exactly an update of the address space at
  the page of the address: every other page keeps its entry and the tables stay well formed.
\<close>

theorem walk_create_refines:
  assumes "pt_wf s" "unat (next_free_page s) + 3 \<le> unat (free_pages s)"
  shows "\<exists>e s'. walk_create a s = Some (e, s') \<and> e \<noteq> 0 \<and> pt_wf s' \<and> look s' = look s \<and> pt s' e = look s (vpn a)
    \<and> (\<forall>y. pt_wf (s'\<lparr>pt := (pt s')(e := y)\<rparr>) \<and> look (s'\<lparr>pt := (pt s')(e := y)\<rparr>) = (look s)(vpn a := y))"
proof -
  obtain e s' where w: "walk_create a s = Some (e, s')" using walk_create_returns [OF assms] by blast
  note W = walk_create_spec [OF assms(1) w]
  show ?thesis
    using w W slot_nonnull [OF W(1,4)] slot_entry [OF W(4)] slot_upd(1,2) [OF W(1,4)] by auto
qed

theorem walk_create_refines_witness:
  "\<exists>e s'. walk_create 0x200000 vm_example = Some (e, s') \<and> e \<noteq> 0
    \<and> look (s'\<lparr>pt := (pt s')(e := 9)\<rparr>) = (\<lambda>v. if v = 0x200 then 9 else 0)"
proof -
  have "vpn 0x200000 = 0x200" by code_simp
  then show ?thesis
    using walk_create_refines [OF vm_example_wf, where a = "0x200000"] by (fastforce simp: vm_example_look fun_upd_def)
qed

section \<open>Page faults\<close>

text \<open>
  C1: when \<open>handle_page_fault\<close> returns, it has released the lock, kept the invariant (tables are
  a tree, every region counts the pages that still refer to it) and done what
  \<open>fault_spec\<close> says: refused an address outside the user range or not mapped, checked the rights of
  a present page, or brought in the page with the rights of its region and checked those.
\<close>

theorem page_fault_correct:
  assumes "vm_inv no_slack s" "handle_page_fault F a prot s = Some (r, s')"
  shows "vm_inv no_slack s' \<and> vm_lock s' = 0 \<and> current s' = current s \<and> fault_spec a prot s r s'"
proof -
  let ?s = "s\<lparr>vm_lock := - 1\<rparr>"
  obtain s1 where f: "handle_page_fault_nolock F a prot ?s = Some (r, s1)" and s': "s' = s1\<lparr>vm_lock := 0\<rparr>"
    using assms(2) by (auto simp: handle_page_fault_def lock_vm_Some unlock_vm_def spinlock_unlock_def split: bind_splits)
  have *: "vm_inv no_slack s1" "fault_spec a prot ?s r s1" "current s1 = current s"
    using page_fault_spec [OF _ f, of no_slack] assms(1) by (auto simp: vm_inv_lock)
  have eqs: "look s' = look s1" "look ?s = look s" "vmr_index ?s p = vmr_index s p" "page_user_entry ?s a i = page_user_entry s a i"
    "ram s' = ram s1" "ram ?s = ram s" "current ?s = current s" for p i
    by (simp_all add: s' vm_inv_lock vmr_index_def vmr_ptr_def page_user_entry_def)
  have "fault_spec a prot s r s'" using *(2) unfolding fault_spec_def eqs .
  then show ?thesis using * by (simp add: s' vm_inv_lock)
qed

theorem page_fault_correct_witness:
  "\<exists>s'. handle_page_fault fatfs_example 0x200000 PROT_READ vm_example = Some (- 1, s')
    \<and> vm_inv no_slack s' \<and> fault_spec 0x200000 PROT_READ vm_example (- 1) s'"
proof -
  obtain s' where f: "handle_page_fault fatfs_example 0x200000 PROT_READ vm_example = Some (- 1, s')"
  proof -
    let ?s = "vm_example\<lparr>vm_lock := - 1\<rparr>"
    have wf: "pt_wf ?s" using vm_example_inv vm_inv_lock(1) [where s = vm_example and x = no_slack] by (simp add: vm_inv_def)
    obtain p where w: "walk 0x200000 ?s = Some (p, ?s)" using walk_returns [OF wf] by auto
    show ?thesis using that w
      by (simp add: handle_page_fault_def handle_page_fault_nolock_def lock_vm_def drop_bit_eq_div push_bit_eq_mult)
  qed
  show ?thesis using page_fault_correct [OF vm_example_inv f] f by blast
qed


section \<open>Mapping and unmapping\<close>

definition free_vmr :: "('fs, 'fil, 'z) vm_state_scheme \<Rightarrow> bool" where
  "free_vmr s \<longleftrightarrow> vmrs s \<noteq> 0 \<and> (\<exists>v \<in> set (vmr_tab s). v_refcnt v = 0)"

lemma valid_range_fits:
  assumes "layout_ok c" "valid_user_range c addr len" "take_bit 12 addr = 0"
  shows "4096 * ((unat len + 4095) div 4096) \<le> unat (mmap_max c)"
proof -
  obtain j k where jk: "unat addr = 4096 * j" "unat (mmap_max c) = 4096 * k"
    using assms by (auto simp: layout_ok_def aligned_iff elim!: dvdE)
  have "unat addr + unat len \<le> unat (mmap_max c)"
    using valid_user_range_bound [OF assms(2)] unsigned_less [of len, where 'a = nat]
    by (auto simp: word_le_nat_alt unat_plus_if' split: if_splits)
  with jk have "(unat len + 4095) div 4096 \<le> k" by linarith
  with jk show ?thesis by simp
qed

text \<open>
  C2: an anonymous private \<open>do_mmap\<close> at a fixed page-aligned address inside the user range
  succeeds while a region descriptor and three pool pages per page are free: the range and no
  other page becomes lazily mapped to one fresh descriptor with the requested protection, the
  invariant holds again and the lock is free.
\<close>

theorem mmap_fixed_correct:
  assumes "vm_inv no_slack s" "root_page_table s \<noteq> 0" "vm_lock s = 0" "free_vmr s" "have_vm s"
    and "layout_ok (current s)" "take_bit 12 addr = 0" "valid_user_range (current s) addr len" "len \<noteq> 0"
    and "flags AND MAP_PRIVATE \<noteq> 0" "flags AND MAP_ANONYMOUS \<noteq> 0" "flags AND MAP_FIXED \<noteq> 0"
    and "flags AND MAP_POPULATE = 0"
    and "unat (next_free_page s) + 3 * ((unat len + 4095) div 4096) \<le> unat (free_pages s)"
  shows "\<exists>s' i. do_mmap F addr len prot flags None 0 s = Some (addr, s') \<and> vm_inv no_slack s' \<and> vm_lock s' = 0
    \<and> i < length (vmr_tab s') \<and> v_prot (vmr_tab s' ! i) = prot \<and> v_file (vmr_tab s' ! i) = None
    \<and> (\<forall>v. look s' v = (if v \<in> range_vpns addr len then vmr_ptr s' i else look s v))
    \<and> current s' = (current s)\<lparr>brk_max := min addr (brk_max (current s))\<rparr> \<and> root_page_table s' \<noteq> 0"
proof -
  let ?s = "s\<lparr>vm_lock := - 1\<rparr>"
  obtain v where v: "vmrs s \<noteq> 0" "v \<in> set (vmr_tab s)" "v_refcnt v = 0" using assms(4) by (auto simp: free_vmr_def)
  have hi: "unat (mmap_max (current s)) \<le> 2 ^ 39" using assms(6) by (simp add: layout_ok_def)
  note fit = valid_range_fits [OF assms(6,8,7)]
  have inv: "vm_inv no_slack ?s" using assms(1) by (simp add: vm_inv_lock)
  obtain s1 where m: "do_mmap_nolock F addr len prot flags None 0 ?s = Some (addr, s1)"
    using do_mmap_fixed_returns [OF inv, of v addr len flags F prot 0] v hi assms by auto
  note N = do_mmap_nolock_spec [OF inv _ _ assms(9) _ m]
  define s' where "s' = unlock_vm (if addr < brk_max (current s1) then s1\<lparr>current := (current s1)\<lparr>brk_max := addr\<rparr>\<rparr> else s1)"
  have run: "do_mmap F addr len prot flags None 0 s = Some (addr, s')"
    using m assms(3,9-11) by (simp add: do_mmap_def lock_vm_def s'_def Let_def)
  note M = do_mmap_spec [OF assms(1-3) hi assms(10,9) _ _ fit run]
  have "addr \<noteq> - 1"
    using valid_user_range_bound [OF assms(8)] hi by (auto simp: word_le_nat_alt unsigned_minus_1_eq_mask mask_eq_exp_minus_1)
  then obtain i where "i < length (vmr_tab s')" "v_prot (vmr_tab s' ! i) = prot" "v_file (vmr_tab s' ! i) = None"
    "\<forall>v. look s' v = (if v \<in> range_vpns addr len then vmr_ptr s' i else look s v)"
    using M(4) assms(5,11,13) by (fastforce simp: mmap_outcome_def)
  moreover have "root_page_table s' \<noteq> 0" using N(4) assms(2) hi fit by (simp add: s'_def unlock_vm_def)
  ultimately show ?thesis using run M(1-3) assms(11) by auto
qed

lemma range_example: "range_vpns 0x200000 0x2000 = {0x200, 0x201}"
proof -
  have "page_count 0x200000 (0x200000 + 0x2000) = 2" by (simp add: page_count_def)
  moreover have "vpn 0x200000 = 0x200" "vpn 0x201000 = 0x201" by code_simp+
  ultimately show ?thesis by (simp add: range_vpns_def numeral_2_eq_2)
qed

lemma layout_example: "layout_ok info_example"
  by (simp add: layout_ok_def info_example_def)

lemma free_vmr_example: "free_vmr vm_example"
  by (simp add: free_vmr_def vmr0_def)

theorem mmap_fixed_correct_witness:
  "\<exists>s' i. do_mmap fatfs_example 0x200000 0x2000 PROT_READ 0x32 None 0 vm_example = Some (0x200000, s')
    \<and> vm_inv no_slack s' \<and> look s' = (\<lambda>v. if v \<in> {0x200, 0x201} then vmr_ptr s' i else 0)"
  using mmap_fixed_correct [OF vm_example_inv, where addr = "0x200000" and len = "0x2000" and flags = "0x32"
      and prot = 1 and F = fatfs_example] free_vmr_example layout_example
  by (fastforce simp: range_example vm_example_look valid_user_range_def info_example_def fun_eq_iff)


text \<open>A state with two lazily mapped pages, for the witnesses below.\<close>

lemma mapped_example:
  obtains s :: "(unit, unit) vm_state" and i where "vm_inv no_slack s" "root_page_table s \<noteq> 0" "vm_lock s = 0"
    "current s = info_example\<lparr>brk_max := 0x200000\<rparr>" "vmr_index s (vmr_ptr s i) = Some i" "vmr_ptr s i AND PTE_V = 0"
    "vmr_ptr s i \<noteq> 0" "v_file (vmr_tab s ! i) = None" "v_prot (vmr_tab s ! i) = PROT_READ"
    "look s = (\<lambda>v. if v \<in> {0x200, 0x201} then vmr_ptr s i else 0)"
proof -
  let ?s = "vm_example\<lparr>vm_lock := - 1\<rparr>"
  have inv: "vm_inv no_slack ?s" using vm_example_inv by (simp add: vm_inv_lock)
  have fit: "valid_user_range info_example 0x200000 0x2000" by (simp add: valid_user_range_def info_example_def)
  obtain s' where m: "do_mmap_nolock fatfs_example 0x200000 0x2000 PROT_READ 0x32 None 0 ?s = Some (0x200000, s')"
    using do_mmap_fixed_returns [OF inv, of vmr0 "0x200000" "0x2000" "0x32" fatfs_example 1 0] fit
    by (auto simp: vmr0_def info_example_def)
  note N = do_mmap_nolock_spec [OF inv _ _ _ _ m]
  have N': "vm_inv no_slack s'" "current s' = info_example" "root_page_table s' \<noteq> 0"
    "mmap_outcome 0x200000 0x2000 PROT_READ 0x32 None 0 ?s 0x200000 s'"
    using N by (auto simp: info_example_def)
  obtain i where i: "i < length (vmr_tab s')" "v_file (vmr_tab s' ! i) = None" "v_prot (vmr_tab s' ! i) = PROT_READ"
    "look s' = (\<lambda>v. if v \<in> {0x200, 0x201} then vmr_ptr s' i else 0)"
    using N'(4) by (fastforce simp: mmap_outcome_def range_example vm_inv_lock vm_example_look fun_eq_iff)
  have reg: "regions_ok no_slack s'" using N'(1) by (simp add: vm_inv_def)
  let ?t = "s'\<lparr>vm_lock := 0, current := info_example\<lparr>brk_max := 0x200000\<rparr>\<rparr>"
  show ?thesis
    by (rule that [of ?t i]) (use N' i regions_ok_props [OF reg i(1)] in
      \<open>auto simp: vm_inv_lock vm_inv_current vmr_index_def vmr_ptr_def fun_eq_iff\<close>)
qed

text \<open>
  C19: a fault on a page of an anonymous region returns: the page is filled with zeros, no other
  byte of memory changes, and the result is 0 exactly if the region's protection grants the access.
\<close>

theorem page_fault_zero_fill:
  assumes "vm_inv no_slack s" "root_page_table s \<noteq> 0" "vm_lock s = 0"
    and "vmr_index s (look s (vpn a)) = Some i" "look s (vpn a) AND PTE_V = 0" "v_file (vmr_tab s ! i) = None"
    and "valid_user_range (current s) (push_bit RISCV_PGSHIFT (drop_bit RISCV_PGSHIFT a)) 1"
    and "prot AND (PROT_READ OR PROT_WRITE OR PROT_EXEC) \<noteq> 0"
  shows "\<exists>s'. handle_page_fault F a prot s = Some
      (if v_prot (vmr_tab s ! i) AND (PROT_READ OR PROT_WRITE OR PROT_EXEC) \<noteq> 0
          \<and> prot AND (PROT_WRITE OR PROT_EXEC) AND NOT (v_prot (vmr_tab s ! i)) = 0 then 0 else - 1, s')
    \<and> (\<forall>x. ram s' x = (if x - push_bit RISCV_PGSHIFT (drop_bit RISCV_PGSHIFT a) < RISCV_PGSIZE then 0 else ram s x))"
proof -
  let ?s = "s\<lparr>vm_lock := - 1\<rparr>" and ?p = "v_prot (vmr_tab s ! i)"
  have eqs: "look ?s = look s" "vmr_index ?s = vmr_index s" "page_user_entry ?s a i = page_user_entry s a i"
    by (simp_all add: vm_inv_lock vmr_index_def vmr_ptr_def page_user_entry_def fun_eq_iff)
  obtain s1 where f: "handle_page_fault_nolock F a prot ?s = Some (if grants (page_user_entry s a i) prot then 0 else - 1, s1)"
    and ram: "ram s1 = zero_range (ram s) (push_bit 12 (drop_bit 12 a)) RISCV_PGSIZE"
    using page_fault_anon [of no_slack ?s a i F prot] assms by (auto simp: eqs vm_inv_lock)
  have "grants (page_user_entry s a i) prot \<longleftrightarrow> ?p AND 7 \<noteq> 0 \<and> prot AND 6 AND NOT ?p = 0"
  proof -
    obtain e where e: "pte_create (drop_bit 12 a) ?p True = Some e" by (simp add: pte_create_def Let_def)
    have e': "page_user_entry s a i = e" using e by (simp add: page_user_entry_def)
    let ?perms = "1 OR pte_user_type (take_bit 3 prot)"
    have low: "e AND ?perms = take_bit 5 e AND ?perms"
      unfolding pte_user_type_def and_low_mask [symmetric] by (simp add: and.assoc)
    have six: "prot AND 6 AND NOT ?p = take_bit 3 prot AND 6 AND take_bit 3 (NOT (take_bit 3 ?p))"
    proof -
      have m: "(prot AND 7) AND 6 AND (NOT ?p AND 7) = prot AND (7 AND 6 AND 7) AND NOT ?p" by (simp only: ac_simps)
      show ?thesis
        unfolding take_bit_not_take_bit unfolding and_low_mask [symmetric] m by simp
    qed
    have "take_bit 3 prot \<noteq> 0 \<longrightarrow> (e AND ?perms = ?perms) = (take_bit 3 ?p \<noteq> 0 \<and> take_bit 3 prot AND 6 AND take_bit 3 (NOT (take_bit 3 ?p)) = 0)"
      unfolding low pte_create_user_low [OF e] by (rule take_bit_cases2) code_simp
    then show ?thesis using assms(8) by (simp add: grants_def Let_def e' six and_low_mask)
  qed
  then show ?thesis
    using f ram assms(3) by (simp add: handle_page_fault_def lock_vm_def unlock_vm_def zero_range_def and_low_mask)
qed


theorem page_fault_zero_fill_witness:
  "\<exists>(s :: (unit, unit) vm_state) s'. handle_page_fault fatfs_example 0x200008 PROT_READ s = Some (0, s') \<and> ram s' 0x200FFF = 0"
proof -
  obtain s :: "(unit, unit) vm_state" and i where s: "vm_inv no_slack s" "root_page_table s \<noteq> 0" "vm_lock s = 0"
    "current s = info_example\<lparr>brk_max := 0x200000\<rparr>" "vmr_index s (vmr_ptr s i) = Some i" "vmr_ptr s i AND PTE_V = 0"
    "vmr_ptr s i \<noteq> 0" "v_file (vmr_tab s ! i) = None" "v_prot (vmr_tab s ! i) = PROT_READ"
    "look s = (\<lambda>v. if v \<in> {0x200, 0x201} then vmr_ptr s i else 0)"
    by (rule mapped_example)
  have v: "vpn 0x200008 = 0x200" "push_bit 12 (drop_bit 12 (0x200008 :: u64)) = 0x200000" by code_simp+
  have l: "look s (vpn 0x200008) = vmr_ptr s i" by (simp add: s(10) v)
  have r: "valid_user_range (current s) (push_bit 12 (drop_bit 12 0x200008)) 1"
    unfolding v by (simp add: s(4) valid_user_range_def info_example_def)
  have p: "vmr_index s (look s (vpn 0x200008)) = Some i" "look s (vpn 0x200008) AND PTE_V = 0" using s(5,6) l by simp_all
  have p8: "(PROT_READ :: u32) AND (PROT_READ OR PROT_WRITE OR PROT_EXEC) \<noteq> 0" by simp
  obtain s' where "handle_page_fault fatfs_example 0x200008 PROT_READ s = Some
      (if v_prot (vmr_tab s ! i) AND (PROT_READ OR PROT_WRITE OR PROT_EXEC) \<noteq> 0
          \<and> PROT_READ AND (PROT_WRITE OR PROT_EXEC) AND NOT (v_prot (vmr_tab s ! i)) = 0 then 0 else - 1, s')"
    "\<forall>x. ram s' x = (if x - push_bit RISCV_PGSHIFT (drop_bit RISCV_PGSHIFT 0x200008) < RISCV_PGSIZE then 0 else ram s x)"
    using page_fault_zero_fill [OF s(1-3) p s(8) r p8, of fatfs_example] by blast
  then have "handle_page_fault fatfs_example 0x200008 PROT_READ s = Some (0, s')" "ram s' 0x200FFF = 0"
    by (simp_all add: s(9) v)
  then show ?thesis by blast
qed

text \<open>
  C3: \<open>do_munmap\<close> of a page-aligned range inside the user range always returns 0; the pages of
  the range are unmapped, all others keep their entries, and the region counts follow.
\<close>

theorem munmap_correct:
  assumes "vm_inv no_slack s" "root_page_table s \<noteq> 0" "vm_lock s = 0" "layout_ok (current s)"
    and "take_bit 12 addr = 0" "valid_user_range (current s) addr len"
  shows "\<exists>s'. do_munmap F addr len s = Some (0, s') \<and> vm_inv no_slack s' \<and> vm_lock s' = 0
    \<and> (\<forall>v. look s' v = (if v \<in> range_vpns addr len then 0 else look s v))"
proof -
  have "unat (mmap_max (current s)) + 8192 \<le> 2 ^ 64" using assms(4) by (simp add: layout_ok_def)
  from do_munmap_spec [OF assms(1-3) this assms(5,6), of F]
  obtain s' where "do_munmap F addr len s = Some (0, s')" "vm_inv no_slack s'" "vm_frame s s'"
    "\<forall>v \<in> range_vpns addr len. look s' v = 0" "\<forall>v. v \<notin> range_vpns addr len \<longrightarrow> look s' v = look s v" by metis
  then show ?thesis using assms(3) by (auto simp: vm_frame_def)
qed

theorem munmap_correct_witness:
  "\<exists>s'. do_munmap fatfs_example 0x200000 0x2000 vm_example = Some (0, s') \<and> look s' 0x200 = 0"
  using munmap_correct [OF vm_example_inv, where addr = "0x200000" and len = "0x2000" and F = fatfs_example]
    layout_example by (fastforce simp: range_example valid_user_range_def info_example_def)

lemma do_brk_nolock_returns:
  fixes s :: "('fs, 'fil, 'z) vm_state_scheme" and addr :: u64
  defines "new \<equiv> ROUNDUP (clamp_brk (current s) addr) RISCV_PGSIZE" and "old \<equiv> old_brk (current s)"
  assumes inv: "vm_inv no_slack s" and root: "root_page_table s \<noteq> 0" and lay: "layout_ok (current s)" and fr: "free_vmr s" "have_vm s"
    and pool: "unat (next_free_page s) + 3 * ((unat (new - old) + 4095) div 4096) \<le> unat (free_pages s)"
  shows "\<exists>r s'. do_brk_nolock F addr s = Some (r, s')"
proof -
  let ?c = "current s" and ?a = "clamp_brk (current s) addr"
  note L = lay [unfolded layout_ok_def]
  have a: "?a \<noteq> 0" "brk_min ?c \<le> ?a" "?a \<le> mmap_max ?c"
    using L by (auto simp: clamp_brk_def max_def min_def)
  have new: "new \<le> mmap_max ?c" "take_bit 12 new = 0" using ROUNDUP_le [OF a(1,3)] L by (auto simp: new_def)
  have old: "old \<le> mmap_max ?c" "take_bit 12 old = 0" "brk_min ?c \<le> old"
    using ROUNDUP_le [of "brk_min ?c" "mmap_max ?c"] L by (auto simp: old_def old_brk_def)
  define s0 where "s0 = s\<lparr>current := ?c\<lparr>brk := old\<rparr>\<rparr>"
  have inv0: "vm_inv no_slack s0" "root_page_table s0 \<noteq> 0" using inv root by (auto simp: s0_def vm_inv_current)
  have s0: "(if brk ?c = 0 then s\<lparr>current := ?c\<lparr>brk := ROUNDUP (brk_min ?c) RISCV_PGSIZE\<rparr>\<rparr> else s) = s0"
    by (simp add: s0_def old_def old_brk_def)
  have cl: "brk_min ?c \<le> brk_max ?c" and b0: "brk (current s0) = old" using L by (auto simp: s0_def)
  note unf = do_brk_nolock_def [of F addr s, unfolded Let_def newbrk_clamp [OF cl] new_def [symmetric] s0 b0]
  consider "new < old" | "old < new" | "old = new" by fastforce
  then show ?thesis
  proof cases
    case 1
    have "unat old \<le> 2 ^ 39" using old(1) L by (simp add: word_le_nat_alt)
    then have "unat (new + (old - new)) + 8192 \<le> 2 ^ 64" by simp
    then obtain s2 where "do_munmap_nolock F new (old - new) s0 = Some s2"
      by (rule do_munmap_nolock_spec [OF inv0])
    then show ?thesis using 1 unf by simp
  next
    case 2
    obtain v where v: "vmrs s0 \<noteq> 0" "v \<in> set (vmr_tab s0)" "v_refcnt v = 0" using fr by (auto simp: free_vmr_def s0_def)
    have "first_free_paddr ?c \<le> old" using L old(3) by (meson order_trans)
    then have "valid_user_range (current s0) old (new - old)"
      using new(1) 2 by (simp add: valid_user_range_def s0_def)
    moreover have nz: "new - old \<noteq> 0" using 2 by auto
    ultimately obtain s2 where m: "do_mmap_nolock F old (new - old) (- 1) 0x32 None 0 s0 = Some (old, s2)"
      using do_mmap_fixed_returns [OF inv0(1) v, of old "new - old" "0x32" F "- 1" 0] L old(2) fr(2) pool
      by (auto simp: s0_def)
    have "4096 * ((unat (new - old) + 4095) div 4096) \<le> unat (mmap_max (current s0))"
      using aligned_diff [OF old(2) new(2) 2] new(1) by (simp add: s0_def word_le_nat_alt)
    then have "brk (current s2) = old"
      using do_mmap_nolock_spec(2) [OF inv0 _ nz _ m] L by (simp add: s0_def)
    moreover have "\<not> new < old" using 2 by simp
    ultimately show ?thesis using m 2 unf by (simp add: kassert_def)
  next
    case 3
    then show ?thesis using unf by simp
  qed
qed

text \<open>
  C20: while a region descriptor and enough pool pages are free, \<open>do_brk\<close> returns the request
  clamped to \<open>brk_min..brk_max\<close> and moves the break to the next page boundary: pages given up
  are unmapped, pages gained are mapped, nothing else changes.
\<close>

theorem brk_correct:
  fixes s :: "('fs, 'fil, 'z) vm_state_scheme" and addr :: u64
  defines "new \<equiv> ROUNDUP (clamp_brk (current s) addr) RISCV_PGSIZE" and "old \<equiv> old_brk (current s)"
  assumes "vm_inv no_slack s" "root_page_table s \<noteq> 0" "vm_lock s = 0" "layout_ok (current s)" "free_vmr s" "have_vm s"
    and "unat (next_free_page s) + 3 * ((unat (new - old) + 4095) div 4096) \<le> unat (free_pages s)"
  shows "\<exists>s'. do_brk F addr s = Some (clamp_brk (current s) addr, s') \<and> vm_inv no_slack s' \<and> vm_lock s' = 0
    \<and> current s' = (current s)\<lparr>brk := new\<rparr> \<and> brk_outcome old new s s'"
proof -
  let ?s = "s\<lparr>vm_lock := - 1\<rparr>"
  have inv: "vm_inv no_slack ?s" using assms(3) by (simp add: vm_inv_lock)
  obtain r s1 where b: "do_brk_nolock F addr ?s = Some (r, s1)"
    using do_brk_nolock_returns [OF inv, of addr F] assms by (auto simp: free_vmr_def)
  note B = do_brk_nolock_spec [OF inv _ _ b]
  have B': "r = clamp_brk (current s) addr" "vm_inv no_slack s1" "current s1 = (current s)\<lparr>brk := new\<rparr>"
     "brk_outcome old new ?s s1"
    using B assms by auto
  have "do_brk F addr s = Some (r, s1\<lparr>vm_lock := 0\<rparr>)"
    using b assms(5) by (simp add: do_brk_def lock_vm_def unlock_vm_def spinlock_unlock_def)
  then show ?thesis using B' by (auto simp: vm_inv_lock brk_outcome_def)
qed


theorem brk_correct_witness:
  "\<exists>s'. do_brk fatfs_example 0x201234 vm_example = Some (0x201234, s') \<and> brk (current s') = 0x202000 \<and> look s' 0x201 \<noteq> 0"
proof -
  have c: "clamp_brk info_example 0x201234 = 0x201234" "old_brk info_example = 0x200000"
    "ROUNDUP 0x201234 RISCV_PGSIZE = 0x202000"
    by (simp_all add: clamp_brk_def old_brk_def info_example_def ROUNDUP_def)
  obtain s' where s': "do_brk fatfs_example 0x201234 vm_example = Some (0x201234, s')"
    "current s' = info_example\<lparr>brk := 0x202000\<rparr>" "brk_outcome 0x200000 0x202000 vm_example s'"
    using brk_correct [OF vm_example_inv, where addr = "0x201234" and F = fatfs_example] layout_example free_vmr_example
    by (auto simp: c)
  moreover have "look s' 0x201 \<noteq> 0" using s'(3) by (simp add: brk_outcome_def range_example)
  ultimately show ?thesis by auto
qed

section \<open>\<open>mprotect\<close>\<close>

text \<open>
  C24: \<open>do_mprotect\<close> returns, with 0 or one of its error codes, and never adds a write or
  an execute permission: neither to a page that is present nor to a region whose pages are still to
  be brought in.  It is assumed that some page is not mapped or that the range does not end in the top page of the address
  space: the loop variable wraps at the top, and only a page that is not mapped then ends the loop.
\<close>

theorem mprotect_no_new_rights:
  assumes "vm_inv no_slack s" "root_page_table s \<noteq> 0" "vm_lock s = 0" "look s v = 0 \<or> unat (addr + len) + 4096 \<le> 2 ^ 64"
  shows "\<exists>r s'. do_mprotect addr len prot s = Some (r, s') \<and> vm_inv no_slack s' \<and> no_new_rights s s'
    \<and> vm_lock s' = 0 \<and> ram s' = ram s \<and> r \<in> {0, - EINVAL, - ENOMEM, - EACCES}"
  using do_mprotect_spec [OF assms] by blast

theorem mprotect_no_new_rights_witness:
  "\<exists>(s :: (unit, unit) vm_state) r s'. look s 0x200 \<noteq> 0 \<and> do_mprotect 0x200000 (- 0x200001) 7 s = Some (r, s') \<and> no_new_rights s s'"
proof -
  obtain s :: "(unit, unit) vm_state" and i where s: "vm_inv no_slack s" "root_page_table s \<noteq> 0" "vm_lock s = 0"
    "current s = info_example\<lparr>brk_max := 0x200000\<rparr>" "vmr_index s (vmr_ptr s i) = Some i" "vmr_ptr s i AND PTE_V = 0"
    "vmr_ptr s i \<noteq> 0" "v_file (vmr_tab s ! i) = None" "v_prot (vmr_tab s ! i) = PROT_READ"
    "look s = (\<lambda>v. if v \<in> {0x200, 0x201} then vmr_ptr s i else 0)"
    by (rule mapped_example)
  have "look s 0x200 \<noteq> 0" using s(7) by (simp add: s(10))
  moreover have "look s 0 = 0 \<or> unat (0x200000 + (- 0x200001) :: u64) + 4096 \<le> 2 ^ 64" by (simp add: s(10))
  from mprotect_no_new_rights [OF s(1-3) this, of 7]
  obtain r s' where "do_mprotect 0x200000 (- 0x200001) 7 s = Some (r, s')" "no_new_rights s s'" by blast
  ultimately show ?thesis by blast
qed

text \<open>
  C35: \<open>do_mprotect\<close> of one page that is not present, to a protection within that of its region, returns 0
  and changes the protection of the whole region: every other page of it that has not been touched yet takes the new protection too.
\<close>

theorem mprotect_changes_whole_region:
  assumes "vm_inv no_slack s" "root_page_table s \<noteq> 0" "vm_lock s = 0"
    and "take_bit 12 a = 0" "unat a + 8192 \<le> 2 ^ 64" "0 < unat len" "unat len \<le> 4096"
    and "look s (vpn a) = vmr_ptr s i" "look s (vpn b) = vmr_ptr s i" "i < length (vmr_tab s)"
    and "prot AND NOT (v_prot (vmr_tab s ! i)) = 0"
  shows "\<exists>s'. do_mprotect a len prot s = Some (0, s') \<and> look s' (vpn b) = vmr_ptr s' i
    \<and> page_user_entry s' b i = the (pte_create (drop_bit RISCV_PGSHIFT b) prot True)"
proof -
  let ?s = "s\<lparr>vm_lock := - 1\<rparr>" and ?t = "(vmr_tab s)[i := (vmr_tab s ! i)\<lparr>v_prot := prot\<rparr>]"
  have "vm_inv no_slack ?s" using assms(1) by (simp add: vm_inv_lock)
  then have wf: "pt_wf ?s" and reg: "regions_ok no_slack ?s" by (auto simp: vm_inv_def)
  have i: "i < length (vmr_tab ?s)" "look ?s (vpn a) = vmr_ptr ?s i" using assms(8,10) by (simp_all add: vm_inv_lock vmr_ptr_def)
  note P = regions_ok_props [OF reg i(1)]
  obtain p where w: "walk a ?s = Some (p, ?s)" using walk_returns [OF wf] assms(2) by auto
  have slot: "is_slot ?s (vpn a) p" using walk_spec(4) [OF wf w] i(2) P(3) by auto
  have pt: "p \<noteq> 0" "pt ?s p = vmr_ptr ?s i" using slot_nonnull [OF wf slot] slot_entry [OF slot] i(2) by auto
  have page: "mprotect_page prot a ?s = Some (0, ?s\<lparr>vmr_tab := ?t\<rparr>)"
    using w pt P assms(11) by (simp add: mprotect_page_def xor_and_not)
  have u: "unat (a + len) = unat a + unat len" "unat (a + RISCV_PGSIZE) = unat a + 4096" using assms(5,7) by (simp_all add: unat_word_ariths)
  then have "a < a + len" "\<not> a + RISCV_PGSIZE < a + len" using assms(6,7) by (simp_all add: word_less_nat_alt)
  then have "mprotect_loop prot a (a + len) ?s = Some (0, ?s\<lparr>vmr_tab := ?t\<rparr>)"
    using page by (subst mprotect_loop.simps, simp) (subst mprotect_loop.simps, simp)
  then have "do_mprotect a len prot s = Some (0, s\<lparr>vm_lock := 0, vmr_tab := ?t\<rparr>)"
    using assms(3,4) by (simp add: do_mprotect_def and_low_mask lock_vm_def unlock_vm_def spinlock_unlock_def)
  moreover have "look (s\<lparr>vm_lock := 0, vmr_tab := ?t\<rparr>) = look s" using pt_wf_cong(2) [of "s\<lparr>vm_lock := 0, vmr_tab := ?t\<rparr>" s] by simp
  ultimately show ?thesis using assms(9,10) by (auto simp: vmr_ptr_def page_user_entry_def)
qed

theorem mprotect_changes_whole_region_witness:
  "\<exists>(s :: (unit, unit) vm_state) i s'. look s (vpn 0x201000) = vmr_ptr s i \<and> v_prot (vmr_tab s ! i) = PROT_READ
     \<and> do_mprotect 0x200000 0x1000 PROT_NONE s = Some (0, s') \<and> page_user_entry s' 0x201000 i = the (pte_create 0x201 PROT_NONE True)"
proof -
  obtain s :: "(unit, unit) vm_state" and i where s: "vm_inv no_slack s" "root_page_table s \<noteq> 0" "vm_lock s = 0"
    "current s = info_example\<lparr>brk_max := 0x200000\<rparr>" "vmr_index s (vmr_ptr s i) = Some i" "vmr_ptr s i AND PTE_V = 0"
    "vmr_ptr s i \<noteq> 0" "v_file (vmr_tab s ! i) = None" "v_prot (vmr_tab s ! i) = PROT_READ"
    "look s = (\<lambda>v. if v \<in> {0x200, 0x201} then vmr_ptr s i else 0)"
    by (rule mapped_example)
  have v: "vpn 0x200000 = 0x200" "vpn 0x201000 = 0x201" "drop_bit 12 (0x201000 :: u64) = 0x201" "take_bit 12 (0x200000 :: u64) = 0"
    by code_simp+
  have l: "look s (vpn 0x200000) = vmr_ptr s i" "look s (vpn 0x201000) = vmr_ptr s i" by (simp_all add: s(10) v)
  have "PROT_NONE AND NOT (v_prot (vmr_tab s ! i)) = 0" by simp
  from mprotect_changes_whole_region [OF s(1-3) v(4) _ _ _ l vmr_index_ptr(2) [OF s(5)] this, of "0x1000"]
  show ?thesis using s(9) l v by auto
qed

section \<open>Searching for address space\<close>

text \<open>
  C32: for a request of \<open>n\<close> pages that fits below \<open>mmap_max\<close>, \<open>__vm_alloc\<close> terminates and is first
  fit: it returns the lowest page-aligned candidate at or above the break whose \<open>n\<close> pages are all
  unmapped, or 0 if there is none, and changes nothing.
\<close>

theorem vm_alloc_is_first_fit:
  fixes s :: "('fs, 'fil, 'z) vm_state_scheme"
  assumes "pt_wf s" "root_page_table s \<noteq> 0"
    and "0 < n" "unat (brk (current s)) + 4096 * n \<le> unat (mmap_max (current s))" "unat (mmap_max (current s)) + 4096 < 2 ^ 64"
  shows "vm_alloc (of_nat n) s =
    Some (case find (\<lambda>j. \<forall>k<n. look s (vpn (brk (current s) + RISCV_PGSIZE * of_nat (j + k))) = 0)
                [0..<Suc ((unat (mmap_max (current s)) - unat (brk (current s))) div 4096 - n)] of
            None \<Rightarrow> 0 | Some i \<Rightarrow> brk (current s) + RISCV_PGSIZE * of_nat i, s)"
  using vm_alloc_first_fit [OF assms] by (simp add: first_fit_def avail_def del: upt_Suc)

theorem vm_alloc_is_first_fit_witness:
  "vm_alloc 2 vm_example = Some (0x200000, vm_example)"
proof -
  have b: "brk (current vm_example) = 0x200000" "mmap_max (current vm_example) = 0x7000000"
    by (simp_all add: info_example_def)
  have u: "[0..<Suc m] = 0 # [Suc 0..<Suc m]" for m by (simp add: upt_conv_Cons del: upt_Suc)
  show ?thesis
    using vm_alloc_is_first_fit [OF vm_example_wf, of 2, unfolded b vm_example_look u] by simp
qed

text \<open>
  C36: a request larger than \<open>mmap_max\<close> makes the upper bound \<open>current.mmap_max - npage*RISCV_PGSIZE\<close>
  wrap around: if the pages above the break are free, \<open>__vm_alloc\<close> returns the break although the
  range does not lie in the user range.
\<close>

theorem vm_alloc_bound_wraps:
  fixes s :: "('fs, 'fil, 'z) vm_state_scheme"
  assumes "pt_wf s" "root_page_table s \<noteq> 0"
    and "unat (mmap_max (current s)) < 4096 * n" "unat (brk (current s)) + 4096 * n \<le> 2 ^ 64 - 4096"
    and "\<forall>k<n. look s (vpn (brk (current s) + RISCV_PGSIZE * of_nat k)) = 0"
  shows "vm_alloc (of_nat n) s = Some (brk (current s), s)
    \<and> \<not> valid_user_range (current s) (brk (current s)) (RISCV_PGSIZE * of_nat n)"
  using vm_alloc_wraps [OF assms(1-4)] assms(5) by (simp add: avail_def)

theorem vm_alloc_bound_wraps_witness:
  "vm_alloc 0x8000 vm_example = Some (0x200000, vm_example) \<and> mmap_max (current vm_example) = 0x7000000"
  using vm_alloc_bound_wraps [OF vm_example_wf, of "0x8000"] by (simp add: vm_example_look info_example_def)

text \<open>With the lock held and no descriptor table a fixed mapping waits for ever.\<close>

lemma do_mmap_nolock_held:
  assumes "vmrs s = 0" "vm_lock s \<noteq> 0" "flags AND MAP_FIXED \<noteq> 0" "take_bit 12 addr = 0" "valid_user_range (current s) addr len"
  shows "do_mmap_nolock F addr len prot flags f ofs s = None"
  using assms by (simp add: do_mmap_nolock_def mmap_addr_def and_low_mask vmr_alloc_def vmr_table_init_held)

lemma brk_range:
  assumes "layout_ok c" "old_brk c < ROUNDUP (clamp_brk c addr) RISCV_PGSIZE"
  shows "take_bit 12 (old_brk c) = 0" "valid_user_range c (old_brk c) (ROUNDUP (clamp_brk c addr) RISCV_PGSIZE - old_brk c)"
proof -
  let ?a = "clamp_brk c addr"
  note L = assms(1) [unfolded layout_ok_def]
  have a: "?a \<noteq> 0" "?a \<le> mmap_max c" using L by (auto simp: clamp_brk_def max_def min_def)
  have "ROUNDUP ?a RISCV_PGSIZE \<le> mmap_max c" using ROUNDUP_le [OF a] L by auto
  moreover have "take_bit 12 (old_brk c) = 0" "brk_min c \<le> old_brk c"
    using ROUNDUP_le [of "brk_min c" "mmap_max c"] L by (auto simp: old_brk_def)
  ultimately show "take_bit 12 (old_brk c) = 0" "valid_user_range c (old_brk c) (ROUNDUP ?a RISCV_PGSIZE - old_brk c)"
    using L assms(2) by (auto simp: valid_user_range_def)
qed

text \<open>
  C38: \<open>__vmr_alloc\<close> takes \<open>vm_lock\<close> to create the descriptor table, and its callers \<open>do_mmap\<close> and
  \<open>do_brk\<close> already hold that lock: while there is no table, a \<open>do_mmap\<close> at a fixed valid address and a
  \<open>do_brk\<close> that moves the break up never return.
\<close>

theorem first_mmap_deadlocks:
  assumes "vmrs s = 0"
  shows "(flags AND MAP_PRIVATE \<noteq> 0 \<and> flags AND MAP_FIXED \<noteq> 0 \<and> (flags AND MAP_ANONYMOUS \<noteq> 0 \<or> f \<noteq> None)
        \<and> take_bit 12 ofs = 0 \<and> take_bit 12 addr = 0 \<and> len \<noteq> 0 \<and> valid_user_range (current s) addr len
      \<longrightarrow> do_mmap F addr len prot flags f ofs s = None)
    \<and> (layout_ok (current s) \<and> old_brk (current s) < ROUNDUP (clamp_brk (current s) newbrk) RISCV_PGSIZE
      \<longrightarrow> do_brk F newbrk s = None)"
proof (cases "lock_vm s")
  case None
  then show ?thesis by (auto simp: do_mmap_def do_brk_def and_low_mask)
next
  case (Some s1)
  then have s1: "vmrs s1 = 0" "vm_lock s1 \<noteq> 0" "current s1 = current s" using assms by (auto simp: lock_vm_Some)
  let ?c = "current s" and ?s2 = "s1\<lparr>current := (current s)\<lparr>brk := old_brk (current s)\<rparr>\<rparr>"
  have "do_brk_nolock F newbrk s1 = None"
    if l: "layout_ok ?c" "old_brk ?c < ROUNDUP (clamp_brk ?c newbrk) RISCV_PGSIZE"
  proof -
    have s2: "(if brk ?c = 0 then s1\<lparr>current := ?c\<lparr>brk := ROUNDUP (brk_min ?c) RISCV_PGSIZE\<rparr>\<rparr> else s1) = ?s2"
      using s1(3) by (simp add: old_brk_def)
    have v: "valid_user_range (?c\<lparr>brk := x\<rparr>) a n = valid_user_range ?c a n" for x a n by (simp add: valid_user_range_def)
    have m: "brk_min ?c \<le> brk_max ?c" using l(1) by (simp add: layout_ok_def)
    have "do_mmap_nolock F (old_brk ?c) (ROUNDUP (clamp_brk ?c newbrk) RISCV_PGSIZE - old_brk ?c) (- 1)
        (MAP_FIXED OR MAP_PRIVATE OR MAP_ANONYMOUS) None 0 ?s2 = None"
      by (rule do_mmap_nolock_held) (use s1 brk_range [OF l] v in simp_all)
    then show ?thesis unfolding do_brk_nolock_def Let_def s1(3) newbrk_clamp [OF m] s2 using l(2) less_not_sym [OF l(2)] by simp
  qed
  moreover have "do_mmap_nolock F addr len prot flags f ofs s1 = None"
    if "flags AND MAP_FIXED \<noteq> 0" "take_bit 12 addr = 0" "valid_user_range ?c addr len"
    using do_mmap_nolock_held [of s1] s1 that by simp
  ultimately show ?thesis using Some by (auto simp: do_mmap_def do_brk_def and_low_mask)
qed

theorem first_mmap_deadlocks_witness:
  "do_mmap fatfs_example 0x200000 0x1000 PROT_READ 0x32 None 0 (vm_example\<lparr>vmrs := 0, vmr_tab := []\<rparr>) = None
    \<and> do_brk fatfs_example 0x201234 (vm_example\<lparr>vmrs := 0, vmr_tab := []\<rparr>) = None"
proof -
  have "layout_ok info_example" "old_brk info_example < ROUNDUP (clamp_brk info_example 0x201234) RISCV_PGSIZE"
    using layout_example by (simp_all add: clamp_brk_def old_brk_def info_example_def ROUNDUP_def)
  then show ?thesis
    using first_mmap_deadlocks [of "vm_example\<lparr>vmrs := 0, vmr_tab := []\<rparr>" "0x32" None 0 "0x200000" "0x1000" fatfs_example PROT_READ "0x201234"]
    by (simp add: valid_user_range_def) (simp add: info_example_def)
qed

end
