(* ===== verification/Softfloat_Prims.thy ===== *)
theory Softfloat_Prims
  imports Prelude
begin

text \<open>
  The integer primitives below the floating-point routines, \<open>softfloat/s_*.c\<close> (declared in
  \<open>softfloat/primitives.h\<close>): leading zeros, right shifts that keep the lost bits as a sticky bit,
  and 128-, 192- and 256-bit arithmetic on 64-bit pieces.  The C structures of pieces are records;
  a shift count of type \<open>unsigned int\<close> is a \<open>u32\<close>.  The correctness of the primitives is stated
  on the naturals the pieces stand for.
\<close>

section \<open>Structures\<close>

record uint128 =
  u128_v64 :: u64
  u128_v0 :: u64

record uint192 =
  u192_v128 :: u64
  u192_v64 :: u64
  u192_v0 :: u64

record uint256 =
  u256_v192 :: u64
  u256_v128 :: u64
  u256_v64 :: u64
  u256_v0 :: u64

record uint64_extra =
  ue_v :: u64
  ue_extra :: u64

record uint128_extra =
  u128e_v64 :: u64
  u128e_v0 :: u64
  u128e_extra :: u64

section \<open>Leading zeros\<close>

definition softfloat_countLeadingZeros8 :: "int list" where
  "softfloat_countLeadingZeros8 = [
    8, 7, 6, 6, 5, 5, 5, 5, 4, 4, 4, 4, 4, 4, 4, 4,
    3, 3, 3, 3, 3, 3, 3, 3, 3, 3, 3, 3, 3, 3, 3, 3,
    2, 2, 2, 2, 2, 2, 2, 2, 2, 2, 2, 2, 2, 2, 2, 2,
    2, 2, 2, 2, 2, 2, 2, 2, 2, 2, 2, 2, 2, 2, 2, 2,
    1, 1, 1, 1, 1, 1, 1, 1, 1, 1, 1, 1, 1, 1, 1, 1,
    1, 1, 1, 1, 1, 1, 1, 1, 1, 1, 1, 1, 1, 1, 1, 1,
    1, 1, 1, 1, 1, 1, 1, 1, 1, 1, 1, 1, 1, 1, 1, 1,
    1, 1, 1, 1, 1, 1, 1, 1, 1, 1, 1, 1, 1, 1, 1, 1,
    0, 0, 0, 0, 0, 0, 0, 0, 0, 0, 0, 0, 0, 0, 0, 0,
    0, 0, 0, 0, 0, 0, 0, 0, 0, 0, 0, 0, 0, 0, 0, 0,
    0, 0, 0, 0, 0, 0, 0, 0, 0, 0, 0, 0, 0, 0, 0, 0,
    0, 0, 0, 0, 0, 0, 0, 0, 0, 0, 0, 0, 0, 0, 0, 0,
    0, 0, 0, 0, 0, 0, 0, 0, 0, 0, 0, 0, 0, 0, 0, 0,
    0, 0, 0, 0, 0, 0, 0, 0, 0, 0, 0, 0, 0, 0, 0, 0,
    0, 0, 0, 0, 0, 0, 0, 0, 0, 0, 0, 0, 0, 0, 0, 0,
    0, 0, 0, 0, 0, 0, 0, 0, 0, 0, 0, 0, 0, 0, 0, 0]"

definition softfloat_countLeadingZeros32 :: "u32 \<Rightarrow> int" where
  "softfloat_countLeadingZeros32 a =
     (let count = 0;
          (count, a) = (if a < 0x10000 then (16, push_bit 16 a) else (count, a));
          (count, a) = (if a < 0x1000000 then (count + 8, push_bit 8 a) else (count, a))
      in count + softfloat_countLeadingZeros8 ! unat (drop_bit 24 a))"

definition softfloat_countLeadingZeros64 :: "u64 \<Rightarrow> int" where
  "softfloat_countLeadingZeros64 a =
     (let (count, a32) = (if 0x100000000 \<le> a then (0, ucast (drop_bit 32 a) :: u32) else (32, ucast a));
          (count, a32) = (if a32 < 0x10000 then (count + 16, push_bit 16 a32) else (count, a32));
          (count, a32) = (if a32 < 0x1000000 then (count + 8, push_bit 8 a32) else (count, a32))
      in count + softfloat_countLeadingZeros8 ! unat (drop_bit 24 a32))"

section \<open>Shifts\<close>

definition softfloat_shift32RightJam :: "u32 \<Rightarrow> u32 \<Rightarrow> u32" where
  "softfloat_shift32RightJam a count =
     (if count < 32
      then drop_bit (unat count) a OR b2w (push_bit (unat ((- count) AND 31)) a \<noteq> 0)
      else b2w (a \<noteq> 0))"

definition softfloat_shortShift32Right1Jam :: "u32 \<Rightarrow> u32" where
  "softfloat_shortShift32Right1Jam a = drop_bit 1 a OR (a AND 1)"

definition softfloat_shift64RightJam :: "u64 \<Rightarrow> u32 \<Rightarrow> u64" where
  "softfloat_shift64RightJam a count =
     (if count < 64
      then drop_bit (unat count) a OR b2w (push_bit (unat ((- count) AND 63)) a \<noteq> 0)
      else b2w (a \<noteq> 0))"

definition softfloat_shortShift64RightJam :: "u64 \<Rightarrow> u32 \<Rightarrow> u64" where
  "softfloat_shortShift64RightJam a count =
     drop_bit (unat count) a OR b2w (a AND (push_bit (unat count) 1 - 1) \<noteq> 0)"

definition softfloat_shift64ExtraRightJam :: "u64 \<Rightarrow> u64 \<Rightarrow> u32 \<Rightarrow> uint64_extra" where
  "softfloat_shift64ExtraRightJam a extra count =
     (let z = (if count < 64
               then \<lparr>ue_v = drop_bit (unat count) a, ue_extra = push_bit (unat ((- count) AND 63)) a\<rparr>
               else \<lparr>ue_v = 0, ue_extra = (if count = 64 then a else b2w (a \<noteq> 0))\<rparr>)
      in z\<lparr>ue_extra := ue_extra z OR b2w (extra \<noteq> 0)\<rparr>)"

definition softfloat_shortShift64ExtraRightJam :: "u64 \<Rightarrow> u64 \<Rightarrow> u32 \<Rightarrow> uint64_extra" where
  "softfloat_shortShift64ExtraRightJam a extra count =
     \<lparr>ue_v = drop_bit (unat count) a,
      ue_extra = push_bit (unat ((- count) AND 63)) a OR b2w (extra \<noteq> 0)\<rparr>"

definition softfloat_shortShift128Left :: "u64 \<Rightarrow> u64 \<Rightarrow> u32 \<Rightarrow> uint128" where
  "softfloat_shortShift128Left a64 a0 count =
     \<lparr>u128_v64 = push_bit (unat count) a64 OR drop_bit (unat ((- count) AND 63)) a0,
      u128_v0 = push_bit (unat count) a0\<rparr>"

definition softfloat_shortShift128Right :: "u64 \<Rightarrow> u64 \<Rightarrow> u32 \<Rightarrow> uint128" where
  "softfloat_shortShift128Right a64 a0 count =
     \<lparr>u128_v64 = drop_bit (unat count) a64,
      u128_v0 = push_bit (unat ((- count) AND 63)) a64 OR drop_bit (unat count) a0\<rparr>"

definition softfloat_shortShift192Left :: "u64 \<Rightarrow> u64 \<Rightarrow> u64 \<Rightarrow> u32 \<Rightarrow> uint192" where
  "softfloat_shortShift192Left a128 a64 a0 count =
     (let negCount = - count
      in \<lparr>u192_v128 = push_bit (unat count) a128 OR drop_bit (unat (negCount AND 63)) a64,
          u192_v64 = push_bit (unat count) a64 OR drop_bit (unat (negCount AND 63)) a0,
          u192_v0 = push_bit (unat count) a0\<rparr>)"

definition softfloat_shift128RightJam :: "u64 \<Rightarrow> u64 \<Rightarrow> u32 \<Rightarrow> uint128" where
  "softfloat_shift128RightJam a64 a0 count =
     (if count < 64
      then let negCount = - count
           in \<lparr>u128_v64 = drop_bit (unat (count AND 63)) a64,
               u128_v0 = push_bit (unat (negCount AND 63)) a64 OR drop_bit (unat count) a0
                 OR b2w (push_bit (unat (negCount AND 63)) a0 \<noteq> 0)\<rparr>
      else \<lparr>u128_v64 = 0,
            u128_v0 =
              (if count < 128
               then drop_bit (unat (count AND 63)) a64
                 OR b2w ((a64 AND (push_bit (unat (count AND 63)) 1 - 1)) OR a0 \<noteq> 0)
               else b2w (a64 OR a0 \<noteq> 0))\<rparr>)"

definition softfloat_shift128ExtraRightJam :: "u64 \<Rightarrow> u64 \<Rightarrow> u64 \<Rightarrow> u32 \<Rightarrow> uint128_extra" where
  "softfloat_shift128ExtraRightJam a64 a0 extra count =
     (let negCount = - count;
          (z, extra) =
            (if count < 64
             then (\<lparr>u128e_v64 = drop_bit (unat count) a64,
                    u128e_v0 = push_bit (unat (negCount AND 63)) a64 OR drop_bit (unat count) a0,
                    u128e_extra = push_bit (unat (negCount AND 63)) a0\<rparr>, extra)
             else if count = 64
             then (\<lparr>u128e_v64 = 0, u128e_v0 = a64, u128e_extra = a0\<rparr>, extra)
             else if count < 128
             then (\<lparr>u128e_v64 = 0, u128e_v0 = drop_bit (unat (count AND 63)) a64,
                    u128e_extra = push_bit (unat (negCount AND 63)) a64\<rparr>, extra OR a0)
             else (\<lparr>u128e_v64 = 0, u128e_v0 = 0,
                    u128e_extra = (if count = 128 then a64 else b2w (a64 \<noteq> 0))\<rparr>, extra OR a0))
      in z\<lparr>u128e_extra := u128e_extra z OR b2w (extra \<noteq> 0)\<rparr>)"

definition softfloat_shortShift128ExtraRightJam :: "u64 \<Rightarrow> u64 \<Rightarrow> u64 \<Rightarrow> u32 \<Rightarrow> uint128_extra" where
  "softfloat_shortShift128ExtraRightJam a64 a0 extra count =
     (let negCount = - count
      in \<lparr>u128e_v64 = drop_bit (unat count) a64,
          u128e_v0 = push_bit (unat (negCount AND 63)) a64 OR drop_bit (unat count) a0,
          u128e_extra = push_bit (unat (negCount AND 63)) a0 OR b2w (extra \<noteq> 0)\<rparr>)"

section \<open>Comparison and arithmetic on pieces\<close>

definition softfloat_eq128 :: "u64 \<Rightarrow> u64 \<Rightarrow> u64 \<Rightarrow> u64 \<Rightarrow> bool" where
  "softfloat_eq128 a64 a0 b64 b0 \<longleftrightarrow> a64 = b64 \<and> a0 = b0"

definition softfloat_le128 :: "u64 \<Rightarrow> u64 \<Rightarrow> u64 \<Rightarrow> u64 \<Rightarrow> bool" where
  "softfloat_le128 a64 a0 b64 b0 \<longleftrightarrow> a64 < b64 \<or> (a64 = b64 \<and> a0 \<le> b0)"

definition softfloat_lt128 :: "u64 \<Rightarrow> u64 \<Rightarrow> u64 \<Rightarrow> u64 \<Rightarrow> bool" where
  "softfloat_lt128 a64 a0 b64 b0 \<longleftrightarrow> a64 < b64 \<or> (a64 = b64 \<and> a0 < b0)"

definition softfloat_add128 :: "u64 \<Rightarrow> u64 \<Rightarrow> u64 \<Rightarrow> u64 \<Rightarrow> uint128" where
  "softfloat_add128 a64 a0 b64 b0 =
     (let z0 = a0 + b0; z64 = a64 + b64
      in \<lparr>u128_v64 = z64 + b2w (z0 < a0), u128_v0 = z0\<rparr>)"

definition softfloat_sub128 :: "u64 \<Rightarrow> u64 \<Rightarrow> u64 \<Rightarrow> u64 \<Rightarrow> uint128" where
  "softfloat_sub128 a64 a0 b64 b0 =
     (let z0 = a0 - b0; z64 = a64 - b64
      in \<lparr>u128_v64 = z64 - b2w (a0 < b0), u128_v0 = z0\<rparr>)"

definition softfloat_add192 :: "u64 \<Rightarrow> u64 \<Rightarrow> u64 \<Rightarrow> u64 \<Rightarrow> u64 \<Rightarrow> u64 \<Rightarrow> uint192" where
  "softfloat_add192 a128 a64 a0 b128 b64 b0 =
     (let z0 = a0 + b0;
          carry64 = b2w (z0 < a0);
          z64 = a64 + b64;
          carry128 = b2w (z64 < a64);
          z128 = a128 + b128;
          z64 = z64 + carry64;
          carry128 = carry128 + b2w (z64 < carry64);
          z128 = z128 + carry128
      in \<lparr>u192_v128 = z128, u192_v64 = z64, u192_v0 = z0\<rparr>)"

definition softfloat_sub192 :: "u64 \<Rightarrow> u64 \<Rightarrow> u64 \<Rightarrow> u64 \<Rightarrow> u64 \<Rightarrow> u64 \<Rightarrow> uint192" where
  "softfloat_sub192 a128 a64 a0 b128 b64 b0 =
     (let z0 = a0 - b0;
          borrow64 = b2w (a0 < b0);
          z64 = a64 - b64;
          borrow128 = b2w (a64 < b64);
          z128 = a128 - b128;
          borrow128 = borrow128 + b2w (z64 < borrow64);
          z64 = z64 - borrow64;
          z128 = z128 - borrow128
      in \<lparr>u192_v128 = z128, u192_v64 = z64, u192_v0 = z0\<rparr>)"

definition softfloat_mul64To128 :: "u64 \<Rightarrow> u64 \<Rightarrow> uint128" where
  "softfloat_mul64To128 a b =
     (let a32 = ucast (drop_bit 32 a) :: u32;
          a0 = ucast a :: u32;
          b32 = ucast (drop_bit 32 b) :: u32;
          b0 = ucast b :: u32;
          z0 = ucast a0 * ucast b0 :: u64;
          mid1 = ucast a32 * ucast b0 :: u64;
          mid2 = ucast a0 * ucast b32 :: u64;
          z64 = ucast a32 * ucast b32 :: u64;
          mid = mid1 + mid2;
          z64 = z64 + (push_bit 32 (b2w (mid < mid1)) OR drop_bit 32 mid);
          mid = push_bit 32 mid;
          z0 = z0 + mid;
          z64 = z64 + b2w (z0 < mid)
      in \<lparr>u128_v64 = z64, u128_v0 = z0\<rparr>)"

definition softfloat_mul128By64To192 :: "u64 \<Rightarrow> u64 \<Rightarrow> u64 \<Rightarrow> uint192" where
  "softfloat_mul128By64To192 a64 a0 b =
     (let p0 = softfloat_mul64To128 a0 b;
          z0 = u128_v0 p0;
          p64 = softfloat_mul64To128 a64 b;
          z64 = u128_v0 p64 + u128_v64 p0;
          z128 = u128_v64 p64 + b2w (z64 < u128_v0 p64)
      in \<lparr>u192_v128 = z128, u192_v64 = z64, u192_v0 = z0\<rparr>)"

definition softfloat_mul128To256 :: "u64 \<Rightarrow> u64 \<Rightarrow> u64 \<Rightarrow> u64 \<Rightarrow> uint256" where
  "softfloat_mul128To256 a64 a0 b64 b0 =
     (let p0 = softfloat_mul64To128 a0 b0;
          z0 = u128_v0 p0;
          p64 = softfloat_mul64To128 a64 b0;
          z64 = u128_v0 p64 + u128_v64 p0;
          z128 = u128_v64 p64 + b2w (z64 < u128_v0 p64);
          p128 = softfloat_mul64To128 a64 b64;
          z128 = z128 + u128_v0 p128;
          z192 = u128_v64 p128 + b2w (z128 < u128_v0 p128);
          p64 = softfloat_mul64To128 a0 b64;
          z64 = z64 + u128_v0 p64;
          p64 = p64\<lparr>u128_v64 := u128_v64 p64 + b2w (z64 < u128_v0 p64)\<rparr>;
          z128 = z128 + u128_v64 p64;
          z192 = z192 + b2w (z128 < u128_v64 p64)
      in \<lparr>u256_v192 = z192, u256_v128 = z128, u256_v64 = z64, u256_v0 = z0\<rparr>)"

section \<open>Estimates\<close>

text \<open>The correction loop of \<open>softfloat_estimateDiv128To64\<close>; \<open>None\<close> if it never ends.\<close>

partial_function (option) estimateDiv_loop :: "u32 \<Rightarrow> u64 \<Rightarrow> u64 \<Rightarrow> uint128 \<Rightarrow> (u64 \<times> uint128) option" where
  "estimateDiv_loop b32 b z rm =
     (if 0x8000000000000000 \<le> u128_v64 rm
      then estimateDiv_loop b32 b (z - 0x100000000)
             (softfloat_add128 (u128_v64 rm) (u128_v0 rm) (ucast b32) (push_bit 32 b))
      else Some (z, rm))"

declare estimateDiv_loop.simps [code]

definition softfloat_estimateDiv128To64 :: "u64 \<Rightarrow> u64 \<Rightarrow> u64 \<Rightarrow> u64 option" where
  "softfloat_estimateDiv128To64 a64 a0 b =
     (if b \<le> a64 then Some 0xFFFFFFFFFFFFFFFF
      else do {
        let b32 = (ucast (drop_bit 32 b) :: u32);
        let z = (if push_bit 32 (ucast b32) \<le> a64 then 0xFFFFFFFF00000000
                 else push_bit 32 (a64 div ucast b32));
        let trm = softfloat_mul64To128 b z;
        let rm = softfloat_sub128 a64 a0 (u128_v64 trm) (u128_v0 trm);
        (z, rm) \<leftarrow> estimateDiv_loop b32 b z rm;
        let rem32 = push_bit 32 (u128_v64 rm) OR drop_bit 32 (u128_v0 rm);
        Some (z OR (if push_bit 32 (ucast b32) \<le> rem32 then 0xFFFFFFFF else rem32 div ucast b32)) })"

definition sqrtOddAdjustments :: "u32 list" where
  "sqrtOddAdjustments = [
    0x0004, 0x0022, 0x005D, 0x00B1, 0x011D, 0x019F, 0x0236, 0x02E0,
    0x039C, 0x0468, 0x0545, 0x0631, 0x072B, 0x0832, 0x0946, 0x0A67]"

definition sqrtEvenAdjustments :: "u32 list" where
  "sqrtEvenAdjustments = [
    0x0A2D, 0x08AF, 0x075A, 0x0629, 0x051A, 0x0429, 0x0356, 0x029E,
    0x0200, 0x0179, 0x0109, 0x00AF, 0x0068, 0x0034, 0x0012, 0x0002]"

text \<open>\<open>u32.i>>1\<close> on a negative value is an arithmetic shift.\<close>

definition softfloat_estimateSqrt32 :: "u32 \<Rightarrow> u32 \<Rightarrow> u32" where
  "softfloat_estimateSqrt32 expA a =
     (let index = unat (drop_bit 27 a AND 15) in
      if expA AND 1 \<noteq> 0 then
        let z = 0x4000 + drop_bit 17 a - sqrtOddAdjustments ! index;
            z = push_bit 14 (a div z) + push_bit 15 z;
            a = drop_bit 1 a
        in ucast (push_bit 31 (ucast a :: u64) div ucast z) + drop_bit 1 z
      else
        let z = 0x8000 + drop_bit 17 a - sqrtEvenAdjustments ! index;
            z = a div z + z;
            z = (if 0x20000 \<le> z then 0xFFFF8000 else push_bit 15 z)
        in if z \<le> a then signed_drop_bit 1 a
           else ucast (push_bit 31 (ucast a :: u64) div ucast z) + drop_bit 1 z)"

end
