(* ===== verification/Softfloat_Exact.thy ===== *)
theory Softfloat_Exact
  imports Softfloat_Prims
begin

text \<open>
  What the primitives of \<open>softfloat/s_*.c\<close> compute, on the naturals their pieces stand for: sums and
  differences modulo \<open>2 ^ 128\<close>, exact products, and the estimate of a 128-by-64-bit quotient, whose
  correction loop ends and which is at most 2 too large.
\<close>

section \<open>Pieces as naturals\<close>

definition val128 :: "uint128 \<Rightarrow> nat" where
  "val128 z = unat (u128_v64 z) * 2 ^ 64 + unat (u128_v0 z)"
definition val192 :: "uint192 \<Rightarrow> nat" where
  "val192 z = unat (u192_v128 z) * 2 ^ 128 + unat (u192_v64 z) * 2 ^ 64 + unat (u192_v0 z)"
definition val256 :: "uint256 \<Rightarrow> nat" where
  "val256 z = unat (u256_v192 z) * 2 ^ 192 + unat (u256_v128 z) * 2 ^ 128
     + unat (u256_v64 z) * 2 ^ 64 + unat (u256_v0 z)"

section \<open>Halves of a word\<close>

lemma unat_hi32: "unat (ucast (drop_bit 32 a) :: u32) = unat a div 2 ^ 32" for a :: u64
proof -
  have "unat a < 2 ^ 64" using unat_bound [of a] by simp
  then have "unat a div 2 ^ 32 < 2 ^ 32" by (simp add: less_mult_imp_div_less)
  moreover have "unat (drop_bit 32 a) = unat a div 2 ^ 32" by (rule unat_drop_bit)
  ultimately show ?thesis by (simp only: unsigned_ucast_eq take_bit_eq_mod) simp
qed

lemma unat_lo32: "unat (ucast a :: u32) = unat a mod 2 ^ 32" for a :: u64
  by (simp only: unsigned_ucast_eq take_bit_eq_mod) simp

lemma unat_zext: "unat (ucast x :: u64) = unat x" for x :: u32
  using unat_bound [of x] by (simp only: unsigned_ucast_eq) (simp add: take_bit_nat_eq_self)

lemma unat_split32: "unat a = unat (ucast (drop_bit 32 a) :: u32) * 2 ^ 32 + unat (ucast a :: u32)" for a :: u64
  unfolding unat_hi32 unfolding unat_lo32 by (simp only: div_mult_mod_eq)

lemma unat_mul32: "unat (ucast x * ucast y :: u64) = unat x * unat y" for x y :: u32
proof -
  have "unat x * unat y < 2 ^ 32 * 2 ^ 32"
    using unat_bound [of x] unat_bound [of y] by (intro mult_strict_mono') auto
  then show ?thesis by (simp add: unat_word_ariths unat_zext)
qed

section \<open>Sums and products\<close>

lemma add128_exact: "val128 (softfloat_add128 a64 a0 b64 b0)
  = (unat a64 * 2 ^ 64 + unat a0 + (unat b64 * 2 ^ 64 + unat b0)) mod 2 ^ 128"
proof -
  define c where "c = (b2w (a0 + b0 < a0) :: u64)"
  have r: "u128_v64 (softfloat_add128 a64 a0 b64 b0) = a64 + b64 + c"
    "u128_v0 (softfloat_add128 a64 a0 b64 b0) = a0 + b0"
    by (simp_all add: softfloat_add128_def Let_def c_def)
  note 1 = add_carry [of a0 b0] and 2 = add_carry [of a64 b64] and 3 = add_carry [of "a64 + b64" c]
  have "unat a64 * 2 ^ 64 + unat a0 + (unat b64 * 2 ^ 64 + unat b0) =
    val128 (softfloat_add128 a64 a0 b64 b0)
      + 2 ^ 128 * (of_bool (a64 + b64 < a64) + of_bool (a64 + b64 + c < a64 + b64))"
    using 1 2 3 unfolding val128_def r by (simp add: c_def split: if_splits) 
  moreover have "val128 (softfloat_add128 a64 a0 b64 b0) < 2 ^ 128"
    using unat_bound [of "a64 + b64 + c"] unat_bound [of "a0 + b0"] unfolding val128_def r by simp
  ultimately show ?thesis by (rule mod_decomp [symmetric])
qed

lemma sub128_exact: "(val128 (softfloat_sub128 a64 a0 b64 b0) + (unat b64 * 2 ^ 64 + unat b0)) mod 2 ^ 128
  = unat a64 * 2 ^ 64 + unat a0"
proof -
  define c where "c = (b2w (a0 < b0) :: u64)"
  have r: "u128_v64 (softfloat_sub128 a64 a0 b64 b0) = a64 - b64 - c"
    "u128_v0 (softfloat_sub128 a64 a0 b64 b0) = a0 - b0"
    by (simp_all add: softfloat_sub128_def Let_def c_def)
  note 1 = sub_borrow [of a0 b0] and 2 = sub_borrow [of a64 b64] and 3 = sub_borrow [of "a64 - b64" c]
  have "val128 (softfloat_sub128 a64 a0 b64 b0) + (unat b64 * 2 ^ 64 + unat b0) =
    unat a64 * 2 ^ 64 + unat a0
      + 2 ^ 128 * (of_bool (a64 < b64) + of_bool (a64 - b64 < c))"
    using 1 2 3 unfolding val128_def r by (simp add: c_def split: if_splits) 
  moreover have "unat a64 * 2 ^ 64 + unat a0 < 2 ^ 128"
    using unat_bound [of "a64"] unat_bound [of "a0"] by simp
  ultimately show ?thesis by (rule mod_decomp)
qed

lemma carry_columns:
  fixes P H S L M e q r Z C :: nat
  assumes "P = H * 2 ^ 64 + S * 2 ^ 32 + L" "S = M + 2 ^ 64 * e" "M = q * 2 ^ 32 + r"
    "r * 2 ^ 32 + L = Z + 2 ^ 64 * C"
  shows "P = (H + (2 ^ 32 * e + q) + C) * 2 ^ 64 + Z"
  using assms by simp

lemma mul64To128_exact: "val128 (softfloat_mul64To128 a b) = unat a * unat b"
proof -
  define a1 where "a1 = (ucast (drop_bit 32 a) :: u32)"
  define a0 where "a0 = (ucast a :: u32)"
  define b1 where "b1 = (ucast (drop_bit 32 b) :: u32)"
  define b0 where "b0 = (ucast b :: u32)"
  define m1 where "m1 = (ucast a1 * ucast b0 :: u64)"
  define m2 where "m2 = (ucast a0 * ucast b1 :: u64)"
  define m where "m = m1 + m2"
  define h where "h = (ucast a1 * ucast b1 :: u64)"
  define l where "l = (ucast a0 * ucast b0 :: u64)"
  define k where "k = (push_bit 32 (b2w (m < m1)) OR drop_bit 32 m :: u64)"
  define z0 where "z0 = l + push_bit 32 m"
  define c where "c = (b2w (z0 < push_bit 32 m) :: u64)"
  have r: "u128_v64 (softfloat_mul64To128 a b) = h + k + c" "u128_v0 (softfloat_mul64To128 a b) = z0"
    by (simp_all add: softfloat_mul64To128_def Let_def a1_def a0_def b1_def b0_def m1_def m2_def m_def h_def l_def k_def z0_def c_def)
  have b: "unat a1 < 2 ^ 32" "unat a0 < 2 ^ 32" "unat b1 < 2 ^ 32" "unat b0 < 2 ^ 32"
    using unat_bound [of a1] unat_bound [of a0] unat_bound [of b1] unat_bound [of b0] by simp_all
  have u: "unat m1 = unat a1 * unat b0" "unat m2 = unat a0 * unat b1" "unat h = unat a1 * unat b1" "unat l = unat a0 * unat b0"
    by (simp_all only: m1_def m2_def h_def l_def unat_mul32)
  have d: "push_bit 32 (b2w (m < m1)) AND drop_bit 32 m = 0"
    by (intro bit_word_eqI) (auto simp: bit_and_iff bit_push_bit_iff bit_drop_bit_eq dest: bit_imp_le_length)
  have "unat (push_bit 32 (b2w (m < m1)) :: u64) = 2 ^ 32 * of_bool (m < m1)"
    by (simp add: unat_push_bit)
  with d have k: "unat k = 2 ^ 32 * of_bool (m < m1) + unat m div 2 ^ 32"
    by (simp add: k_def unat_or_disjoint unat_drop_bit)
  have p: "unat (push_bit 32 m) = unat m mod 2 ^ 32 * 2 ^ 32"
    using mod_mult_mult2 [of "unat m" "2 ^ 32" "2 ^ 32"] by (simp add: unat_push_bit)
  have eq: "unat a * unat b = (unat h + unat k + unat c) * 2 ^ 64 + unat z0"
  proof -
    have A: "unat a = unat a1 * 2 ^ 32 + unat a0" "unat b = unat b1 * 2 ^ 32 + unat b0"
      by (simp_all only: a1_def a0_def b1_def b0_def flip: unat_split32)
    have "unat a * unat b = unat h * 2 ^ 64 + (unat m1 + unat m2) * 2 ^ 32 + unat l"
      unfolding A u by (simp add: algebra_simps)
    moreover have "unat m1 + unat m2 = unat m + 2 ^ 64 * of_bool (m < m1)"
      using add_carry [of m1 m2] by (simp add: m_def)
    moreover have "unat m = unat m div 2 ^ 32 * 2 ^ 32 + unat m mod 2 ^ 32"
      by (simp only: div_mult_mod_eq)
    moreover have "unat (push_bit 32 m) + unat l = unat z0 + 2 ^ 64 * unat c"
      unfolding add_carry64 [of "push_bit 32 m" l] c_def z0_def unat_b2w
      by (simp only: add.commute [of l])
    ultimately show ?thesis unfolding k p by (rule carry_columns)
  qed
  have ab: "unat a * unat b < 2 ^ 64 * 2 ^ 64"
    using unat_bound [of a] unat_bound [of b] by (intro mult_strict_mono') auto
  have "unat h + unat k + unat c < 2 ^ 64"
  proof (rule ccontr)
    assume "\<not> unat h + unat k + unat c < 2 ^ 64"
    then have "2 ^ 64 * 2 ^ 64 \<le> (unat h + unat k + unat c) * 2 ^ 64" by simp
    with eq ab show False by linarith
  qed
  then have "unat (h + k + c) = unat h + unat k + unat c"
    by (simp add: unat_word_ariths)
  with eq show ?thesis by (simp add: val128_def r)
qed


lemma mul64To128_top: "unat (u128_v64 (softfloat_mul64To128 a b)) + 2 \<le> 2 ^ 64"
proof -
  have "unat a * unat b \<le> (2 ^ 64 - 1) * (2 ^ 64 - 1)"
    using unat_bound [of a] unat_bound [of b] by (intro mult_mono) simp_all
  moreover have "unat (u128_v64 (softfloat_mul64To128 a b)) * 2 ^ 64 \<le> unat a * unat b"
    unfolding mul64To128_exact [symmetric] val128_def by simp
  ultimately show ?thesis by simp
qed

lemma unat_plus_b2w: "unat x + 2 \<le> 2 ^ 64 \<Longrightarrow> unat (x + b2w c) = unat x + of_bool c" for x :: u64
  by (cases c) (simp_all add: unat_word_ariths)

lemma mul128By64To192_exact:
  "val192 (softfloat_mul128By64To192 a64 a0 b) = (unat a64 * 2 ^ 64 + unat a0) * unat b"
proof -
  define p0 where "p0 = softfloat_mul64To128 a0 b"
  define p1 where "p1 = softfloat_mul64To128 a64 b"
  note e = mul64To128_exact [of a0 b, folded p0_def, unfolded val128_def]
    mul64To128_exact [of a64 b, folded p1_def, unfolded val128_def]
  have r: "softfloat_mul128By64To192 a64 a0 b =
    \<lparr>u192_v128 = u128_v64 p1 + b2w (u128_v0 p1 + u128_v64 p0 < u128_v0 p1),
     u192_v64 = u128_v0 p1 + u128_v64 p0, u192_v0 = u128_v0 p0\<rparr>"
    by (simp add: softfloat_mul128By64To192_def Let_def p0_def p1_def)
  have t: "unat (u128_v64 p1) + 2 \<le> 2 ^ 64" unfolding p1_def by (rule mul64To128_top)
  show ?thesis
    unfolding r val192_def using add_carry64 [of "u128_v0 p1" "u128_v64 p0"] e
    by (simp add: unat_plus_b2w [OF t] algebra_simps)
qed

lemma mul128To256_columns:
  fixes h0 l0 h1 l1 h2 l2 h3 l3 x y s t c d e f g :: nat
  assumes "l1 + h0 = x + 2 ^ 64 * c" "h1 + c + l2 = y + 2 ^ 64 * d"
    "x + l3 = s + 2 ^ 64 * e" "y + (h3 + e) = t + 2 ^ 64 * f" "h2 + d + f = g"
  shows "(h2 * 2 ^ 64 + l2) * 2 ^ 128 + (h1 * 2 ^ 64 + l1) * 2 ^ 64 + (h3 * 2 ^ 64 + l3) * 2 ^ 64
    + (h0 * 2 ^ 64 + l0) = g * 2 ^ 192 + t * 2 ^ 128 + s * 2 ^ 64 + l0"
  using assms by simp

text \<open>
  C34: the product of two 128-bit numbers given as pairs of 64-bit words is exact: no carry of the
  four partial products that \<open>softfloat_mul128To256\<close> adds up is lost.
\<close>

theorem mul128To256_exact:
  "val256 (softfloat_mul128To256 a64 a0 b64 b0)
     = (unat a64 * 2 ^ 64 + unat a0) * (unat b64 * 2 ^ 64 + unat b0)"
proof -
  define p0 where "p0 = softfloat_mul64To128 a0 b0"
  define p1 where "p1 = softfloat_mul64To128 a64 b0"
  define p2 where "p2 = softfloat_mul64To128 a64 b64"
  define p3 where "p3 = softfloat_mul64To128 a0 b64"
  define x where "x = u128_v0 p1 + u128_v64 p0"
  define y0 where "y0 = u128_v64 p1 + b2w (x < u128_v0 p1)"
  define y where "y = y0 + u128_v0 p2"
  define g0 where "g0 = u128_v64 p2 + b2w (y < u128_v0 p2)"
  define s where "s = x + u128_v0 p3"
  define h3 where "h3 = u128_v64 p3 + b2w (s < u128_v0 p3)"
  define t where "t = y + h3"
  define g where "g = g0 + b2w (t < h3)"
  have r: "softfloat_mul128To256 a64 a0 b64 b0
    = \<lparr>u256_v192 = g, u256_v128 = t, u256_v64 = s, u256_v0 = u128_v0 p0\<rparr>"
    by (simp add: softfloat_mul128To256_def Let_def p0_def p1_def p2_def p3_def x_def y0_def y_def
        g0_def s_def h3_def t_def g_def)
  have u: "unat y0 = unat (u128_v64 p1) + of_bool (x < u128_v0 p1)"
    "unat g0 = unat (u128_v64 p2) + of_bool (y < u128_v0 p2)"
    "unat h3 = unat (u128_v64 p3) + of_bool (s < u128_v0 p3)"
    unfolding y0_def g0_def h3_def p1_def p2_def p3_def by (rule unat_plus_b2w [OF mul64To128_top])+
  have c: "unat (u128_v0 p1) + unat (u128_v64 p0) = unat x + 2 ^ 64 * of_bool (x < u128_v0 p1)"
    "unat (u128_v64 p1) + of_bool (x < u128_v0 p1) + unat (u128_v0 p2) = unat y + 2 ^ 64 * of_bool (y < u128_v0 p2)"
    "unat x + unat (u128_v0 p3) = unat s + 2 ^ 64 * of_bool (s < u128_v0 p3)"
    "unat y + (unat (u128_v64 p3) + of_bool (s < u128_v0 p3)) = unat t + 2 ^ 64 * of_bool (t < h3)"
    using add_carry64 [of "u128_v0 p1" "u128_v64 p0"] add_carry64 [of "u128_v0 p2" y0]
      add_carry64 [of "u128_v0 p3" x] add_carry64 [of h3 y]
    unfolding u [symmetric] by (simp_all add: x_def y_def s_def t_def add.commute)
  note e = mul64To128_exact [of a0 b0, folded p0_def, unfolded val128_def]
    mul64To128_exact [of a64 b0, folded p1_def, unfolded val128_def]
    mul64To128_exact [of a64 b64, folded p2_def, unfolded val128_def]
    mul64To128_exact [of a0 b64, folded p3_def, unfolded val128_def]
  let ?A = "unat a64 * 2 ^ 64 + unat a0" and ?B = "unat b64 * 2 ^ 64 + unat b0"
  have eq: "?A * ?B = (unat g0 + of_bool (t < h3)) * 2 ^ 192 + unat t * 2 ^ 128 + unat s * 2 ^ 64
      + unat (u128_v0 p0)"
    using mul128To256_columns [OF c refl, of "unat (u128_v64 p2)" "unat (u128_v0 p0)"]
    unfolding e u by (simp add: algebra_simps)
  have "?A < 2 ^ 128" "?B < 2 ^ 128"
    using unat_bound [of a64] unat_bound [of a0] unat_bound [of b64] unat_bound [of b0] by simp_all
  then have "?A * ?B < 2 ^ 128 * 2 ^ 128" by (intro mult_strict_mono') auto
  with eq have "unat g0 + of_bool (t < h3) < 2 ^ 64" by simp
  then have "unat g = unat g0 + of_bool (t < h3)" by (simp add: g_def unat_word_ariths)
  with eq show ?thesis by (simp add: r val256_def)
qed

section \<open>The quotient estimate\<close>

lemma digit_estimate:
  fixes b b1 b0 u :: nat
  assumes b: "b = b1 * 2 ^ 32 + b0" "b0 < 2 ^ 32" "2 ^ 31 \<le> b1" and u: "u < b * 2 ^ 32"
  defines "Z \<equiv> min (2 ^ 32 - 1) (u div 2 ^ 32 div b1)"
  shows "u div b \<le> Z" "Z \<le> u div b + 2"
proof -
  define q where "q = u div b"
  have b0: "0 < b" using b by simp
  have q: "q * b \<le> u" "u < (q + 1) * b"
    unfolding q_def using b0 by (simp_all add: dividend_less_div_times mult.commute [of b] add.commute)
  have q32: "q < 2 ^ 32" using u b0 unfolding q_def by (simp add: less_mult_imp_div_less mult.commute)
  have "q * b1 * 2 ^ 32 \<le> q * b" unfolding b by (simp add: algebra_simps)
  also note q(1)
  finally have "q * b1 \<le> u div 2 ^ 32" by (simp add: less_eq_div_iff_mult_less_eq)
  then have "q \<le> u div 2 ^ 32 div b1" using b by (simp add: less_eq_div_iff_mult_less_eq)
  with q32 show "u div b \<le> Z" by (simp add: Z_def q_def)
  show "Z \<le> u div b + 2"
  proof (rule ccontr)
    assume "\<not> Z \<le> u div b + 2"
    then have z: "q + 3 \<le> Z" by (simp add: q_def)
    have Z32: "Z < 2 ^ 32" by (simp add: Z_def)
    have "Z * b1 \<le> u div 2 ^ 32" using b by (simp add: Z_def flip: less_eq_div_iff_mult_less_eq)
    then have Zu: "Z * b1 * 2 ^ 32 \<le> u" by (simp add: less_eq_div_iff_mult_less_eq)
    have "(q + 3) * (b1 * 2 ^ 32) \<le> Z * (b1 * 2 ^ 32)" using z by (rule mult_le_mono1)
    also have "\<dots> \<le> u" using Zu by (simp only: mult.assoc)
    also have "u < (q + 1) * (b1 * 2 ^ 32 + b0)" using q(2) by (simp only: b(1))
    finally have "(q + 3) * (b1 * 2 ^ 32) < (q + 1) * (b1 * 2 ^ 32 + b0)" .
    then have "2 * (b1 * 2 ^ 32) < (q + 1) * b0" by (simp add: algebra_simps)
    moreover have "(q + 1) * b0 \<le> 2 ^ 32 * 2 ^ 32" using b(2) z Z32 by (intro mult_mono) simp_all
    ultimately show False using b(3) by simp
  qed
qed

text \<open>A remainder that is \<open>k\<close> divisors too small shows it in its top bit.\<close>

lemma remainder_sign:
  assumes B: "B \<le> 2 ^ 96" and k: "k \<le> 2" and r: "r < B" and rm: "(val128 rm + k * B) mod 2 ^ 128 = r"
  shows "0x8000000000000000 \<le> u128_v64 rm \<longleftrightarrow> k \<noteq> 0" "k = 0 \<Longrightarrow> val128 rm = r"
proof -
  have v: "val128 rm < 2 ^ 128"
    using unat_bound [of "u128_v64 rm"] unat_bound [of "u128_v0 rm"] by (simp add: val128_def)
  have kB: "k * B \<le> 2 * 2 ^ 96" using k B by (rule mult_le_mono)
  have lo: "unat (u128_v0 rm) < 2 ^ 64" using unat_bound [of "u128_v0 rm"] by simp
  have t: "0x8000000000000000 \<le> u128_v64 rm \<longleftrightarrow> 2 ^ 127 \<le> val128 rm"
  proof -
    have "0x8000000000000000 \<le> u128_v64 rm \<longleftrightarrow> 2 ^ 63 \<le> unat (u128_v64 rm)" by (simp add: word_le_nat_alt)
    with lo show ?thesis unfolding val128_def by auto
  qed
  show "k = 0 \<Longrightarrow> val128 rm = r" using v rm by simp
  show "0x8000000000000000 \<le> u128_v64 rm \<longleftrightarrow> k \<noteq> 0" unfolding t
  proof (cases "k = 0")
    case True
    with v rm r B show "2 ^ 127 \<le> val128 rm \<longleftrightarrow> k \<noteq> 0" by simp
  next
    case False
    then have "1 * B \<le> k * B" by (intro mult_le_mono1) simp
    then have "\<not> val128 rm + k * B < 2 ^ 128" using rm r mod_less [of "val128 rm + k * B" "2 ^ 128"] by linarith
    with kB False show "2 ^ 127 \<le> val128 rm \<longleftrightarrow> k \<noteq> 0" by simp
  qed
qed

text \<open>The correction loop: \<open>k\<close> rounds too far, it takes back \<open>k\<close> units of the digit.\<close>

lemma estimateDiv_loop_back:
  fixes b :: u64
  defines "B \<equiv> unat b * 2 ^ 32" and "b32 \<equiv> ucast (drop_bit 32 b) :: u32"
  assumes k: "k \<le> 2" and r: "r < B" and rm: "(val128 rm + k * B) mod 2 ^ 128 = r"
  shows "\<exists>rm'. estimateDiv_loop b32 b z rm = Some (z - of_nat k * 0x100000000, rm') \<and> val128 rm' = r"
  using k rm
proof (induction k arbitrary: z rm)
  case 0
  have "B \<le> 2 ^ 96" using unat_bound [of b] by (simp add: B_def)
  with remainder_sign [OF this 0(1) r 0(2)] show ?case by (subst estimateDiv_loop.simps) simp
next
  case (Suc k)
  let ?rm = "softfloat_add128 (u128_v64 rm) (u128_v0 rm) (ucast b32) (push_bit 32 b)"
  have B: "unat (ucast b32 :: u64) * 2 ^ 64 + unat (push_bit 32 b) = B"
  proof -
    have "unat (ucast b32 :: u64) = unat b div 2 ^ 32"
      by (simp only: b32_def unat_zext unat_hi32)
    moreover have "unat (push_bit 32 b) = B mod 2 ^ 64" by (simp only: unat_push_bit B_def) simp
    moreover have "B div 2 ^ 64 = unat b div 2 ^ 32"
      using div_mult_mult2 [of "2 ^ 32 :: nat" "unat b" "2 ^ 32"] by (simp add: B_def)
    ultimately show ?thesis by (metis div_mult_mod_eq)
  qed
  have "(val128 ?rm + k * B) mod 2 ^ 128 = (val128 rm + B + k * B) mod 2 ^ 128"
    using add128_exact [of "u128_v64 rm" "u128_v0 rm" "ucast b32" "push_bit 32 b"]
    unfolding B val128_def [of rm, symmetric] by (simp only: mod_add_left_eq)
  also have "\<dots> = r" using Suc.prems(2) by (simp add: algebra_simps)
  finally have IH: "\<exists>rm'. estimateDiv_loop b32 b (z - 0x100000000) ?rm
      = Some (z - 0x100000000 - of_nat k * 0x100000000, rm') \<and> val128 rm' = r"
    using Suc.IH [of ?rm "z - 0x100000000"] Suc.prems(1) by simp
  have "B \<le> 2 ^ 96" using unat_bound [of b] by (simp add: B_def)
  then have "0x8000000000000000 \<le> u128_v64 rm" using remainder_sign [OF _ Suc.prems(1) r Suc.prems(2)] by simp
  with IH show ?case
    by (subst estimateDiv_loop.simps) (simp add: algebra_simps)
qed

text \<open>One digit of the quotient, as the code computes it from the leading half of the divisor.\<close>

definition div_digit :: "u64 \<Rightarrow> u64 \<Rightarrow> u64" where
  "div_digit b h =
     (let b32 = (ucast (drop_bit 32 b) :: u32)
      in if push_bit 32 (ucast b32) \<le> h then 0xFFFFFFFF else h div ucast b32)"

lemma unat_div_digit:
  assumes b: "2 ^ 63 \<le> unat b"
  shows "unat (div_digit b h) = min (2 ^ 32 - 1) (unat h div (unat b div 2 ^ 32))"
proof -
  define b1 where "b1 = unat b div 2 ^ 32"
  define b32 where "b32 = (ucast (drop_bit 32 b) :: u32)"
  have b1: "2 ^ 31 \<le> b1" using b div_le_mono [of "2 ^ 63" "unat b" "2 ^ 32"] by (simp add: b1_def)
  have z: "unat (ucast b32 :: u64) = b1" by (simp only: b32_def unat_zext unat_hi32 b1_def)
  have "b1 < 2 ^ 32" unfolding z [symmetric] unat_zext using unat_bound [of b32] by simp
  then have "unat (push_bit 32 (ucast b32) :: u64) = b1 * 2 ^ 32"
    by (simp only: unat_push_bit z) simp
  moreover have "b1 * 2 ^ 32 \<le> unat h \<longleftrightarrow> 2 ^ 32 \<le> unat h div b1"
    using b1 by (simp add: less_eq_div_iff_mult_less_eq mult.commute)
  ultimately show ?thesis
    unfolding div_digit_def Let_def b32_def [symmetric]
    by (auto simp: word_le_nat_alt unat_div z b1_def min_def)
qed

lemma div_digit_estimate:
  assumes b: "2 ^ 63 \<le> unat b" and u: "u < unat b * 2 ^ 32" and h: "unat h = u div 2 ^ 32"
  shows "u div unat b \<le> unat (div_digit b h)" "unat (div_digit b h) \<le> u div unat b + 2"
    "unat (div_digit b h) < 2 ^ 32"
proof -
  have b': "unat b = unat b div 2 ^ 32 * 2 ^ 32 + unat b mod 2 ^ 32" "unat b mod 2 ^ 32 < 2 ^ 32"
    "2 ^ 31 \<le> unat b div 2 ^ 32"
    using b div_le_mono [of "2 ^ 63" "unat b" "2 ^ 32"] by simp_all
  show "u div unat b \<le> unat (div_digit b h)" "unat (div_digit b h) \<le> u div unat b + 2"
    "unat (div_digit b h) < 2 ^ 32"
    using digit_estimate [OF b' u] unfolding unat_div_digit [OF b] h by simp_all
qed

lemma push_or_drop32: "unat x < 2 ^ 32 \<Longrightarrow>
    unat (push_bit 32 x OR drop_bit 32 y) = unat x * 2 ^ 32 + unat y div 2 ^ 32" for x y :: u64
proof -
  assume x: "unat x < 2 ^ 32"
  have "push_bit 32 x AND drop_bit 32 y = 0"
    by (intro bit_word_eqI) (auto simp: bit_and_iff bit_push_bit_iff bit_drop_bit_eq dest: bit_imp_le_length)
  moreover have "unat (push_bit 32 x) = unat x * 2 ^ 32" using x by (simp only: unat_push_bit) simp
  ultimately show ?thesis by (simp only: unat_or_disjoint unat_drop_bit)
qed

text \<open>The first half of the estimate: the loop ends with the exact leading digit of the quotient and
  the remainder.\<close>

lemma estimateDiv_leading_digit:
  fixes a64 a0 b :: u64
  defines "A \<equiv> unat a64 * 2 ^ 64 + unat a0" and "B \<equiv> unat b * 2 ^ 32"
    and "z1 \<equiv> push_bit 32 (div_digit b a64)"
  assumes b: "2 ^ 63 \<le> unat b" and a: "a64 < b"
  defines "trm \<equiv> softfloat_mul64To128 b z1"
  shows "\<exists>z rm. estimateDiv_loop (ucast (drop_bit 32 b)) b z1
      (softfloat_sub128 a64 a0 (u128_v64 trm) (u128_v0 trm)) = Some (z, rm)
    \<and> unat z = A div B * 2 ^ 32 \<and> val128 rm = A mod B"
proof -
  have A0: "unat a0 < 2 ^ 64" using unat_bound [of a0] by simp
  have "A < (unat a64 + 1) * 2 ^ 64" using A0 by (simp add: A_def)
  also have "\<dots> \<le> unat b * 2 ^ 64" using a by (intro mult_le_mono1) (simp add: word_less_nat_alt)
  finally have u: "A div 2 ^ 32 < unat b * 2 ^ 32" by (simp add: less_mult_imp_div_less)
  have hi: "unat a64 = A div 2 ^ 32 div 2 ^ 32" using A0 by (simp add: A_def flip: div_mult2_eq)
  define q1 where "q1 = A div B"
  have q1: "q1 = A div 2 ^ 32 div unat b" by (simp add: q1_def B_def mult.commute flip: div_mult2_eq)
  note d = div_digit_estimate [OF b u hi, folded q1]
  obtain k where k: "k \<le> 2" "unat (div_digit b a64) = q1 + k"
    using d(1,2) by (metis le_add_diff_inverse le_diff_conv add.commute)
  have z1: "unat z1 = (q1 + k) * 2 ^ 32" using d(3) unfolding z1_def unat_push_bit k by simp
  have trm: "val128 trm = unat b * ((q1 + k) * 2 ^ 32)" by (simp only: trm_def mul64To128_exact z1)
  define rm where "rm = softfloat_sub128 a64 a0 (u128_v64 trm) (u128_v0 trm)"
  have "(val128 rm + (k * B + q1 * B)) mod 2 ^ 128 = A"
    using sub128_exact [of a64 a0 "u128_v64 trm" "u128_v0 trm"]
    unfolding rm_def [symmetric] val128_def [of trm, symmetric] trm A_def B_def
    by (simp add: algebra_simps)
  then have rm: "(val128 rm + k * B) mod 2 ^ 128 = A mod B"
    using mod_shift [of "val128 rm + k * B" "q1 * B" "2 ^ 128" A]
    by (simp add: q1_def add.assoc minus_div_mult_eq_mod)
  have r: "A mod B < B" using b by (simp add: B_def)
  have "unat (of_nat k * 0x100000000 :: u64) = k * 2 ^ 32"
    using k(1) by (simp add: unat_word_ariths unat_of_nat)
  then have z: "unat (z1 - of_nat k * 0x100000000) = q1 * 2 ^ 32"
    using z1 by (simp add: unat_sub_if' algebra_simps)
  from estimateDiv_loop_back [OF k(1) r [unfolded B_def] rm [unfolded B_def], of z1] z
  show ?thesis unfolding rm_def q1_def B_def by auto
qed

lemma estimateDiv128To64_bounds:
  fixes a64 a0 b :: u64
  assumes b: "2 ^ 63 \<le> unat b" and a: "a64 < b"
  defines "q \<equiv> (unat a64 * 2 ^ 64 + unat a0) div unat b"
  shows "\<exists>z. softfloat_estimateDiv128To64 a64 a0 b = Some z \<and> q \<le> unat z \<and> unat z \<le> q + 2"
proof -
  define A where "A = unat a64 * 2 ^ 64 + unat a0"
  define B where "B = unat b * 2 ^ 32"
  define z1 where "z1 = push_bit 32 (div_digit b a64)"
  define trm where "trm = softfloat_mul64To128 b z1"
  from estimateDiv_leading_digit [OF b a, of a0] obtain z rm
    where loop: "estimateDiv_loop (ucast (drop_bit 32 b)) b z1
        (softfloat_sub128 a64 a0 (u128_v64 trm) (u128_v0 trm)) = Some (z, rm)"
      and z: "unat z = A div B * 2 ^ 32" and rm: "val128 rm = A mod B"
    unfolding A_def B_def z1_def trm_def by auto
  have r: "A mod B < B" using b by (simp add: B_def)
  define rem32 where "rem32 = push_bit 32 (u128_v64 rm) OR drop_bit 32 (u128_v0 rm)"
  have "unat (u128_v64 rm) * 2 ^ 64 < unat b * 2 ^ 32"
    using r rm unfolding B_def val128_def by linarith
  then have v64: "unat (u128_v64 rm) < 2 ^ 32" using unat_bound [of b] by simp
  have "unat rem32 = A mod B div 2 ^ 32"
    unfolding rem32_def push_or_drop32 [OF v64] rm [symmetric] val128_def by simp
  note d = div_digit_estimate [OF b r [unfolded B_def] this [unfolded B_def], folded B_def]
  have "unat (z OR div_digit b rem32) = A div B * 2 ^ 32 + unat (div_digit b rem32)"
    by (simp only: unat_or_disjoint [OF and_low_high [OF z d(3)]] z)
  moreover have "A = A mod B + unat b * (A div B * 2 ^ 32)"
    by (metis B_def mod_mult_div_eq mult.assoc mult.commute)
  then have "A div unat b = A div B * 2 ^ 32 + A mod B div unat b"
    using b by (metis add.commute div_mult_self2 le_zero_eq power_not_zero zero_neq_numeral)
  moreover have "softfloat_estimateDiv128To64 a64 a0 b = Some (z OR div_digit b rem32)"
  proof -
    have "(if push_bit 32 (ucast (ucast (drop_bit 32 b) :: u32)) \<le> a64 then 0xFFFFFFFF00000000
        else push_bit 32 (a64 div ucast (ucast (drop_bit 32 b) :: u32))) = z1"
      unfolding z1_def div_digit_def Let_def by (simp only: if_distrib [of "push_bit 32"]) simp
    with a show ?thesis
      unfolding softfloat_estimateDiv128To64_def Let_def
      by (simp only: not_le [symmetric] if_False trm_def [symmetric] loop bind.bind_lunit prod.case
          rem32_def [symmetric] div_digit_def [unfolded Let_def, symmetric])
  qed
  ultimately show ?thesis using d(1,2) unfolding q_def A_def [symmetric] by simp
qed

text \<open>
  C33: for a divisor with its top bit set, \<open>softfloat_estimateDiv128To64\<close> always returns.  If the quotient
  fits in 64 bits the result is the quotient or exceeds it by 1 or 2; otherwise it is \<open>2 ^ 64 - 1\<close>.
\<close>

theorem estimateDiv128To64_correct:
  assumes "2 ^ 63 \<le> unat b"
  shows "\<exists>z. softfloat_estimateDiv128To64 a64 a0 b = Some z
    \<and> (if a64 < b
       then (unat a64 * 2 ^ 64 + unat a0) div unat b \<le> unat z
         \<and> unat z \<le> (unat a64 * 2 ^ 64 + unat a0) div unat b + 2
       else z = 0xFFFFFFFFFFFFFFFF)"
proof (cases "a64 < b")
  case True
  with estimateDiv128To64_bounds [OF assms True, of a0] show ?thesis by auto
next
  case False
  then have "b \<le> a64" by simp
  with False show ?thesis by (simp only: softfloat_estimateDiv128To64_def if_True) simp
qed

theorem estimateDiv128To64_correct_witness:
  "\<exists>z. softfloat_estimateDiv128To64 5 7 0x8000000000000001 = Some z
    \<and> (if (5 :: u64) < 0x8000000000000001
       then (unat (5 :: u64) * 2 ^ 64 + unat (7 :: u64)) div unat (0x8000000000000001 :: u64) \<le> unat z
         \<and> unat z \<le> (unat (5 :: u64) * 2 ^ 64 + unat (7 :: u64)) div unat (0x8000000000000001 :: u64) + 2
       else z = 0xFFFFFFFFFFFFFFFF)"
  by (rule estimateDiv128To64_correct) simp

end
