(* ===== verification/Softfloat_F32.thy ===== *)
theory Softfloat_F32
  imports Softfloat_Prims
begin

text \<open>
  The single-precision routines of \<open>softfloat/\<close> (\<open>f32_*.c\<close>, \<open>s_*F32*.c\<close>, \<open>*_to_f32.c\<close>) and the
  integer rounding routines both precisions share (\<open>s_roundPackTo[U]I*.c\<close>), one definition per
  function.  A \<open>float32_t\<close> is its bit pattern.  \<open>int_fast16_t\<close> exponents stay far inside their
  type and are integers; significands keep their width.  The rounding mode, a register
  the trap handler sets up, is the first argument \<open>rm\<close> of a routine that reads it.
  \<open>softfloat_raiseFlags\<close> ORs into \<open>fflags\<close>: a routine returns the flags it raises beside its result.
  A \<open>goto\<close> to a common exit is a call of the definition named after the label.
\<close>

section \<open>Modes, flags, formats\<close>

abbreviation (input) softfloat_round_nearest_even :: u32 where "softfloat_round_nearest_even \<equiv> 0"
abbreviation (input) softfloat_round_minMag :: u32 where "softfloat_round_minMag \<equiv> 1"
abbreviation (input) softfloat_round_min :: u32 where "softfloat_round_min \<equiv> 2"
abbreviation (input) softfloat_round_max :: u32 where "softfloat_round_max \<equiv> 3"
abbreviation (input) softfloat_round_nearest_maxMag :: u32 where "softfloat_round_nearest_maxMag \<equiv> 4"

abbreviation (input) softfloat_flag_inexact :: u8 where "softfloat_flag_inexact \<equiv> 1"
abbreviation (input) softfloat_flag_underflow :: u8 where "softfloat_flag_underflow \<equiv> 2"
abbreviation (input) softfloat_flag_overflow :: u8 where "softfloat_flag_overflow \<equiv> 4"
abbreviation (input) softfloat_flag_infinity :: u8 where "softfloat_flag_infinity \<equiv> 8"
abbreviation (input) softfloat_flag_invalid :: u8 where "softfloat_flag_invalid \<equiv> 16"

abbreviation (input) defaultNaNF32UI :: u32 where "defaultNaNF32UI \<equiv> 0xFFFFFFFF"

definition raise_if :: "bool \<Rightarrow> u8 \<Rightarrow> u8" where
  "raise_if c fl = (if c then fl else 0)"

definition signF32UI :: "u32 \<Rightarrow> bool" where
  "signF32UI a \<longleftrightarrow> drop_bit 31 a \<noteq> 0"

definition expF32UI :: "u32 \<Rightarrow> int" where
  "expF32UI a = uint (drop_bit 23 a AND 0xFF)"

definition fracF32UI :: "u32 \<Rightarrow> u32" where
  "fracF32UI a = a AND 0x007FFFFF"

definition packToF32UI :: "bool \<Rightarrow> int \<Rightarrow> u32 \<Rightarrow> u32" where
  "packToF32UI sg e sig = push_bit 31 (b2w sg) + push_bit 23 (of_int e) + sig"

definition isNaNF32UI :: "u32 \<Rightarrow> bool" where
  "isNaNF32UI ui \<longleftrightarrow> 0xFF000000 < push_bit 1 ui"

definition softfloat_isSigNaNF32UI :: "u32 \<Rightarrow> bool" where
  "softfloat_isSigNaNF32UI ui \<longleftrightarrow> drop_bit 22 ui AND 0x1FF = 0x1FE \<and> ui AND 0x003FFFFF \<noteq> 0"

record commonNaN =
  nan_sign :: bool
  nan_v64 :: u64
  nan_v0 :: u64

definition softfloat_f32UIToCommonNaN :: "u32 \<Rightarrow> commonNaN \<times> u8" where
  "softfloat_f32UIToCommonNaN uiA =
     (\<lparr>nan_sign = (drop_bit 31 uiA \<noteq> 0), nan_v64 = push_bit 41 0x7FFFF, nan_v0 = 0\<rparr>,
      raise_if (softfloat_isSigNaNF32UI uiA) softfloat_flag_invalid)"

definition softfloat_commonNaNToF32UI :: "commonNaN \<Rightarrow> u32" where
  "softfloat_commonNaNToF32UI a = push_bit 31 (b2w (nan_sign a)) OR 0x7FFFFFFF"

definition softfloat_propagateNaNF32UI :: "u32 \<Rightarrow> u32 \<Rightarrow> u32 \<times> u8" where
  "softfloat_propagateNaNF32UI uiA uiB =
     (defaultNaNF32UI,
      raise_if (softfloat_isSigNaNF32UI uiA \<or> softfloat_isSigNaNF32UI uiB) softfloat_flag_invalid)"

record exp16_sig32 =
  es32_exp :: int
  es32_sig :: u32

definition softfloat_normSubnormalF32Sig :: "u32 \<Rightarrow> exp16_sig32" where
  "softfloat_normSubnormalF32Sig sig =
     (let shiftCount = softfloat_countLeadingZeros32 sig - 8
      in \<lparr>es32_exp = 1 - shiftCount, es32_sig = push_bit (nat shiftCount) sig\<rparr>)"

text \<open>The step \<open>if (!exp) { \<dots> exp = normExpSig.exp; sig = normExpSig.sig; }\<close> of the operand decoding.\<close>

definition norm_operandF32 :: "int \<Rightarrow> u32 \<Rightarrow> int \<times> u32" where
  "norm_operandF32 e sig =
     (if e = 0 then (let n = softfloat_normSubnormalF32Sig sig in (es32_exp n, es32_sig n))
      else (e, sig))"

section \<open>Rounding and packing\<close>

text \<open>The rounding increment all the packing routines compute: half a unit, nothing, or just
  below a unit.\<close>

definition round_increment :: "'a::len word \<Rightarrow> 'a word \<Rightarrow> u32 \<Rightarrow> bool \<Rightarrow> 'a word" where
  "round_increment half full rm sg =
     (if rm \<noteq> softfloat_round_nearest_even \<and> rm \<noteq> softfloat_round_nearest_maxMag
      then if rm = softfloat_round_minMag
             \<or> rm = (if sg then softfloat_round_max else softfloat_round_min)
           then 0 else full
      else half)"

definition softfloat_roundPackToF32 :: "u32 \<Rightarrow> bool \<Rightarrow> int \<Rightarrow> u32 \<Rightarrow> u32 \<times> u8" where
  "softfloat_roundPackToF32 rm sg e sig =
     (let roundNearestEven = (rm = softfloat_round_nearest_even);
          roundIncrement = round_increment 0x40 0x7F rm sg;
          roundBits = sig AND 0x7F
      in if 0xFD \<le> e mod 0x10000 \<and> \<not> e < 0 \<and> (0xFD < e \<or> 0x80000000 \<le> sig + roundIncrement)
         then (packToF32UI sg 0xFF 0 - b2w (roundIncrement = 0),
               softfloat_flag_overflow OR softfloat_flag_inexact)
         else
           let (e, sig, roundBits, fl) =
                 (if 0xFD \<le> e mod 0x10000 \<and> e < 0
                  then let sig = softfloat_shift32RightJam sig (of_int (- e)); roundBits = sig AND 0x7F
                       in (0, sig, roundBits, raise_if (roundBits \<noteq> 0) softfloat_flag_underflow)
                  else (e, sig, roundBits, 0));
               fl = fl OR raise_if (roundBits \<noteq> 0) softfloat_flag_inexact;
               sig = drop_bit 7 (sig + roundIncrement);
               sig = sig AND NOT (b2w (roundBits XOR 0x40 = 0) AND b2w roundNearestEven)
           in (packToF32UI sg (if sig \<noteq> 0 then e else 0) sig, fl))"

definition softfloat_normRoundPackToF32 :: "u32 \<Rightarrow> bool \<Rightarrow> int \<Rightarrow> u32 \<Rightarrow> u32 \<times> u8" where
  "softfloat_normRoundPackToF32 rm sg e sig =
     (let shiftCount = softfloat_countLeadingZeros32 sig - 1;
          e = e - shiftCount
      in if 7 \<le> shiftCount \<and> e mod 0x10000 < 0xFD
         then (packToF32UI sg (if sig \<noteq> 0 then e else 0) (push_bit (nat (shiftCount - 7)) sig), 0)
         else softfloat_roundPackToF32 rm sg e (push_bit (nat shiftCount) sig))"

section \<open>Addition and subtraction\<close>

definition softfloat_addMagsF32 :: "u32 \<Rightarrow> u32 \<Rightarrow> u32 \<Rightarrow> bool \<Rightarrow> u32 \<times> u8" where
  "softfloat_addMagsF32 rm uiA uiB signZ =
     (let expA = expF32UI uiA;
          sigA = fracF32UI uiA;
          expB = expF32UI uiB;
          sigB = fracF32UI uiB;
          expDiff = expA - expB;
          sigA = push_bit 6 sigA;
          sigB = push_bit 6 sigB
      in if expDiff = 0 then
           if expA = 0xFF then
             if sigA OR sigB \<noteq> 0 then softfloat_propagateNaNF32UI uiA uiB else (uiA, 0)
           else if expA = 0 then (packToF32UI signZ 0 ((uiA + uiB) AND 0x7FFFFFFF), 0)
           else softfloat_roundPackToF32 rm signZ expA (0x40000000 + sigA + sigB)
         else if expDiff < 0 \<and> expB = 0xFF then
           if sigB \<noteq> 0 then softfloat_propagateNaNF32UI uiA uiB else (packToF32UI signZ 0xFF 0, 0)
         else if \<not> expDiff < 0 \<and> expA = 0xFF then
           if sigA \<noteq> 0 then softfloat_propagateNaNF32UI uiA uiB else (uiA, 0)
         else
           let (expZ, sigA, sigB) =
                 (if expDiff < 0
                  then (expB,
                        softfloat_shift32RightJam (sigA + (if expA \<noteq> 0 then 0x20000000 else sigA))
                          (of_int (- expDiff)),
                        sigB)
                  else (expA, sigA,
                        softfloat_shift32RightJam (sigB + (if expB \<noteq> 0 then 0x20000000 else sigB))
                          (of_int expDiff)));
               sigZ = 0x20000000 + sigA + sigB;
               (expZ, sigZ) = (if sigZ < 0x40000000 then (expZ - 1, push_bit 1 sigZ) else (expZ, sigZ))
           in softfloat_roundPackToF32 rm signZ expZ sigZ)"

definition softfloat_subMagsF32 :: "u32 \<Rightarrow> u32 \<Rightarrow> u32 \<Rightarrow> bool \<Rightarrow> u32 \<times> u8" where
  "softfloat_subMagsF32 rm uiA uiB signZ =
     (let expA = expF32UI uiA;
          sigA = fracF32UI uiA;
          expB = expF32UI uiB;
          sigB = fracF32UI uiB;
          expDiff = expA - expB;
          sigA = push_bit 7 sigA;
          sigB = push_bit 7 sigB
      in if 0 < expDiff then
           if expA = 0xFF then
             if sigA \<noteq> 0 then softfloat_propagateNaNF32UI uiA uiB else (uiA, 0)
           else
             let sigB = softfloat_shift32RightJam (sigB + (if expB \<noteq> 0 then 0x40000000 else sigB))
                          (of_int expDiff);
                 sigA = sigA OR 0x40000000
             in softfloat_normRoundPackToF32 rm signZ (expA - 1) (sigA - sigB)
         else if expDiff < 0 then
           if expB = 0xFF then
             if sigB \<noteq> 0 then softfloat_propagateNaNF32UI uiA uiB
             else (packToF32UI (signZ \<noteq> True) 0xFF 0, 0)
           else
             let sigA = softfloat_shift32RightJam (sigA + (if expA \<noteq> 0 then 0x40000000 else sigA))
                          (of_int (- expDiff));
                 sigB = sigB OR 0x40000000
             in softfloat_normRoundPackToF32 rm (signZ \<noteq> True) (expB - 1) (sigB - sigA)
         else if expA = 0xFF then
           if sigA OR sigB \<noteq> 0 then softfloat_propagateNaNF32UI uiA uiB
           else (defaultNaNF32UI, softfloat_flag_invalid)
         else
           let (expA, expB) = (if expA = 0 then (1, 1) else (expA, expB))
           in if sigB < sigA then softfloat_normRoundPackToF32 rm signZ (expA - 1) (sigA - sigB)
              else if sigA < sigB
              then softfloat_normRoundPackToF32 rm (signZ \<noteq> True) (expB - 1) (sigB - sigA)
              else (packToF32UI (rm = softfloat_round_min) 0 0, 0))"

definition f32_add :: "u32 \<Rightarrow> u32 \<Rightarrow> u32 \<Rightarrow> u32 \<times> u8" where
  "f32_add rm a b =
     (let signA = signF32UI a; signB = signF32UI b
      in (if signA = signB then softfloat_addMagsF32 else softfloat_subMagsF32) rm a b signA)"

definition f32_sub :: "u32 \<Rightarrow> u32 \<Rightarrow> u32 \<Rightarrow> u32 \<times> u8" where
  "f32_sub rm a b =
     (let signA = signF32UI a; signB = signF32UI b
      in (if signA = signB then softfloat_subMagsF32 else softfloat_addMagsF32) rm a (b XOR 0x80000000) signA)"

section \<open>Multiplication, division, square root, remainder\<close>

definition f32_mul_infArg :: "bool \<Rightarrow> u32 \<Rightarrow> u32 \<times> u8" where
  "f32_mul_infArg signZ magBits =
     (if magBits = 0 then (defaultNaNF32UI, softfloat_flag_invalid)
      else (packToF32UI signZ 0xFF 0, 0))"

definition f32_mul :: "u32 \<Rightarrow> u32 \<Rightarrow> u32 \<Rightarrow> u32 \<times> u8" where
  "f32_mul rm a b =
     (let signA = signF32UI a;
          expA = expF32UI a;
          sigA = fracF32UI a;
          signB = signF32UI b;
          expB = expF32UI b;
          sigB = fracF32UI b;
          signZ = (signA \<noteq> signB)
      in if expA = 0xFF then
           if sigA \<noteq> 0 \<or> (expB = 0xFF \<and> sigB \<noteq> 0) then softfloat_propagateNaNF32UI a b
           else f32_mul_infArg signZ (of_int expB OR sigB)
         else if expB = 0xFF then
           if sigB \<noteq> 0 then softfloat_propagateNaNF32UI a b
           else f32_mul_infArg signZ (of_int expA OR sigA)
         else if expA = 0 \<and> sigA = 0 then (packToF32UI signZ 0 0, 0)
         else if expB = 0 \<and> sigB = 0 then (packToF32UI signZ 0 0, 0)
         else
           let (expA, sigA) = norm_operandF32 expA sigA;
               (expB, sigB) = norm_operandF32 expB sigB;
               expZ = expA + expB - 0x7F;
               sigA = push_bit 7 (sigA OR 0x00800000);
               sigB = push_bit 8 (sigB OR 0x00800000);
               sigZ = (ucast (softfloat_shortShift64RightJam (ucast sigA * ucast sigB) 32) :: u32);
               (expZ, sigZ) = (if sigZ < 0x40000000 then (expZ - 1, push_bit 1 sigZ) else (expZ, sigZ))
           in softfloat_roundPackToF32 rm signZ expZ sigZ)"

definition f32_div :: "u32 \<Rightarrow> u32 \<Rightarrow> u32 \<Rightarrow> u32 \<times> u8" where
  "f32_div rm a b =
     (let signA = signF32UI a;
          expA = expF32UI a;
          sigA = fracF32UI a;
          signB = signF32UI b;
          expB = expF32UI b;
          sigB = fracF32UI b;
          signZ = (signA \<noteq> signB)
      in if expA = 0xFF then
           if sigA \<noteq> 0 then softfloat_propagateNaNF32UI a b
           else if expB = 0xFF then
             if sigB \<noteq> 0 then softfloat_propagateNaNF32UI a b
             else (defaultNaNF32UI, softfloat_flag_invalid)
           else (packToF32UI signZ 0xFF 0, 0)
         else if expB = 0xFF then
           if sigB \<noteq> 0 then softfloat_propagateNaNF32UI a b else (packToF32UI signZ 0 0, 0)
         else if expB = 0 \<and> sigB = 0 then
           if of_int expA OR sigA = 0 then (defaultNaNF32UI, softfloat_flag_invalid)
           else (packToF32UI signZ 0xFF 0, softfloat_flag_infinity)
         else if expA = 0 \<and> sigA = 0 then (packToF32UI signZ 0 0, 0)
         else
           let (expB, sigB) = norm_operandF32 expB sigB;
               (expA, sigA) = norm_operandF32 expA sigA;
               expZ = expA - expB + 0x7D;
               sigA = push_bit 7 (sigA OR 0x00800000);
               sigB = push_bit 8 (sigB OR 0x00800000);
               (expZ, sigA) = (if sigB \<le> sigA + sigA then (expZ + 1, drop_bit 1 sigA) else (expZ, sigA));
               sigZ = (ucast (push_bit 32 (ucast sigA :: u64) div ucast sigB) :: u32);
               sigZ = (if sigZ AND 0x3F = 0
                       then sigZ OR b2w (ucast sigB * ucast sigZ \<noteq> push_bit 32 (ucast sigA :: u64))
                       else sigZ)
           in softfloat_roundPackToF32 rm signZ expZ sigZ)"

partial_function (option) sqrtF32_loop :: "u32 \<Rightarrow> u64 \<Rightarrow> (u32 \<times> u64) option" where
  "sqrtF32_loop sigZ rmd =
     (if 0x8000000000000000 \<le> rmd
      then let sigZ = sigZ - 1 in sqrtF32_loop sigZ (rmd + (push_bit 1 (ucast sigZ) OR 1))
      else Some (sigZ, rmd))"

declare sqrtF32_loop.simps [code]

definition f32_sqrt :: "u32 \<Rightarrow> u32 \<Rightarrow> (u32 \<times> u8) option" where
  "f32_sqrt rm a =
     (let signA = signF32UI a;
          expA = expF32UI a;
          sigA = fracF32UI a
      in if expA = 0xFF then
           if sigA \<noteq> 0 then Some (softfloat_propagateNaNF32UI a 0)
           else if \<not> signA then Some (a, 0)
           else Some (defaultNaNF32UI, softfloat_flag_invalid)
         else if signA then
           if of_int expA OR sigA = 0 then Some (a, 0)
           else Some (defaultNaNF32UI, softfloat_flag_invalid)
         else if expA = 0 \<and> sigA = 0 then Some (a, 0)
         else do {
           let (expA, sigA) = norm_operandF32 expA sigA;
           let expZ = (expA - 0x7F) div 2 + 0x7E;
           let sigA = push_bit 8 (sigA OR 0x00800000);
           let sigZ = softfloat_estimateSqrt32 (of_int expA) sigA + 2;
           if sigZ AND 0x7F \<le> 5 then
             if sigZ < 2 then Some (softfloat_roundPackToF32 rm False expZ 0x7FFFFFFF)
             else do {
               let sigA = drop_bit (nat (expA mod 2)) sigA;
               let trm = (ucast sigZ * ucast sigZ :: u64);
               let rmd = push_bit 32 (ucast sigA) - trm;
               (sigZ, rmd) \<leftarrow> sqrtF32_loop sigZ rmd;
               let sigZ = sigZ OR b2w (rmd \<noteq> 0);
               Some (softfloat_roundPackToF32 rm False expZ (softfloat_shortShift32Right1Jam sigZ)) }
           else Some (softfloat_roundPackToF32 rm False expZ (softfloat_shortShift32Right1Jam sigZ)) })"

text \<open>The two loops of \<open>f32_rem\<close>.\<close>

partial_function (option) remF32_div_loop :: "u32 \<Rightarrow> u64 \<Rightarrow> int \<Rightarrow> u64 \<Rightarrow> (int \<times> u64) option" where
  "remF32_div_loop sigB sigB64 expDiff sigA64 =
     (if 0 < expDiff
      then do {
        q64 \<leftarrow> softfloat_estimateDiv128To64 sigA64 0 sigB64;
        let q64 = (if 2 < q64 then q64 - 2 else 0);
        remF32_div_loop sigB sigB64 (expDiff - 62) (- push_bit 38 (ucast sigB * q64)) }
      else Some (expDiff, sigA64))"

declare remF32_div_loop.simps [code]

partial_function (option) remF32_sub_loop :: "u32 \<Rightarrow> u32 \<Rightarrow> u32 \<Rightarrow> (u32 \<times> u32 \<times> u32) option" where
  "remF32_sub_loop sigB q sigA =
     (let alternateSigA = sigA;
          q = q + 1;
          sigA = sigA - sigB
      in if sigA < 0x80000000 then remF32_sub_loop sigB q sigA else Some (alternateSigA, q, sigA))"

declare remF32_sub_loop.simps [code]

definition remF32_finish :: "u32 \<Rightarrow> bool \<Rightarrow> int \<Rightarrow> u32 \<Rightarrow> u32 \<Rightarrow> u32 \<Rightarrow> (u32 \<times> u8) option" where
  "remF32_finish rm signA expB q sigA sigB = do {
     (alternateSigA, q, sigA) \<leftarrow> remF32_sub_loop sigB q sigA;
     let sigMean = sigA + alternateSigA;
     let sigA = (if 0x80000000 \<le> sigMean \<or> (sigMean = 0 \<and> q AND 1 \<noteq> 0) then alternateSigA else sigA);
     let signZ = (0x80000000 \<le> sigA);
     let sigA = (if signZ then - sigA else sigA);
     Some (softfloat_normRoundPackToF32 rm (signA \<noteq> signZ) expB sigA) }"

definition f32_rem :: "u32 \<Rightarrow> u32 \<Rightarrow> u32 \<Rightarrow> (u32 \<times> u8) option" where
  "f32_rem rm a b =
     (let signA = signF32UI a;
          expA = expF32UI a;
          sigA = fracF32UI a;
          expB = expF32UI b;
          sigB = fracF32UI b
      in if expA = 0xFF then
           if sigA \<noteq> 0 \<or> (expB = 0xFF \<and> sigB \<noteq> 0) then Some (softfloat_propagateNaNF32UI a b)
           else Some (defaultNaNF32UI, softfloat_flag_invalid)
         else if expB = 0xFF then
           if sigB \<noteq> 0 then Some (softfloat_propagateNaNF32UI a b) else Some (a, 0)
         else if expB = 0 \<and> sigB = 0 then Some (defaultNaNF32UI, softfloat_flag_invalid)
         else if expA = 0 \<and> sigA = 0 then Some (a, 0)
         else
           let (expB, sigB) = norm_operandF32 expB sigB;
               (expA, sigA) = norm_operandF32 expA sigA;
               expDiff = expA - expB;
               sigA = sigA OR 0x00800000;
               sigB = sigB OR 0x00800000
           in if expDiff < 32 then
                if expDiff < - 1 then Some (a, 0)
                else
                  let sigA = push_bit 8 sigA;
                      sigB = push_bit 8 sigB;
                      sigA = (if expDiff < 0 then drop_bit 1 sigA else sigA);
                      q = b2w (sigB \<le> sigA);
                      sigA = (if q \<noteq> 0 then sigA - sigB else sigA)
                  in if 0 < expDiff then
                       let q = (ucast (push_bit 32 (ucast sigA :: u64) div ucast sigB) :: u32);
                           q = drop_bit (nat (32 - expDiff)) q;
                           sigB = drop_bit 2 sigB;
                           sigA = push_bit (nat (expDiff - 1)) (drop_bit 1 sigA) - sigB * q
                       in remF32_finish rm signA expB q sigA sigB
                     else remF32_finish rm signA expB q (drop_bit 2 sigA) (drop_bit 2 sigB)
              else do {
                let sigA = (if sigB \<le> sigA then sigA - sigB else sigA);
                let sigA64 = push_bit 40 (ucast sigA :: u64);
                let sigB64 = push_bit 40 (ucast sigB :: u64);
                (expDiff, sigA64) \<leftarrow> remF32_div_loop sigB sigB64 (expDiff - 64) sigA64;
                let expDiff = expDiff + 64;
                q64 \<leftarrow> softfloat_estimateDiv128To64 sigA64 0 sigB64;
                let q64 = (if 2 < q64 then q64 - 2 else 0);
                let q = (ucast (drop_bit (nat (64 - expDiff)) q64) :: u32);
                let sigB = push_bit 6 sigB;
                let sigA = ucast (push_bit (nat (expDiff - 1)) (drop_bit 33 sigA64)) - sigB * q;
                remF32_finish rm signA expB q sigA sigB })"

section \<open>Fused multiply-add\<close>

text \<open>The labels \<open>propagateNaN_ZC\<close>, \<open>invalid\<close>, \<open>infProdArg\<close> and \<open>completeCancellation\<close>.\<close>

definition mulAddF32_propagateNaN_ZC :: "u8 \<Rightarrow> u32 \<Rightarrow> u32 \<Rightarrow> u32 \<times> u8" where
  "mulAddF32_propagateNaN_ZC fl uiZ uiC =
     (let (uiZ, fl') = softfloat_propagateNaNF32UI uiZ uiC in (uiZ, fl OR fl'))"

definition mulAddF32_infProdArg :: "bool \<Rightarrow> u32 \<Rightarrow> bool \<Rightarrow> u32 \<Rightarrow> u32 \<times> u8" where
  "mulAddF32_infProdArg signProd magBits signC uiC =
     (let uiZ = packToF32UI signProd 0xFF 0;
          invalid = mulAddF32_propagateNaN_ZC softfloat_flag_invalid defaultNaNF32UI uiC
      in if magBits \<noteq> 0 then
           if expF32UI uiC \<noteq> 0xFF then (uiZ, 0)
           else if fracF32UI uiC \<noteq> 0 then mulAddF32_propagateNaN_ZC 0 uiZ uiC
           else if signProd = signC then (uiZ, 0) else invalid
         else invalid)"

definition mulAddF32_completeCancellation :: "u32 \<Rightarrow> u32 \<times> u8" where
  "mulAddF32_completeCancellation rm = (packToF32UI (rm = softfloat_round_min) 0 0, 0)"

text \<open>The sum of the product and a nonzero \<open>c\<close>, from the label after the decoding of the operands.\<close>

definition mulAddF32_add :: "u32 \<Rightarrow> bool \<Rightarrow> int \<Rightarrow> u64 \<Rightarrow> int \<Rightarrow> u32 \<Rightarrow> u32 \<times> u8" where
  "mulAddF32_add rm signZ expProd sigProd expC sigC =
     (let expDiff = expProd - expC;
          (expZ, sigZ) =
            (if expDiff \<le> 0
             then (expC, sigC + ucast (softfloat_shift64RightJam sigProd (of_int (32 - expDiff))))
             else let sigZ64 = sigProd
                        + softfloat_shift64RightJam (push_bit 32 (ucast sigC)) (of_int expDiff)
                  in (expProd, ucast (softfloat_shortShift64RightJam sigZ64 32)));
          (expZ, sigZ) = (if sigZ < 0x40000000 then (expZ - 1, push_bit 1 sigZ) else (expZ, sigZ))
      in softfloat_roundPackToF32 rm signZ expZ sigZ)"

definition mulAddF32_sub :: "u32 \<Rightarrow> bool \<Rightarrow> bool \<Rightarrow> int \<Rightarrow> u64 \<Rightarrow> int \<Rightarrow> u32 \<Rightarrow> u32 \<times> u8" where
  "mulAddF32_sub rm signProd signC expProd sigProd expC sigC =
     (let expDiff = expProd - expC;
          sigC64 = push_bit 32 (ucast sigC) :: u64
      in if expDiff = 0 \<and> sigProd - sigC64 = 0 then mulAddF32_completeCancellation rm
         else
           let (signZ, expZ, sigZ64) =
                 (if expDiff < 0
                  then (signC, expC, sigC64 - softfloat_shift64RightJam sigProd (of_int (- expDiff)))
                  else if expDiff = 0
                  then let sigZ64 = sigProd - sigC64
                       in if sigZ64 AND 0x8000000000000000 \<noteq> 0
                          then (signProd \<noteq> True, expProd, - sigZ64) else (signProd, expProd, sigZ64)
                  else (signProd, expProd, sigProd - softfloat_shift64RightJam sigC64 (of_int expDiff)));
               shiftCount = softfloat_countLeadingZeros64 sigZ64 - 1;
               expZ = expZ - shiftCount;
               shiftCount = shiftCount - 32;
               sigZ = (if shiftCount < 0
                       then ucast (softfloat_shortShift64RightJam sigZ64 (of_int (- shiftCount)))
                       else push_bit (nat shiftCount) (ucast sigZ64) :: u32)
           in softfloat_roundPackToF32 rm signZ expZ sigZ)"

definition softfloat_mulAddF32 :: "u32 \<Rightarrow> u32 \<Rightarrow> u32 \<Rightarrow> u32 \<Rightarrow> u32 \<Rightarrow> u32 \<times> u8" where
  "softfloat_mulAddF32 rm opr uiA uiB uiC =
     (let signA = signF32UI uiA;
          expA = expF32UI uiA;
          sigA = fracF32UI uiA;
          signB = signF32UI uiB;
          expB = expF32UI uiB;
          sigB = fracF32UI uiB;
          signC = (signF32UI uiC \<noteq> (opr = 1));
          expC = expF32UI uiC;
          sigC = fracF32UI uiC;
          signProd = ((signA \<noteq> signB) \<noteq> (opr = 2));
          propagateNaN_ABC =
            (let (uiZ, fl) = softfloat_propagateNaNF32UI uiA uiB in mulAddF32_propagateNaN_ZC fl uiZ uiC);
          zeroProd =
            (if of_int expC OR sigC = 0 \<and> signProd \<noteq> signC then mulAddF32_completeCancellation rm
             else (uiC, 0))
      in if expA = 0xFF then
           if sigA \<noteq> 0 \<or> (expB = 0xFF \<and> sigB \<noteq> 0) then propagateNaN_ABC
           else mulAddF32_infProdArg signProd (of_int expB OR sigB) signC uiC
         else if expB = 0xFF then
           if sigB \<noteq> 0 then propagateNaN_ABC
           else mulAddF32_infProdArg signProd (of_int expA OR sigA) signC uiC
         else if expC = 0xFF then
           if sigC \<noteq> 0 then mulAddF32_propagateNaN_ZC 0 0 uiC else (uiC, 0)
         else if expA = 0 \<and> sigA = 0 then zeroProd
         else if expB = 0 \<and> sigB = 0 then zeroProd
         else
           let (expA, sigA) = norm_operandF32 expA sigA;
               (expB, sigB) = norm_operandF32 expB sigB;
               expProd = expA + expB - 0x7E;
               sigA = push_bit 7 (sigA OR 0x00800000);
               sigB = push_bit 7 (sigB OR 0x00800000);
               sigProd = (ucast sigA * ucast sigB :: u64);
               (expProd, sigProd) =
                 (if sigProd < 0x2000000000000000 then (expProd - 1, push_bit 1 sigProd)
                  else (expProd, sigProd))
           in if expC = 0 \<and> sigC = 0
              then softfloat_roundPackToF32 rm signProd (expProd - 1)
                     (ucast (softfloat_shortShift64RightJam sigProd 31))
              else
                let (expC, sigC) = norm_operandF32 expC sigC;
                    sigC = push_bit 6 (sigC OR 0x00800000)
                in if signProd = signC then mulAddF32_add rm signProd expProd sigProd expC sigC
                   else mulAddF32_sub rm signProd signC expProd sigProd expC sigC)"

definition f32_mulAdd :: "u32 \<Rightarrow> u32 \<Rightarrow> u32 \<Rightarrow> u32 \<Rightarrow> u32 \<times> u8" where
  "f32_mulAdd rm a b c = softfloat_mulAddF32 rm 0 a b c"

section \<open>Comparison and classification\<close>

text \<open>The NaN test the comparisons open with.\<close>

definition nan_operandF32 :: "u32 \<Rightarrow> u32 \<Rightarrow> bool" where
  "nan_operandF32 uiA uiB \<longleftrightarrow>
     expF32UI uiA = 0xFF \<and> fracF32UI uiA \<noteq> 0 \<or> expF32UI uiB = 0xFF \<and> fracF32UI uiB \<noteq> 0"

definition quiet_nanF32 :: "u32 \<Rightarrow> u32 \<Rightarrow> bool \<times> u8" where
  "quiet_nanF32 uiA uiB =
     (False, raise_if (softfloat_isSigNaNF32UI uiA \<or> softfloat_isSigNaNF32UI uiB) softfloat_flag_invalid)"

definition f32_eq :: "u32 \<Rightarrow> u32 \<Rightarrow> bool \<times> u8" where
  "f32_eq a b =
     (if nan_operandF32 a b then quiet_nanF32 a b
      else (a = b \<or> push_bit 1 (a OR b) = 0, 0))"

definition f32_eq_signaling :: "u32 \<Rightarrow> u32 \<Rightarrow> bool \<times> u8" where
  "f32_eq_signaling a b =
     (if nan_operandF32 a b then (False, softfloat_flag_invalid)
      else (a = b \<or> push_bit 1 (a OR b) = 0, 0))"

definition f32_le :: "u32 \<Rightarrow> u32 \<Rightarrow> bool \<times> u8" where
  "f32_le a b =
     (if nan_operandF32 a b then (False, softfloat_flag_invalid)
      else let signA = signF32UI a; signB = signF32UI b
           in (if signA \<noteq> signB then signA \<or> push_bit 1 (a OR b) = 0
               else a = b \<or> signA \<noteq> (a < b), 0))"

definition f32_le_quiet :: "u32 \<Rightarrow> u32 \<Rightarrow> bool \<times> u8" where
  "f32_le_quiet a b =
     (if nan_operandF32 a b then quiet_nanF32 a b
      else let signA = signF32UI a; signB = signF32UI b
           in (if signA \<noteq> signB then signA \<or> push_bit 1 (a OR b) = 0
               else a = b \<or> signA \<noteq> (a < b), 0))"

definition f32_lt :: "u32 \<Rightarrow> u32 \<Rightarrow> bool \<times> u8" where
  "f32_lt a b =
     (if nan_operandF32 a b then (False, softfloat_flag_invalid)
      else let signA = signF32UI a; signB = signF32UI b
           in (if signA \<noteq> signB then signA \<and> push_bit 1 (a OR b) \<noteq> 0
               else a \<noteq> b \<and> signA \<noteq> (a < b), 0))"

definition f32_lt_quiet :: "u32 \<Rightarrow> u32 \<Rightarrow> bool \<times> u8" where
  "f32_lt_quiet a b =
     (if nan_operandF32 a b then quiet_nanF32 a b
      else let signA = signF32UI a; signB = signF32UI b
           in (if signA \<noteq> signB then signA \<and> push_bit 1 (a OR b) \<noteq> 0
               else a \<noteq> b \<and> signA \<noteq> (a < b), 0))"

definition f32_isSignalingNaN :: "u32 \<Rightarrow> bool" where
  "f32_isSignalingNaN a = softfloat_isSigNaNF32UI a"

definition f32_classify :: "u32 \<Rightarrow> u32" where
  "f32_classify a =
     (let infOrNaN = (expF32UI a = 0xFF);
          subnormalOrZero = (expF32UI a = 0);
          sg = signF32UI a
      in b2w (sg \<and> infOrNaN \<and> fracF32UI a = 0)
         OR push_bit 1 (b2w (sg \<and> \<not> infOrNaN \<and> \<not> subnormalOrZero))
         OR push_bit 2 (b2w (sg \<and> subnormalOrZero \<and> fracF32UI a \<noteq> 0))
         OR push_bit 3 (b2w (sg \<and> subnormalOrZero \<and> fracF32UI a = 0))
         OR push_bit 7 (b2w (\<not> sg \<and> infOrNaN \<and> fracF32UI a = 0))
         OR push_bit 6 (b2w (\<not> sg \<and> \<not> infOrNaN \<and> \<not> subnormalOrZero))
         OR push_bit 5 (b2w (\<not> sg \<and> subnormalOrZero \<and> fracF32UI a \<noteq> 0))
         OR push_bit 4 (b2w (\<not> sg \<and> subnormalOrZero \<and> fracF32UI a = 0))
         OR push_bit 8 (b2w (isNaNF32UI a \<and> softfloat_isSigNaNF32UI a))
         OR push_bit 9 (b2w (isNaNF32UI a \<and> \<not> softfloat_isSigNaNF32UI a)))"

section \<open>Rounding to integers\<close>

text \<open>The signed results are bit patterns; \<open>z < 0\<close> reads the sign bit.\<close>

definition softfloat_roundPackToI32 :: "bool \<Rightarrow> u64 \<Rightarrow> u32 \<Rightarrow> bool \<Rightarrow> u32 \<times> u8" where
  "softfloat_roundPackToI32 sg sig roundingMode exact =
     (let roundNearestEven = (roundingMode = softfloat_round_nearest_even);
          roundIncrement = round_increment 0x40 0x7F roundingMode sg;
          roundBits = sig AND 0x7F;
          sig = sig + roundIncrement;
          sig32 = (ucast (drop_bit 7 sig) :: u32);
          sig32 = sig32 AND NOT (b2w (roundBits XOR 0x40 = 0) AND b2w roundNearestEven);
          z = (if sg then - sig32 else sig32)
      in if sig AND 0xFFFFFF8000000000 \<noteq> 0 \<or> (z \<noteq> 0 \<and> (sint z < 0) \<noteq> sg)
         then (if sg then 0x80000000 else 0x7FFFFFFF, softfloat_flag_invalid)
         else (z, raise_if (exact \<and> roundBits \<noteq> 0) softfloat_flag_inexact))"

definition softfloat_roundPackToUI32 :: "bool \<Rightarrow> u64 \<Rightarrow> u32 \<Rightarrow> bool \<Rightarrow> u32 \<times> u8" where
  "softfloat_roundPackToUI32 sg sig roundingMode exact =
     (let roundNearestEven = (roundingMode = softfloat_round_nearest_even);
          roundIncrement = round_increment 0x40 0x7F roundingMode sg;
          roundBits = sig AND 0x7F;
          sig = sig + roundIncrement;
          z = (ucast (drop_bit 7 sig) :: u32);
          z = z AND NOT (b2w (roundBits XOR 0x40 = 0) AND b2w roundNearestEven)
      in if sig AND 0xFFFFFF8000000000 \<noteq> 0 \<or> (sg \<and> z \<noteq> 0)
         then (0xFFFFFFFF, softfloat_flag_invalid)
         else (z, raise_if (exact \<and> roundBits \<noteq> 0) softfloat_flag_inexact))"

definition round_up64 :: "bool \<Rightarrow> u64 \<Rightarrow> u32 \<Rightarrow> bool" where
  "round_up64 sg sig0 roundingMode =
     (if roundingMode \<noteq> softfloat_round_nearest_even \<and> roundingMode \<noteq> softfloat_round_nearest_maxMag
      then roundingMode \<noteq> softfloat_round_minMag
        \<and> roundingMode = (if sg then softfloat_round_min else softfloat_round_max) \<and> sig0 \<noteq> 0
      else 0x8000000000000000 \<le> sig0)"

text \<open>The common first part of the two 64-bit routines: the incremented significand, or \<open>None\<close>
  if it overflows.\<close>

definition round_sig64 :: "bool \<Rightarrow> u64 \<Rightarrow> u64 \<Rightarrow> u32 \<Rightarrow> u64 option" where
  "round_sig64 sg sig64 sig0 roundingMode =
     (if round_up64 sg sig0 roundingMode
      then if sig64 + 1 = 0 then None
           else Some ((sig64 + 1) AND NOT (b2w (sig0 AND 0x7FFFFFFFFFFFFFFF = 0)
                        AND b2w (roundingMode = softfloat_round_nearest_even)))
      else Some sig64)"

definition softfloat_roundPackToI64 :: "bool \<Rightarrow> u64 \<Rightarrow> u64 \<Rightarrow> u32 \<Rightarrow> bool \<Rightarrow> u64 \<times> u8" where
  "softfloat_roundPackToI64 sg sig64 sig0 roundingMode exact =
     (let invalid = (if sg then 0x8000000000000000 else 0x7FFFFFFFFFFFFFFF, softfloat_flag_invalid)
      in case round_sig64 sg sig64 sig0 roundingMode of
           None \<Rightarrow> invalid
         | Some sig64 \<Rightarrow>
             let z = (if sg then - sig64 else sig64)
             in if z \<noteq> 0 \<and> (sint z < 0) \<noteq> sg then invalid
                else (z, raise_if (exact \<and> sig0 \<noteq> 0) softfloat_flag_inexact))"

definition softfloat_roundPackToUI64 :: "bool \<Rightarrow> u64 \<Rightarrow> u64 \<Rightarrow> u32 \<Rightarrow> bool \<Rightarrow> u64 \<times> u8" where
  "softfloat_roundPackToUI64 sg sig64 sig0 roundingMode exact =
     (let invalid = (0xFFFFFFFFFFFFFFFF, softfloat_flag_invalid)
      in case round_sig64 sg sig64 sig0 roundingMode of
           None \<Rightarrow> invalid
         | Some sig64 \<Rightarrow>
             if sg \<and> sig64 \<noteq> 0 then invalid
             else (sig64, raise_if (exact \<and> sig0 \<noteq> 0) softfloat_flag_inexact))"

section \<open>Conversion to integers\<close>

definition f32_fixed :: "u32 \<Rightarrow> u64" where
  "f32_fixed a =
     (let e = expF32UI a;
          sig = fracF32UI a;
          sig = (if e \<noteq> 0 then sig OR 0x00800000 else sig);
          sig64 = push_bit 32 (ucast sig);
          shiftCount = 0xAF - e
      in if 0 < shiftCount then softfloat_shift64RightJam sig64 (of_int shiftCount) else sig64)"

definition f32_to_i32 :: "u32 \<Rightarrow> u32 \<Rightarrow> bool \<Rightarrow> u32 \<times> u8" where
  "f32_to_i32 a roundingMode exact =
     softfloat_roundPackToI32 (signF32UI a) (f32_fixed a) roundingMode exact"

definition f32_to_ui32 :: "u32 \<Rightarrow> u32 \<Rightarrow> bool \<Rightarrow> u32 \<times> u8" where
  "f32_to_ui32 a roundingMode exact =
     softfloat_roundPackToUI32 (signF32UI a) (f32_fixed a) roundingMode exact"

definition f32_fixed64 :: "u32 \<Rightarrow> uint64_extra" where
  "f32_fixed64 a =
     (let e = expF32UI a;
          sig = fracF32UI a;
          shiftCount = 0xBE - e;
          sig = (if e \<noteq> 0 then sig OR 0x00800000 else sig);
          sig64 = push_bit 40 (ucast sig)
      in if shiftCount \<noteq> 0 then softfloat_shift64ExtraRightJam sig64 0 (of_int shiftCount)
         else \<lparr>ue_v = sig64, ue_extra = 0\<rparr>)"

definition f32_to_i64 :: "u32 \<Rightarrow> u32 \<Rightarrow> bool \<Rightarrow> u64 \<times> u8" where
  "f32_to_i64 a roundingMode exact =
     (if 0xBE - expF32UI a < 0
      then (if \<not> signF32UI a then 0x7FFFFFFFFFFFFFFF else 0x8000000000000000, softfloat_flag_invalid)
      else let x = f32_fixed64 a
           in softfloat_roundPackToI64 (signF32UI a) (ue_v x) (ue_extra x) roundingMode exact)"

definition f32_to_ui64 :: "u32 \<Rightarrow> u32 \<Rightarrow> bool \<Rightarrow> u64 \<times> u8" where
  "f32_to_ui64 a roundingMode exact =
     (if 0xBE - expF32UI a < 0 then (0xFFFFFFFFFFFFFFFF, softfloat_flag_invalid)
      else let x = f32_fixed64 a
           in softfloat_roundPackToUI64 (signF32UI a) (ue_v x) (ue_extra x) roundingMode exact)"

definition f32_to_i32_r_minMag :: "u32 \<Rightarrow> bool \<Rightarrow> u32 \<times> u8" where
  "f32_to_i32_r_minMag a exact =
     (let e = expF32UI a; sig = fracF32UI a; sg = signF32UI a; shiftCount = 0x9E - e
      in if e < 0x7F then (0, raise_if (exact \<and> of_int e OR sig \<noteq> 0) softfloat_flag_inexact)
         else if shiftCount \<le> 0 then
           if a \<noteq> packToF32UI True 0x9E 0
           then (if \<not> sg \<or> (e = 0xFF \<and> sig \<noteq> 0) then 0x7FFFFFFF else 0x80000000, softfloat_flag_invalid)
           else (0x80000000, 0)
         else
           let sig = push_bit 8 (sig OR 0x00800000);
               absZ = drop_bit (nat shiftCount) sig
           in (if sg then - absZ else absZ,
               raise_if (exact \<and> push_bit (nat ((- shiftCount) mod 32)) sig \<noteq> 0) softfloat_flag_inexact))"

definition f32_to_ui32_r_minMag :: "u32 \<Rightarrow> bool \<Rightarrow> u32 \<times> u8" where
  "f32_to_ui32_r_minMag a exact =
     (let e = expF32UI a; sig = fracF32UI a; shiftCount = 0x9E - e
      in if e < 0x7F then (0, raise_if (exact \<and> of_int e OR sig \<noteq> 0) softfloat_flag_inexact)
         else if signF32UI a \<or> shiftCount < 0 then (0xFFFFFFFF, softfloat_flag_invalid)
         else
           let sig = push_bit 8 (sig OR 0x00800000)
           in (drop_bit (nat shiftCount) sig,
               raise_if (exact \<and> sig AND (push_bit (nat shiftCount) 1 - 1) \<noteq> 0) softfloat_flag_inexact))"

definition f32_to_i64_r_minMag :: "u32 \<Rightarrow> bool \<Rightarrow> u64 \<times> u8" where
  "f32_to_i64_r_minMag a exact =
     (let e = expF32UI a; sig = fracF32UI a; sg = signF32UI a; shiftCount = 0xBE - e
      in if e < 0x7F then (0, raise_if (exact \<and> of_int e OR sig \<noteq> 0) softfloat_flag_inexact)
         else if shiftCount \<le> 0 then
           if a \<noteq> packToF32UI True 0xBE 0
           then (if \<not> sg \<or> (e = 0xFF \<and> sig \<noteq> 0) then 0x7FFFFFFFFFFFFFFF else 0x8000000000000000,
                 softfloat_flag_invalid)
           else (0x8000000000000000, 0)
         else
           let sig = sig OR 0x00800000;
               absZ = drop_bit (nat shiftCount) (push_bit 40 (ucast sig :: u64));
               shiftCount = 40 - shiftCount
           in (if sg then - absZ else absZ,
               raise_if (exact \<and> shiftCount < 0 \<and> push_bit (nat (shiftCount mod 32)) sig \<noteq> 0)
                 softfloat_flag_inexact))"

definition f32_to_ui64_r_minMag :: "u32 \<Rightarrow> bool \<Rightarrow> u64 \<times> u8" where
  "f32_to_ui64_r_minMag a exact =
     (let e = expF32UI a; sig = fracF32UI a; shiftCount = 0xBE - e
      in if e < 0x7F then (0, raise_if (exact \<and> of_int e OR sig \<noteq> 0) softfloat_flag_inexact)
         else if signF32UI a \<or> shiftCount < 0 then (0xFFFFFFFFFFFFFFFF, softfloat_flag_invalid)
         else
           let sig = sig OR 0x00800000;
               z = drop_bit (nat shiftCount) (push_bit 40 (ucast sig :: u64));
               shiftCount = 40 - shiftCount
           in (z, raise_if (exact \<and> shiftCount < 0 \<and> push_bit (nat (shiftCount mod 32)) sig \<noteq> 0)
                 softfloat_flag_inexact))"

definition f32_roundToInt :: "u32 \<Rightarrow> u32 \<Rightarrow> bool \<Rightarrow> u32 \<times> u8" where
  "f32_roundToInt a roundingMode exact =
     (let expA = expF32UI a
      in if 0x96 \<le> expA then
           if expA = 0xFF \<and> fracF32UI a \<noteq> 0 then softfloat_propagateNaNF32UI a 0 else (a, 0)
         else if expA \<le> 0x7E then
           if push_bit 1 a = 0 then (a, 0)
           else
             let fl = raise_if exact softfloat_flag_inexact;
                 signA = signF32UI a;
                 uiZ =
                   (if roundingMode = softfloat_round_nearest_even \<and> expA = 0x7E \<and> fracF32UI a \<noteq> 0
                    then packToF32UI signA 0x7F 0
                    else if roundingMode = softfloat_round_min then (if signA then 0xBF800000 else 0)
                    else if roundingMode = softfloat_round_max
                    then (if signA then 0x80000000 else 0x3F800000)
                    else if roundingMode = softfloat_round_nearest_maxMag \<and> expA = 0x7E
                    then packToF32UI signA 0x7F 0
                    else packToF32UI signA 0 0)
             in (uiZ, fl)
         else
           let lastBitMask = push_bit (nat (0x96 - expA)) 1;
               roundBitsMask = lastBitMask - 1;
               uiZ =
                 (if roundingMode = softfloat_round_nearest_maxMag then a + drop_bit 1 lastBitMask
                  else if roundingMode = softfloat_round_nearest_even
                  then let uiZ = a + drop_bit 1 lastBitMask
                       in if uiZ AND roundBitsMask = 0 then uiZ AND NOT lastBitMask else uiZ
                  else if roundingMode \<noteq> softfloat_round_minMag
                  then if signF32UI a \<noteq> (roundingMode = softfloat_round_max) then a + roundBitsMask else a
                  else a);
               uiZ = uiZ AND NOT roundBitsMask
           in (uiZ, raise_if (exact \<and> uiZ \<noteq> a) softfloat_flag_inexact))"

section \<open>Conversion from integers\<close>

definition ui32_to_f32 :: "u32 \<Rightarrow> u32 \<Rightarrow> u32 \<times> u8" where
  "ui32_to_f32 rm a =
     (if a = 0 then (0, 0)
      else if a AND 0x80000000 \<noteq> 0
      then softfloat_roundPackToF32 rm False 0x9D (softfloat_shortShift32Right1Jam a)
      else softfloat_normRoundPackToF32 rm False 0x9C a)"

definition i32_to_f32 :: "u32 \<Rightarrow> u32 \<Rightarrow> u32 \<times> u8" where
  "i32_to_f32 rm a =
     (let sg = (sint a < 0)
      in if a AND 0x7FFFFFFF = 0 then (if sg then packToF32UI True 0x9E 0 else 0, 0)
         else softfloat_normRoundPackToF32 rm sg 0x9C (if sg then - a else a))"

definition ui64_to_f32 :: "u32 \<Rightarrow> u64 \<Rightarrow> u32 \<times> u8" where
  "ui64_to_f32 rm a =
     (let shiftCount = softfloat_countLeadingZeros64 a - 40
      in if 0 \<le> shiftCount
         then (if a \<noteq> 0 then packToF32UI False (0x95 - shiftCount) (push_bit (nat shiftCount) (ucast a))
               else 0, 0)
         else
           let shiftCount = shiftCount + 7;
               sig = (if shiftCount < 0
                      then ucast (softfloat_shortShift64RightJam a (of_int (- shiftCount)))
                      else push_bit (nat shiftCount) (ucast a))
           in softfloat_roundPackToF32 rm False (0x9C - shiftCount) sig)"

definition i64_to_f32 :: "u32 \<Rightarrow> u64 \<Rightarrow> u32 \<times> u8" where
  "i64_to_f32 rm a =
     (let sg = (sint a < 0);
          absA = (if sg then - a else a);
          shiftCount = softfloat_countLeadingZeros64 absA - 40
      in if 0 \<le> shiftCount
         then (if a \<noteq> 0 then packToF32UI sg (0x95 - shiftCount) (push_bit (nat shiftCount) (ucast absA))
               else 0, 0)
         else
           let shiftCount = shiftCount + 7;
               sig = (if shiftCount < 0
                      then ucast (softfloat_shortShift64RightJam absA (of_int (- shiftCount)))
                      else push_bit (nat shiftCount) (ucast absA))
           in softfloat_roundPackToF32 rm sg (0x9C - shiftCount) sig)"

end
