(* ===== verification/Softfloat_F64.thy ===== *)
theory Softfloat_F64
  imports Softfloat_F32
begin

text \<open>
  The double-precision routines of \<open>softfloat/\<close> (\<open>f64_*.c\<close>, \<open>s_*F64*.c\<close>, \<open>*_to_f64.c\<close>) and the
  conversions between the two precisions, in the conventions of \<open>Softfloat_F32\<close>.  Division, square
  root and remainder contain correction loops and so have an \<open>option\<close> result.
\<close>

section \<open>Format\<close>

abbreviation (input) defaultNaNF64UI :: u64 where "defaultNaNF64UI \<equiv> 0xFFFFFFFFFFFFFFFF"

definition signF64UI :: "u64 \<Rightarrow> bool" where
  "signF64UI a \<longleftrightarrow> drop_bit 63 a \<noteq> 0"

definition expF64UI :: "u64 \<Rightarrow> int" where
  "expF64UI a = uint (drop_bit 52 a AND 0x7FF)"

definition fracF64UI :: "u64 \<Rightarrow> u64" where
  "fracF64UI a = a AND 0x000FFFFFFFFFFFFF"

definition packToF64UI :: "bool \<Rightarrow> int \<Rightarrow> u64 \<Rightarrow> u64" where
  "packToF64UI sg e sig = push_bit 63 (b2w sg) + push_bit 52 (of_int e) + sig"

definition isNaNF64UI :: "u64 \<Rightarrow> bool" where
  "isNaNF64UI ui \<longleftrightarrow> 0xFFE0000000000000 < push_bit 1 ui"

definition softfloat_isSigNaNF64UI :: "u64 \<Rightarrow> bool" where
  "softfloat_isSigNaNF64UI ui \<longleftrightarrow> drop_bit 51 ui AND 0xFFF = 0xFFE \<and> ui AND 0x0007FFFFFFFFFFFF \<noteq> 0"

definition softfloat_f64UIToCommonNaN :: "u64 \<Rightarrow> commonNaN \<times> u8" where
  "softfloat_f64UIToCommonNaN uiA =
     (\<lparr>nan_sign = (drop_bit 63 uiA \<noteq> 0), nan_v64 = push_bit 12 0xFFFFFFFFFFFFF, nan_v0 = 0\<rparr>,
      raise_if (softfloat_isSigNaNF64UI uiA) softfloat_flag_invalid)"

definition softfloat_commonNaNToF64UI :: "commonNaN \<Rightarrow> u64" where
  "softfloat_commonNaNToF64UI a = push_bit 63 (b2w (nan_sign a)) OR 0x7FFFFFFFFFFFFFFF"

definition softfloat_propagateNaNF64UI :: "u64 \<Rightarrow> u64 \<Rightarrow> u64 \<times> u8" where
  "softfloat_propagateNaNF64UI uiA uiB =
     (defaultNaNF64UI,
      raise_if (softfloat_isSigNaNF64UI uiA \<or> softfloat_isSigNaNF64UI uiB) softfloat_flag_invalid)"

record exp16_sig64 =
  es64_exp :: int
  es64_sig :: u64

definition softfloat_normSubnormalF64Sig :: "u64 \<Rightarrow> exp16_sig64" where
  "softfloat_normSubnormalF64Sig sig =
     (let shiftCount = softfloat_countLeadingZeros64 sig - 11
      in \<lparr>es64_exp = 1 - shiftCount, es64_sig = push_bit (nat shiftCount) sig\<rparr>)"

definition norm_operandF64 :: "int \<Rightarrow> u64 \<Rightarrow> int \<times> u64" where
  "norm_operandF64 e sig =
     (if e = 0 then (let n = softfloat_normSubnormalF64Sig sig in (es64_exp n, es64_sig n))
      else (e, sig))"

section \<open>Rounding and packing\<close>

definition softfloat_roundPackToF64 :: "u32 \<Rightarrow> bool \<Rightarrow> int \<Rightarrow> u64 \<Rightarrow> u64 \<times> u8" where
  "softfloat_roundPackToF64 rm sg e sig =
     (let roundNearestEven = (rm = softfloat_round_nearest_even);
          roundIncrement = round_increment 0x200 0x3FF rm sg;
          roundBits = sig AND 0x3FF
      in if 0x7FD \<le> e mod 0x10000 \<and> \<not> e < 0 \<and> (0x7FD < e \<or> 0x8000000000000000 \<le> sig + roundIncrement)
         then (packToF64UI sg 0x7FF 0 - b2w (roundIncrement = 0),
               softfloat_flag_overflow OR softfloat_flag_inexact)
         else
           let (e, sig, roundBits, fl) =
                 (if 0x7FD \<le> e mod 0x10000 \<and> e < 0
                  then let sig = softfloat_shift64RightJam sig (of_int (- e)); roundBits = sig AND 0x3FF
                       in (0, sig, roundBits, raise_if (roundBits \<noteq> 0) softfloat_flag_underflow)
                  else (e, sig, roundBits, 0));
               fl = fl OR raise_if (roundBits \<noteq> 0) softfloat_flag_inexact;
               sig = drop_bit 10 (sig + roundIncrement);
               sig = sig AND NOT (b2w (roundBits XOR 0x200 = 0) AND b2w roundNearestEven)
           in (packToF64UI sg (if sig \<noteq> 0 then e else 0) sig, fl))"

definition softfloat_normRoundPackToF64 :: "u32 \<Rightarrow> bool \<Rightarrow> int \<Rightarrow> u64 \<Rightarrow> u64 \<times> u8" where
  "softfloat_normRoundPackToF64 rm sg e sig =
     (let shiftCount = softfloat_countLeadingZeros64 sig - 1;
          e = e - shiftCount
      in if 10 \<le> shiftCount \<and> e mod 0x10000 < 0x7FD
         then (packToF64UI sg (if sig \<noteq> 0 then e else 0) (push_bit (nat (shiftCount - 10)) sig), 0)
         else softfloat_roundPackToF64 rm sg e (push_bit (nat shiftCount) sig))"

section \<open>Addition and subtraction\<close>

definition softfloat_addMagsF64 :: "u32 \<Rightarrow> u64 \<Rightarrow> u64 \<Rightarrow> bool \<Rightarrow> u64 \<times> u8" where
  "softfloat_addMagsF64 rm uiA uiB signZ =
     (let expA = expF64UI uiA;
          sigA = fracF64UI uiA;
          expB = expF64UI uiB;
          sigB = fracF64UI uiB;
          expDiff = expA - expB;
          sigA = push_bit 9 sigA;
          sigB = push_bit 9 sigB
      in if expDiff = 0 then
           if expA = 0x7FF then
             if sigA OR sigB \<noteq> 0 then softfloat_propagateNaNF64UI uiA uiB else (uiA, 0)
           else if expA = 0 then (packToF64UI signZ 0 ((uiA + uiB) AND 0x7FFFFFFFFFFFFFFF), 0)
           else softfloat_roundPackToF64 rm signZ expA (0x4000000000000000 + sigA + sigB)
         else if expDiff < 0 \<and> expB = 0x7FF then
           if sigB \<noteq> 0 then softfloat_propagateNaNF64UI uiA uiB else (packToF64UI signZ 0x7FF 0, 0)
         else if \<not> expDiff < 0 \<and> expA = 0x7FF then
           if sigA \<noteq> 0 then softfloat_propagateNaNF64UI uiA uiB else (uiA, 0)
         else
           let (expZ, sigA, sigB) =
                 (if expDiff < 0
                  then (expB,
                        softfloat_shift64RightJam (sigA + (if expA \<noteq> 0 then 0x2000000000000000 else sigA))
                          (of_int (- expDiff)),
                        sigB)
                  else (expA, sigA,
                        softfloat_shift64RightJam (sigB + (if expB \<noteq> 0 then 0x2000000000000000 else sigB))
                          (of_int expDiff)));
               sigZ = 0x2000000000000000 + sigA + sigB;
               (expZ, sigZ) =
                 (if sigZ < 0x4000000000000000 then (expZ - 1, push_bit 1 sigZ) else (expZ, sigZ))
           in softfloat_roundPackToF64 rm signZ expZ sigZ)"

definition softfloat_subMagsF64 :: "u32 \<Rightarrow> u64 \<Rightarrow> u64 \<Rightarrow> bool \<Rightarrow> u64 \<times> u8" where
  "softfloat_subMagsF64 rm uiA uiB signZ =
     (let expA = expF64UI uiA;
          sigA = fracF64UI uiA;
          expB = expF64UI uiB;
          sigB = fracF64UI uiB;
          expDiff = expA - expB;
          sigA = push_bit 10 sigA;
          sigB = push_bit 10 sigB
      in if 0 < expDiff then
           if expA = 0x7FF then
             if sigA \<noteq> 0 then softfloat_propagateNaNF64UI uiA uiB else (uiA, 0)
           else
             let sigB = softfloat_shift64RightJam
                          (sigB + (if expB \<noteq> 0 then 0x4000000000000000 else sigB)) (of_int expDiff);
                 sigA = sigA OR 0x4000000000000000
             in softfloat_normRoundPackToF64 rm signZ (expA - 1) (sigA - sigB)
         else if expDiff < 0 then
           if expB = 0x7FF then
             if sigB \<noteq> 0 then softfloat_propagateNaNF64UI uiA uiB
             else (packToF64UI (signZ \<noteq> True) 0x7FF 0, 0)
           else
             let sigA = softfloat_shift64RightJam
                          (sigA + (if expA \<noteq> 0 then 0x4000000000000000 else sigA)) (of_int (- expDiff));
                 sigB = sigB OR 0x4000000000000000
             in softfloat_normRoundPackToF64 rm (signZ \<noteq> True) (expB - 1) (sigB - sigA)
         else if expA = 0x7FF then
           if sigA OR sigB \<noteq> 0 then softfloat_propagateNaNF64UI uiA uiB
           else (defaultNaNF64UI, softfloat_flag_invalid)
         else
           let (expA, expB) = (if expA = 0 then (1, 1) else (expA, expB))
           in if sigB < sigA then softfloat_normRoundPackToF64 rm signZ (expA - 1) (sigA - sigB)
              else if sigA < sigB
              then softfloat_normRoundPackToF64 rm (signZ \<noteq> True) (expB - 1) (sigB - sigA)
              else (packToF64UI (rm = softfloat_round_min) 0 0, 0))"

definition f64_add :: "u32 \<Rightarrow> u64 \<Rightarrow> u64 \<Rightarrow> u64 \<times> u8" where
  "f64_add rm a b =
     (let signA = signF64UI a; signB = signF64UI b
      in if signA = signB then softfloat_addMagsF64 rm a b signA else softfloat_subMagsF64 rm a b signA)"

definition f64_sub :: "u32 \<Rightarrow> u64 \<Rightarrow> u64 \<Rightarrow> u64 \<times> u8" where
  "f64_sub rm a b =
     (let signA = signF64UI a; signB = signF64UI b
      in (if signA = signB then softfloat_subMagsF64 else softfloat_addMagsF64) rm a b signA)"

section \<open>Multiplication, division, square root, remainder\<close>

definition f64_mul_infArg :: "bool \<Rightarrow> u64 \<Rightarrow> u64 \<times> u8" where
  "f64_mul_infArg signZ magBits =
     (if magBits = 0 then (defaultNaNF64UI, softfloat_flag_invalid)
      else (packToF64UI signZ 0x7FF 0, 0))"

definition f64_mul :: "u32 \<Rightarrow> u64 \<Rightarrow> u64 \<Rightarrow> u64 \<times> u8" where
  "f64_mul rm a b =
     (let signA = signF64UI a;
          expA = expF64UI a;
          sigA = fracF64UI a;
          signB = signF64UI b;
          expB = expF64UI b;
          sigB = fracF64UI b;
          signZ = (signA \<noteq> signB)
      in if expA = 0x7FF then
           if sigA \<noteq> 0 \<or> (expB = 0x7FF \<and> sigB \<noteq> 0) then softfloat_propagateNaNF64UI a b
           else f64_mul_infArg signZ (of_int expB OR sigB)
         else if expB = 0x7FF then
           if sigB \<noteq> 0 then softfloat_propagateNaNF64UI a b
           else f64_mul_infArg signZ (of_int expA OR sigA)
         else if expA = 0 \<and> sigA = 0 then (packToF64UI signZ 0 0, 0)
         else if expB = 0 \<and> sigB = 0 then (packToF64UI signZ 0 0, 0)
         else
           let (expA, sigA) = norm_operandF64 expA sigA;
               (expB, sigB) = norm_operandF64 expB sigB;
               expZ = expA + expB - 0x3FF;
               sigA = push_bit 10 (sigA OR 0x0010000000000000);
               sigB = push_bit 11 (sigB OR 0x0010000000000000);
               sigZ128 = softfloat_mul64To128 sigA sigB;
               sigZ = u128_v64 sigZ128 OR b2w (u128_v0 sigZ128 \<noteq> 0);
               (expZ, sigZ) =
                 (if sigZ < 0x4000000000000000 then (expZ - 1, push_bit 1 sigZ) else (expZ, sigZ))
           in softfloat_roundPackToF64 rm signZ expZ sigZ)"

partial_function (option) divF64_loop :: "u64 \<Rightarrow> u64 \<Rightarrow> uint128 \<Rightarrow> (u64 \<times> uint128) option" where
  "divF64_loop sigB sigZ rmd =
     (if 0x8000000000000000 \<le> u128_v64 rmd
      then divF64_loop sigB (sigZ - 1) (softfloat_add128 (u128_v64 rmd) (u128_v0 rmd) 0 sigB)
      else Some (sigZ, rmd))"

declare divF64_loop.simps [code]

definition f64_div :: "u32 \<Rightarrow> u64 \<Rightarrow> u64 \<Rightarrow> (u64 \<times> u8) option" where
  "f64_div rm a b =
     (let signA = signF64UI a;
          expA = expF64UI a;
          sigA = fracF64UI a;
          signB = signF64UI b;
          expB = expF64UI b;
          sigB = fracF64UI b;
          signZ = (signA \<noteq> signB)
      in if expA = 0x7FF then
           if sigA \<noteq> 0 then Some (softfloat_propagateNaNF64UI a b)
           else if expB = 0x7FF then
             if sigB \<noteq> 0 then Some (softfloat_propagateNaNF64UI a b)
             else Some (defaultNaNF64UI, softfloat_flag_invalid)
           else Some (packToF64UI signZ 0x7FF 0, 0)
         else if expB = 0x7FF then
           if sigB \<noteq> 0 then Some (softfloat_propagateNaNF64UI a b) else Some (packToF64UI signZ 0 0, 0)
         else if expB = 0 \<and> sigB = 0 then
           if of_int expA OR sigA = 0 then Some (defaultNaNF64UI, softfloat_flag_invalid)
           else Some (packToF64UI signZ 0x7FF 0, softfloat_flag_infinity)
         else if expA = 0 \<and> sigA = 0 then Some (packToF64UI signZ 0 0, 0)
         else do {
           let (expB, sigB) = norm_operandF64 expB sigB;
           let (expA, sigA) = norm_operandF64 expA sigA;
           let expZ = expA - expB + 0x3FD;
           let sigA = push_bit 10 (sigA OR 0x0010000000000000);
           let sigB = push_bit 11 (sigB OR 0x0010000000000000);
           let (expZ, sigA) = (if sigB \<le> sigA + sigA then (expZ + 1, drop_bit 1 sigA) else (expZ, sigA));
           sigZ \<leftarrow> softfloat_estimateDiv128To64 sigA 0 sigB;
           sigZ \<leftarrow> (if sigZ AND 0x1FF \<le> 2
                    then do {
                      let trm = softfloat_mul64To128 sigB sigZ;
                      let rmd = softfloat_sub128 sigA 0 (u128_v64 trm) (u128_v0 trm);
                      (sigZ, rmd) \<leftarrow> divF64_loop sigB sigZ rmd;
                      Some (sigZ OR b2w (u128_v0 rmd \<noteq> 0)) }
                    else Some sigZ);
           Some (softfloat_roundPackToF64 rm signZ expZ sigZ) })"

partial_function (option) sqrtF64_loop :: "u64 \<Rightarrow> uint128 \<Rightarrow> (u64 \<times> uint128) option" where
  "sqrtF64_loop sigZ rmd =
     (if 0x8000000000000000 \<le> u128_v64 rmd
      then let sigZ = sigZ - 1
           in sqrtF64_loop sigZ
                (softfloat_add128 (u128_v64 rmd) (u128_v0 rmd) (drop_bit 63 sigZ) (push_bit 1 sigZ))
      else Some (sigZ, rmd))"

declare sqrtF64_loop.simps [code]

definition f64_sqrt :: "u32 \<Rightarrow> u64 \<Rightarrow> (u64 \<times> u8) option" where
  "f64_sqrt rm a =
     (let signA = signF64UI a;
          expA = expF64UI a;
          sigA = fracF64UI a
      in if expA = 0x7FF then
           if sigA \<noteq> 0 then Some (softfloat_propagateNaNF64UI a 0)
           else if \<not> signA then Some (a, 0)
           else Some (defaultNaNF64UI, softfloat_flag_invalid)
         else if signA then
           if of_int expA OR sigA = 0 then Some (a, 0)
           else Some (defaultNaNF64UI, softfloat_flag_invalid)
         else if expA = 0 \<and> sigA = 0 then Some (a, 0)
         else do {
           let (expA, sigA) = norm_operandF64 expA sigA;
           let expZ = (expA - 0x3FF) div 2 + 0x3FE;
           let sigA = sigA OR 0x0010000000000000;
           let sigZ32 = softfloat_estimateSqrt32 (of_int expA) (ucast (drop_bit 21 sigA));
           let sigA = push_bit (nat (9 - expA mod 2)) sigA;
           q \<leftarrow> softfloat_estimateDiv128To64 sigA 0 (push_bit 32 (ucast sigZ32));
           let sigZ = q + push_bit 30 (ucast sigZ32);
           sigZ \<leftarrow> (if sigZ AND 0x1FF \<le> 5
                    then do {
                      let trm = softfloat_mul64To128 sigZ sigZ;
                      let rmd = softfloat_sub128 sigA 0 (u128_v64 trm) (u128_v0 trm);
                      (sigZ, rmd) \<leftarrow> sqrtF64_loop sigZ rmd;
                      Some (sigZ OR b2w (u128_v64 rmd OR u128_v0 rmd \<noteq> 0)) }
                    else Some sigZ);
           Some (softfloat_roundPackToF64 rm False expZ sigZ) })"

partial_function (option) remF64_div_loop :: "u64 \<Rightarrow> int \<Rightarrow> u64 \<Rightarrow> u64 \<Rightarrow> (int \<times> u64 \<times> u64) option" where
  "remF64_div_loop sigB expDiff sigA q =
     (if 0 < expDiff
      then do {
        q \<leftarrow> softfloat_estimateDiv128To64 sigA 0 sigB;
        let q = (if 2 < q then q - 2 else 0);
        remF64_div_loop sigB (expDiff - 62) (- (drop_bit 2 sigB * q)) q }
      else Some (expDiff, sigA, q))"

declare remF64_div_loop.simps [code]

partial_function (option) remF64_sub_loop :: "u64 \<Rightarrow> u64 \<Rightarrow> u64 \<Rightarrow> (u64 \<times> u64 \<times> u64) option" where
  "remF64_sub_loop sigB q sigA =
     (let alternateSigA = sigA;
          q = q + 1;
          sigA = sigA - sigB
      in if sigA < 0x8000000000000000 then remF64_sub_loop sigB q sigA
         else Some (alternateSigA, q, sigA))"

declare remF64_sub_loop.simps [code]

definition f64_rem :: "u32 \<Rightarrow> u64 \<Rightarrow> u64 \<Rightarrow> (u64 \<times> u8) option" where
  "f64_rem rm a b =
     (let signA = signF64UI a;
          expA = expF64UI a;
          sigA = fracF64UI a;
          expB = expF64UI b;
          sigB = fracF64UI b
      in if expA = 0x7FF then
           if sigA \<noteq> 0 \<or> (expB = 0x7FF \<and> sigB \<noteq> 0) then Some (softfloat_propagateNaNF64UI a b)
           else Some (defaultNaNF64UI, softfloat_flag_invalid)
         else if expB = 0x7FF then
           if sigB \<noteq> 0 then Some (softfloat_propagateNaNF64UI a b) else Some (a, 0)
         else if expB = 0 \<and> sigB = 0 then Some (defaultNaNF64UI, softfloat_flag_invalid)
         else if expA = 0 \<and> sigA = 0 then Some (a, 0)
         else
           let (expB, sigB) = norm_operandF64 expB sigB;
               (expA, sigA) = norm_operandF64 expA sigA;
               expDiff = expA - expB;
               sigA = push_bit 11 (sigA OR 0x0010000000000000);
               sigB = push_bit 11 (sigB OR 0x0010000000000000)
           in if expDiff < - 1 then Some (a, 0)
              else do {
                let sigA = (if expDiff < 0 then drop_bit 1 sigA else sigA);
                let q = b2w (sigB \<le> sigA);
                let sigA = (if q \<noteq> 0 then sigA - sigB else sigA);
                (expDiff, sigA, q) \<leftarrow> remF64_div_loop sigB (expDiff - 64) sigA q;
                let expDiff = expDiff + 64;
                (sigA, sigB, q) \<leftarrow>
                  (if 0 < expDiff
                   then do {
                     q \<leftarrow> softfloat_estimateDiv128To64 sigA 0 sigB;
                     let q = (if 2 < q then q - 2 else 0);
                     let q = drop_bit (nat (64 - expDiff)) q;
                     let sigB = drop_bit 2 sigB;
                     Some (push_bit (nat (expDiff - 1)) (drop_bit 1 sigA) - sigB * q, sigB, q) }
                   else Some (drop_bit 2 sigA, drop_bit 2 sigB, q));
                (alternateSigA, q, sigA) \<leftarrow> remF64_sub_loop sigB q sigA;
                let sigMean = sigA + alternateSigA;
                let sigA = (if 0x8000000000000000 \<le> sigMean \<or> (sigMean = 0 \<and> q AND 1 \<noteq> 0)
                            then alternateSigA else sigA);
                let signZ = (0x8000000000000000 \<le> sigA);
                let sigA = (if signZ then - sigA else sigA);
                Some (softfloat_normRoundPackToF64 rm (signA \<noteq> signZ) expB sigA) })"

section \<open>Fused multiply-add\<close>

definition mulAddF64_propagateNaN_ZC :: "u8 \<Rightarrow> u64 \<Rightarrow> u64 \<Rightarrow> u64 \<times> u8" where
  "mulAddF64_propagateNaN_ZC fl uiZ uiC =
     (let (uiZ, fl') = softfloat_propagateNaNF64UI uiZ uiC in (uiZ, fl OR fl'))"

definition mulAddF64_infProdArg :: "bool \<Rightarrow> u64 \<Rightarrow> bool \<Rightarrow> u64 \<Rightarrow> u64 \<times> u8" where
  "mulAddF64_infProdArg signProd magBits signC uiC =
     (let uiZ = packToF64UI signProd 0x7FF 0;
          invalid = mulAddF64_propagateNaN_ZC softfloat_flag_invalid defaultNaNF64UI uiC
      in if magBits \<noteq> 0 then
           if expF64UI uiC \<noteq> 0x7FF then (uiZ, 0)
           else if fracF64UI uiC \<noteq> 0 then mulAddF64_propagateNaN_ZC 0 uiZ uiC
           else if signProd = signC then (uiZ, 0) else invalid
         else invalid)"

definition mulAddF64_completeCancellation :: "u32 \<Rightarrow> u64 \<times> u8" where
  "mulAddF64_completeCancellation rm = (packToF64UI (rm = softfloat_round_min) 0 0, 0)"

definition mulAddF64_add :: "u32 \<Rightarrow> bool \<Rightarrow> int \<Rightarrow> uint128 \<Rightarrow> int \<Rightarrow> u64 \<Rightarrow> u64 \<times> u8" where
  "mulAddF64_add rm signZ expProd sigProd expC sigC =
     (let expDiff = expProd - expC;
          (expZ, sigZ) =
            (if expDiff \<le> 0
             then let v64 = (if expDiff \<noteq> 0
                             then softfloat_shift64RightJam (u128_v64 sigProd) (of_int (- expDiff))
                             else u128_v64 sigProd)
                  in (expC, (sigC + v64) OR b2w (u128_v0 sigProd \<noteq> 0))
             else let sigC128 = softfloat_shift128RightJam sigC 0 (of_int expDiff);
                      sigZ128 = softfloat_add128 (u128_v64 sigProd) (u128_v0 sigProd)
                                  (u128_v64 sigC128) (u128_v0 sigC128)
                  in (expProd, u128_v64 sigZ128 OR b2w (u128_v0 sigZ128 \<noteq> 0)));
          (expZ, sigZ) =
            (if sigZ < 0x4000000000000000 then (expZ - 1, push_bit 1 sigZ) else (expZ, sigZ))
      in softfloat_roundPackToF64 rm signZ expZ sigZ)"

definition mulAddF64_sub :: "u32 \<Rightarrow> bool \<Rightarrow> bool \<Rightarrow> int \<Rightarrow> uint128 \<Rightarrow> int \<Rightarrow> u64 \<Rightarrow> u64 \<times> u8" where
  "mulAddF64_sub rm signProd signC expProd sigProd expC sigC =
     (let expDiff = expProd - expC;
          diff = softfloat_sub128 (u128_v64 sigProd) (u128_v0 sigProd) sigC 0
      in if expDiff = 0 \<and> u128_v64 diff OR u128_v0 diff = 0 then mulAddF64_completeCancellation rm
         else
           let (signZ, expZ, sigZ128) =
                 (if expDiff < 0
                  then let sigProd = softfloat_shift128RightJam (u128_v64 sigProd) (u128_v0 sigProd)
                                       (of_int (- expDiff))
                       in (signC, expC, softfloat_sub128 sigC 0 (u128_v64 sigProd) (u128_v0 sigProd))
                  else if expDiff = 0
                  then if u128_v64 diff AND 0x8000000000000000 \<noteq> 0
                       then (signProd \<noteq> True, expProd, softfloat_sub128 0 0 (u128_v64 diff) (u128_v0 diff))
                       else (signProd, expProd, diff)
                  else let sigC128 = softfloat_shift128RightJam sigC 0 (of_int expDiff)
                       in (signProd, expProd,
                           softfloat_sub128 (u128_v64 sigProd) (u128_v0 sigProd)
                             (u128_v64 sigC128) (u128_v0 sigC128)));
               (expZ, sigZ128) =
                 (if u128_v64 sigZ128 = 0
                  then (expZ - 64, \<lparr>u128_v64 = u128_v0 sigZ128, u128_v0 = 0\<rparr>) else (expZ, sigZ128));
               shiftCount = softfloat_countLeadingZeros64 (u128_v64 sigZ128) - 1;
               expZ = expZ - shiftCount;
               (sigZ, sigZ128) =
                 (if shiftCount < 0
                  then (softfloat_shortShift64RightJam (u128_v64 sigZ128) (of_int (- shiftCount)), sigZ128)
                  else let sigZ128 = softfloat_shortShift128Left (u128_v64 sigZ128) (u128_v0 sigZ128)
                                       (of_int shiftCount)
                       in (u128_v64 sigZ128, sigZ128));
               sigZ = sigZ OR b2w (u128_v0 sigZ128 \<noteq> 0)
           in softfloat_roundPackToF64 rm signZ expZ sigZ)"

definition softfloat_mulAddF64 :: "u32 \<Rightarrow> u32 \<Rightarrow> u64 \<Rightarrow> u64 \<Rightarrow> u64 \<Rightarrow> u64 \<times> u8" where
  "softfloat_mulAddF64 rm opr uiA uiB uiC =
     (let signA = signF64UI uiA;
          expA = expF64UI uiA;
          sigA = fracF64UI uiA;
          signB = signF64UI uiB;
          expB = expF64UI uiB;
          sigB = fracF64UI uiB;
          signC = (signF64UI uiC \<noteq> (opr AND 1 \<noteq> 0));
          expC = expF64UI uiC;
          sigC = fracF64UI uiC;
          signProd = ((signA \<noteq> signB) \<noteq> (opr AND 2 \<noteq> 0));
          propagateNaN_ABC =
            (let (uiZ, fl) = softfloat_propagateNaNF64UI uiA uiB in mulAddF64_propagateNaN_ZC fl uiZ uiC);
          zeroProd =
            (if of_int expC OR sigC = 0 \<and> signProd \<noteq> signC then mulAddF64_completeCancellation rm
             else (uiC, 0))
      in if expA = 0x7FF then
           if sigA \<noteq> 0 \<or> (expB = 0x7FF \<and> sigB \<noteq> 0) then propagateNaN_ABC
           else mulAddF64_infProdArg signProd (of_int expB OR sigB) signC uiC
         else if expB = 0x7FF then
           if sigB \<noteq> 0 then propagateNaN_ABC
           else mulAddF64_infProdArg signProd (of_int expA OR sigA) signC uiC
         else if expC = 0x7FF then
           if sigC \<noteq> 0 then mulAddF64_propagateNaN_ZC 0 0 uiC else (uiC, 0)
         else if expA = 0 \<and> sigA = 0 then zeroProd
         else if expB = 0 \<and> sigB = 0 then zeroProd
         else
           let (expA, sigA) = norm_operandF64 expA sigA;
               (expB, sigB) = norm_operandF64 expB sigB;
               expProd = expA + expB - 0x3FE;
               sigA = push_bit 10 (sigA OR 0x0010000000000000);
               sigB = push_bit 10 (sigB OR 0x0010000000000000);
               sigProd = softfloat_mul64To128 sigA sigB;
               (expProd, sigProd) =
                 (if u128_v64 sigProd < 0x2000000000000000
                  then (expProd - 1, softfloat_shortShift128Left (u128_v64 sigProd) (u128_v0 sigProd) 1)
                  else (expProd, sigProd))
           in if expC = 0 \<and> sigC = 0
              then softfloat_roundPackToF64 rm signProd (expProd - 1)
                     (push_bit 1 (u128_v64 sigProd) OR b2w (u128_v0 sigProd \<noteq> 0))
              else
                let (expC, sigC) = norm_operandF64 expC sigC;
                    sigC = push_bit 9 (sigC OR 0x0010000000000000)
                in if signProd = signC then mulAddF64_add rm signProd expProd sigProd expC sigC
                   else mulAddF64_sub rm signProd signC expProd sigProd expC sigC)"

definition f64_mulAdd :: "u32 \<Rightarrow> u64 \<Rightarrow> u64 \<Rightarrow> u64 \<Rightarrow> u64 \<times> u8" where
  "f64_mulAdd rm a b c = softfloat_mulAddF64 rm 0 a b c"

section \<open>Comparison and classification\<close>

definition nan_operandF64 :: "u64 \<Rightarrow> u64 \<Rightarrow> bool" where
  "nan_operandF64 uiA uiB \<longleftrightarrow>
     expF64UI uiA = 0x7FF \<and> fracF64UI uiA \<noteq> 0 \<or> expF64UI uiB = 0x7FF \<and> fracF64UI uiB \<noteq> 0"

definition quiet_nanF64 :: "u64 \<Rightarrow> u64 \<Rightarrow> bool \<times> u8" where
  "quiet_nanF64 uiA uiB =
     (False, raise_if (softfloat_isSigNaNF64UI uiA \<or> softfloat_isSigNaNF64UI uiB) softfloat_flag_invalid)"

definition f64_eq :: "u64 \<Rightarrow> u64 \<Rightarrow> bool \<times> u8" where
  "f64_eq a b =
     (if nan_operandF64 a b then quiet_nanF64 a b
      else (a = b \<or> (a OR b) AND 0x7FFFFFFFFFFFFFFF = 0, 0))"

definition f64_eq_signaling :: "u64 \<Rightarrow> u64 \<Rightarrow> bool \<times> u8" where
  "f64_eq_signaling a b =
     (if nan_operandF64 a b then (False, softfloat_flag_invalid)
      else (a = b \<or> (a OR b) AND 0x7FFFFFFFFFFFFFFF = 0, 0))"

definition f64_le :: "u64 \<Rightarrow> u64 \<Rightarrow> bool \<times> u8" where
  "f64_le a b =
     (if nan_operandF64 a b then (False, softfloat_flag_invalid)
      else let signA = signF64UI a; signB = signF64UI b
           in (if signA \<noteq> signB then signA \<or> (a OR b) AND 0x7FFFFFFFFFFFFFFF = 0
               else a = b \<or> signA \<noteq> (a < b), 0))"

definition f64_le_quiet :: "u64 \<Rightarrow> u64 \<Rightarrow> bool \<times> u8" where
  "f64_le_quiet a b =
     (if nan_operandF64 a b then quiet_nanF64 a b
      else let signA = signF64UI a; signB = signF64UI b
           in (if signA \<noteq> signB then signA \<or> (a OR b) AND 0x7FFFFFFFFFFFFFFF = 0
               else a = b \<or> signA \<noteq> (a < b), 0))"

definition f64_lt :: "u64 \<Rightarrow> u64 \<Rightarrow> bool \<times> u8" where
  "f64_lt a b =
     (if nan_operandF64 a b then (False, softfloat_flag_invalid)
      else let signA = signF64UI a; signB = signF64UI b
           in (if signA \<noteq> signB then signA \<and> (a OR b) AND 0x7FFFFFFFFFFFFFFF \<noteq> 0
               else a \<noteq> b \<and> signA \<noteq> (a < b), 0))"

definition f64_lt_quiet :: "u64 \<Rightarrow> u64 \<Rightarrow> bool \<times> u8" where
  "f64_lt_quiet a b =
     (if nan_operandF64 a b then quiet_nanF64 a b
      else let signA = signF64UI a; signB = signF64UI b
           in (if signA \<noteq> signB then signA \<and> (a OR b) AND 0x7FFFFFFFFFFFFFFF \<noteq> 0
               else a \<noteq> b \<and> signA \<noteq> (a < b), 0))"

definition f64_isSignalingNaN :: "u64 \<Rightarrow> bool" where
  "f64_isSignalingNaN a = softfloat_isSigNaNF64UI a"

definition f64_classify :: "u64 \<Rightarrow> u32" where
  "f64_classify a =
     (let infOrNaN = (expF64UI a = 0x7FF);
          subnormalOrZero = (expF64UI a = 0);
          sg = signF64UI a
      in b2w (sg \<and> infOrNaN \<and> fracF64UI a = 0)
         OR push_bit 1 (b2w (sg \<and> \<not> infOrNaN \<and> \<not> subnormalOrZero))
         OR push_bit 2 (b2w (sg \<and> subnormalOrZero \<and> fracF64UI a \<noteq> 0))
         OR push_bit 3 (b2w (sg \<and> subnormalOrZero \<and> fracF64UI a = 0))
         OR push_bit 7 (b2w (\<not> sg \<and> infOrNaN \<and> fracF64UI a = 0))
         OR push_bit 6 (b2w (\<not> sg \<and> \<not> infOrNaN \<and> \<not> subnormalOrZero))
         OR push_bit 5 (b2w (\<not> sg \<and> subnormalOrZero \<and> fracF64UI a \<noteq> 0))
         OR push_bit 4 (b2w (\<not> sg \<and> subnormalOrZero \<and> fracF64UI a = 0))
         OR push_bit 8 (b2w (isNaNF64UI a \<and> softfloat_isSigNaNF64UI a))
         OR push_bit 9 (b2w (isNaNF64UI a \<and> \<not> softfloat_isSigNaNF64UI a)))"

section \<open>Conversions\<close>

definition f64_fixed :: "u64 \<Rightarrow> u64" where
  "f64_fixed a =
     (let e = expF64UI a;
          sig = fracF64UI a;
          sig = (if e \<noteq> 0 then sig OR 0x0010000000000000 else sig);
          shiftCount = 0x42C - e
      in if 0 < shiftCount then softfloat_shift64RightJam sig (of_int shiftCount) else sig)"

definition f64_to_i32 :: "u64 \<Rightarrow> u32 \<Rightarrow> bool \<Rightarrow> u32 \<times> u8" where
  "f64_to_i32 a roundingMode exact =
     softfloat_roundPackToI32 (signF64UI a) (f64_fixed a) roundingMode exact"

definition f64_to_ui32 :: "u64 \<Rightarrow> u32 \<Rightarrow> bool \<Rightarrow> u32 \<times> u8" where
  "f64_to_ui32 a roundingMode exact =
     softfloat_roundPackToUI32 (signF64UI a) (f64_fixed a) roundingMode exact"

text \<open>\<open>sigExtra\<close> of the two 64-bit conversions; \<open>None\<close> is the branch \<open>0x43E < exp\<close>.\<close>

definition f64_fixed64 :: "u64 \<Rightarrow> uint64_extra option" where
  "f64_fixed64 a =
     (let e = expF64UI a;
          sig = fracF64UI a;
          sig = (if e \<noteq> 0 then sig OR 0x0010000000000000 else sig);
          shiftCount = 0x433 - e
      in if shiftCount \<le> 0 then
           if 0x43E < e then None else Some \<lparr>ue_v = push_bit (nat (- shiftCount)) sig, ue_extra = 0\<rparr>
         else Some (softfloat_shift64ExtraRightJam sig 0 (of_int shiftCount)))"

definition f64_to_i64 :: "u64 \<Rightarrow> u32 \<Rightarrow> bool \<Rightarrow> u64 \<times> u8" where
  "f64_to_i64 a roundingMode exact =
     (case f64_fixed64 a of
        None \<Rightarrow> (if \<not> signF64UI a then 0x7FFFFFFFFFFFFFFF else 0x8000000000000000, softfloat_flag_invalid)
      | Some x \<Rightarrow> softfloat_roundPackToI64 (signF64UI a) (ue_v x) (ue_extra x) roundingMode exact)"

definition f64_to_ui64 :: "u64 \<Rightarrow> u32 \<Rightarrow> bool \<Rightarrow> u64 \<times> u8" where
  "f64_to_ui64 a roundingMode exact =
     (case f64_fixed64 a of
        None \<Rightarrow> (0xFFFFFFFFFFFFFFFF, softfloat_flag_invalid)
      | Some x \<Rightarrow> softfloat_roundPackToUI64 (signF64UI a) (ue_v x) (ue_extra x) roundingMode exact)"

definition f64_to_i32_r_minMag :: "u64 \<Rightarrow> bool \<Rightarrow> u32 \<times> u8" where
  "f64_to_i32_r_minMag a exact =
     (let e = expF64UI a; sig = fracF64UI a; sg = signF64UI a;
          invalid = (\<lambda>sg. (if sg then 0x80000000 else 0x7FFFFFFF, softfloat_flag_invalid))
      in if e < 0x3FF then (0, raise_if (exact \<and> of_int e OR sig \<noteq> 0) softfloat_flag_inexact)
         else if 0x41E < e then invalid (if e = 0x7FF \<and> sig \<noteq> 0 then False else sg)
         else
           let sig = sig OR 0x0010000000000000;
               shiftCount = 0x433 - e;
               absZ = (ucast (drop_bit (nat shiftCount) sig) :: u32);
               z = (if sg then - absZ else absZ)
           in if (sint z < 0) \<noteq> sg then invalid sg
              else (z, raise_if (exact \<and> push_bit (nat shiftCount) (ucast absZ) \<noteq> sig) softfloat_flag_inexact))"

definition f64_to_ui32_r_minMag :: "u64 \<Rightarrow> bool \<Rightarrow> u32 \<times> u8" where
  "f64_to_ui32_r_minMag a exact =
     (let e = expF64UI a; sig = fracF64UI a
      in if e < 0x3FF then (0, raise_if (exact \<and> of_int e OR sig \<noteq> 0) softfloat_flag_inexact)
         else if signF64UI a \<or> 0x41E < e then (0xFFFFFFFF, softfloat_flag_invalid)
         else
           let sig = sig OR 0x0010000000000000;
               shiftCount = 0x433 - e;
               z = (ucast (drop_bit (nat shiftCount) sig) :: u32)
           in (z, raise_if (exact \<and> push_bit (nat shiftCount) (ucast z) \<noteq> sig) softfloat_flag_inexact))"

definition f64_to_i64_r_minMag :: "u64 \<Rightarrow> bool \<Rightarrow> u64 \<times> u8" where
  "f64_to_i64_r_minMag a exact =
     (let e = expF64UI a; sig = fracF64UI a; sg = signF64UI a; shiftCount = e - 0x433
      in if 0 \<le> shiftCount then
           if 0x43E \<le> e then
             if a \<noteq> packToF64UI True 0x43E 0
             then (if \<not> sg \<or> (e = 0x7FF \<and> sig \<noteq> 0) then 0x7FFFFFFFFFFFFFFF else 0x8000000000000000,
                   softfloat_flag_invalid)
             else (0x8000000000000000, 0)
           else
             let absZ = push_bit (nat shiftCount) (sig OR 0x0010000000000000)
             in (if sg then - absZ else absZ, 0)
         else if e < 0x3FF then (0, raise_if (exact \<and> of_int e OR sig \<noteq> 0) softfloat_flag_inexact)
         else
           let sig = sig OR 0x0010000000000000;
               absZ = drop_bit (nat (- shiftCount)) sig
           in (if sg then - absZ else absZ,
               raise_if (exact \<and> push_bit (nat (shiftCount mod 64)) sig \<noteq> 0) softfloat_flag_inexact))"

definition f64_to_ui64_r_minMag :: "u64 \<Rightarrow> bool \<Rightarrow> u64 \<times> u8" where
  "f64_to_ui64_r_minMag a exact =
     (let e = expF64UI a; sig = fracF64UI a; shiftCount = e - 0x433
      in if e < 0x3FF then (0, raise_if (exact \<and> of_int e OR sig \<noteq> 0) softfloat_flag_inexact)
         else if signF64UI a then (0xFFFFFFFFFFFFFFFF, softfloat_flag_invalid)
         else if 0 \<le> shiftCount then
           if 0x43E < e then (0xFFFFFFFFFFFFFFFF, softfloat_flag_invalid)
           else (push_bit (nat shiftCount) (sig OR 0x0010000000000000), 0)
         else
           let sig = sig OR 0x0010000000000000
           in (drop_bit (nat (- shiftCount)) sig,
               raise_if (exact \<and> push_bit (nat (shiftCount mod 64)) sig \<noteq> 0) softfloat_flag_inexact))"

definition f64_roundToInt :: "u64 \<Rightarrow> u32 \<Rightarrow> bool \<Rightarrow> u64 \<times> u8" where
  "f64_roundToInt a roundingMode exact =
     (let expA = expF64UI a
      in if 0x433 \<le> expA then
           if expA = 0x7FF \<and> fracF64UI a \<noteq> 0 then softfloat_propagateNaNF64UI a 0 else (a, 0)
         else if expA \<le> 0x3FE then
           if a AND 0x7FFFFFFFFFFFFFFF = 0 then (a, 0)
           else
             let fl = raise_if exact softfloat_flag_inexact;
                 signA = signF64UI a;
                 uiZ =
                   (if roundingMode = softfloat_round_nearest_even \<and> expA = 0x3FE \<and> fracF64UI a \<noteq> 0
                    then packToF64UI signA 0x3FF 0
                    else if roundingMode = softfloat_round_min
                    then (if signA then 0xBFF0000000000000 else 0)
                    else if roundingMode = softfloat_round_max
                    then (if signA then 0x8000000000000000 else 0x3FF0000000000000)
                    else if roundingMode = softfloat_round_nearest_maxMag \<and> expA = 0x3FE
                    then packToF64UI signA 0x3FF 0
                    else packToF64UI signA 0 0)
             in (uiZ, fl)
         else
           let lastBitMask = push_bit (nat (0x433 - expA)) 1;
               roundBitsMask = lastBitMask - 1;
               uiZ =
                 (if roundingMode = softfloat_round_nearest_maxMag then a + drop_bit 1 lastBitMask
                  else if roundingMode = softfloat_round_nearest_even
                  then let uiZ = a + drop_bit 1 lastBitMask
                       in if uiZ AND roundBitsMask = 0 then uiZ AND NOT lastBitMask else uiZ
                  else if roundingMode \<noteq> softfloat_round_minMag
                  then if signF64UI a \<noteq> (roundingMode = softfloat_round_max) then a + roundBitsMask else a
                  else a);
               uiZ = uiZ AND NOT roundBitsMask
           in (uiZ, raise_if (exact \<and> uiZ \<noteq> a) softfloat_flag_inexact))"

definition ui32_to_f64 :: "u32 \<Rightarrow> u64" where
  "ui32_to_f64 a =
     (if a = 0 then 0
      else let shiftCount = softfloat_countLeadingZeros32 a + 21
           in packToF64UI False (0x432 - shiftCount) (push_bit (nat shiftCount) (ucast a)))"

definition i32_to_f64 :: "u32 \<Rightarrow> u64" where
  "i32_to_f64 a =
     (if a = 0 then 0
      else let sg = (sint a < 0);
               absA = (if sg then - a else a);
               shiftCount = softfloat_countLeadingZeros32 absA + 21
           in packToF64UI sg (0x432 - shiftCount) (push_bit (nat shiftCount) (ucast absA)))"

definition ui64_to_f64 :: "u32 \<Rightarrow> u64 \<Rightarrow> u64 \<times> u8" where
  "ui64_to_f64 rm a =
     (if a = 0 then (0, 0)
      else if a AND 0x8000000000000000 \<noteq> 0
      then softfloat_roundPackToF64 rm False 0x43D (softfloat_shortShift64RightJam a 1)
      else softfloat_normRoundPackToF64 rm False 0x43C a)"

definition i64_to_f64 :: "u32 \<Rightarrow> u64 \<Rightarrow> u64 \<times> u8" where
  "i64_to_f64 rm a =
     (let sg = (sint a < 0)
      in if a AND 0x7FFFFFFFFFFFFFFF = 0 then (if sg then packToF64UI True 0x43E 0 else 0, 0)
         else softfloat_normRoundPackToF64 rm sg 0x43C (if sg then - a else a))"

definition f32_to_f64 :: "u32 \<Rightarrow> u64 \<times> u8" where
  "f32_to_f64 a =
     (let sg = signF32UI a;
          e = expF32UI a;
          sig = fracF32UI a
      in if e = 0xFF then
           if sig \<noteq> 0 then let (z, fl) = softfloat_f32UIToCommonNaN a in (softfloat_commonNaNToF64UI z, fl)
           else (packToF64UI sg 0x7FF 0, 0)
         else if e = 0 \<and> sig = 0 then (packToF64UI sg 0 0, 0)
         else
           let (e, sig) =
                 (if e = 0
                  then let n = softfloat_normSubnormalF32Sig sig in (es32_exp n - 1, es32_sig n)
                  else (e, sig))
           in (packToF64UI sg (e + 0x380) (push_bit 29 (ucast sig)), 0))"

definition f64_to_f32 :: "u32 \<Rightarrow> u64 \<Rightarrow> u32 \<times> u8" where
  "f64_to_f32 rm a =
     (let sg = signF64UI a;
          e = expF64UI a;
          sig = fracF64UI a
      in if e = 0x7FF then
           if sig \<noteq> 0 then let (z, fl) = softfloat_f64UIToCommonNaN a in (softfloat_commonNaNToF32UI z, fl)
           else (packToF32UI sg 0xFF 0, 0)
         else
           let sig32 = (ucast (softfloat_shortShift64RightJam sig 22) :: u32)
           in if of_int e OR sig32 = 0 then (packToF32UI sg 0 0, 0)
              else softfloat_roundPackToF32 rm sg (e - 0x381) (sig32 OR 0x40000000))"

end
