(* ===== verification/Float_Round.thy ===== *)
theory Float_Round
  imports Complex_Main Softfloat_Exact Softfloat_F64
begin

text \<open>
  Correct rounding, for both formats at once.  \<open>mag\<close> gives an encoding its magnitude, \<open>rounds\<close> says
  which encoding a rounding mode asks for, \<open>agree\<close> relates an exact number to a significand with a
  sticky bit.  The locale \<open>round_pack\<close> is the contract of the two routines that round and pack; its
  lemma \<open>rp_rounds\<close> says that they round correctly.
\<close>

section \<open>Magnitudes\<close>

text \<open>The number the encoding \<open>n\<close> (exponent field and fraction of \<open>p\<close> bits, no sign) stands for, in
  units of the least subnormal number.\<close>

definition mag :: "nat \<Rightarrow> nat \<Rightarrow> nat" where
  "mag p n = (if n < 2 ^ p then n else (2 ^ p + n mod 2 ^ p) * 2 ^ (n div 2 ^ p - 1))"

lemma mag_pack:
  assumes "2 ^ p \<le> t \<or> e = 0" "t \<le> 2 ^ (p + 1)"
  shows "mag p (e * 2 ^ p + t) = t * 2 ^ e"
proof -
  consider "t < 2 ^ p" "e = 0" | "2 ^ p \<le> t" "t < 2 ^ (p + 1)" | "t = 2 ^ (p + 1)"
    using assms by fastforce
  then show ?thesis
  proof cases
    case 1
    then show ?thesis by (simp add: mag_def)
  next
    case 2
    then obtain f where f: "t = 2 ^ p + f" "f < 2 ^ p"
      by (metis add.commute add_diff_inverse_nat less_diff_conv2 linorder_not_le mult_2 power_add power_one_right)
    then have "e * 2 ^ p + t = (e + 1) * 2 ^ p + f" by simp
    then have "(e * 2 ^ p + t) div 2 ^ p = e + 1" "(e * 2 ^ p + t) mod 2 ^ p = f" using f(2) by simp_all
    then show ?thesis using f by (simp add: mag_def)
  next
    case 3
    then have "e * 2 ^ p + t = (e + 2) * 2 ^ p" by simp
    then show ?thesis using 3 by (simp add: mag_def)
  qed
qed

lemma mag_Suc: "mag p n < mag p (Suc n)"
proof (cases "n < 2 ^ p")
  case True
  then show ?thesis using mag_pack [of p n 0] mag_pack [of p "Suc n" 0] by simp
next
  case False
  define e where "e = n div 2 ^ p - 1"
  define t where "t = 2 ^ p + n mod 2 ^ p"
  have "1 \<le> n div 2 ^ p" using False by (simp add: Suc_le_eq div_greater_zero_iff)
  then have "n = e * 2 ^ p + t" unfolding e_def t_def
    by (metis add.assoc div_mult_mod_eq le_add_diff_inverse2 mult.commute mult_Suc_right plus_1_eq_Suc add.commute)
  moreover have "2 ^ p \<le> t" "Suc t \<le> 2 ^ (p + 1)" by (simp_all add: t_def Suc_le_eq)
  ultimately show ?thesis using mag_pack [of p t e] mag_pack [of p "Suc t" e] by simp
qed

lemma mag_strict_mono: "strict_mono (mag p)"
  by (simp add: strict_mono_Suc_iff mag_Suc)

lemma mag_less_iff [simp]: "mag p m < mag p n \<longleftrightarrow> m < n"
  using mag_strict_mono strict_mono_less by blast

lemma mag_le_iff [simp]: "mag p m \<le> mag p n \<longleftrightarrow> m \<le> n"
  using mag_strict_mono strict_mono_less_eq by blast

lemma mag_eq_iff [simp]: "mag p m = mag p n \<longleftrightarrow> m = n"
  by (simp add: order.eq_iff)

section \<open>Rounding\<close>

definition toward_zero :: "u32 \<Rightarrow> bool \<Rightarrow> bool" where
  "toward_zero rm sg \<longleftrightarrow> rm = softfloat_round_minMag
     \<or> rm = (if sg then softfloat_round_max else softfloat_round_min)"

text \<open>\<open>rounds p ninf rm sg y n\<close>: the encoding \<open>n\<close> is the rounding of the magnitude \<open>y\<close> in the mode
  \<open>rm\<close> for a number of sign \<open>sg\<close>.  \<open>ninf\<close> encodes infinity, which in the nearest modes counts as the number
  after the largest finite one.\<close>

definition rounds :: "nat \<Rightarrow> nat \<Rightarrow> u32 \<Rightarrow> bool \<Rightarrow> real \<Rightarrow> nat \<Rightarrow> bool" where
  "rounds p ninf rm sg y n \<longleftrightarrow> n \<le> ninf \<and>
     (let d = \<lambda>m. \<bar>real (mag p m) - y\<bar>
      in if rm = softfloat_round_nearest_even
         then \<forall>m\<le>ninf. m \<noteq> n \<longrightarrow> d n < d m \<or> (d n = d m \<and> even n)
         else if rm = softfloat_round_nearest_maxMag
         then \<forall>m\<le>ninf. m \<noteq> n \<longrightarrow> d n < d m \<or> (d n = d m \<and> m < n)
         else if toward_zero rm sg
         then n < ninf \<and> real (mag p n) \<le> y \<and> (\<forall>m<ninf. real (mag p m) \<le> y \<longrightarrow> m \<le> n)
         else (y \<le> real (mag p n) \<or> n = ninf) \<and> (\<forall>m\<le>ninf. y \<le> real (mag p m) \<longrightarrow> n \<le> m))"

text \<open>The choice between two neighbours.\<close>

definition pick :: "u32 \<Rightarrow> bool \<Rightarrow> real \<Rightarrow> real \<Rightarrow> real \<Rightarrow> nat \<Rightarrow> bool" where
  "pick rm sg lo hi y n \<longleftrightarrow>
     (if rm = softfloat_round_nearest_even then lo + hi < 2 * y \<or> (lo + hi = 2 * y \<and> odd n)
      else if rm = softfloat_round_nearest_maxMag then lo + hi \<le> 2 * y
      else if toward_zero rm sg then False
      else lo < y)"

lemma nearest_below:
  assumes "real (mag p n) \<le> y" "y < real (mag p (Suc n))" "2 * y \<le> real (mag p n) + real (mag p (Suc n))" "m \<noteq> n"
  shows "\<bar>real (mag p n) - y\<bar> < \<bar>real (mag p m) - y\<bar>
    \<or> (\<bar>real (mag p n) - y\<bar> = \<bar>real (mag p m) - y\<bar> \<and> m = Suc n \<and> 2 * y = real (mag p n) + real (mag p (Suc n)))"
proof (cases "m < n")
  case True
  then have "real (mag p m) < real (mag p n)" by simp
  with assms show ?thesis by linarith
next
  case False
  with assms(4) have "Suc n \<le> m" by simp
  then have "real (mag p (Suc n)) \<le> real (mag p m)" by simp
  moreover have "m = Suc n \<or> real (mag p (Suc n)) < real (mag p m)"
    using \<open>Suc n \<le> m\<close> by (simp add: le_less) auto
  ultimately show ?thesis using assms by linarith
qed

lemma nearest_above:
  assumes "real (mag p n) \<le> y" "y < real (mag p (Suc n))" "real (mag p n) + real (mag p (Suc n)) \<le> 2 * y" "m \<noteq> Suc n"
  shows "\<bar>real (mag p (Suc n)) - y\<bar> < \<bar>real (mag p m) - y\<bar>
    \<or> (\<bar>real (mag p (Suc n)) - y\<bar> = \<bar>real (mag p m) - y\<bar> \<and> m = n \<and> 2 * y = real (mag p n) + real (mag p (Suc n)))"
proof (cases "m \<le> n")
  case True
  then have "real (mag p m) \<le> real (mag p n)" "m = n \<or> real (mag p m) < real (mag p n)" by auto
  with assms show ?thesis by linarith
next
  case False
  with assms(4) have "real (mag p (Suc n)) < real (mag p m)" by simp
  with assms show ?thesis by linarith
qed

lemma rounds_pick:
  assumes y: "real (mag p n) \<le> y" "y < real (mag p (Suc n))" and n: "n < ninf"
  shows "rounds p ninf rm sg y (if pick rm sg (mag p n) (mag p (Suc n)) y n then Suc n else n)"
proof -
  let ?lo = "real (mag p n)" and ?hi = "real (mag p (Suc n))"
  have below: "real (mag p m) \<le> y \<Longrightarrow> m \<le> n" for m
    using y(2) by (metis less_Suc_eq_le mag_less_iff of_nat_less_iff order_le_less_trans)
  have above: "y \<le> real (mag p m) \<Longrightarrow> ?lo < y \<Longrightarrow> Suc n \<le> m" for m
    by (metis Suc_leI mag_less_iff of_nat_less_iff order_less_le_trans)
  have above': "y \<le> real (mag p m) \<Longrightarrow> n \<le> m" for m
    using y(1) by (metis mag_le_iff of_nat_le_iff order_trans)
  define d where "d m = \<bar>real (mag p m) - y\<bar>" for m
  have b: "2 * y \<le> ?lo + ?hi \<Longrightarrow> m \<noteq> n \<Longrightarrow> d n < d m \<or> (d n = d m \<and> m = Suc n \<and> 2 * y = ?lo + ?hi)" for m
    unfolding d_def by (rule nearest_below [OF y])
  have a: "?lo + ?hi \<le> 2 * y \<Longrightarrow> m \<noteq> Suc n \<Longrightarrow> d (Suc n) < d m \<or> (d (Suc n) = d m \<and> m = n \<and> 2 * y = ?lo + ?hi)" for m
    unfolding d_def by (rule nearest_above [OF y])
  consider "2 * y < ?lo + ?hi" | "?lo + ?hi < 2 * y" | "2 * y = ?lo + ?hi" by linarith
  note cases = this
  show ?thesis
  proof (cases "rm = softfloat_round_nearest_even \<or> rm = softfloat_round_nearest_maxMag")
    case True
    from cases show ?thesis
    proof cases
      case 1
      with b have "\<And>m. m \<noteq> n \<Longrightarrow> d n < d m" by fastforce
      with 1 True n show ?thesis
        unfolding rounds_def pick_def Let_def d_def [symmetric] by auto
    next
      case 2
      with a have "\<And>m. m \<noteq> Suc n \<Longrightarrow> d (Suc n) < d m" by fastforce
      with 2 True n show ?thesis
        unfolding rounds_def pick_def Let_def d_def [symmetric] by auto
    next
      case 3
      with a b have "\<And>m. m \<noteq> Suc n \<Longrightarrow> d (Suc n) < d m \<or> d (Suc n) = d m \<and> m = n"
        "\<And>m. m \<noteq> n \<Longrightarrow> d n < d m \<or> d n = d m \<and> m = Suc n" by auto
      with 3 True n show ?thesis
        unfolding rounds_def pick_def Let_def d_def [symmetric] by auto
    qed
  next
    case False
    then show ?thesis
      using n y below above above' unfolding rounds_def pick_def Let_def by (auto simp: order_less_imp_le not_less)
  qed
qed

lemma rounds_overflow:
  assumes y: "real (mag p ninf) \<le> y" and n: "0 < ninf"
  shows "rounds p ninf rm sg y (if rm \<noteq> softfloat_round_nearest_even \<and> rm \<noteq> softfloat_round_nearest_maxMag
    \<and> toward_zero rm sg then ninf - 1 else ninf)"
proof -
  have "m < ninf \<Longrightarrow> \<bar>real (mag p ninf) - y\<bar> < \<bar>real (mag p m) - y\<bar>" for m
  proof -
    assume "m < ninf"
    then have "real (mag p m) < real (mag p ninf)" by simp
    with y show ?thesis by linarith
  qed
  moreover have "real (mag p (ninf - 1)) \<le> y" using y n
    by (metis diff_le_self mag_le_iff of_nat_le_iff order_trans)
  moreover have "y \<le> real (mag p m) \<Longrightarrow> ninf \<le> m" for m
    using y by (metis mag_le_iff of_nat_le_iff order_trans)
  ultimately show ?thesis using n unfolding rounds_def Let_def by auto
qed

section \<open>Significands with a sticky bit\<close>

text \<open>The exact \<open>x\<close> and the significand \<open>s\<close> compare alike with every multiple of \<open>2 ^ j\<close>: what a
  sticky bit keeps.\<close>

definition agree :: "nat \<Rightarrow> real \<Rightarrow> nat \<Rightarrow> bool" where
  "agree j x s \<longleftrightarrow>
     (\<forall>k. (x < real (k * 2 ^ j) \<longleftrightarrow> s < k * 2 ^ j) \<and> (x = real (k * 2 ^ j) \<longleftrightarrow> s = k * 2 ^ j))"

lemma agreeD:
  assumes "agree j x s"
  shows "x < real (k * 2 ^ j) \<longleftrightarrow> s < k * 2 ^ j" "x = real (k * 2 ^ j) \<longleftrightarrow> s = k * 2 ^ j"
    "real (k * 2 ^ j) < x \<longleftrightarrow> k * 2 ^ j < s" "real (k * 2 ^ j) \<le> x \<longleftrightarrow> k * 2 ^ j \<le> s"
  using assms unfolding agree_def by (metis linorder_neq_iff linorder_not_le less_imp_le order.strict_iff_order)+

lemma agree_of_nat: "agree j (real s) s"
  unfolding agree_def by (simp only: of_nat_less_iff of_nat_eq_iff) simp

lemma agree_coarser: "agree j x s \<Longrightarrow> j \<le> i \<Longrightarrow> agree i x s"
proof -
  assume a: "agree j x s" and "j \<le> i"
  then have "k * 2 ^ i = k * 2 ^ (i - j) * 2 ^ j" for k :: nat by (simp flip: power_add)
  with a show ?thesis unfolding agree_def by metis
qed

lemma agree_double: "agree j x s \<Longrightarrow> agree (Suc j) (2 * x) (2 * s)"
proof -
  assume a: "agree j x s"
  have "k * 2 ^ Suc j = 2 * (k * 2 ^ j)" for k :: nat by simp
  with agreeD [OF a] show ?thesis unfolding agree_def by (simp only:) simp
qed

text \<open>The right shift that keeps lost bits in the last one.\<close>

definition shr_jam :: "nat \<Rightarrow> nat \<Rightarrow> nat" where
  "shr_jam s i = s div 2 ^ i + of_bool (s mod 2 ^ i \<noteq> 0 \<and> even (s div 2 ^ i))"

lemma shr_jam_less: "shr_jam s i < 2 * m \<longleftrightarrow> s < 2 * m * 2 ^ i"
proof -
  have "s div 2 ^ i < 2 * m \<longleftrightarrow> s < 2 * m * 2 ^ i" by (simp add: div_less_iff_less_mult)
  moreover have "even t \<Longrightarrow> Suc t < 2 * m \<longleftrightarrow> t < 2 * m" for t by (elim evenE) auto
  ultimately show ?thesis by (simp add: shr_jam_def)
qed

lemma shr_jam_eq: "shr_jam s i = 2 * m \<longleftrightarrow> s = 2 * m * 2 ^ i"
proof (cases "s mod 2 ^ i = 0")
  case True
  then have "s = s div 2 ^ i * 2 ^ i" by (metis add.right_neutral div_mult_mod_eq)
  with True show ?thesis by (auto simp: shr_jam_def)
next
  case False
  then have "odd (shr_jam s i)" by (simp add: shr_jam_def)
  then have "shr_jam s i \<noteq> 2 * m" by (metis dvd_triv_left)
  moreover have "s \<noteq> 2 * m * 2 ^ i" using False by auto
  ultimately show ?thesis by simp
qed

lemma agree_shr_jam:
  assumes a: "agree j x s" and i: "1 \<le> i" "j \<le> i + l"
  shows "agree i (x / 2 ^ l) (shr_jam s l)"
  unfolding agree_def
proof
  fix k :: nat
  have e: "k * 2 ^ i = 2 * (k * 2 ^ (i - 1))" using i(1) by (cases i) simp_all
  have "k * 2 ^ i * 2 ^ l = k * 2 ^ (i + l - j) * 2 ^ j" using i by (simp add: mult.assoc flip: power_add)
  note c = agreeD [OF a, of "k * 2 ^ (i + l - j)", folded this]
  have "x / 2 ^ l < real (k * 2 ^ i) \<longleftrightarrow> x < real (k * 2 ^ i * 2 ^ l)" "x / 2 ^ l = real (k * 2 ^ i) \<longleftrightarrow> x = real (k * 2 ^ i * 2 ^ l)"
    by (simp_all add: field_simps)
  with c show "(x / 2 ^ l < real (k * 2 ^ i) \<longleftrightarrow> shr_jam s l < k * 2 ^ i)
      \<and> (x / 2 ^ l = real (k * 2 ^ i) \<longleftrightarrow> shr_jam s l = k * 2 ^ i)"
    unfolding e shr_jam_less shr_jam_eq by simp
qed

section \<open>Packing\<close>

text \<open>The increment and the rounding of the packing routines on naturals, \<open>g\<close> guard bits.\<close>

definition round_inc :: "nat \<Rightarrow> u32 \<Rightarrow> bool \<Rightarrow> nat" where
  "round_inc g rm sg =
     (if rm \<noteq> softfloat_round_nearest_even \<and> rm \<noteq> softfloat_round_nearest_maxMag
      then if toward_zero rm sg then 0 else 2 ^ g - 1 else 2 ^ (g - 1))"

definition round_sig :: "nat \<Rightarrow> u32 \<Rightarrow> bool \<Rightarrow> nat \<Rightarrow> nat" where
  "round_sig g rm sg s =
     (let t = (s + round_inc g rm sg) div 2 ^ g
      in if rm = softfloat_round_nearest_even \<and> s mod 2 ^ g = 2 ^ (g - 1) then t - t mod 2 else t)"

lemma pick_scale:
  assumes "0 < c"
  shows "pick rm sg (lo * c) (hi * c) (y * c) n \<longleftrightarrow> pick rm sg lo hi y n"
proof -
  have "lo * c + hi * c < 2 * (y * c) \<longleftrightarrow> (lo + hi) * c < 2 * y * c"
    "lo * c + hi * c = 2 * (y * c) \<longleftrightarrow> (lo + hi) * c = 2 * y * c"
    "lo * c + hi * c \<le> 2 * (y * c) \<longleftrightarrow> (lo + hi) * c \<le> 2 * y * c" by (simp_all add: algebra_simps)
  with assms show ?thesis by (simp add: pick_def)
qed

lemma round_sig_pick:
  assumes a: "agree (g - 1) x s" and g: "1 \<le> g"
  defines "t \<equiv> s div 2 ^ g"
  shows "round_sig g rm sg s
    = (if pick rm sg (real (t * 2 ^ g)) (real (Suc t * 2 ^ g)) x t then Suc t else t)"
proof -
  define h :: nat where "h = 2 ^ (g - 1)"
  define f where "f = s mod 2 ^ g"
  have g2: "2 ^ g = 2 * h" using g by (cases g) (simp_all add: h_def)
  have s: "s = t * 2 ^ g + f" by (simp only: t_def f_def div_mult_mod_eq)
  have f: "f < 2 ^ g" by (simp add: f_def)
  have h0: "0 < h" by (simp add: h_def)
  note c = agreeD [OF a, folded h_def]
  have mid: "real (t * 2 ^ g) + real (Suc t * 2 ^ g) = 2 * real ((2 * t + 1) * h)"
    by (simp add: g2 algebra_simps)
  have e2: "t * 2 ^ g = 2 * t * h" by (simp add: g2)
  have s': "s = 2 * t * h + f" using s by (simp only: e2)
  have lo: "real (t * 2 ^ g) < x \<longleftrightarrow> 0 < f" unfolding e2 c(3) by (subst s') simp
  have m1: "real (t * 2 ^ g) + real (Suc t * 2 ^ g) < 2 * x \<longleftrightarrow> h < f"
    "real (t * 2 ^ g) + real (Suc t * 2 ^ g) = 2 * x \<longleftrightarrow> f = h"
    "real (t * 2 ^ g) + real (Suc t * 2 ^ g) \<le> 2 * x \<longleftrightarrow> h \<le> f"
  proof -
    have "(2 * t + 1) * h = 2 * t * h + h" by simp
    then have "(2 * t + 1) * h < s \<longleftrightarrow> h < f" "s = (2 * t + 1) * h \<longleftrightarrow> f = h" "(2 * t + 1) * h \<le> s \<longleftrightarrow> h \<le> f"
      using s' by linarith+
    then show "real (t * 2 ^ g) + real (Suc t * 2 ^ g) < 2 * x \<longleftrightarrow> h < f"
      "real (t * 2 ^ g) + real (Suc t * 2 ^ g) = 2 * x \<longleftrightarrow> f = h"
      "real (t * 2 ^ g) + real (Suc t * 2 ^ g) \<le> 2 * x \<longleftrightarrow> h \<le> f"
      unfolding mid using c(2-4) [of "2 * t + 1"] by linarith+
  qed
  have d: "(s + k) div 2 ^ g = t + (f + k) div 2 ^ g" for k using h0 by (simp add: s add.assoc g2)
  have q: "(f + k) div 2 ^ g = of_bool (2 ^ g \<le> f + k)" if "k < 2 ^ g" for k
    using f that by (cases "2 ^ g \<le> f + k") (auto intro!: div_nat_eqI)
  have h': "2 ^ (g - Suc 0) = h" by (simp add: h_def)
  have i: "round_inc g rm sg < 2 ^ g" using h0 by (simp add: round_inc_def g2 h')
  show ?thesis
    using h0 f lo m1 unfolding round_sig_def Let_def d q [OF i] f_def [symmetric] h_def [symmetric]
    by (auto simp: pick_def round_inc_def g2 h' elim!: oddE evenE)
qed

lemma rounds_round_sig:
  assumes a: "agree (g - 1) x s" "0 \<le> x" and g: "1 \<le> g" and p: "1 \<le> p"
    and s: "s < 2 ^ (p + g + 1)" "2 ^ (p + g) \<le> s \<or> e = 0" and e: "e + 2 \<le> emax"
  shows "rounds p (emax * 2 ^ p) rm sg (x * 2 ^ e / 2 ^ g) (e * 2 ^ p + round_sig g rm sg s)"
proof -
  define t where "t = s div 2 ^ g"
  define c :: real where "c = 2 ^ e / 2 ^ g"
  have c: "0 < c" by (simp add: c_def)
  have ts: "t * 2 ^ g \<le> s" "s < Suc t * 2 ^ g" by (simp_all add: t_def dividend_less_times_div mult.commute)
  have t2: "Suc t \<le> 2 ^ (p + 1)"
    using s(1) by (simp add: t_def Suc_le_eq div_less_iff_less_mult power_add mult.commute mult.left_commute)
  have t1: "2 ^ p \<le> t \<or> e = 0"
    using s(2) by (auto simp: t_def less_eq_div_iff_mult_less_eq power_add)
  have m: "real (mag p (e * 2 ^ p + t)) = real (t * 2 ^ g) * c"
    "real (mag p (Suc (e * 2 ^ p + t))) = real (Suc t * 2 ^ g) * c"
  proof -
    have "mag p (e * 2 ^ p + t) = t * 2 ^ e" "mag p (e * 2 ^ p + Suc t) = Suc t * 2 ^ e"
      using t1 t2 by (intro mag_pack; auto)+
    moreover have "real (n * 2 ^ g) * c = real (n * 2 ^ e)" for n by (simp add: c_def)
    ultimately show "real (mag p (e * 2 ^ p + t)) = real (t * 2 ^ g) * c"
      "real (mag p (Suc (e * 2 ^ p + t))) = real (Suc t * 2 ^ g) * c" by (simp_all only: add_Suc_right)
  qed
  have k: "n * 2 ^ g = (2 * n) * 2 ^ (g - 1)" for n :: nat using g by (cases g) simp_all
  have x: "real (t * 2 ^ g) \<le> x" "x < real (Suc t * 2 ^ g)"
    unfolding k agreeD [OF a(1)] using ts unfolding k by simp_all
  have "e * 2 ^ p + t < emax * 2 ^ p"
  proof -
    have "e * 2 ^ p + t < (e + 2) * 2 ^ p" using t2 by (simp add: algebra_simps)
    also have "\<dots> \<le> emax * 2 ^ p" using e by (rule mult_le_mono1)
    finally show ?thesis .
  qed
  moreover have "real (t * 2 ^ g) * c \<le> x * c" "x * c < real (Suc t * 2 ^ g) * c" using x c by simp_all
  ultimately have "rounds p (emax * 2 ^ p) rm sg (x * c)
      (if pick rm sg (real (t * 2 ^ g) * c) (real (Suc t * 2 ^ g) * c) (x * c) (e * 2 ^ p + t)
       then Suc (e * 2 ^ p + t) else e * 2 ^ p + t)"
    using rounds_pick [of p "e * 2 ^ p + t" "x * c" "emax * 2 ^ p" rm sg] unfolding m by blast
  moreover have "even (e * 2 ^ p)" using p by simp
  then have "pick rm sg lo hi y (e * 2 ^ p + t) = pick rm sg lo hi y t" for lo hi y by (simp add: pick_def)
  ultimately show ?thesis
    unfolding round_sig_pick [OF a(1) g] t_def [symmetric] pick_scale [OF c]
    by (simp add: c_def split: if_splits)
qed

text \<open>The contract of the two packing routines.\<close>

locale round_pack =
  fixes p g emax :: nat and rp :: "u32 \<Rightarrow> bool \<Rightarrow> int \<Rightarrow> nat \<Rightarrow> nat"
  assumes p: "1 \<le> p" and g: "2 \<le> g" and emax: "2 \<le> emax" "emax \<le> 2 ^ 15"
    and rp_normal: "\<lbrakk>0 \<le> e; e + 2 \<le> int emax; s < 2 ^ (p + g + 1);
        e + 2 < int emax \<or> s + round_inc g rm sg < 2 ^ (p + g + 1)\<rbrakk>
      \<Longrightarrow> rp rm sg e s = (let t = round_sig g rm sg s in if t = 0 then 0 else nat e * 2 ^ p + t)"
    and rp_tiny: "\<lbrakk>- (2 ^ 15) \<le> e; e < 0; s < 2 ^ (p + g + 1)\<rbrakk>
      \<Longrightarrow> rp rm sg e s = rp rm sg 0 (shr_jam s (nat (- e)))"
    and rp_overflow: "\<lbrakk>int emax \<le> e + 2; e < 2 ^ 15; s < 2 ^ (p + g + 1);
        int emax < e + 2 \<or> 2 ^ (p + g + 1) \<le> s + round_inc g rm sg\<rbrakk>
      \<Longrightarrow> rp rm sg e s = (if round_inc g rm sg = 0 then emax * 2 ^ p - 1 else emax * 2 ^ p)"
begin

lemma rp_value:
  assumes e: "0 \<le> e" "e + 2 \<le> int emax" and s: "s < 2 ^ (p + g + 1)" "2 ^ (p + g) \<le> s \<or> e = 0"
  shows "rp rm sg e s = nat e * 2 ^ p + round_sig g rm sg s"
proof (cases "e + 2 < int emax \<or> s + round_inc g rm sg < 2 ^ (p + g + 1)")
  case True
  have "s div 2 ^ g \<le> round_sig g rm sg s"
    using round_sig_pick [OF agree_of_nat [of "g - 1" s], where rm = rm and sg = sg] g by simp
  moreover have "2 ^ p \<le> s div 2 ^ g \<or> e = 0"
    using s(2) by (auto simp: less_eq_div_iff_mult_less_eq power_add)
  ultimately have "round_sig g rm sg s \<noteq> 0 \<or> e = 0"
    by (metis le_zero_eq power_not_zero zero_neq_numeral order_trans)
  with rp_normal [OF e s(1) True] show ?thesis by (auto simp: Let_def)
next
  case False
  then have o: "2 ^ (p + g + 1) \<le> s + round_inc g rm sg" and em: "e + 2 = int emax" using e by auto
  have h: "(2 :: nat) ^ (g - 1) < 2 ^ g" using g by simp
  then have i: "round_inc g rm sg < 2 ^ g" by (auto simp: round_inc_def)
  have "(s + round_inc g rm sg) div 2 ^ g = 2 ^ (p + 1)"
  proof (rule div_nat_eqI)
    have w: "2 ^ (p + g + 1) = (2 ^ g * 2 ^ (p + 1) :: nat)" by (simp add: power_add)
    show "2 ^ g * 2 ^ (p + 1) \<le> s + round_inc g rm sg" using o unfolding w .
    show "s + round_inc g rm sg < 2 ^ g * Suc (2 ^ (p + 1))"
      using s(1) i unfolding w mult_Suc_right by linarith
  qed
  then have r: "round_sig g rm sg s = 2 ^ (p + 1)" by (simp add: round_sig_def Let_def)
  have "round_inc g rm sg \<noteq> 0" using o s(1) by auto
  then have "rp rm sg e s = emax * 2 ^ p"
    using rp_overflow [of e s rm sg] o em s(1) e(1) emax by simp
  moreover have "emax = nat e + 2" using em e(1) by simp
  ultimately show ?thesis by (simp add: r)
qed

lemma rp_rounds_overflow:
  assumes a: "agree (g - 1) x s" and s: "2 ^ (p + g) \<le> s" "s < 2 ^ (p + g + 1)"
    and e: "int emax < e + 2" "e < 2 ^ 15"
  shows "rounds p (emax * 2 ^ p) rm sg (x * 2 powi (e - int g)) (rp rm sg e s)"
proof -
  have "2 ^ (p + 1) * 2 ^ (g - 1) = (2 ^ (p + g) :: nat)" using g by (cases g) (simp_all add: power_add)
  then have "real (2 ^ (p + g)) \<le> x" using agreeD(4) [OF a, of "2 ^ (p + 1)"] s(1) by simp
  then have "2 ^ (p + g) * 2 powi (e - int g) \<le> x * 2 powi (e - int g)"
    by (intro mult_right_mono) simp_all
  moreover have "2 ^ (p + g) * 2 powi (e - int g) = (2 ^ p * 2 powi e :: real)"
    by (simp add: power_int_diff power_add)
  moreover have "(2 :: real) powi int (emax - 1) \<le> 2 powi e"
    using e emax by (intro power_int_increasing) auto
  then have "2 ^ p * 2 ^ (emax - 1) \<le> (2 ^ p * 2 powi e :: real)" by simp
  moreover have "real (mag p (emax * 2 ^ p)) = 2 ^ p * 2 ^ (emax - 1)"
  proof -
    have "emax * 2 ^ p = (emax - 1) * 2 ^ p + 2 ^ p" using emax(1) by (cases emax) simp_all
    then show ?thesis using mag_pack [of p "2 ^ p" "emax - 1"] by simp
  qed
  ultimately have "real (mag p (emax * 2 ^ p)) \<le> x * 2 powi (e - int g)" by linarith
  note o = rounds_overflow [OF this, of rm sg]
  have "round_inc g rm sg = 0 \<longleftrightarrow> rm \<noteq> softfloat_round_nearest_even
      \<and> rm \<noteq> softfloat_round_nearest_maxMag \<and> toward_zero rm sg"
    using one_less_power [of "2 :: nat" g] g by (auto simp: round_inc_def)
  moreover have "rp rm sg e s = (if round_inc g rm sg = 0 then emax * 2 ^ p - 1 else emax * 2 ^ p)"
    using e s by (intro rp_overflow) auto
  ultimately show ?thesis using o emax by simp
qed

lemma rp_rounds_tiny:
  assumes a: "agree (g - 1) x s" "0 \<le> x" and s: "s < 2 ^ (p + g + 1)" and e: "- (2 ^ 15) \<le> e" "e < 0"
  shows "rounds p (emax * 2 ^ p) rm sg (x * 2 powi (e - int g)) (rp rm sg e s)"
proof -
  define l where "l = nat (- e)"
  have el: "e = - int l" using e by (simp add: l_def)
  have "s * 1 < 2 * 2 ^ (p + g) * 2 ^ l" using s by (intro mult_less_le_imp_less) simp_all
  then have s': "shr_jam s l < 2 ^ (p + g + 1)" using shr_jam_less [of s l "2 ^ (p + g)"] by simp
  have "agree (g - 1) (x / 2 ^ l) (shr_jam s l)" using a(1) g by (intro agree_shr_jam) auto
  then have "rounds p (emax * 2 ^ p) rm sg (x / 2 ^ l * 2 ^ 0 / 2 ^ g) (0 * 2 ^ p + round_sig g rm sg (shr_jam s l))"
    by (rule rounds_round_sig) (use a g p s' emax in auto)
  moreover have "x / 2 ^ l * 2 ^ 0 / 2 ^ g = x * 2 powi (e - int g)"
    unfolding el by (simp add: power_int_diff power_int_minus field_simps)
  moreover have "rp rm sg e s = 0 * 2 ^ p + round_sig g rm sg (shr_jam s l)"
    using rp_tiny [OF e s, of rm sg] rp_value [of 0 "shr_jam s l" rm sg] s' emax by (simp add: l_def)
  ultimately show ?thesis by simp
qed

text \<open>The packed number is the correct rounding of every \<open>x\<close> the significand agrees with.\<close>

lemma rp_rounds:
  assumes a: "agree (g - 1) x s" "0 \<le> x" and s: "s < 2 ^ (p + g + 1)" "2 ^ (p + g) \<le> s \<or> e \<le> 0"
    and e: "- (2 ^ 15) \<le> e" "e < 2 ^ 15"
  shows "rounds p (emax * 2 ^ p) rm sg (x * 2 powi (e - int g)) (rp rm sg e s)"
proof -
  consider "e < 0" | "0 \<le> e" "e + 2 \<le> int emax" | "int emax < e + 2" by linarith
  then show ?thesis
  proof cases
    case 1
    with a s(1) e(1) show ?thesis by (intro rp_rounds_tiny)
  next
    case 2
    then have n: "2 ^ (p + g) \<le> s \<or> e = 0" using s(2) by auto
    have "rounds p (emax * 2 ^ p) rm sg (x * 2 ^ nat e / 2 ^ g) (nat e * 2 ^ p + round_sig g rm sg s)"
      by (rule rounds_round_sig) (use a g p s(1) n 2 in auto)
    moreover have "x * 2 ^ nat e / 2 ^ g = x * 2 powi (e - int g)"
      using 2 by (simp add: power_int_diff) (simp add: power_int_def)
    ultimately show ?thesis by (simp add: rp_value [OF 2 s(1) n])
  next
    case 3
    with a(1) s emax e(2) show ?thesis by (intro rp_rounds_overflow) auto
  qed
qed

end
end
