(* ===== verification/Float_Pack.thy ===== *)
theory Float_Pack
  imports Float_Round
begin

text \<open>
  \<open>softfloat_roundPackToF32\<close> and \<open>softfloat_roundPackToF64\<close> keep the contract \<open>round_pack\<close>: their word
  arithmetic read on naturals, and the two interpretations.
\<close>

lemma unat_or_b2w: "unat (x OR b2w c) = unat x + of_bool (c \<and> even (unat x))" for x :: "'a::len word"
  using or_one_eq [of "unat x"] by (simp only: unsigned_or_eq unat_b2w) (cases c; simp)

lemma unat_and_not_b2w:
  "unat (x AND NOT (b2w a AND b2w b)) = (if a \<and> b then unat x - unat x mod 2 else unat x)" for x :: "'a::len word"
proof (cases "a \<and> b")
  case True
  have "(x AND NOT 1) AND (x AND 1) = 0" "(x AND NOT 1) OR (x AND 1) = x"
    by (rule bit_word_eqI; auto simp: bit_simps)+
  then have "unat (x AND NOT 1) + unat (x AND 1) = unat x" by (metis unat_or_disjoint)
  moreover have "unat (x AND 1) = unat x mod 2" by (simp only: unsigned_and_eq unsigned_1) (simp add: and_one_eq)
  ultimately show ?thesis using True by simp
qed auto

lemma xor_eq_0_iff: "x XOR y = 0 \<longleftrightarrow> x = y" for x y :: "'a::len word"
  by (metis xor.assoc xor.left_neutral xor.right_neutral xor_self_eq)

lemma mod_pow_shift: "a * 2 ^ (w - l) mod 2 ^ w = 0 \<longleftrightarrow> a mod 2 ^ l = 0" if "l \<le> w" for a :: nat
proof -
  have "2 ^ w = 2 ^ l * (2 ^ (w - l) :: nat)" using that by (simp flip: power_add)
  then show ?thesis by (simp add: mod_mult_mult2)
qed

lemma shr_jam_large: "s < 2 ^ l \<Longrightarrow> shr_jam s l = of_bool (s \<noteq> 0)"
  by (simp add: shr_jam_def)

lemma unat_and_mask: "unat (x AND mask n) = unat x mod 2 ^ n" for x :: "'a::len word"
  by (simp only: unsigned_take_bit_eq flip: take_bit_eq_mask) (simp add: take_bit_eq_mod)

lemma unat_neg_and:
  assumes "1 \<le> l" "l < 2 ^ k" "k \<le> 32"
  shows "unat ((- of_nat l :: u32) AND mask k) = 2 ^ k - l"
proof -
  have p: "(2 :: nat) ^ k \<le> 2 ^ 32" using assms by (intro power_increasing) auto
  then have u: "unat (of_nat l :: u32) = l" using assms by (simp add: unat_of_nat take_bit_nat_eq_self)
  have "unat (- of_nat l :: u32) = 2 ^ 32 - l"
    using sub_borrow [of 0 "of_nat l :: u32"] u assms by (simp add: word_less_nat_alt)
  moreover have "(2 ^ 32 - l) mod 2 ^ k = 2 ^ k - l"
  proof -
    have "2 ^ 32 = 2 ^ k * (2 ^ (32 - k) :: nat)" using assms by (simp flip: power_add)
    then have "2 ^ 32 - l = (2 ^ k - l) + 2 ^ k * (2 ^ (32 - k) - 1)"
      using assms p by (simp add: algebra_simps)
    then show ?thesis by (rule mod_decomp) (use assms in simp)
  qed
  ultimately show ?thesis by (simp only: unat_and_mask)
qed

lemma unat_rightJam:
  fixes a :: "'a::len word"
  assumes w: "LENGTH('a) = 2 ^ k" "k \<le> 6" and l: "1 \<le> l" "l < 2 ^ 31"
  shows "unat (if (of_nat l :: u32) < 2 ^ k
      then drop_bit (unat (of_nat l :: u32)) a
        OR b2w (push_bit (unat ((- of_nat l :: u32) AND mask k)) a \<noteq> 0)
      else b2w (a \<noteq> 0)) = shr_jam (unat a) l"
proof -
  have k: "(2 :: nat) ^ k \<le> 2 ^ 6" using w(2) by (intro power_increasing) auto
  have u: "unat (of_nat l :: u32) = l" using l by (simp add: unat_of_nat take_bit_nat_eq_self)
  have "(2 ^ k :: u32) = of_nat (2 ^ k)" by simp
  then have "unat (2 ^ k :: u32) = 2 ^ k" using k by (simp only: unat_of_nat) (simp add: take_bit_nat_eq_self)
  then have c: "(of_nat l :: u32) < 2 ^ k \<longleftrightarrow> l < 2 ^ k" by (simp add: word_less_nat_alt u)
  show ?thesis
  proof (cases "l < 2 ^ k")
    case True
    have n: "unat ((- of_nat l :: u32) AND mask k) = 2 ^ k - l" using True l w(2) by (intro unat_neg_and) auto
    have "push_bit (2 ^ k - l) a \<noteq> 0 \<longleftrightarrow> unat a mod 2 ^ l \<noteq> 0"
      using mod_pow_shift [of l "2 ^ k" "unat a"] True
      by (simp add: word_unat_eq_iff unat_push_bit w(1))
    with True show ?thesis by (simp add: c u n unat_or_b2w unat_drop_bit shr_jam_def)
  next
    case False
    then have "unat a < 2 ^ l" using unat_bound [of a] w(1)
      by (metis linorder_not_le order_less_le_trans power_increasing one_le_numeral)
    with False show ?thesis by (simp add: c shr_jam_large unat_gt_0)
  qed
qed

lemma mask_5_6: "mask 5 = (31 :: u32)" "mask 6 = (63 :: u32)"
  by (simp_all add: mask_eq_exp_minus_1)

lemma unat_shift32RightJam:
  assumes "1 \<le> l" "l < 2 ^ 31"
  shows "unat (softfloat_shift32RightJam a (of_nat l)) = shr_jam (unat a) l"
  using unat_rightJam [of 5 l a, unfolded mask_5_6] assms by (simp add: softfloat_shift32RightJam_def)

lemma unat_shift64RightJam:
  assumes "1 \<le> l" "l < 2 ^ 31"
  shows "unat (softfloat_shift64RightJam a (of_nat l)) = shr_jam (unat a) l"
  using unat_rightJam [of 6 l a, unfolded mask_5_6] assms by (simp add: softfloat_shift64RightJam_def)

lemma unat_round_increment:
  assumes "unat half = 2 ^ (g - 1)" "unat full = 2 ^ g - 1"
  shows "unat (round_increment half full rm sg) = round_inc g rm sg"
  using assms by (simp add: round_increment_def round_inc_def toward_zero_def)

lemma unat_and_low: "unat (x AND 0x7F) = unat x mod 2 ^ 7" "unat (x AND 0x3FF) = unat x mod 2 ^ 10"
  for x :: "'a::len word"
  using unat_and_mask [of x 7] unat_and_mask [of x 10] by (simp_all add: mask_eq_exp_minus_1)

text \<open>The common tail of the two routines.\<close>

lemma unat_round_tail:
  fixes sig inc rb half :: "'a::len word"
  assumes s: "unat sig + round_inc g rm sg < 2 ^ LENGTH('a)" and i: "unat inc = round_inc g rm sg"
    and rb: "unat rb = unat sig mod 2 ^ g" and h: "unat half = 2 ^ (g - 1)"
  shows "unat (drop_bit g (sig + inc) AND NOT (b2w (rb XOR half = 0) AND b2w (rm = softfloat_round_nearest_even)))
    = round_sig g rm sg (unat sig)"
proof -
  have "unat (sig + inc) = unat sig + round_inc g rm sg" using s i by (simp add: unat_word_ariths)
  moreover have "rb XOR half = 0 \<longleftrightarrow> unat sig mod 2 ^ g = 2 ^ (g - 1)"
    unfolding xor_eq_0_iff unfolding word_unat_eq_iff rb h by (rule refl)
  ultimately show ?thesis
    by (simp only: unat_and_not_b2w unat_drop_bit) (simp add: round_sig_def Let_def conj_commute)
qed

lemma round_sig_bound:
  assumes "s < 2 ^ (n + g)" "1 \<le> g"
  shows "round_sig g rm sg s \<le> 2 ^ n"
proof -
  have "(2 :: nat) ^ (g - 1) < 2 ^ g" using assms(2) by simp
  then have "round_inc g rm sg < 2 ^ g" by (auto simp: round_inc_def)
  then have "s + round_inc g rm sg < Suc (2 ^ n) * 2 ^ g" using assms(1) by (simp add: power_add)
  then have "(s + round_inc g rm sg) div 2 ^ g < Suc (2 ^ n)" by (simp only: div_less_iff_less_mult zero_less_power zero_less_numeral)
  then show ?thesis by (auto simp: round_sig_def Let_def intro: le_trans [OF diff_le_self])
qed

lemma unat_packF32:
  assumes "0 \<le> e" "nat e * 2 ^ 23 + unat sig < 2 ^ 31"
  shows "unat (packToF32UI sg e sig) = of_bool sg * 2 ^ 31 + nat e * 2 ^ 23 + unat sig"
proof -
  define n where "n = nat e * 2 ^ 23 + unat sig"
  have "packToF32UI sg e sig = of_nat (of_bool sg * 2 ^ 31 + n)"
    using assms(1) by (cases sg) (simp_all add: packToF32UI_def n_def push_bit_eq_mult)
  moreover have "of_bool sg * 2 ^ 31 + n < 2 ^ 32" using assms(2) by (cases sg) (simp_all add: n_def)
  ultimately have "unat (packToF32UI sg e sig) = of_bool sg * 2 ^ 31 + n"
    by (simp only: unat_of_nat) (simp add: take_bit_nat_eq_self)
  then show ?thesis by (simp add: n_def)
qed

lemma roundPackF32_normal:
  assumes "0 \<le> e" "e + 2 \<le> 255" "s < 2 ^ 31" "e + 2 < 255 \<or> s + round_inc 7 rm sg < 2 ^ 31"
  shows "unat (fst (softfloat_roundPackToF32 rm sg e (of_nat s)))
    = of_bool sg * 2 ^ 31 + (let t = round_sig 7 rm sg s in if t = 0 then 0 else nat e * 2 ^ 23 + t)"
proof -
  have s: "unat (of_nat s :: u32) = s" using assms(3) by (simp add: unat_of_nat take_bit_nat_eq_self)
  define inc where "inc = (round_increment 0x40 0x7F rm sg :: u32)"
  have i: "unat inc = round_inc 7 rm sg" unfolding inc_def by (rule unat_round_increment) simp_all
  have i7: "round_inc 7 rm sg < 2 ^ 7" by (simp add: round_inc_def)
  define z where "z = drop_bit 7 (of_nat s + inc)
      AND NOT (b2w (((of_nat s :: u32) AND 0x7F) XOR 0x40 = 0) AND b2w (rm = softfloat_round_nearest_even))"
  have z: "unat z = round_sig 7 rm sg s"
    unfolding z_def using unat_round_tail [of "of_nat s :: u32" 7 rm sg inc "of_nat s AND 0x7F" "0x40"] assms(3) i7
    by (simp add: s i unat_and_low)
  have "round_sig 7 rm sg s \<le> 2 ^ 24" using assms(3) by (intro round_sig_bound) simp_all
  then have t: "nat e * 2 ^ 23 + unat z < 2 ^ 31" using assms(1,2) by (simp add: z)
  have "unat (of_nat s + inc) = s + round_inc 7 rm sg" using assms(3) i7 s i by (simp add: unat_word_ariths)
  then have "0x80000000 \<le> of_nat s + inc \<longleftrightarrow> 2 ^ 31 \<le> s + round_inc 7 rm sg" by (simp add: word_le_nat_alt)
  then have "fst (softfloat_roundPackToF32 rm sg e (of_nat s)) = packToF32UI sg (if z \<noteq> 0 then e else 0) z"
    using assms unfolding softfloat_roundPackToF32_def Let_def inc_def [symmetric]
    by (auto simp: z_def)
  moreover have "unat (packToF32UI sg (if z \<noteq> 0 then e else 0) z)
      = of_bool sg * 2 ^ 31 + (if unat z = 0 then 0 else nat e * 2 ^ 23 + unat z)"
    using t assms(1) unat_packF32 [of e z sg] unat_packF32 [of 0 z sg] by (auto simp: unat_eq_0)
  ultimately show ?thesis by (simp add: z Let_def)
qed

definition roundPackF32_mag :: "u32 \<Rightarrow> bool \<Rightarrow> int \<Rightarrow> nat \<Rightarrow> nat" where
  "roundPackF32_mag rm sg e s = unat (fst (softfloat_roundPackToF32 rm sg e (of_nat s))) mod 2 ^ 31"

lemma roundPackF32_tiny:
  assumes "- (2 ^ 15) \<le> e" "e < 0" "s < 2 ^ 31"
  shows "fst (softfloat_roundPackToF32 rm sg e (of_nat s))
    = fst (softfloat_roundPackToF32 rm sg 0 (of_nat (shr_jam s (nat (- e)))))"
proof -
  have s: "unat (of_nat s :: u32) = s" using assms(3) by (simp add: unat_of_nat take_bit_nat_eq_self)
  have "(of_int (- e) :: u32) = of_nat (nat (- e))" using assms(2) by simp
  then have "unat (softfloat_shift32RightJam (of_nat s) (of_int (- e))) = shr_jam s (nat (- e))"
    using unat_shift32RightJam [of "nat (- e)" "of_nat s"] assms s by simp
  then have j: "softfloat_shift32RightJam (of_nat s) (of_int (- e)) = of_nat (shr_jam s (nat (- e)))"
    by (metis of_nat_unat ucast_id)
  have "e mod 0x10000 = e + 0x10000" using assms by (intro int_mod_pos_eq [where q = "- 1"]) simp_all
  with assms show ?thesis
    unfolding softfloat_roundPackToF32_def Let_def j by simp
qed

lemma roundPackF32_overflow:
  assumes "255 \<le> e + 2" "e < 2 ^ 15" "s < 2 ^ 31" "255 < e + 2 \<or> 2 ^ 31 \<le> s + round_inc 7 rm sg"
  shows "unat (fst (softfloat_roundPackToF32 rm sg e (of_nat s)))
    = of_bool sg * 2 ^ 31 + (if round_inc 7 rm sg = 0 then 255 * 2 ^ 23 - 1 else 255 * 2 ^ 23)"
proof -
  have s: "unat (of_nat s :: u32) = s" using assms(3) by (simp add: unat_of_nat take_bit_nat_eq_self)
  define inc where "inc = (round_increment 0x40 0x7F rm sg :: u32)"
  have i: "unat inc = round_inc 7 rm sg" unfolding inc_def by (rule unat_round_increment) simp_all
  have i7: "round_inc 7 rm sg < 2 ^ 7" by (simp add: round_inc_def)
  have "unat (of_nat s + inc) = s + round_inc 7 rm sg" using assms(3) i7 s i by (simp add: unat_word_ariths)
  then have "0x80000000 \<le> of_nat s + inc \<longleftrightarrow> 2 ^ 31 \<le> s + round_inc 7 rm sg" by (simp add: word_le_nat_alt)
  moreover have "e mod 0x10000 = e" using assms(1,2) by simp
  ultimately have "fst (softfloat_roundPackToF32 rm sg e (of_nat s)) = packToF32UI sg 0xFF 0 - b2w (inc = 0)"
    using assms unfolding softfloat_roundPackToF32_def Let_def inc_def [symmetric] by auto
  moreover have "inc = 0 \<longleftrightarrow> round_inc 7 rm sg = 0" by (simp flip: i add: unat_eq_0)
  moreover have "unat (packToF32UI sg 0xFF 0 - b2w b) = of_bool sg * 2 ^ 31 + (255 * 2 ^ 23 - of_bool b)" for b
    by (cases sg; cases b) (simp_all add: packToF32UI_def)
  ultimately show ?thesis by simp
qed

interpretation f32: round_pack 23 7 255 roundPackF32_mag
proof
  fix e :: int and s :: nat and rm :: u32 and sg :: bool
  have m: "(of_bool sg * 2 ^ 31 + n) mod 2 ^ 31 = n" if "n < 2 ^ 31" for n :: nat using that by simp
  show "roundPackF32_mag rm sg e s = (let t = round_sig 7 rm sg s in if t = 0 then 0 else nat e * 2 ^ 23 + t)"
    if "0 \<le> e" "e + 2 \<le> int 255" "s < 2 ^ (23 + 7 + 1)" "e + 2 < int 255 \<or> s + round_inc 7 rm sg < 2 ^ (23 + 7 + 1)"
  proof -
    have "round_sig 7 rm sg s \<le> 2 ^ 24" using that(3) by (intro round_sig_bound) simp_all
    moreover have "nat e \<le> 253" using that(1,2) by simp
    ultimately have "(let t = round_sig 7 rm sg s in if t = 0 then 0 else nat e * 2 ^ 23 + t) < 2 ^ 31"
      unfolding Let_def by (auto intro: le_less_trans [OF add_mono [OF mult_le_mono1]])
    from m [OF this] show ?thesis
      using roundPackF32_normal [of e s rm sg] that by (simp only: roundPackF32_mag_def) simp
  qed
  show "roundPackF32_mag rm sg e s = roundPackF32_mag rm sg 0 (shr_jam s (nat (- e)))"
    if "- (2 ^ 15) \<le> e" "e < 0" "s < 2 ^ (23 + 7 + 1)"
    using roundPackF32_tiny [of e s rm sg] that by (simp add: roundPackF32_mag_def)
  show "roundPackF32_mag rm sg e s = (if round_inc 7 rm sg = 0 then 255 * 2 ^ 23 - 1 else 255 * 2 ^ 23)"
    if "int 255 \<le> e + 2" "e < 2 ^ 15" "s < 2 ^ (23 + 7 + 1)" "int 255 < e + 2 \<or> 2 ^ (23 + 7 + 1) \<le> s + round_inc 7 rm sg"
    using roundPackF32_overflow [of e s rm sg] that by (simp add: roundPackF32_mag_def)
qed simp_all

lemma unat_packF64:
  assumes "0 \<le> e" "nat e * 2 ^ 52 + unat sig < 2 ^ 63"
  shows "unat (packToF64UI sg e sig) = of_bool sg * 2 ^ 63 + nat e * 2 ^ 52 + unat sig"
proof -
  define n where "n = nat e * 2 ^ 52 + unat sig"
  have "packToF64UI sg e sig = of_nat (of_bool sg * 2 ^ 63 + n)"
    using assms(1) by (cases sg) (simp_all add: packToF64UI_def n_def push_bit_eq_mult)
  moreover have "of_bool sg * 2 ^ 63 + n < 2 ^ 64" using assms(2) by (cases sg) (simp_all add: n_def)
  ultimately have "unat (packToF64UI sg e sig) = of_bool sg * 2 ^ 63 + n"
    by (simp only: unat_of_nat) (simp add: take_bit_nat_eq_self)
  then show ?thesis by (simp add: n_def)
qed

lemma roundPackF64_normal:
  assumes "0 \<le> e" "e + 2 \<le> 2047" "s < 2 ^ 63" "e + 2 < 2047 \<or> s + round_inc 10 rm sg < 2 ^ 63"
  shows "unat (fst (softfloat_roundPackToF64 rm sg e (of_nat s)))
    = of_bool sg * 2 ^ 63 + (let t = round_sig 10 rm sg s in if t = 0 then 0 else nat e * 2 ^ 52 + t)"
proof -
  have s: "unat (of_nat s :: u64) = s" using assms(3) by (simp add: unat_of_nat take_bit_nat_eq_self)
  define inc where "inc = (round_increment 0x200 0x3FF rm sg :: u64)"
  have i: "unat inc = round_inc 10 rm sg" unfolding inc_def by (rule unat_round_increment) simp_all
  have i10: "round_inc 10 rm sg < 2 ^ 10" by (simp add: round_inc_def)
  define z where "z = drop_bit 10 (of_nat s + inc)
      AND NOT (b2w (((of_nat s :: u64) AND 0x3FF) XOR 0x200 = 0) AND b2w (rm = softfloat_round_nearest_even))"
  have z: "unat z = round_sig 10 rm sg s"
    unfolding z_def using unat_round_tail [of "of_nat s :: u64" 10 rm sg inc "of_nat s AND 0x3FF" "0x200"] assms(3) i10
    by (simp add: s i unat_and_low)
  have "round_sig 10 rm sg s \<le> 2 ^ 53" using assms(3) by (intro round_sig_bound) simp_all
  then have t: "nat e * 2 ^ 52 + unat z < 2 ^ 63" using assms(1,2) by (simp add: z)
  have "unat (of_nat s + inc) = s + round_inc 10 rm sg" using assms(3) i10 s i by (simp add: unat_word_ariths)
  then have "0x8000000000000000 \<le> of_nat s + inc \<longleftrightarrow> 2 ^ 63 \<le> s + round_inc 10 rm sg" by (simp add: word_le_nat_alt)
  then have "fst (softfloat_roundPackToF64 rm sg e (of_nat s)) = packToF64UI sg (if z \<noteq> 0 then e else 0) z"
    using assms unfolding softfloat_roundPackToF64_def Let_def inc_def [symmetric]
    by (auto simp: z_def)
  moreover have "unat (packToF64UI sg (if z \<noteq> 0 then e else 0) z)
      = of_bool sg * 2 ^ 63 + (if unat z = 0 then 0 else nat e * 2 ^ 52 + unat z)"
    using t assms(1) unat_packF64 [of e z sg] unat_packF64 [of 0 z sg] by (auto simp: unat_eq_0)
  ultimately show ?thesis by (simp add: z Let_def)
qed

definition roundPackF64_mag :: "u32 \<Rightarrow> bool \<Rightarrow> int \<Rightarrow> nat \<Rightarrow> nat" where
  "roundPackF64_mag rm sg e s = unat (fst (softfloat_roundPackToF64 rm sg e (of_nat s))) mod 2 ^ 63"

lemma roundPackF64_tiny:
  assumes "- (2 ^ 15) \<le> e" "e < 0" "s < 2 ^ 63"
  shows "fst (softfloat_roundPackToF64 rm sg e (of_nat s))
    = fst (softfloat_roundPackToF64 rm sg 0 (of_nat (shr_jam s (nat (- e)))))"
proof -
  have s: "unat (of_nat s :: u64) = s" using assms(3) by (simp add: unat_of_nat take_bit_nat_eq_self)
  have "(of_int (- e) :: u32) = of_nat (nat (- e))" using assms(2) by simp
  then have "unat (softfloat_shift64RightJam (of_nat s) (of_int (- e))) = shr_jam s (nat (- e))"
    using unat_shift64RightJam [of "nat (- e)" "of_nat s"] assms s by simp
  then have j: "softfloat_shift64RightJam (of_nat s) (of_int (- e)) = of_nat (shr_jam s (nat (- e)))"
    by (metis of_nat_unat ucast_id)
  have "e mod 0x10000 = e + 0x10000" using assms by (intro int_mod_pos_eq [where q = "- 1"]) simp_all
  with assms show ?thesis
    unfolding softfloat_roundPackToF64_def Let_def j by simp
qed

lemma roundPackF64_overflow:
  assumes "2047 \<le> e + 2" "e < 2 ^ 15" "s < 2 ^ 63" "2047 < e + 2 \<or> 2 ^ 63 \<le> s + round_inc 10 rm sg"
  shows "unat (fst (softfloat_roundPackToF64 rm sg e (of_nat s)))
    = of_bool sg * 2 ^ 63 + (if round_inc 10 rm sg = 0 then 2047 * 2 ^ 52 - 1 else 2047 * 2 ^ 52)"
proof -
  have s: "unat (of_nat s :: u64) = s" using assms(3) by (simp add: unat_of_nat take_bit_nat_eq_self)
  define inc where "inc = (round_increment 0x200 0x3FF rm sg :: u64)"
  have i: "unat inc = round_inc 10 rm sg" unfolding inc_def by (rule unat_round_increment) simp_all
  have i10: "round_inc 10 rm sg < 2 ^ 10" by (simp add: round_inc_def)
  have "unat (of_nat s + inc) = s + round_inc 10 rm sg" using assms(3) i10 s i by (simp add: unat_word_ariths)
  then have "0x8000000000000000 \<le> of_nat s + inc \<longleftrightarrow> 2 ^ 63 \<le> s + round_inc 10 rm sg" by (simp add: word_le_nat_alt)
  moreover have "e mod 0x10000 = e" using assms(1,2) by simp
  ultimately have "fst (softfloat_roundPackToF64 rm sg e (of_nat s)) = packToF64UI sg 0x7FF 0 - b2w (inc = 0)"
    using assms unfolding softfloat_roundPackToF64_def Let_def inc_def [symmetric] by auto
  moreover have "inc = 0 \<longleftrightarrow> round_inc 10 rm sg = 0" by (simp flip: i add: unat_eq_0)
  moreover have "unat (packToF64UI sg 0x7FF 0 - b2w b) = of_bool sg * 2 ^ 63 + (2047 * 2 ^ 52 - of_bool b)" for b
    by (cases sg; cases b) (simp_all add: packToF64UI_def)
  ultimately show ?thesis by simp
qed

interpretation f64: round_pack 52 10 2047 roundPackF64_mag
proof
  fix e :: int and s :: nat and rm :: u32 and sg :: bool
  have m: "(of_bool sg * 2 ^ 63 + n) mod 2 ^ 63 = n" if "n < 2 ^ 63" for n :: nat using that by simp
  show "roundPackF64_mag rm sg e s = (let t = round_sig 10 rm sg s in if t = 0 then 0 else nat e * 2 ^ 52 + t)"
    if "0 \<le> e" "e + 2 \<le> int 2047" "s < 2 ^ (52 + 10 + 1)" "e + 2 < int 2047 \<or> s + round_inc 10 rm sg < 2 ^ (52 + 10 + 1)"
  proof -
    have "round_sig 10 rm sg s \<le> 2 ^ 53" using that(3) by (intro round_sig_bound) simp_all
    moreover have "nat e \<le> 2045" using that(1,2) by simp
    ultimately have "(let t = round_sig 10 rm sg s in if t = 0 then 0 else nat e * 2 ^ 52 + t) < 2 ^ 63"
      unfolding Let_def by (auto intro: le_less_trans [OF add_mono [OF mult_le_mono1]])
    from m [OF this] show ?thesis
      using roundPackF64_normal [of e s rm sg] that by (simp only: roundPackF64_mag_def) simp
  qed
  show "roundPackF64_mag rm sg e s = roundPackF64_mag rm sg 0 (shr_jam s (nat (- e)))"
    if "- (2 ^ 15) \<le> e" "e < 0" "s < 2 ^ (52 + 10 + 1)"
    using roundPackF64_tiny [of e s rm sg] that by (simp add: roundPackF64_mag_def)
  show "roundPackF64_mag rm sg e s = (if round_inc 10 rm sg = 0 then 2047 * 2 ^ 52 - 1 else 2047 * 2 ^ 52)"
    if "int 2047 \<le> e + 2" "e < 2 ^ 15" "s < 2 ^ (52 + 10 + 1)" "int 2047 < e + 2 \<or> 2 ^ (52 + 10 + 1) \<le> s + round_inc 10 rm sg"
    using roundPackF64_overflow [of e s rm sg] that by (simp add: roundPackF64_mag_def)
qed simp_all
end
