(* ===== verification/Float_Operand.thy ===== *)
theory Float_Operand
  imports Float_Pack
begin

text \<open>
  From operands to results.  Counting leading zeros normalises a significand
  (\<open>clz32\<close>, \<open>clz64\<close>); an operand, normal or subnormal, is a significand
  with its leading bit set and an exponent (\<open>norm_operandF32_value\<close> and the
  double-precision counterpart); and a routine that hands the packing step a
  significand agreeing with the exact value returns the correctly rounded
  number with the sign it asked for (\<open>roundPackF32_correct\<close>).
\<close>

section \<open>Leading zeros\<close>

text \<open>\<open>c\<close> is the shift that brings the first bit of \<open>a\<close> to the top of \<open>w\<close> bits.\<close>

definition normal_shift :: "nat \<Rightarrow> nat \<Rightarrow> int \<Rightarrow> bool" where
  "normal_shift w a c \<longleftrightarrow> 0 \<le> c \<and> 2 ^ (w - 1) \<le> a * 2 ^ nat c \<and> a * 2 ^ nat c < 2 ^ w"

lemma normal_shift_bound: "normal_shift w a c \<Longrightarrow> c < int w"
proof -
  assume n: "normal_shift w a c"
  then have "0 < a" by (cases "a = 0") (auto simp: normal_shift_def)
  then have "1 * 2 ^ nat c \<le> a * 2 ^ nat c" by (intro mult_le_mono1) simp
  with n have "2 ^ nat c < (2 :: nat) ^ w" unfolding normal_shift_def by linarith
  then have "nat c < w" by simp
  with n show ?thesis by (simp add: normal_shift_def)
qed

lemma normal_shift_add: "normal_shift w (a * 2 ^ k) c \<Longrightarrow> normal_shift w a (c + int k)"
  by (simp add: normal_shift_def nat_add_distrib power_add mult.assoc mult.commute [of "2 ^ k"])

lemma normal_shift_top:
  assumes n: "normal_shift w (a div 2 ^ k) c" and w: "1 \<le> w"
  shows "normal_shift (w + k) a c"
proof -
  define m where "m = a div 2 ^ k"
  have c: "nat c < w" using normal_shift_bound [OF n] n by (simp add: normal_shift_def nat_less_iff)
  then have p: "(2 :: nat) ^ w = 2 ^ (w - nat c) * 2 ^ nat c" by (simp flip: power_add)
  have "m * 2 ^ nat c < 2 ^ w" using n by (simp add: normal_shift_def m_def)
  then have "m < 2 ^ (w - nat c)" unfolding p by simp
  then have "Suc m * 2 ^ nat c \<le> 2 ^ w" unfolding p by (intro mult_le_mono1) simp
  then have hi: "Suc m * 2 ^ nat c * 2 ^ k \<le> 2 ^ w * 2 ^ k" by (rule mult_le_mono1)
  have "a < Suc m * 2 ^ k" unfolding m_def by (simp add: dividend_less_times_div mult.commute)
  then have "a * 2 ^ nat c < Suc m * 2 ^ k * 2 ^ nat c" by simp
  also have "\<dots> = Suc m * 2 ^ nat c * 2 ^ k" by (simp only: ac_simps)
  also note hi
  finally have u: "a * 2 ^ nat c < 2 ^ (w + k)" by (simp only: power_add)
  have "2 ^ (w - 1) * 2 ^ k \<le> m * 2 ^ nat c * 2 ^ k"
    using n by (intro mult_le_mono1) (simp add: normal_shift_def m_def)
  also have "\<dots> = m * 2 ^ k * 2 ^ nat c" by simp
  also have "\<dots> \<le> a * 2 ^ nat c" unfolding m_def by (intro mult_le_mono1) simp
  finally have "2 ^ (w + k - 1) \<le> a * 2 ^ nat c" using w by (simp flip: power_add)
  with u n show ?thesis by (simp add: normal_shift_def)
qed

lemma normal_shift_wider:
  assumes "normal_shift w a c" "1 \<le> w" shows "normal_shift (w + k) a (c + int k)"
proof -
  have "2 ^ (w + k - 1) = (2 ^ (w - 1) * 2 ^ k :: nat)" using assms(2) by (simp flip: power_add)
  with assms(1) show ?thesis
    by (simp add: normal_shift_def nat_add_distrib power_add mult.assoc [symmetric])
qed

lemma clz8: "0 < n \<Longrightarrow> n < 256 \<Longrightarrow> normal_shift 8 n (softfloat_countLeadingZeros8 ! n)"
proof -
  have "\<forall>n \<in> set [1..<256]. normal_shift 8 n (softfloat_countLeadingZeros8 ! n)" by code_simp
  moreover assume "0 < n" "n < 256"
  ultimately show ?thesis by simp
qed

lemma clz_tail:
  fixes a :: u32
  assumes "2 ^ 24 \<le> unat a"
  shows "normal_shift 32 (unat a) (softfloat_countLeadingZeros8 ! unat (drop_bit 24 a))"
proof -
  have "unat a div 2 ^ 24 < 256" using unat_bound [of a] by (simp add: less_mult_imp_div_less)
  moreover have "0 < unat a div 2 ^ 24" using assms by (simp add: div_greater_zero_iff)
  ultimately show ?thesis
    using normal_shift_top [of 8 "unat a" 24] clz8 by (simp add: unat_drop_bit)
qed

lemma clz_bytes:
  fixes a b c :: u32
  assumes "a \<noteq> 0"
  defines "b \<equiv> if a < 0x10000 then push_bit 16 a else a"
  defines "c \<equiv> if b < 0x1000000 then push_bit 8 b else b"
  shows "normal_shift 32 (unat a) ((if a < 0x10000 then 16 else 0) + (if b < 0x1000000 then 8 else 0)
    + softfloat_countLeadingZeros8 ! unat (drop_bit 24 c))"
proof -
  have a0: "0 < unat a" using assms by (simp add: unat_gt_0)
  have b: "unat b = (if a < 0x10000 then unat a * 2 ^ 16 else unat a)" "2 ^ 16 \<le> unat b"
    using a0 by (auto simp: b_def word_less_nat_alt unat_push_bit)
  have c: "unat c = (if b < 0x1000000 then unat b * 2 ^ 8 else unat b)" "2 ^ 24 \<le> unat c"
    using b(2) by (auto simp: c_def word_less_nat_alt unat_push_bit)
  define z where "z = softfloat_countLeadingZeros8 ! unat (drop_bit 24 c)"
  have "normal_shift 32 (unat c) z" unfolding z_def by (rule clz_tail [OF c(2)])
  then have "normal_shift 32 (unat b) (z + (if b < 0x1000000 then 8 else 0))"
    using normal_shift_add [of 32 "unat b" 8 z] unfolding c(1) by (auto split: if_splits)
  then have "normal_shift 32 (unat a) (z + (if b < 0x1000000 then 8 else 0) + (if a < 0x10000 then 16 else 0))"
    using normal_shift_add [of 32 "unat a" 16 "z + (if b < 0x1000000 then 8 else 0)"]
    unfolding b(1) by (cases "a < 0x10000") (simp_all only: if_True if_False add_0_right of_nat_numeral)
  then show ?thesis unfolding z_def by (simp only: ac_simps)
qed

lemma clz32: "a \<noteq> 0 \<Longrightarrow> normal_shift 32 (unat a) (softfloat_countLeadingZeros32 a)"
  using clz_bytes [of a] unfolding softfloat_countLeadingZeros32_def Let_def by (auto split: if_splits)

lemma clz_count: "(case if a < 0x10000 then (k + 16, push_bit 16 a) else (k, a) of (count, a) \<Rightarrow>
    case if a < 0x1000000 then (count + 8, push_bit 8 a) else (count, a) of (count, a) \<Rightarrow>
      count + softfloat_countLeadingZeros8 ! unat (drop_bit 24 a)) = k + softfloat_countLeadingZeros32 a" for a :: u32
  unfolding softfloat_countLeadingZeros32_def Let_def
  by (cases "a < 0x10000"; cases "push_bit 16 a < 0x1000000"; cases "a < 0x1000000")
    (simp_all only: if_True if_False prod.case)

lemma clz64_32: "softfloat_countLeadingZeros64 a = (if 0x100000000 \<le> a
    then softfloat_countLeadingZeros32 (ucast (drop_bit 32 a)) else 32 + softfloat_countLeadingZeros32 (ucast a))"
  unfolding softfloat_countLeadingZeros64_def Let_def
  by (cases "0x100000000 \<le> a") (simp_all only: if_True if_False prod.case clz_count add_0_left)

lemma clz64: 
  assumes "a \<noteq> 0"
  shows "normal_shift 64 (unat a) (softfloat_countLeadingZeros64 a)"
proof (cases "0x100000000 \<le> a")
  case True
  define h where "h = (ucast (drop_bit 32 a) :: u32)"
  have h: "unat h = unat a div 2 ^ 32" unfolding h_def by (rule unat_hi32)
  have "0 < unat h" using True by (simp add: h word_le_nat_alt div_greater_zero_iff)
  then have "normal_shift 32 (unat h) (softfloat_countLeadingZeros32 h)" by (intro clz32) auto
  then show ?thesis using normal_shift_top [of 32 "unat a" 32] True by (simp add: h clz64_32 flip: h_def)
next
  case False
  define l where "l = (ucast a :: u32)"
  have l: "unat l = unat a" using False unat_lo32 [of a] by (simp add: l_def word_le_nat_alt)
  have "0 < unat l" using assms by (simp add: l unat_gt_0)
  then have "normal_shift 32 (unat l) (softfloat_countLeadingZeros32 l)" by (intro clz32) auto
  then show ?thesis using normal_shift_wider [of 32 "unat a" _ 32] False
    by (simp add: l clz64_32 add.commute flip: l_def)
qed

section \<open>Operands and results\<close>

text \<open>The magnitude of a finite number, in units of the least subnormal one.\<close>

lemma unat_field: "unat (drop_bit n a AND mask m) = unat a mod 2 ^ (m + n) div 2 ^ n" for a :: "'a::len word"
proof -
  have "unat (drop_bit n a AND mask m) = take_bit m (drop_bit n (unat a))"
    by (simp only: unat_and_mask unat_drop_bit) (simp add: take_bit_eq_mod drop_bit_eq_div)
  also have "\<dots> = drop_bit n (take_bit (m + n) (unat a))" by (rule take_bit_drop_bit)
  finally show ?thesis by (simp only: take_bit_eq_mod drop_bit_eq_div)
qed

lemma unat_or_lead:
  fixes x :: "'a::len word"
  assumes n: "n < LENGTH('a)" and x: "unat x < 2 ^ Suc n"
  shows "unat (x OR push_bit n 1) = 2 ^ n + unat x mod 2 ^ n"
proof -
  have t: "take_bit (Suc n) x = x" using x
    by (simp only: word_unat_eq_iff unsigned_take_bit_eq take_bit_nat_eq_self)
  have "x OR push_bit n 1 = push_bit n 1 OR take_bit n x"
  proof (rule bit_word_eqI)
    fix i assume "i < LENGTH('a)"
    have "bit x i \<Longrightarrow> i < Suc n" using t by (metis bit_take_bit_iff)
    then show "bit (x OR push_bit n 1) i \<longleftrightarrow> bit (push_bit n 1 OR take_bit n x) i"
      using n by (auto simp: bit_or_iff bit_take_bit_iff bit_exp_iff less_Suc_eq)
  qed
  moreover have "unat (push_bit n 1 :: 'a word) = 1 * 2 ^ n"
    using n by (simp only: unat_push_bit) simp
  moreover have u: "unat (take_bit n x) = unat x mod 2 ^ n"
    by (simp only: unsigned_take_bit_eq) (simp add: take_bit_eq_mod)
  ultimately show ?thesis
    using unat_or_disjoint [OF and_low_high [of "push_bit n 1 :: 'a word" 1 n "take_bit n x"]] by simp
qed

definition magF32 :: "u32 \<Rightarrow> nat" where
  "magF32 a = mag 23 (unat a mod 2 ^ 31)"

definition valF32 :: "u32 \<Rightarrow> real" where
  "valF32 a = (if signF32UI a then - real (magF32 a) else real (magF32 a))"

lemma expF32_nat: "expF32UI a = int (unat a mod 2 ^ 31 div 2 ^ 23)"
proof -
  have "(0xFF :: u32) = mask 8" by (simp add: mask_eq_exp_minus_1)
  then show ?thesis using unat_field [of 23 a 8] unfolding expF32UI_def uint_nat by simp
qed

lemma fracF32_nat: "unat (fracF32UI a) = unat a mod 2 ^ 23"
  using unat_and_mask [of a 23] by (simp add: fracF32UI_def mask_eq_exp_minus_1)

lemma norm_operandF32_value:
  assumes "expF32UI a \<noteq> 0xFF" "\<not> (expF32UI a = 0 \<and> fracF32UI a = 0)"
  obtains e sig where "norm_operandF32 (expF32UI a) (fracF32UI a) = (e, sig)" "- 22 \<le> e" "e \<le> 254"
    "2 ^ 23 \<le> unat (sig OR 0x800000)" "unat (sig OR 0x800000) < 2 ^ 24"
    "real (magF32 a) = real (unat (sig OR 0x800000)) * 2 powi (e - 1)"
proof (cases "expF32UI a = 0")
  case False
  define f where "f = unat (fracF32UI a)"
  define k where "k = unat a mod 2 ^ 31 div 2 ^ 23"
  have e: "expF32UI a = int k" unfolding k_def by (rule expF32_nat)
  have k: "1 \<le> k" "k \<le> 254" using False assms(1) e unat_bound [of a]
    by (auto simp: k_def)
  have f: "f = unat a mod 2 ^ 31 mod 2 ^ 23" unfolding f_def fracF32_nat by (simp add: mod_mod_cancel)
  have "unat a mod 2 ^ 31 = k * 2 ^ 23 + f" unfolding f k_def by (simp only: div_mult_mod_eq)
  then have n: "unat a mod 2 ^ 31 = (k - 1) * 2 ^ 23 + (2 ^ 23 + f)" using k by (cases k) simp_all
  have "f < 2 ^ 23" unfolding f by simp
  then have "magF32 a = (2 ^ 23 + f) * 2 ^ (k - 1)" unfolding magF32_def n by (intro mag_pack) simp_all
  moreover have "unat (fracF32UI a OR 0x800000) = 2 ^ 23 + f"
    using unat_or_lead [of 23 "fracF32UI a"] \<open>f < 2 ^ 23\<close> by (simp add: f_def)
  ultimately show ?thesis
    using that [of "expF32UI a" "fracF32UI a"] k \<open>f < 2 ^ 23\<close> False by (simp add: norm_operandF32_def e power_int_def nat_diff_distrib)
next
  case True
  then have f0: "fracF32UI a \<noteq> 0" using assms(2) by simp
  define f where "f = unat (fracF32UI a)"
  define c where "c = softfloat_countLeadingZeros32 (fracF32UI a)"
  have c: "normal_shift 32 f c" unfolding f_def c_def by (rule clz32 [OF f0])
  have f: "f < 2 ^ 23" unfolding f_def fracF32_nat by simp
  have "unat a mod 2 ^ 31 < 2 ^ 23" using True unfolding expF32_nat by (simp add: div_eq_0_iff)
  then have "unat a mod 2 ^ 31 mod 2 ^ 23 = unat a mod 2 ^ 31" by (rule mod_less)
  then have "unat a mod 2 ^ 31 = f" unfolding f_def fracF32_nat by (simp add: mod_mod_cancel)
  then have m: "magF32 a = f" using f by (simp add: magF32_def mag_def)
  have c9: "9 \<le> c"
  proof (rule ccontr)
    assume "\<not> 9 \<le> c"
    then have "(2 :: nat) ^ nat c \<le> 2 ^ 8" using c by (intro power_increasing) (auto simp: normal_shift_def)
    then have "f * 2 ^ nat c < 2 ^ 23 * 2 ^ 8" using f by (intro mult_less_le_imp_less) auto
    with c show False by (simp add: normal_shift_def)
  qed
  define l where "l = nat (c - 8)"
  have l: "c = int (l + 8)" "1 \<le> l" using c9 by (simp_all add: l_def)
  have r: "f * 2 ^ (l + 8) = f * 2 ^ l * 2 ^ 8" by (simp add: power_add)
  have p: "2 ^ 23 \<le> f * 2 ^ l" "f * 2 ^ l < 2 ^ 24"
    using c unfolding normal_shift_def l nat_int r by simp_all
  define sig where "sig = push_bit l (fracF32UI a)"
  have u: "unat sig = f * 2 ^ l" using p unfolding sig_def unat_push_bit f_def [symmetric] by simp
  have "unat sig mod 2 ^ 23 = unat sig - 2 ^ 23" using p u by (simp add: le_mod_geq)
  then have s: "unat (sig OR 0x800000) = f * 2 ^ l" using unat_or_lead [of 23 sig] p u by simp
  have n: "norm_operandF32 (expF32UI a) (fracF32UI a) = (1 - int l, sig)"
    using True by (simp add: norm_operandF32_def softfloat_normSubnormalF32Sig_def Let_def sig_def l flip: c_def)
  have "l \<le> 23" using normal_shift_bound [OF c] l by simp
  then show ?thesis
    using that [OF n] p s l m by (simp add: power_int_minus field_simps)
qed

lemma magF32_zero: "expF32UI a = 0 \<and> fracF32UI a = 0 \<Longrightarrow> magF32 a = 0"
proof -
  assume a: "expF32UI a = 0 \<and> fracF32UI a = 0"
  then have "unat a mod 2 ^ 31 < 2 ^ 23" unfolding expF32_nat by (simp add: div_eq_0_iff)
  then have "unat a mod 2 ^ 31 = unat a mod 2 ^ 31 mod 2 ^ 23" by (simp only: mod_less)
  also have "\<dots> = unat (fracF32UI a)" unfolding fracF32_nat by (simp add: mod_mod_cancel)
  finally show ?thesis using a by (simp add: magF32_def mag_def)
qed

lemma signF32_nat: "signF32UI a \<longleftrightarrow> 2 ^ 31 \<le> unat a"
proof -
  have "unat (drop_bit 31 a) = 0 \<longleftrightarrow> unat a < 2 ^ 31" by (simp only: unat_drop_bit) (simp add: div_eq_0_iff)
  then show ?thesis unfolding signF32UI_def by (simp only: unat_eq_0) (simp add: not_less)
qed

lemma rounds_zero: "0 < ninf \<Longrightarrow> rounds p ninf rm sg 0 0"
proof -
  assume "0 < ninf"
  moreover have m: "real (mag p 0) = 0" by (simp add: mag_def)
  moreover have "0 < real (mag p (Suc 0))" using mag_Suc [of p 0] m by linarith
  ultimately show ?thesis using rounds_pick [of p 0 0 ninf rm sg] by (simp add: pick_def split: if_splits)
qed

lemma roundPackF32_sign:
  assumes "s < 2 ^ 31" "- (2 ^ 15) \<le> e" "e < 2 ^ 15"
  shows "signF32UI (fst (softfloat_roundPackToF32 rm sg e (of_nat s))) = sg"
proof -
  have *: "signF32UI (fst (softfloat_roundPackToF32 rm sg e (of_nat s))) = sg"
    if s: "s < 2 ^ 31" and e: "0 \<le> e" "e < 2 ^ 15" for e s
  proof (cases "e + 2 < 255 \<or> e + 2 = 255 \<and> s + round_inc 7 rm sg < 2 ^ 31")
    case True
    have "round_sig 7 rm sg s \<le> 2 ^ 24" using s by (intro round_sig_bound) simp_all
    moreover have "nat e \<le> 253" using True by auto
    ultimately have "(let t = round_sig 7 rm sg s in if t = 0 then 0 else nat e * 2 ^ 23 + t) < 2 ^ 31"
      unfolding Let_def by (auto intro: le_less_trans [OF add_mono [OF mult_le_mono1]])
    then show ?thesis unfolding signF32_nat
      using roundPackF32_normal [of e s rm sg] True s e by (cases sg) auto
  next
    case False
    then show ?thesis unfolding signF32_nat
      using roundPackF32_overflow [of e s rm sg] s e by (cases sg) (auto split: if_splits)
  qed
  show ?thesis
  proof (cases "e < 0")
    case True
    have "s * 1 < 2 * 2 ^ 30 * 2 ^ nat (- e)" using assms(1) by (intro mult_less_le_imp_less) simp_all
    then have "shr_jam s (nat (- e)) < 2 ^ 31" using shr_jam_less [of s "nat (- e)" "2 ^ 30"] by simp
    with True assms show ?thesis by (simp add: roundPackF32_tiny *)
  next
    case False
    with assms show ?thesis by (intro *) simp_all
  qed
qed

text \<open>What a routine that ends in \<open>softfloat_roundPackToF32\<close> has to show.\<close>

lemma roundPackF32_correct:
  fixes sig rm :: u32 and sg :: bool
  assumes "agree 6 x (unat sig)" "0 \<le> x" "2 ^ 30 \<le> unat sig" "unat sig < 2 ^ 31" "- (2 ^ 15) \<le> e" "e < 2 ^ 15"
    and y: "y = x * 2 powi (e - 7)"
  defines "r \<equiv> fst (softfloat_roundPackToF32 rm sg e sig)"
  shows "signF32UI r = sg \<and> rounds 23 (255 * 2 ^ 23) rm sg y (unat r mod 2 ^ 31)"
proof -
  have n: "sig = of_nat (unat sig)" by simp
  have "rounds 23 (255 * 2 ^ 23) rm sg (x * 2 powi (e - int 7)) (roundPackF32_mag rm sg e (unat sig))"
    by (rule f32.rp_rounds) (use assms in simp_all)
  moreover have "signF32UI (fst (softfloat_roundPackToF32 rm sg e (of_nat (unat sig)))) = sg"
    using assms by (intro roundPackF32_sign)
  ultimately show ?thesis unfolding r_def y roundPackF32_mag_def n [symmetric] by simp
qed

text \<open>The last step: a significand below the leading bit is shifted up first.\<close>

lemma roundPackF32_normalised:
  fixes z rm :: u32 and sg :: bool
  assumes ag: "agree 1 x (unat z)" and x: "0 \<le> x" and z: "2 ^ 29 \<le> unat z" "unat z < 2 ^ 31"
    and e: "- 1000 \<le> e" "e < 2 ^ 14" and y: "y = x * 2 powi (e - 7)"
  defines "r \<equiv> fst (if z < 0x40000000 then softfloat_roundPackToF32 rm sg (e - 1) (push_bit 1 z)
      else softfloat_roundPackToF32 rm sg e z)"
  shows "signF32UI r = sg \<and> rounds 23 (255 * 2 ^ 23) rm sg y (unat r mod 2 ^ 31)"
proof (cases "z < 0x40000000")
  case True
  then have j: "unat z < 2 ^ 30" by (simp add: word_less_nat_alt)
  then have "unat (push_bit 1 z) = 2 * unat z" by (simp only: unat_push_bit) simp
  moreover have "agree 6 (2 * x) (2 * unat z)" using agree_double [OF ag] by (rule agree_coarser) simp
  moreover have "y = 2 * x * 2 powi (e - 1 - 7)" unfolding y by (simp add: power_int_diff)
  ultimately show ?thesis unfolding r_def using True e j z x
    by (simp only: if_True, intro roundPackF32_correct [where x = "2 * x"]) simp_all
next
  case False
  then have j: "2 ^ 30 \<le> unat z" by (simp add: word_less_nat_alt)
  have "agree 6 x (unat z)" using ag by (rule agree_coarser) simp
  then show ?thesis unfolding r_def using False e j z x
    by (simp only: if_False, intro roundPackF32_correct [OF _ _ _ _ _ _ y]) simp_all
qed

definition magF64 :: "u64 \<Rightarrow> nat" where
  "magF64 a = mag 52 (unat a mod 2 ^ 63)"

definition valF64 :: "u64 \<Rightarrow> real" where
  "valF64 a = (if signF64UI a then - real (magF64 a) else real (magF64 a))"

lemma expF64_nat: "expF64UI a = int (unat a mod 2 ^ 63 div 2 ^ 52)"
proof -
  have "(0x7FF :: u64) = mask 11" by (simp add: mask_eq_exp_minus_1)
  then show ?thesis using unat_field [of 52 a 11] unfolding expF64UI_def uint_nat by simp
qed

lemma fracF64_nat: "unat (fracF64UI a) = unat a mod 2 ^ 52"
  using unat_and_mask [of a 52] by (simp add: fracF64UI_def mask_eq_exp_minus_1)

lemma norm_operandF64_value:
  assumes "expF64UI a \<noteq> 0x7FF" "\<not> (expF64UI a = 0 \<and> fracF64UI a = 0)"
  obtains e sig where "norm_operandF64 (expF64UI a) (fracF64UI a) = (e, sig)" "- 51 \<le> e" "e \<le> 2046"
    "2 ^ 52 \<le> unat (sig OR 0x10000000000000)" "unat (sig OR 0x10000000000000) < 2 ^ 53"
    "real (magF64 a) = real (unat (sig OR 0x10000000000000)) * 2 powi (e - 1)"
proof (cases "expF64UI a = 0")
  case False
  define f where "f = unat (fracF64UI a)"
  define k where "k = unat a mod 2 ^ 63 div 2 ^ 52"
  have e: "expF64UI a = int k" unfolding k_def by (rule expF64_nat)
  have k: "1 \<le> k" "k \<le> 2046" using False assms(1) e unat_bound [of a]
    by (auto simp: k_def)
  have f: "f = unat a mod 2 ^ 63 mod 2 ^ 52" unfolding f_def fracF64_nat by (simp add: mod_mod_cancel)
  have "unat a mod 2 ^ 63 = k * 2 ^ 52 + f" unfolding f k_def by (simp only: div_mult_mod_eq)
  then have n: "unat a mod 2 ^ 63 = (k - 1) * 2 ^ 52 + (2 ^ 52 + f)" using k by (cases k) simp_all
  have "f < 2 ^ 52" unfolding f by simp
  then have "magF64 a = (2 ^ 52 + f) * 2 ^ (k - 1)" unfolding magF64_def n by (intro mag_pack) simp_all
  moreover have "unat (fracF64UI a OR 0x10000000000000) = 2 ^ 52 + f"
    using unat_or_lead [of 52 "fracF64UI a"] \<open>f < 2 ^ 52\<close> by (simp add: f_def)
  ultimately show ?thesis
    using that [of "expF64UI a" "fracF64UI a"] k \<open>f < 2 ^ 52\<close> False by (simp add: norm_operandF64_def e power_int_def nat_diff_distrib)
next
  case True
  then have f0: "fracF64UI a \<noteq> 0" using assms(2) by simp
  define f where "f = unat (fracF64UI a)"
  define c where "c = softfloat_countLeadingZeros64 (fracF64UI a)"
  have c: "normal_shift 64 f c" unfolding f_def c_def by (rule clz64 [OF f0])
  have f: "f < 2 ^ 52" unfolding f_def fracF64_nat by simp
  have "unat a mod 2 ^ 63 < 2 ^ 52" using True unfolding expF64_nat by (simp add: div_eq_0_iff)
  then have "unat a mod 2 ^ 63 mod 2 ^ 52 = unat a mod 2 ^ 63" by (rule mod_less)
  then have "unat a mod 2 ^ 63 = f" unfolding f_def fracF64_nat by (simp add: mod_mod_cancel)
  then have m: "magF64 a = f" using f by (simp add: magF64_def mag_def)
  have c9: "12 \<le> c"
  proof (rule ccontr)
    assume "\<not> 12 \<le> c"
    then have "(2 :: nat) ^ nat c \<le> 2 ^ 11" using c by (intro power_increasing) (auto simp: normal_shift_def)
    then have "f * 2 ^ nat c < 2 ^ 52 * 2 ^ 11" using f by (intro mult_less_le_imp_less) auto
    with c show False by (simp add: normal_shift_def)
  qed
  define l where "l = nat (c - 11)"
  have l: "c = int (l + 11)" "1 \<le> l" using c9 by (simp_all add: l_def)
  have r: "f * 2 ^ (l + 11) = f * 2 ^ l * 2 ^ 11" by (simp add: power_add)
  have p: "2 ^ 52 \<le> f * 2 ^ l" "f * 2 ^ l < 2 ^ 53"
    using c unfolding normal_shift_def l nat_int r by simp_all
  define sig where "sig = push_bit l (fracF64UI a)"
  have u: "unat sig = f * 2 ^ l" using p unfolding sig_def unat_push_bit f_def [symmetric] by simp
  have "unat sig mod 2 ^ 52 = unat sig - 2 ^ 52" using p u by (simp add: le_mod_geq)
  then have s: "unat (sig OR 0x10000000000000) = f * 2 ^ l" using unat_or_lead [of 52 sig] p u by simp
  have n: "norm_operandF64 (expF64UI a) (fracF64UI a) = (1 - int l, sig)"
    using True by (simp add: norm_operandF64_def softfloat_normSubnormalF64Sig_def Let_def sig_def l flip: c_def)
  have "l \<le> 52" using normal_shift_bound [OF c] l by simp
  then show ?thesis
    using that [OF n] p s l m by (simp add: power_int_minus field_simps)
qed

lemma magF64_zero: "expF64UI a = 0 \<and> fracF64UI a = 0 \<Longrightarrow> magF64 a = 0"
proof -
  assume a: "expF64UI a = 0 \<and> fracF64UI a = 0"
  then have "unat a mod 2 ^ 63 < 2 ^ 52" unfolding expF64_nat by (simp add: div_eq_0_iff)
  then have "unat a mod 2 ^ 63 = unat a mod 2 ^ 63 mod 2 ^ 52" by (simp only: mod_less)
  also have "\<dots> = unat (fracF64UI a)" unfolding fracF64_nat by (simp add: mod_mod_cancel)
  finally show ?thesis using a by (simp add: magF64_def mag_def)
qed

lemma signF64_nat: "signF64UI a \<longleftrightarrow> 2 ^ 63 \<le> unat a"
proof -
  have "unat (drop_bit 63 a) = 0 \<longleftrightarrow> unat a < 2 ^ 63" by (simp only: unat_drop_bit) (simp add: div_eq_0_iff)
  then show ?thesis unfolding signF64UI_def by (simp only: unat_eq_0) (simp add: not_less)
qed

lemma roundPackF64_sign:
  assumes "s < 2 ^ 63" "- (2 ^ 15) \<le> e" "e < 2 ^ 15"
  shows "signF64UI (fst (softfloat_roundPackToF64 rm sg e (of_nat s))) = sg"
proof -
  have *: "signF64UI (fst (softfloat_roundPackToF64 rm sg e (of_nat s))) = sg"
    if s: "s < 2 ^ 63" and e: "0 \<le> e" "e < 2 ^ 15" for e s
  proof (cases "e + 2 < 2047 \<or> e + 2 = 2047 \<and> s + round_inc 10 rm sg < 2 ^ 63")
    case True
    have "round_sig 10 rm sg s \<le> 2 ^ 53" using s by (intro round_sig_bound) simp_all
    moreover have "nat e \<le> 2045" using True by auto
    ultimately have "(let t = round_sig 10 rm sg s in if t = 0 then 0 else nat e * 2 ^ 52 + t) < 2 ^ 63"
      unfolding Let_def by (auto intro: le_less_trans [OF add_mono [OF mult_le_mono1]])
    then show ?thesis unfolding signF64_nat
      using roundPackF64_normal [of e s rm sg] True s e by (cases sg) auto
  next
    case False
    then show ?thesis unfolding signF64_nat
      using roundPackF64_overflow [of e s rm sg] s e by (cases sg) (auto split: if_splits)
  qed
  show ?thesis
  proof (cases "e < 0")
    case True
    have "s * 1 < 2 * 2 ^ 62 * 2 ^ nat (- e)" using assms(1) by (intro mult_less_le_imp_less) simp_all
    then have "shr_jam s (nat (- e)) < 2 ^ 63" using shr_jam_less [of s "nat (- e)" "2 ^ 62"] by simp
    with True assms show ?thesis by (simp add: roundPackF64_tiny *)
  next
    case False
    with assms show ?thesis by (intro *) simp_all
  qed
qed

text \<open>What a routine that ends in \<open>softfloat_roundPackToF64\<close> has to show.\<close>

lemma roundPackF64_correct:
  fixes sig :: u64 and rm :: u32 and sg :: bool
  assumes "agree 9 x (unat sig)" "0 \<le> x" "2 ^ 62 \<le> unat sig" "unat sig < 2 ^ 63" "- (2 ^ 15) \<le> e" "e < 2 ^ 15"
    and y: "y = x * 2 powi (e - 10)"
  defines "r \<equiv> fst (softfloat_roundPackToF64 rm sg e sig)"
  shows "signF64UI r = sg \<and> rounds 52 (2047 * 2 ^ 52) rm sg y (unat r mod 2 ^ 63)"
proof -
  have n: "sig = of_nat (unat sig)" by simp
  have "rounds 52 (2047 * 2 ^ 52) rm sg (x * 2 powi (e - int 10)) (roundPackF64_mag rm sg e (unat sig))"
    by (rule f64.rp_rounds) (use assms in simp_all)
  moreover have "signF64UI (fst (softfloat_roundPackToF64 rm sg e (of_nat (unat sig)))) = sg"
    using assms by (intro roundPackF64_sign)
  ultimately show ?thesis unfolding r_def y roundPackF64_mag_def n [symmetric] by simp
qed

text \<open>The last step: a significand below the leading bit is shifted up first.\<close>

lemma roundPackF64_normalised:
  fixes z :: u64 and rm :: u32 and sg :: bool
  assumes ag: "agree 1 x (unat z)" and x: "0 \<le> x" and z: "2 ^ 61 \<le> unat z" "unat z < 2 ^ 63"
    and e: "- 2000 \<le> e" "e < 2 ^ 14" and y: "y = x * 2 powi (e - 10)"
  defines "r \<equiv> fst (if z < 0x4000000000000000 then softfloat_roundPackToF64 rm sg (e - 1) (push_bit 1 z)
      else softfloat_roundPackToF64 rm sg e z)"
  shows "signF64UI r = sg \<and> rounds 52 (2047 * 2 ^ 52) rm sg y (unat r mod 2 ^ 63)"
proof (cases "z < 0x4000000000000000")
  case True
  then have j: "unat z < 2 ^ 62" by (simp add: word_less_nat_alt)
  then have "unat (push_bit 1 z) = 2 * unat z" by (simp only: unat_push_bit) simp
  moreover have "agree 9 (2 * x) (2 * unat z)" using agree_double [OF ag] by (rule agree_coarser) simp
  moreover have "y = 2 * x * 2 powi (e - 1 - 10)" unfolding y by (simp add: power_int_diff)
  ultimately show ?thesis unfolding r_def using True e j z x
    by (simp only: if_True, intro roundPackF64_correct [where x = "2 * x"]) simp_all
next
  case False
  then have j: "2 ^ 62 \<le> unat z" by (simp add: word_less_nat_alt)
  have "agree 9 x (unat z)" using ag by (rule agree_coarser) simp
  then show ?thesis unfolding r_def using False e j z x
    by (simp only: if_False, intro roundPackF64_correct [OF _ _ _ _ _ _ y]) simp_all
qed

end
