(* ===== verification/Float_Mul.thy ===== *)
theory Float_Mul
  imports Float_Operand
begin

text \<open>
  Multiplication (\<open>f32_mul.c\<close>, \<open>f64_mul.c\<close>).  The product of the
  significands is exact except for a sticky bit below the bits the packing step
  rounds at, so the result is the correctly rounded product.
\<close>

section \<open>Multiplication\<close>

lemma unat_shortShift64RightJam:
  assumes "l < 64"
  shows "unat (softfloat_shortShift64RightJam a (of_nat l)) = shr_jam (unat a) l"
proof -
  have u: "unat (of_nat l :: u32) = l" using assms by (simp add: unat_of_nat take_bit_nat_eq_self)
  have "push_bit l 1 - 1 = (mask l :: u64)" by (simp add: mask_eq_exp_minus_1)
  moreover have "a AND mask l \<noteq> 0 \<longleftrightarrow> unat a mod 2 ^ l \<noteq> 0"
    using unat_and_mask [of a l] by (metis unat_eq_0)
  ultimately show ?thesis
    unfolding softfloat_shortShift64RightJam_def u unat_or_b2w unat_drop_bit shr_jam_def by simp
qed

text \<open>The significand of the product: exact but for the sticky bit.\<close>

lemma mulF32_significand:
  fixes sa sb :: u32
  assumes A: "2 ^ 23 \<le> unat sa" "unat sa < 2 ^ 24" and B: "2 ^ 23 \<le> unat sb" "unat sb < 2 ^ 24"
  defines "z \<equiv> ucast (softfloat_shortShift64RightJam (ucast (push_bit 7 sa) * ucast (push_bit 8 sb)) 32) :: u32"
  shows "agree 1 (real (unat sa * unat sb) / 2 ^ 17) (unat z)" "2 ^ 29 \<le> unat z" "unat z < 2 ^ 31"
proof -
  define P where "P = (ucast (push_bit 7 sa) * ucast (push_bit 8 sb) :: u64)"
  have "unat (push_bit 7 sa) = unat sa * 2 ^ 7" "unat (push_bit 8 sb) = unat sb * 2 ^ 8"
    using A B unfolding unat_push_bit by simp_all
  then have P: "unat P = unat sa * unat sb * 2 ^ 15" unfolding P_def unat_mul32 by simp
  have "2 ^ 23 * 2 ^ 23 \<le> unat sa * unat sb" using A(1) B(1) by (rule mult_le_mono)
  moreover have "unat sa * unat sb < 2 ^ 24 * 2 ^ 24" using A B by (intro mult_strict_mono') auto
  ultimately have Pb: "2 ^ 61 \<le> unat P" "unat P < 2 ^ 63" unfolding P by simp_all
  define j where "j = shr_jam (unat P) 32"
  have jb: "2 ^ 29 \<le> j" "j < 2 ^ 31"
    using Pb shr_jam_less [of "unat P" 32 "2 ^ 28"] shr_jam_less [of "unat P" 32 "2 ^ 30"] by (simp_all add: j_def)
  have z: "unat z = j"
    using unat_shortShift64RightJam [of 32 P] jb unfolding z_def P_def [symmetric] unat_lo32 by (simp add: j_def)
  have "real (unat sa * unat sb) / 2 ^ 17 = real (unat P) / 2 ^ 32" unfolding P by simp
  then show "agree 1 (real (unat sa * unat sb) / 2 ^ 17) (unat z)"
    unfolding z j_def by (simp only:) (rule agree_shr_jam [OF agree_of_nat [of 0]]; simp)
  show "2 ^ 29 \<le> unat z" "unat z < 2 ^ 31" using jb z by simp_all
qed

lemma f32_mul_rounds:
  fixes a b rm :: u32
  assumes a: "expF32UI a \<noteq> 0xFF" and b: "expF32UI b \<noteq> 0xFF"
  defines "sg \<equiv> signF32UI a \<noteq> signF32UI b" and "r \<equiv> fst (f32_mul rm a b)"
  shows "signF32UI r = sg
    \<and> rounds 23 (255 * 2 ^ 23) rm sg (real (magF32 a) * real (magF32 b) / 2 ^ 149) (unat r mod 2 ^ 31)"
proof (cases "expF32UI a = 0 \<and> fracF32UI a = 0 \<or> expF32UI b = 0 \<and> fracF32UI b = 0")
  case True
  have "r = packToF32UI sg 0 0" using True a b by (auto simp: r_def f32_mul_def sg_def Let_def)
  then have "unat r = of_bool sg * 2 ^ 31" using unat_packF32 [of 0 0 sg] by simp
  moreover have "real (magF32 a) * real (magF32 b) / 2 ^ 149 = 0" using True magF32_zero by auto
  ultimately show ?thesis using rounds_zero [of "255 * 2 ^ 23" 23 rm sg] by (simp only: signF32_nat) auto
next
  case False
  obtain ea sa where na: "norm_operandF32 (expF32UI a) (fracF32UI a) = (ea, sa)" and ea: "- 22 \<le> ea" "ea \<le> 254"
    and A: "2 ^ 23 \<le> unat (sa OR 0x800000)" "unat (sa OR 0x800000) < 2 ^ 24"
      "real (magF32 a) = real (unat (sa OR 0x800000)) * 2 powi (ea - 1)"
    using norm_operandF32_value [OF a] False by blast
  obtain eb sb where nb: "norm_operandF32 (expF32UI b) (fracF32UI b) = (eb, sb)" and eb: "- 22 \<le> eb" "eb \<le> 254"
    and B: "2 ^ 23 \<le> unat (sb OR 0x800000)" "unat (sb OR 0x800000) < 2 ^ 24"
      "real (magF32 b) = real (unat (sb OR 0x800000)) * 2 powi (eb - 1)"
    using norm_operandF32_value [OF b] False by blast
  let ?x = "real (unat (sa OR 0x800000) * unat (sb OR 0x800000)) / 2 ^ 17"
  let ?e = "ea + eb - 0x7F"
  define z where "z = (ucast (softfloat_shortShift64RightJam
      (ucast (push_bit 7 (sa OR 0x800000)) * ucast (push_bit 8 (sb OR 0x800000))) 32) :: u32)"
  have n: "\<not> (expF32UI a = 0 \<and> fracF32UI a = 0)" "\<not> (expF32UI b = 0 \<and> fracF32UI b = 0)" using False by simp_all
  have r: "r = fst (if z < 0x40000000 then softfloat_roundPackToF32 rm sg (?e - 1) (push_bit 1 z)
      else softfloat_roundPackToF32 rm sg ?e z)"
    unfolding r_def f32_mul_def Let_def
    by (simp only: a b n na nb if_False prod.case sg_def [symmetric] z_def [symmetric])
      (cases "z < 0x40000000"; simp only: if_True if_False prod.case)
  have "real (magF32 a) * real (magF32 b) / 2 ^ 149 = ?x * 2 powi (?e - 7)"
    unfolding A(3) B(3) by (simp add: power_int_diff power_int_add)
  moreover have "0 \<le> ?x" by (intro divide_nonneg_pos of_nat_0_le_iff) simp
  ultimately show ?thesis unfolding r
    using mulF32_significand [OF A(1,2) B(1,2), folded z_def] ea eb
    by (intro roundPackF32_normalised [where x = ?x]) simp_all
qed

lemma mulF64_significand:
  fixes sa sb :: u64
  assumes A: "2 ^ 52 \<le> unat sa" "unat sa < 2 ^ 53" and B: "2 ^ 52 \<le> unat sb" "unat sb < 2 ^ 53"
  defines "P \<equiv> softfloat_mul64To128 (push_bit 10 sa) (push_bit 11 sb)"
  defines "z \<equiv> u128_v64 P OR b2w (u128_v0 P \<noteq> 0)"
  shows "agree 1 (real (unat sa * unat sb) / 2 ^ 43) (unat z)" "2 ^ 61 \<le> unat z" "unat z < 2 ^ 63"
proof -
  have "unat (push_bit 10 sa) = unat sa * 2 ^ 10" "unat (push_bit 11 sb) = unat sb * 2 ^ 11"
    using A B unfolding unat_push_bit by simp_all
  then have P: "val128 P = unat sa * unat sb * 2 ^ 21" unfolding P_def mul64To128_exact by simp
  have "2 ^ 52 * 2 ^ 52 \<le> unat sa * unat sb" using A(1) B(1) by (rule mult_le_mono)
  moreover have "unat sa * unat sb < 2 ^ 53 * 2 ^ 53" using A B by (intro mult_strict_mono') auto
  ultimately have Pb: "2 ^ 125 \<le> val128 P" "val128 P < 2 ^ 127" unfolding P by simp_all
  define j where "j = shr_jam (val128 P) 64"
  have jb: "2 ^ 61 \<le> j" "j < 2 ^ 63"
    using Pb shr_jam_less [of "val128 P" 64 "2 ^ 60"] shr_jam_less [of "val128 P" 64 "2 ^ 62"] by (simp_all add: j_def)
  have lo: "unat (u128_v0 P) < 2 ^ 64" using unat_bound [of "u128_v0 P"] by simp
  have z: "unat z = j"
    unfolding z_def j_def unat_or_b2w shr_jam_def val128_def using lo by (simp add: unat_eq_0)
  have "real (unat sa * unat sb) / 2 ^ 43 = real (val128 P) / 2 ^ 64" unfolding P by simp
  then show "agree 1 (real (unat sa * unat sb) / 2 ^ 43) (unat z)"
    unfolding z j_def by (simp only:) (rule agree_shr_jam [OF agree_of_nat [of 0]]; simp)
  show "2 ^ 61 \<le> unat z" "unat z < 2 ^ 63" using jb z by simp_all
qed

lemma f64_mul_rounds:
  fixes a b :: u64 and rm :: u32
  assumes a: "expF64UI a \<noteq> 0x7FF" and b: "expF64UI b \<noteq> 0x7FF"
  defines "sg \<equiv> signF64UI a \<noteq> signF64UI b" and "r \<equiv> fst (f64_mul rm a b)"
  shows "signF64UI r = sg
    \<and> rounds 52 (2047 * 2 ^ 52) rm sg (real (magF64 a) * real (magF64 b) / 2 ^ 1074) (unat r mod 2 ^ 63)"
proof (cases "expF64UI a = 0 \<and> fracF64UI a = 0 \<or> expF64UI b = 0 \<and> fracF64UI b = 0")
  case True
  have "r = packToF64UI sg 0 0" using True a b by (auto simp: r_def f64_mul_def sg_def Let_def)
  then have "unat r = of_bool sg * 2 ^ 63" using unat_packF64 [of 0 0 sg] by simp
  moreover have "real (magF64 a) * real (magF64 b) / 2 ^ 1074 = 0" using True magF64_zero by auto
  ultimately show ?thesis using rounds_zero [of "2047 * 2 ^ 52" 52 rm sg] by (simp only: signF64_nat) auto
next
  case False
  obtain ea sa where na: "norm_operandF64 (expF64UI a) (fracF64UI a) = (ea, sa)" and ea: "- 51 \<le> ea" "ea \<le> 2046"
    and A: "2 ^ 52 \<le> unat (sa OR 0x10000000000000)" "unat (sa OR 0x10000000000000) < 2 ^ 53"
      "real (magF64 a) = real (unat (sa OR 0x10000000000000)) * 2 powi (ea - 1)"
    using norm_operandF64_value [OF a] False by blast
  obtain eb sb where nb: "norm_operandF64 (expF64UI b) (fracF64UI b) = (eb, sb)" and eb: "- 51 \<le> eb" "eb \<le> 2046"
    and B: "2 ^ 52 \<le> unat (sb OR 0x10000000000000)" "unat (sb OR 0x10000000000000) < 2 ^ 53"
      "real (magF64 b) = real (unat (sb OR 0x10000000000000)) * 2 powi (eb - 1)"
    using norm_operandF64_value [OF b] False by blast
  let ?x = "real (unat (sa OR 0x10000000000000) * unat (sb OR 0x10000000000000)) / 2 ^ 43"
  let ?e = "ea + eb - 0x3FF"
  define P where "P = softfloat_mul64To128 (push_bit 10 (sa OR 0x10000000000000)) (push_bit 11 (sb OR 0x10000000000000))"
  define z where "z = u128_v64 P OR b2w (u128_v0 P \<noteq> 0)"
  have n: "\<not> (expF64UI a = 0 \<and> fracF64UI a = 0)" "\<not> (expF64UI b = 0 \<and> fracF64UI b = 0)" using False by simp_all
  have r: "r = fst (if z < 0x4000000000000000 then softfloat_roundPackToF64 rm sg (?e - 1) (push_bit 1 z)
      else softfloat_roundPackToF64 rm sg ?e z)"
    unfolding r_def f64_mul_def Let_def
    by (simp only: a b n na nb if_False prod.case sg_def [symmetric] P_def [symmetric] z_def [symmetric])
      (cases "z < 0x4000000000000000"; simp only: if_True if_False prod.case)
  have "real (magF64 a) * real (magF64 b) / 2 ^ 1074 = ?x * 2 powi (?e - 10)"
    unfolding A(3) B(3) by (simp add: power_int_diff power_int_add)
  moreover have "0 \<le> ?x" by (intro divide_nonneg_pos of_nat_0_le_iff) simp
  ultimately show ?thesis unfolding r
    using mulF64_significand [OF A(1,2) B(1,2), folded P_def, folded z_def] ea eb
    by (intro roundPackF64_normalised [where x = ?x]) simp_all
qed

section \<open>Products are correctly rounded\<close>

text \<open>
  C13: for finite operands and every rounding mode, \<open>f32_mul\<close> returns the
  product of the two numbers correctly rounded: the sign is the exclusive or of
  the signs, and the rest is the encoding that the mode prescribes for the exact
  product of the magnitudes, subnormal results, ties and overflow included.
\<close>

theorem f32_mul_correctly_rounded:
  assumes "expF32UI a \<noteq> 0xFF" "expF32UI b \<noteq> 0xFF"
  shows "signF32UI (fst (f32_mul rm a b)) = (signF32UI a \<noteq> signF32UI b)
    \<and> rounds 23 (255 * 2 ^ 23) rm (signF32UI a \<noteq> signF32UI b)
        (real (magF32 a) * real (magF32 b) / 2 ^ 149) (unat (fst (f32_mul rm a b)) mod 2 ^ 31)"
  using f32_mul_rounds [OF assms] by simp

theorem f32_mul_correctly_rounded_witness:
  "signF32UI (fst (f32_mul 2 0x80000001 0x3F000000))
    \<and> rounds 23 (255 * 2 ^ 23) 2 True (real (magF32 0x80000001) * real (magF32 0x3F000000) / 2 ^ 149)
        (unat (fst (f32_mul 2 0x80000001 0x3F000000)) mod 2 ^ 31)"
proof -
  have "expF32UI 0x80000001 \<noteq> 0xFF" "expF32UI 0x3F000000 \<noteq> 0xFF" "signF32UI 0x80000001" "\<not> signF32UI 0x3F000000"
    by code_simp+
  then show ?thesis using f32_mul_correctly_rounded [of "0x80000001" "0x3F000000" 2] by simp
qed

text \<open>
  C14: for finite operands and every rounding mode, \<open>f64_mul\<close> returns the
  product of the two numbers correctly rounded: the sign is the exclusive or of
  the signs, and the rest is the encoding that the mode prescribes for the exact
  product of the magnitudes, subnormal results, ties and overflow included.
\<close>

theorem f64_mul_correctly_rounded:
  assumes "expF64UI a \<noteq> 0x7FF" "expF64UI b \<noteq> 0x7FF"
  shows "signF64UI (fst (f64_mul rm a b)) = (signF64UI a \<noteq> signF64UI b)
    \<and> rounds 52 (2047 * 2 ^ 52) rm (signF64UI a \<noteq> signF64UI b)
        (real (magF64 a) * real (magF64 b) / 2 ^ 1074) (unat (fst (f64_mul rm a b)) mod 2 ^ 63)"
  using f64_mul_rounds [OF assms] by simp

theorem f64_mul_correctly_rounded_witness:
  "signF64UI (fst (f64_mul 2 0x8000000000000001 0x3FE0000000000000))
    \<and> rounds 52 (2047 * 2 ^ 52) 2 True (real (magF64 0x8000000000000001) * real (magF64 0x3FE0000000000000) / 2 ^ 1074)
        (unat (fst (f64_mul 2 0x8000000000000001 0x3FE0000000000000)) mod 2 ^ 63)"
proof -
  have "expF64UI 0x8000000000000001 \<noteq> 0x7FF" "expF64UI 0x3FE0000000000000 \<noteq> 0x7FF" "signF64UI 0x8000000000000001" "\<not> signF64UI 0x3FE0000000000000"
    by code_simp+
  then show ?thesis using f64_mul_correctly_rounded [of "0x8000000000000001" "0x3FE0000000000000" 2] by simp
qed

end
