(* ===== verification/Float_Div.thy ===== *)
theory Float_Div
  imports Float_Operand
begin

text \<open>
  Division (\<open>f32_div.c\<close>, \<open>f64_div.c\<close>).  The single-precision routine divides
  and keeps the remainder in a sticky bit only where the quotient's low bits are
  zero; the double-precision one starts from \<open>softfloat_estimateDiv128To64\<close> and
  corrects the estimate only where it could cross a rounding boundary.  Both
  hand the packing step a significand that agrees with the exact quotient.
\<close>

section \<open>Quotients\<close>

lemma agree_between:
  assumes "real (c * 2 ^ j) < x" "x < real (Suc c * 2 ^ j)" "c * 2 ^ j < s" "s < Suc c * 2 ^ j"
  shows "agree j x s"
  unfolding agree_def
proof
  fix k :: nat
  consider "k \<le> c" | "Suc c \<le> k" by linarith
  then show "(x < real (k * 2 ^ j) \<longleftrightarrow> s < k * 2 ^ j) \<and> (x = real (k * 2 ^ j) \<longleftrightarrow> s = k * 2 ^ j)"
  proof cases
    case 1
    then have "k * 2 ^ j \<le> c * 2 ^ j" by simp
    then have "real (k * 2 ^ j) \<le> real (c * 2 ^ j)" by (simp only: of_nat_le_iff)
    with assms \<open>k * 2 ^ j \<le> c * 2 ^ j\<close> show ?thesis by linarith
  next
    case 2
    then have "Suc c * 2 ^ j \<le> k * 2 ^ j" by (rule mult_le_mono1)
    then have "real (Suc c * 2 ^ j) \<le> real (k * 2 ^ j)" by (simp only: of_nat_le_iff)
    with assms \<open>Suc c * 2 ^ j \<le> k * 2 ^ j\<close> show ?thesis by linarith
  qed
qed

text \<open>A quotient that keeps the remainder in a sticky bit.\<close>

lemma agree_div:
  assumes d: "0 < d"
  shows "agree 1 (real n / real d) (n div d + of_bool (n mod d \<noteq> 0 \<and> even (n div d)))"
  unfolding agree_def
proof
  fix k :: nat
  have n: "n = n div d * d + n mod d" by simp
  have "real n / real d < real (k * 2 ^ 1) \<longleftrightarrow> real n < real (2 * k * d)"
    "real n / real d = real (k * 2 ^ 1) \<longleftrightarrow> real n = real (2 * k * d)"
    using d by (simp_all add: field_simps)
  then have r: "real n / real d < real (k * 2 ^ 1) \<longleftrightarrow> n < 2 * k * d" "real n / real d = real (k * 2 ^ 1) \<longleftrightarrow> n = 2 * k * d"
    by (simp_all only: of_nat_less_iff of_nat_eq_iff)
  have l: "n < 2 * k * d \<longleftrightarrow> n div d < 2 * k" using d by (simp add: div_less_iff_less_mult)
  have e: "n = 2 * k * d \<longleftrightarrow> n div d = 2 * k \<and> n mod d = 0"
    using d by (metis mod_mult_self2_is_0 mult.commute n add.right_neutral nonzero_mult_div_cancel_right neq0_conv)
  have "even t \<Longrightarrow> (t < 2 * k) = (Suc t < k * 2) \<and> Suc t \<noteq> k * 2" "odd t \<Longrightarrow> t \<noteq> k * 2" for t
    by presburger+
  then show "(real n / real d < real (k * 2 ^ 1) \<longleftrightarrow> n div d + of_bool (n mod d \<noteq> 0 \<and> even (n div d)) < k * 2 ^ 1) \<and>
      (real n / real d = real (k * 2 ^ 1) \<longleftrightarrow> n div d + of_bool (n mod d \<noteq> 0 \<and> even (n div d)) = k * 2 ^ 1)"
    unfolding r l e by (cases "n mod d = 0"; cases "even (n div d)") (simp_all add: mult.commute)
qed

text \<open>An estimate \<open>z\<close> that is in the same block as the quotient agrees with it.\<close>

lemma agree_estimate:
  assumes d: "0 < d" and z: "n div d \<le> z" "z \<le> n div d + k" "k < z mod 2 ^ j"
  shows "agree j (real n / real d) z"
proof (rule agree_between [where c = "z div 2 ^ j"])
  have z': "z = z div 2 ^ j * 2 ^ j + z mod 2 ^ j" by (simp only: div_mult_mod_eq)
  have b: "z mod 2 ^ j < 2 ^ j" by simp
  have q: "Suc (z div 2 ^ j * 2 ^ j) \<le> n div d" using z z' by linarith
  have "real (z div 2 ^ j * 2 ^ j) < real (n div d)" using q by (simp only: of_nat_less_iff Suc_le_eq)
  also have "\<dots> \<le> real n / real d" by (rule of_nat_div_le_of_nat)
  finally show "real (z div 2 ^ j * 2 ^ j) < real n / real d" .
  show "z div 2 ^ j * 2 ^ j < z" using q z by linarith
  show u: "z < Suc (z div 2 ^ j) * 2 ^ j" using z' b unfolding mult_Suc by linarith
  have "n < Suc (n div d) * d" using d by (simp add: dividend_less_div_times)
  then have "real n < real (Suc (n div d) * d)" by (simp only: of_nat_less_iff)
  then have "real n / real d < real (Suc (n div d))" using d by (simp add: pos_divide_less_eq distrib_right)
  also have "\<dots> \<le> real (Suc (z div 2 ^ j) * 2 ^ j)" using u z(1) by (simp only: of_nat_le_iff Suc_le_eq)
  finally show "real n / real d < real (Suc (z div 2 ^ j) * 2 ^ j)" .
qed


text \<open>The quotient of two significands, scaled so that its leading bit is at a fixed place.\<close>

lemma quotient_range:
  fixes a b w :: nat
  assumes A: "2 ^ p \<le> a" "a < 2 * 2 ^ p" and B: "2 ^ p \<le> b" "b < 2 * 2 ^ p"
  defines "n \<equiv> (if b \<le> a then a else 2 * a) * 2 ^ w"
  shows "2 ^ w \<le> n div b" "n div b < 2 * 2 ^ w" "real (2 ^ w) \<le> real n / real b" "real n / real b < real (2 * 2 ^ w)"
proof -
  have b: "0 < b" using B by (metis gr_zeroI not_less power_eq_0_iff zero_less_numeral zero_neq_numeral le_zero_eq)
  have "b \<le> (if b \<le> a then a else 2 * a)" "(if b \<le> a then a else 2 * a) < 2 * b"
    using A B by auto
  then have n: "2 ^ w * b \<le> n" "n < 2 * 2 ^ w * b" unfolding n_def by (simp_all add: mult.commute)
  then have "real (2 ^ w * b) \<le> real n" "real n < real (2 * 2 ^ w * b)" by (simp_all only: of_nat_less_iff of_nat_le_iff)
  then show "real (2 ^ w) \<le> real n / real b" "real n / real b < real (2 * 2 ^ w)"
    using b by (simp_all add: pos_le_divide_eq pos_divide_less_eq)
  show "2 ^ w \<le> n div b" "n div b < 2 * 2 ^ w"
    using b n by (simp_all add: less_eq_div_iff_mult_less_eq div_less_iff_less_mult)
qed

lemma divF32_operands:
  fixes sa sb :: u32
  assumes A: "2 ^ 23 \<le> unat sa" "unat sa < 2 ^ 24" and B: "2 ^ 23 \<le> unat sb" "unat sb < 2 ^ 24"
  shows "push_bit 8 sb \<le> push_bit 7 sa + push_bit 7 sa \<longleftrightarrow> sb \<le> sa" "unat (push_bit 8 sb) = unat sb * 2 ^ 8"
    "unat (if sb \<le> sa then drop_bit 1 (push_bit 7 sa) else push_bit 7 sa) = (if sb \<le> sa then unat sa else 2 * unat sa) * 2 ^ 6"
proof -
  have a: "unat (push_bit 7 sa) = unat sa * 2 ^ 7" and b: "unat (push_bit 8 sb) = unat sb * 2 ^ 8"
    using A B unfolding unat_push_bit by simp_all
  have "unat (push_bit 7 sa + push_bit 7 sa) = unat sa * 2 ^ 8"
    using A(2) unfolding unat_word_ariths a by simp
  then show "push_bit 8 sb \<le> push_bit 7 sa + push_bit 7 sa \<longleftrightarrow> sb \<le> sa" by (simp only: word_le_nat_alt b) simp
  show "unat (push_bit 8 sb) = unat sb * 2 ^ 8" by (rule b)
  have "unat (drop_bit 1 (push_bit 7 sa)) = unat sa * 2 ^ 6" unfolding unat_drop_bit a by simp
  with a show "unat (if sb \<le> sa then drop_bit 1 (push_bit 7 sa) else push_bit 7 sa) = (if sb \<le> sa then unat sa else 2 * unat sa) * 2 ^ 6"
    by simp
qed

lemma divF32_significand:
  fixes sa sb :: u32
  assumes A: "2 ^ 23 \<le> unat sa" "unat sa < 2 ^ 24" and B: "2 ^ 23 \<le> unat sb" "unat sb < 2 ^ 24"
  defines "u \<equiv> (if sb \<le> sa then drop_bit 1 (push_bit 7 sa) else push_bit 7 sa)"
  defines "q \<equiv> ucast (push_bit 32 (ucast u :: u64) div ucast (push_bit 8 sb)) :: u32"
  defines "z \<equiv> (if q AND 0x3F = 0 then q OR b2w (ucast (push_bit 8 sb) * ucast q \<noteq> push_bit 32 (ucast u :: u64)) else q)"
  shows "agree 6 (real ((if sb \<le> sa then unat sa else 2 * unat sa) * 2 ^ 30) / real (unat sb)) (unat z)"
    "2 ^ 30 \<le> unat z" "unat z < 2 ^ 31"
proof -
  let ?a = "if sb \<le> sa then unat sa else 2 * unat sa"
  define n where "n = ?a * 2 ^ 30"
  have b0: "0 < unat sb" using B(1) by simp
  have U: "unat u = ?a * 2 ^ 6" unfolding u_def by (rule divF32_operands(3) [OF A B])
  have S: "unat (push_bit 8 sb) = unat sb * 2 ^ 8" by (rule divF32_operands(2) [OF A B])
  have V: "unat (push_bit 32 (ucast u :: u64)) = n * 2 ^ 8"
    using unat_bound [of u] unfolding unat_push_bit unat_zext U n_def by simp
  have r: "2 ^ 30 \<le> n div unat sb" "n div unat sb < 2 ^ 31"
    using quotient_range [of 23 "unat sa" "unat sb" 30] A B by (simp_all add: word_le_nat_alt n_def)
  have "unat (push_bit 32 (ucast u :: u64)) div unat (ucast (push_bit 8 sb) :: u64) = n div unat sb"
    unfolding V unat_zext S by (rule div_mult_mult2) simp
  then have Q: "unat q = n div unat sb"
    using r unfolding q_def unat_lo32 unat_div_distrib by (simp only:) (rule mod_less, simp)
  have X: "ucast (push_bit 8 sb) * ucast q \<noteq> push_bit 32 (ucast u :: u64) \<longleftrightarrow> n mod unat sb \<noteq> 0"
  proof -
    have "unat (ucast (push_bit 8 sb) * ucast q :: u64) = unat sb * (n div unat sb) * 2 ^ 8"
      unfolding unat_mul32 S Q by simp
    then have "ucast (push_bit 8 sb) * ucast q = push_bit 32 (ucast u :: u64) \<longleftrightarrow> unat sb * (n div unat sb) = n"
      unfolding word_unat_eq_iff V by simp
    also have "\<dots> \<longleftrightarrow> n mod unat sb = 0" by (metis add.right_neutral add_left_cancel mult_div_mod_eq)
    finally show ?thesis by simp
  qed
  have ag: "agree 6 (real n / real (unat sb)) (unat z)"
  proof (cases "q AND 0x3F = 0")
    case True
    have "unat z = n div unat sb + of_bool (n mod unat sb \<noteq> 0 \<and> even (n div unat sb))"
      by (simp only: z_def X if_P [OF True] unat_or_b2w Q)
    then show ?thesis using agree_coarser [OF agree_div [OF b0, of n], of 6] by simp
  next
    case False
    have "unat (q AND mask 6) = unat q mod 2 ^ 6" by (rule unat_and_mask)
    moreover have "(0x3F :: u32) = mask 6" by (simp add: mask_eq_exp_minus_1)
    ultimately have "0 < unat q mod 2 ^ 6" using False by (simp only: unat_eq_0 [symmetric])
    then show ?thesis using False agree_estimate [OF b0, of n "unat q" 0 6] Q by (simp add: z_def)
  qed
  have "real (2 ^ 24 * 2 ^ 6) \<le> real n / real (unat sb)" "real n / real (unat sb) < real (2 ^ 25 * 2 ^ 6)"
    using quotient_range [of 23 "unat sa" "unat sb" 30] A B by (simp_all add: word_le_nat_alt n_def)
  then show "2 ^ 30 \<le> unat z" "unat z < 2 ^ 31" unfolding agreeD [OF ag] by simp_all
  show "agree 6 (real (?a * 2 ^ 30) / real (unat sb)) (unat z)" using ag unfolding n_def .
qed


text \<open>The loop of \<open>f64_div\<close> takes back an estimate which is up to two too large.\<close>

lemma divF64_loop_back:
  assumes "k \<le> 2" and r: "r < unat b" and "(val128 rmd + k * unat b) mod 2 ^ 128 = r"
  shows "\<exists>rmd'. divF64_loop b z rmd = Some (z - of_nat k, rmd') \<and> val128 rmd' = r"
  using assms(1,3)
proof (induction k arbitrary: z rmd)
  case 0
  have "unat b \<le> 2 ^ 96" using unat_bound [of b] by simp
  note * = remainder_sign [OF this 0(1) r 0(2)]
  then show ?case by (subst divF64_loop.simps) simp
next
  case (Suc k)
  have "unat b \<le> 2 ^ 96" using unat_bound [of b] by simp
  note * = remainder_sign [OF this Suc(2) r Suc(3)]
  let ?rmd = "softfloat_add128 (u128_v64 rmd) (u128_v0 rmd) 0 b"
  have "(val128 ?rmd + k * unat b) mod 2 ^ 128 = (val128 rmd + unat b + k * unat b) mod 2 ^ 128"
    using add128_exact [of "u128_v64 rmd" "u128_v0 rmd" 0 b]
    unfolding val128_def [of rmd, symmetric] by (simp only: mod_add_left_eq unat_0) simp
  also have "\<dots> = r" using Suc(3) by (simp add: algebra_simps)
  finally have "\<exists>rmd'. divF64_loop b (z - 1) ?rmd = Some (z - 1 - of_nat k, rmd') \<and> val128 rmd' = r"
    using Suc(2) by (intro Suc.IH) simp_all
  then show ?case using *(1) by (subst divF64_loop.simps) (simp add: algebra_simps)
qed

lemma divF64_operands:
  fixes sa sb :: u64
  assumes A: "2 ^ 52 \<le> unat sa" "unat sa < 2 ^ 53" and B: "2 ^ 52 \<le> unat sb" "unat sb < 2 ^ 53"
  shows "push_bit 11 sb \<le> push_bit 10 sa + push_bit 10 sa \<longleftrightarrow> sb \<le> sa" "unat (push_bit 11 sb) = unat sb * 2 ^ 11"
    "unat (if sb \<le> sa then drop_bit 1 (push_bit 10 sa) else push_bit 10 sa) = (if sb \<le> sa then unat sa else 2 * unat sa) * 2 ^ 9"
proof -
  have a: "unat (push_bit 10 sa) = unat sa * 2 ^ 10" and b: "unat (push_bit 11 sb) = unat sb * 2 ^ 11"
    using A B unfolding unat_push_bit by simp_all
  have "unat (push_bit 10 sa + push_bit 10 sa) = unat sa * 2 ^ 11"
    using A(2) unfolding unat_word_ariths a by simp
  then show "push_bit 11 sb \<le> push_bit 10 sa + push_bit 10 sa \<longleftrightarrow> sb \<le> sa" by (simp only: word_le_nat_alt b) simp
  show "unat (push_bit 11 sb) = unat sb * 2 ^ 11" by (rule b)
  have "unat (drop_bit 1 (push_bit 10 sa)) = unat sa * 2 ^ 9" unfolding unat_drop_bit a by simp
  with a show "unat (if sb \<le> sa then drop_bit 1 (push_bit 10 sa) else push_bit 10 sa) = (if sb \<le> sa then unat sa else 2 * unat sa) * 2 ^ 9"
    by simp
qed

lemma divF64_significand:
  fixes sa sb :: u64
  assumes A: "2 ^ 52 \<le> unat sa" "unat sa < 2 ^ 53" and B: "2 ^ 52 \<le> unat sb" "unat sb < 2 ^ 53"
  defines "u \<equiv> (if sb \<le> sa then drop_bit 1 (push_bit 10 sa) else push_bit 10 sa)" and "v \<equiv> push_bit 11 sb"
  shows "\<exists>z. do { q \<leftarrow> softfloat_estimateDiv128To64 u 0 v;
      (if q AND 0x1FF \<le> 2
       then do {
         let trm = softfloat_mul64To128 v q;
         let rmd = softfloat_sub128 u 0 (u128_v64 trm) (u128_v0 trm);
         (q, rmd) \<leftarrow> divF64_loop v q rmd;
         Some (q OR b2w (u128_v0 rmd \<noteq> 0)) }
       else Some q) } = Some z
    \<and> agree 9 (real ((if sb \<le> sa then unat sa else 2 * unat sa) * 2 ^ 62) / real (unat sb)) (unat z)"
proof -
  let ?a = "if sb \<le> sa then unat sa else 2 * unat sa"
  define n where "n = unat u * 2 ^ 64"
  have U: "unat u = ?a * 2 ^ 9" unfolding u_def by (rule divF64_operands(3) [OF A B])
  have V: "unat v = unat sb * 2 ^ 11" unfolding v_def by (rule divF64_operands(2) [OF A B])
  have v: "2 ^ 63 \<le> unat v" "0 < unat v" using B V by simp_all
  have x: "real (?a * 2 ^ 62) / real (unat sb) = real n / real (unat v)" unfolding n_def U V by simp
  have "u < v" using A B unfolding word_less_nat_alt U V by (simp add: word_le_nat_alt)
  from estimateDiv128To64_bounds [OF v(1) this, of 0] obtain q k where
    q: "softfloat_estimateDiv128To64 u 0 v = Some q" "unat q = n div unat v + k" "k \<le> 2"
    unfolding n_def by (simp only: unat_0 add_0_right) (metis le_Suc_ex add_le_cancel_left)
  show ?thesis
  proof (cases "q AND 0x1FF \<le> 2")
    case True
    define trm where "trm = softfloat_mul64To128 v q"
    define rmd where "rmd = softfloat_sub128 u 0 (u128_v64 trm) (u128_v0 trm)"
    have "(val128 rmd + (k * unat v + n div unat v * unat v)) mod 2 ^ 128 = n"
      using sub128_exact [of u 0 "u128_v64 trm" "u128_v0 trm"]
      unfolding rmd_def [symmetric] val128_def [of trm, symmetric] n_def [symmetric]
      by (simp add: trm_def mul64To128_exact q(2) algebra_simps)
    then have "(val128 rmd + k * unat v) mod 2 ^ 128 = n mod unat v"
      using mod_shift [of "val128 rmd + k * unat v" "n div unat v * unat v" "2 ^ 128" n]
      by (simp add: add.assoc minus_div_mult_eq_mod)
    moreover have r: "n mod unat v < unat v" using v by simp
    ultimately obtain rmd' where l: "divF64_loop v q rmd = Some (q - of_nat k, rmd')" "val128 rmd' = n mod unat v"
      using divF64_loop_back [OF q(3)] by blast
    have "unat v < 2 ^ 64" using unat_bound [of v] by simp
    then have "unat (u128_v0 rmd') = n mod unat v" using l(2) r unfolding val128_def by (cases "unat (u128_v64 rmd')") simp_all
    then have "u128_v0 rmd' \<noteq> 0 \<longleftrightarrow> n mod unat v \<noteq> 0" by (simp only: unat_eq_0 [symmetric])
    moreover have "unat (q - of_nat k) = n div unat v"
      using q(2,3) by (simp add: unat_sub_if' unat_of_nat)
    ultimately have "unat ((q - of_nat k) OR b2w (u128_v0 rmd' \<noteq> 0)) = n div unat v + of_bool (n mod unat v \<noteq> 0 \<and> even (n div unat v))"
      by (simp only: unat_or_b2w)
    then have "agree 9 (real n / real (unat v)) (unat ((q - of_nat k) OR b2w (u128_v0 rmd' \<noteq> 0)))"
      using agree_coarser [OF agree_div [OF v(2), of n], of 9] by simp
    then show ?thesis unfolding x using True q(1) l(1) by (simp add: trm_def rmd_def)
  next
    case False
    have "unat (q AND mask 9) = unat q mod 2 ^ 9" by (rule unat_and_mask)
    moreover have "(0x1FF :: u64) = mask 9" by (simp add: mask_eq_exp_minus_1)
    ultimately have "2 < unat q mod 2 ^ 9" using False by (simp add: word_le_nat_alt)
    then have "agree 9 (real n / real (unat v)) (unat q)" using v q by (intro agree_estimate [where k = 2]) simp_all
    then show ?thesis unfolding x using False q(1) by simp
  qed
qed

section \<open>Division\<close>

lemma f32_div_rounds:
  fixes a b rm :: u32
  assumes a: "expF32UI a \<noteq> 0xFF" and b: "expF32UI b \<noteq> 0xFF" and b0: "magF32 b \<noteq> 0"
  defines "sg \<equiv> signF32UI a \<noteq> signF32UI b" and "r \<equiv> fst (f32_div rm a b)"
  shows "signF32UI r = sg
    \<and> rounds 23 (255 * 2 ^ 23) rm sg (real (magF32 a) / real (magF32 b) * 2 ^ 149) (unat r mod 2 ^ 31)"
proof (cases "expF32UI a = 0 \<and> fracF32UI a = 0")
  case True
  have nb: "\<not> (expF32UI b = 0 \<and> fracF32UI b = 0)" using b0 magF32_zero [of b] by (rule contrapos_nn)
  have "r = packToF32UI sg 0 0" 
    unfolding r_def f32_div_def Let_def sg_def by (simp only: a b nb True if_False if_True simp_thms) simp
  then have "unat r = of_bool sg * 2 ^ 31" using unat_packF32 [of 0 0 sg] by simp
  moreover have "real (magF32 a) / real (magF32 b) * 2 ^ 149 = 0" using True magF32_zero by simp
  ultimately show ?thesis using rounds_zero [of "255 * 2 ^ 23" 23 rm sg] by (simp only: signF32_nat) auto
next
  case False
  have n: "\<not> (expF32UI b = 0 \<and> fracF32UI b = 0)" using b0 magF32_zero [of b] by (rule contrapos_nn)
  obtain ea sa where na: "norm_operandF32 (expF32UI a) (fracF32UI a) = (ea, sa)" and ea: "- 22 \<le> ea" "ea \<le> 254"
    and A: "2 ^ 23 \<le> unat (sa OR 0x800000)" "unat (sa OR 0x800000) < 2 ^ 24"
      "real (magF32 a) = real (unat (sa OR 0x800000)) * 2 powi (ea - 1)"
    using norm_operandF32_value [OF a False] by blast
  obtain eb sb where nb: "norm_operandF32 (expF32UI b) (fracF32UI b) = (eb, sb)" and eb: "- 22 \<le> eb" "eb \<le> 254"
    and B: "2 ^ 23 \<le> unat (sb OR 0x800000)" "unat (sb OR 0x800000) < 2 ^ 24"
      "real (magF32 b) = real (unat (sb OR 0x800000)) * 2 powi (eb - 1)"
    using norm_operandF32_value [OF b n] by blast
  define c where "c \<longleftrightarrow> sb OR 0x800000 \<le> sa OR 0x800000"
  define u where "u = (if c then drop_bit 1 (push_bit 7 (sa OR 0x800000)) else push_bit 7 (sa OR 0x800000))"
  define q where "q = (ucast (push_bit 32 (ucast u :: u64) div ucast (push_bit 8 (sb OR 0x800000))) :: u32)"
  define z where "z = (if q AND 0x3F = 0 then q OR b2w (ucast (push_bit 8 (sb OR 0x800000)) * ucast q \<noteq> push_bit 32 (ucast u :: u64)) else q)"
  define e where "e = (if c then ea - eb + 0x7D + 1 else ea - eb + 0x7D)"
  let ?x = "real ((if c then unat (sa OR 0x800000) else 2 * unat (sa OR 0x800000)) * 2 ^ 30) / real (unat (sb OR 0x800000))"
  have r: "r = fst (softfloat_roundPackToF32 rm sg e z)"
    unfolding r_def f32_div_def Let_def
    by (simp only: a b n False na nb if_False prod.case sg_def [symmetric] divF32_operands(1) [OF A(1,2) B(1,2)] c_def [symmetric])
      (cases c; simp only: if_True if_False prod.case u_def q_def z_def e_def)
  have "unat (sb OR 0x800000) \<noteq> 0" using B(1) by simp
  then have "real (magF32 a) / real (magF32 b) * 2 ^ 149 = ?x * 2 powi (e - 7)"
    unfolding A(3) B(3) e_def by (cases c) (simp_all add: power_int_diff power_int_add field_simps)
  moreover have "0 \<le> ?x" by (intro divide_nonneg_nonneg of_nat_0_le_iff)
  ultimately show ?thesis unfolding r
    using divF32_significand [OF A(1,2) B(1,2), folded c_def, folded u_def, folded q_def, folded z_def] ea eb
    by (intro roundPackF32_correct [where x = ?x]) (simp_all add: e_def)
qed

lemma f64_div_rounds:
  fixes a b :: u64 and rm :: u32
  assumes a: "expF64UI a \<noteq> 0x7FF" and b: "expF64UI b \<noteq> 0x7FF" and b0: "magF64 b \<noteq> 0"
  defines "sg \<equiv> signF64UI a \<noteq> signF64UI b"
  shows "\<exists>r fl. f64_div rm a b = Some (r, fl) \<and> signF64UI r = sg
    \<and> rounds 52 (2047 * 2 ^ 52) rm sg (real (magF64 a) / real (magF64 b) * 2 ^ 1074) (unat r mod 2 ^ 63)"
proof (cases "expF64UI a = 0 \<and> fracF64UI a = 0")
  case True
  have nb: "\<not> (expF64UI b = 0 \<and> fracF64UI b = 0)" using b0 magF64_zero [of b] by (rule contrapos_nn)
  have r: "f64_div rm a b = Some (packToF64UI sg 0 0, 0)"
    unfolding f64_div_def Let_def sg_def by (simp only: a b nb True if_False if_True simp_thms) simp
  have "unat (packToF64UI sg 0 0) = of_bool sg * 2 ^ 63" using unat_packF64 [of 0 0 sg] by simp
  moreover have "real (magF64 a) / real (magF64 b) * 2 ^ 1074 = 0" using True magF64_zero by simp
  ultimately have "signF64UI (packToF64UI sg 0 0) = sg \<and> rounds 52 (2047 * 2 ^ 52) rm sg
      (real (magF64 a) / real (magF64 b) * 2 ^ 1074) (unat (packToF64UI sg 0 0) mod 2 ^ 63)"
    using rounds_zero [of "2047 * 2 ^ 52" 52 rm sg] by (simp only: signF64_nat) auto
  with r show ?thesis by blast
next
  case False
  have n: "\<not> (expF64UI b = 0 \<and> fracF64UI b = 0)" using b0 magF64_zero [of b] by (rule contrapos_nn)
  obtain ea sa where na: "norm_operandF64 (expF64UI a) (fracF64UI a) = (ea, sa)" and ea: "- 51 \<le> ea" "ea \<le> 2046"
    and A: "2 ^ 52 \<le> unat (sa OR 0x10000000000000)" "unat (sa OR 0x10000000000000) < 2 ^ 53"
      "real (magF64 a) = real (unat (sa OR 0x10000000000000)) * 2 powi (ea - 1)"
    using norm_operandF64_value [OF a False] by blast
  obtain eb sb where nb: "norm_operandF64 (expF64UI b) (fracF64UI b) = (eb, sb)" and eb: "- 51 \<le> eb" "eb \<le> 2046"
    and B: "2 ^ 52 \<le> unat (sb OR 0x10000000000000)" "unat (sb OR 0x10000000000000) < 2 ^ 53"
      "real (magF64 b) = real (unat (sb OR 0x10000000000000)) * 2 powi (eb - 1)"
    using norm_operandF64_value [OF b n] by blast
  define c where "c \<longleftrightarrow> sb OR 0x10000000000000 \<le> sa OR 0x10000000000000"
  define u where "u = (if c then drop_bit 1 (push_bit 10 (sa OR 0x10000000000000)) else push_bit 10 (sa OR 0x10000000000000))"
  define e where "e = (if c then ea - eb + 0x3FD + 1 else ea - eb + 0x3FD)"
  let ?x = "real ((if c then unat (sa OR 0x10000000000000) else 2 * unat (sa OR 0x10000000000000)) * 2 ^ 62) / real (unat (sb OR 0x10000000000000))"
  obtain z where z: "do { q \<leftarrow> softfloat_estimateDiv128To64 u 0 (push_bit 11 (sb OR 0x10000000000000));
      (if q AND 0x1FF \<le> 2
       then do {
         let trm = softfloat_mul64To128 (push_bit 11 (sb OR 0x10000000000000)) q;
         let rmd = softfloat_sub128 u 0 (u128_v64 trm) (u128_v0 trm);
         (q, rmd) \<leftarrow> divF64_loop (push_bit 11 (sb OR 0x10000000000000)) q rmd;
         Some (q OR b2w (u128_v0 rmd \<noteq> 0)) }
       else Some q) } = Some z" and ag: "agree 9 ?x (unat z)"
    using divF64_significand [OF A(1,2) B(1,2), folded c_def, folded u_def] by blast
  have r: "f64_div rm a b = Some (softfloat_roundPackToF64 rm sg e z)"
    using z unfolding f64_div_def Let_def e_def
    by (simp only: a b n False na nb if_False prod.case sg_def [symmetric] divF64_operands(1) [OF A(1,2) B(1,2)] c_def [symmetric])
      (cases c; simp only: if_True if_False prod.case u_def [symmetric] bind_eq_Some_conv; auto simp: u_def)
  have "real (2 ^ 53 * 2 ^ 9) \<le> ?x" "?x < real (2 ^ 54 * 2 ^ 9)"
    using quotient_range [of 52 "unat (sa OR 0x10000000000000)" "unat (sb OR 0x10000000000000)" 62] A B
    by (simp_all add: word_le_nat_alt c_def)
  then have "2 ^ 62 \<le> unat z" "unat z < 2 ^ 63" unfolding agreeD [OF ag] by simp_all
  moreover have "unat (sb OR 0x10000000000000) \<noteq> 0" using B(1) by simp
  then have "real (magF64 a) / real (magF64 b) * 2 ^ 1074 = ?x * 2 powi (e - 10)"
    unfolding A(3) B(3) e_def by (cases c) (simp_all add: power_int_diff power_int_add field_simps)
  moreover have "0 \<le> ?x" by (intro divide_nonneg_nonneg of_nat_0_le_iff)
  ultimately have "signF64UI (fst (softfloat_roundPackToF64 rm sg e z)) = sg \<and> rounds 52 (2047 * 2 ^ 52) rm sg
      (real (magF64 a) / real (magF64 b) * 2 ^ 1074) (unat (fst (softfloat_roundPackToF64 rm sg e z)) mod 2 ^ 63)"
    using ag ea eb by (intro roundPackF64_correct [where x = ?x]) (simp_all add: e_def)
  with r show ?thesis by (metis prod.collapse)
qed

section \<open>Quotients are correctly rounded\<close>

text \<open>
  C17: for finite operands, a nonzero divisor and every rounding mode, \<open>f32_div\<close>
  returns the quotient correctly rounded, with the exclusive or of the signs.
\<close>

theorem f32_div_correctly_rounded:
  assumes "expF32UI a \<noteq> 0xFF" "expF32UI b \<noteq> 0xFF" "magF32 b \<noteq> 0"
  shows "signF32UI (fst (f32_div rm a b)) = (signF32UI a \<noteq> signF32UI b)
    \<and> rounds 23 (255 * 2 ^ 23) rm (signF32UI a \<noteq> signF32UI b)
        (real (magF32 a) / real (magF32 b) * 2 ^ 149) (unat (fst (f32_div rm a b)) mod 2 ^ 31)"
  using f32_div_rounds [OF assms] by simp

theorem f32_div_correctly_rounded_witness:
  "signF32UI (fst (f32_div 3 0xBF800000 0x40400000))
    \<and> rounds 23 (255 * 2 ^ 23) 3 True (real (magF32 0xBF800000) / real (magF32 0x40400000) * 2 ^ 149)
        (unat (fst (f32_div 3 0xBF800000 0x40400000)) mod 2 ^ 31)"
proof -
  have "expF32UI 0xBF800000 \<noteq> 0xFF" "expF32UI 0x40400000 \<noteq> 0xFF" "signF32UI 0xBF800000" "\<not> signF32UI 0x40400000"
    by code_simp+
  moreover have "magF32 0x40400000 \<noteq> 0" by (simp add: magF32_def mag_def)
  ultimately show ?thesis using f32_div_correctly_rounded [of "0xBF800000" "0x40400000" 3] by simp
qed

text \<open>
  C18: for finite operands and a nonzero divisor \<open>f64_div\<close> returns, its correction
  loop included, and the result is the quotient correctly rounded in every mode.
\<close>

theorem f64_div_correctly_rounded:
  assumes "expF64UI a \<noteq> 0x7FF" "expF64UI b \<noteq> 0x7FF" "magF64 b \<noteq> 0"
  shows "\<exists>r fl. f64_div rm a b = Some (r, fl) \<and> signF64UI r = (signF64UI a \<noteq> signF64UI b)
    \<and> rounds 52 (2047 * 2 ^ 52) rm (signF64UI a \<noteq> signF64UI b)
        (real (magF64 a) / real (magF64 b) * 2 ^ 1074) (unat r mod 2 ^ 63)"
  by (rule f64_div_rounds [OF assms])

theorem f64_div_correctly_rounded_witness:
  "\<exists>r fl. f64_div 0 0xBFF0000000000000 0x4008000000000000 = Some (r, fl) \<and> signF64UI r
    \<and> rounds 52 (2047 * 2 ^ 52) 0 True
        (real (magF64 0xBFF0000000000000) / real (magF64 0x4008000000000000) * 2 ^ 1074) (unat r mod 2 ^ 63)"
proof -
  have "expF64UI 0xBFF0000000000000 \<noteq> 0x7FF" "expF64UI 0x4008000000000000 \<noteq> 0x7FF"
    "signF64UI 0xBFF0000000000000" "\<not> signF64UI 0x4008000000000000"
    by code_simp+
  moreover have "magF64 0x4008000000000000 \<noteq> 0" by (simp add: magF64_def mag_def)
  ultimately show ?thesis using f64_div_correctly_rounded [of "0xBFF0000000000000" "0x4008000000000000" 0] by simp
qed

end
