(* ===== verification/Float_Add.thy ===== *)
theory Float_Add
  imports Float_Operand
begin

text \<open>
  Addition and subtraction (\<open>s_addMagsF32.c\<close>, \<open>s_subMagsF32.c\<close>, \<open>s_normRoundPackToF32.c\<close>,
  \<open>f32_add.c\<close>, \<open>f32_sub.c\<close> and the double-precision files).  Aligning the smaller
  operand keeps its lost bits in a sticky bit; normalising after a cancellation
  is harmless because a difference that cancels is exact.
\<close>

section \<open>Sums and differences of significands\<close>

lemma agree_add:
  assumes a: "agree j x s" and x: "0 \<le> x" and c: "2 ^ j dvd c"
  shows "agree j (real c + x) (c + s)"
  unfolding agree_def
proof
  fix k :: nat
  obtain m where m: "c = m * 2 ^ j" using c by (auto simp: mult.commute)
  show "(real c + x < real (k * 2 ^ j) \<longleftrightarrow> c + s < k * 2 ^ j) \<and> (real c + x = real (k * 2 ^ j) \<longleftrightarrow> c + s = k * 2 ^ j)"
  proof (cases "k < m")
    case True
    then have "k * 2 ^ j < c" by (simp add: m)
    moreover from this have "real (k * 2 ^ j) < real c" by (simp only: of_nat_less_iff)
    ultimately show ?thesis using x by linarith
  next
    case False
    then obtain i where i: "k = m + i" by (metis le_Suc_ex not_less)
    have "k * 2 ^ j = c + i * 2 ^ j" by (simp add: i m add_mult_distrib)
    moreover from this have "real (k * 2 ^ j) = real c + real (i * 2 ^ j)" by (simp only: of_nat_add)
    ultimately show ?thesis using agreeD(1,2) [OF a, of i] by linarith
  qed
qed

lemma agree_sub:
  assumes a: "agree j x s" and x: "0 \<le> x" "x \<le> real c" and c: "2 ^ j dvd c"
  shows "agree j (real c - x) (c - s)" "s \<le> c"
proof -
  obtain m where m: "c = m * 2 ^ j" using c by (auto simp: mult.commute)
  show s: "s \<le> c" using agreeD(3) [OF a, of m] x by (metis m not_less)
  show "agree j (real c - x) (c - s)"
    unfolding agree_def
  proof
    fix k :: nat
    show "(real c - x < real (k * 2 ^ j) \<longleftrightarrow> c - s < k * 2 ^ j) \<and> (real c - x = real (k * 2 ^ j) \<longleftrightarrow> c - s = k * 2 ^ j)"
    proof (cases "m < k")
      case True
      then have "c < k * 2 ^ j" by (simp add: m)
      moreover from this have "real c < real (k * 2 ^ j)" by (simp only: of_nat_less_iff)
      ultimately show ?thesis using x by linarith
    next
      case False
      then obtain i where i: "m = k + i" by (metis le_Suc_ex not_less)
      have "c = k * 2 ^ j + i * 2 ^ j" by (simp add: i m add_mult_distrib)
      moreover from this have "real c = real (k * 2 ^ j) + real (i * 2 ^ j)" by (simp only: of_nat_add)
      ultimately show ?thesis using agreeD(2,3) [OF a, of i] s by linarith
    qed
  qed
qed

lemma agree_scale: "agree j x s \<Longrightarrow> agree (j + l) (2 ^ l * x) (2 ^ l * s)"
proof (induction l)
  case (Suc l)
  then show ?case using agree_double [OF Suc.IH] by (simp add: mult.assoc)
qed simp

lemma rounds_exact:
  assumes "n < ninf"
  shows "rounds p ninf rm sg (real (mag p n)) n"
  using rounds_pick [of p n "real (mag p n)" ninf rm sg] assms
  by (auto simp: pick_def split: if_splits)

lemma shr_jam_exact: "l \<le> i \<Longrightarrow> shr_jam (m * 2 ^ i) l = m * 2 ^ (i - l)"
proof -
  assume "l \<le> i"
  then have "(2 :: nat) ^ i = 2 ^ (i - l) * 2 ^ l" by (simp flip: power_add)
  then have "m * 2 ^ i = m * 2 ^ (i - l) * 2 ^ l" by simp
  then show ?thesis by (simp only: shr_jam_def) simp
qed

text \<open>The sign of a result with value \<open>v\<close>: that of \<open>v\<close>, and the given one when \<open>v\<close> is zero.\<close>

definition result_sign :: "real \<Rightarrow> bool \<Rightarrow> bool" where
  "result_sign v z \<longleftrightarrow> v < 0 \<or> v = 0 \<and> z"

section \<open>Operands by exponent field\<close>

text \<open>The significand the aligned operand of an addition has, relative to its exponent field: a
  subnormal number is taken at exponent zero, so its fraction counts double.\<close>

definition sigF32 :: "u32 \<Rightarrow> nat" where
  "sigF32 a = (if expF32UI a \<noteq> 0 then 2 ^ 23 + unat (fracF32UI a) else 2 * unat (fracF32UI a))"

lemma sigF32_bound: "sigF32 a < 2 ^ 24" "expF32UI a \<noteq> 0 \<Longrightarrow> 2 ^ 23 \<le> sigF32 a"
  by (simp_all add: sigF32_def fracF32_nat)

lemma magF32_sig:
  assumes "expF32UI a \<noteq> 0xFF"
  shows "real (magF32 a) = real (sigF32 a) * 2 powi (expF32UI a - 1)"
proof -
  define f where "f = unat (fracF32UI a)"
  define k where "k = unat a mod 2 ^ 31 div 2 ^ 23"
  have e: "expF32UI a = int k" unfolding k_def by (rule expF32_nat)
  have f: "f = unat a mod 2 ^ 31 mod 2 ^ 23" unfolding f_def fracF32_nat by (simp add: mod_mod_cancel)
  have n: "unat a mod 2 ^ 31 = k * 2 ^ 23 + f" unfolding f k_def by (simp only: div_mult_mod_eq)
  have b: "f < 2 ^ 23" unfolding f by simp
  show ?thesis
  proof (cases k)
    case 0
    then have "magF32 a = f" using b mag_pack [of 23 f 0] unfolding magF32_def n by simp
    then show ?thesis using 0 by (simp add: sigF32_def e f_def power_int_minus)
  next
    case (Suc i)
    then have "k * 2 ^ 23 + f = i * 2 ^ 23 + (2 ^ 23 + f)" by simp
    then have "magF32 a = (2 ^ 23 + f) * 2 ^ i" unfolding magF32_def n using b by (simp only:) (intro mag_pack, simp_all)
    then show ?thesis using Suc by (simp add: sigF32_def e f_def)
  qed
qed

lemma expF32_range: "0 \<le> expF32UI a" "expF32UI a \<le> 0xFF"
  using unat_bound [of a] by (simp_all add: expF32_nat)


lemma unat_fracF32_shift:
  shows "unat (push_bit 6 (fracF32UI a)) = unat (fracF32UI a) * 2 ^ 6"
    "unat (push_bit 7 (fracF32UI a)) = unat (fracF32UI a) * 2 ^ 7"
proof -
  have "unat (fracF32UI a) < 2 ^ 23" by (simp add: fracF32_nat)
  then show "unat (push_bit 6 (fracF32UI a)) = unat (fracF32UI a) * 2 ^ 6"
    "unat (push_bit 7 (fracF32UI a)) = unat (fracF32UI a) * 2 ^ 7"
    unfolding unat_push_bit by simp_all
qed

lemma alignedF32:
  shows "unat (push_bit 6 (fracF32UI a) + (if expF32UI a \<noteq> 0 then 0x20000000 else push_bit 6 (fracF32UI a))) = sigF32 a * 2 ^ 6"
    "unat (push_bit 7 (fracF32UI a) + (if expF32UI a \<noteq> 0 then 0x40000000 else push_bit 7 (fracF32UI a))) = sigF32 a * 2 ^ 7"
proof -
  have "unat (fracF32UI a) < 2 ^ 23" by (simp add: fracF32_nat)
  then show "unat (push_bit 6 (fracF32UI a) + (if expF32UI a \<noteq> 0 then 0x20000000 else push_bit 6 (fracF32UI a))) = sigF32 a * 2 ^ 6"
    "unat (push_bit 7 (fracF32UI a) + (if expF32UI a \<noteq> 0 then 0x40000000 else push_bit 7 (fracF32UI a))) = sigF32 a * 2 ^ 7"
    unfolding sigF32_def by (cases "expF32UI a = 0"; simp only: if_True if_False simp_thms unat_word_ariths unat_fracF32_shift; simp)+
qed

text \<open>The sum of an operand and a smaller one aligned to it.\<close>

lemma addF32_aligned:
  fixes a b rm :: u32 and sg :: bool
  assumes a: "expF32UI a \<noteq> 0xFF" and lt: "expF32UI b < expF32UI a" 
  defines "w \<equiv> softfloat_shift32RightJam (push_bit 6 (fracF32UI b) + (if expF32UI b \<noteq> 0 then 0x20000000 else push_bit 6 (fracF32UI b)))
      (of_int (expF32UI a - expF32UI b))"
  defines "z \<equiv> 0x20000000 + push_bit 6 (fracF32UI a) + w"
  defines "r \<equiv> fst (if z < 0x40000000 then softfloat_roundPackToF32 rm sg (expF32UI a - 1) (push_bit 1 z)
      else softfloat_roundPackToF32 rm sg (expF32UI a) z)"
  shows "signF32UI r = sg \<and> rounds 23 (255 * 2 ^ 23) rm sg (real (magF32 a) + real (magF32 b)) (unat r mod 2 ^ 31)"
proof -
  define l where "l = nat (expF32UI a - expF32UI b)"
  have l: "1 \<le> l" "l < 2 ^ 31" "expF32UI a - expF32UI b = int l"
    using lt expF32_range [of a] expF32_range [of b] by (simp_all add: l_def)
  have W: "unat w = shr_jam (sigF32 b * 2 ^ 6) l"
    using unat_shift32RightJam [OF l(1,2)] unfolding w_def l(3) of_int_of_nat_eq alignedF32(1) [of b] by (simp only: alignedF32(1))
  let ?y = "real (sigF32 b * 2 ^ 6) / 2 ^ l"
  have sb: "sigF32 b < 2 ^ 24" by (rule sigF32_bound)
  have e0: "expF32UI a \<noteq> 0" using lt expF32_range(1) [of b] by simp
  have "(2 :: nat) \<le> 2 ^ l" using l(1) power_increasing [of 1 l "2 :: nat"] by simp
  then have "2 ^ 30 * 1 \<le> (2 ^ 29 :: nat) * 2 ^ l" by simp
  then have "sigF32 b * 2 ^ 6 < 2 * 2 ^ 28 * 2 ^ l" using sb by simp
  then have wb: "unat w < 2 ^ 29" unfolding W using shr_jam_less [of "sigF32 b * 2 ^ 6" l "2 ^ 28"] by simp
  have za: "sigF32 a * 2 ^ 6 = 2 ^ 29 + unat (push_bit 6 (fracF32UI a))"
    using e0 by (simp add: sigF32_def unat_fracF32_shift(1) del: unsigned_push_bit_eq)
  then have z: "unat z = sigF32 a * 2 ^ 6 + unat w"
    using wb sigF32_bound(1) [of a] unfolding z_def unat_word_ariths by simp
  have "agree 1 ?y (unat w)" unfolding W by (rule agree_shr_jam [OF agree_of_nat [of 0]]) simp_all
  then have ag: "agree 1 (real (sigF32 a * 2 ^ 6) + ?y) (unat z)" unfolding z by (rule agree_add) simp_all
  have "real (magF32 a) + real (magF32 b) = (real (sigF32 a * 2 ^ 6) + ?y) * 2 powi (expF32UI a - 7)"
  proof -
    have e: "expF32UI a = expF32UI b + int l" using l(3) by simp
    have b: "expF32UI b \<noteq> 0xFF" using lt expF32_range(2) [of a] by simp
    show ?thesis unfolding magF32_sig [OF a] magF32_sig [OF b] e
      by (simp add: power_int_diff power_int_add field_simps)
  qed
  moreover have "2 ^ 29 \<le> unat z" "unat z < 2 ^ 31"
    using z wb sigF32_bound [of a] e0 by simp_all
  ultimately show ?thesis unfolding r_def using ag expF32_range [of a]
    by (intro roundPackF32_normalised [where x = "real (sigF32 a * 2 ^ 6) + ?y"]) simp_all
qed


lemma addMagsF32_rounds:
  fixes a b rm :: u32 and sg :: bool
  assumes a: "expF32UI a \<noteq> 0xFF" and b: "expF32UI b \<noteq> 0xFF"
  defines "r \<equiv> fst (softfloat_addMagsF32 rm a b sg)"
  shows "signF32UI r = sg \<and> rounds 23 (255 * 2 ^ 23) rm sg (real (magF32 a) + real (magF32 b)) (unat r mod 2 ^ 31)"
proof -
  consider (sub) "expF32UI a = 0" "expF32UI b = 0" | (eq) "expF32UI a = expF32UI b" "expF32UI a \<noteq> 0"
    | (lt) "expF32UI a < expF32UI b" | (gt) "expF32UI b < expF32UI a" by linarith
  then show ?thesis
  proof cases
    case sub
    define n where "n = unat a mod 2 ^ 31 + unat b mod 2 ^ 31"
    have m: "unat a mod 2 ^ 31 < 2 ^ 23" "unat b mod 2 ^ 31 < 2 ^ 23"
      using sub unfolding expF32_nat by (simp_all add: div_eq_0_iff)
    have "unat ((a + b) AND mask 31) = (unat a + unat b) mod 2 ^ 31"
      unfolding unat_and_mask unat_word_ariths by (simp add: mod_mod_cancel)
    also have "\<dots> = n mod 2 ^ 31" unfolding n_def by (simp only: mod_add_eq)
    finally have u: "unat ((a + b) AND 0x7FFFFFFF) = n" using m by (simp add: n_def mask_eq_exp_minus_1)
    have "r = packToF32UI sg 0 ((a + b) AND 0x7FFFFFFF)"
      using sub unfolding r_def softfloat_addMagsF32_def Let_def by simp
    then have "unat r = of_bool sg * 2 ^ 31 + n" using m u unat_packF32 [of 0 "(a + b) AND 0x7FFFFFFF" sg] by (simp add: n_def)
    moreover have "magF32 a + magF32 b = mag 23 n"
      using m mag_pack [of 23 n 0] mag_pack [of 23 "unat a mod 2 ^ 31" 0] mag_pack [of 23 "unat b mod 2 ^ 31" 0]
      by (simp add: magF32_def n_def)
    moreover have "n < 255 * 2 ^ 23" "n < 2 ^ 31" using m by (simp_all add: n_def)
    ultimately show ?thesis using rounds_exact [of n "255 * 2 ^ 23" 23 rm sg]
      by (simp add: signF32_nat flip: of_nat_add)
  next
    case eq
    define s where "s = 0x40000000 + push_bit 6 (fracF32UI a) + push_bit 6 (fracF32UI b)"
    have f: "unat (fracF32UI a) < 2 ^ 23" "unat (fracF32UI b) < 2 ^ 23" by (simp_all add: fracF32_nat)
    have s: "unat s = (sigF32 a + sigF32 b) * 2 ^ 6"
      unfolding s_def unat_word_ariths unat_fracF32_shift using f eq by (simp add: sigF32_def)
    have "r = fst (softfloat_roundPackToF32 rm sg (expF32UI a) s)"
      using eq a unfolding r_def softfloat_addMagsF32_def Let_def s_def by simp
    moreover have "real (magF32 a) + real (magF32 b) = real (unat s) * 2 powi (expF32UI a - 7)"
      unfolding magF32_sig [OF a] magF32_sig [OF b] s eq(1) by (simp add: power_int_diff field_simps)
    moreover have "2 ^ 30 \<le> unat s" "unat s < 2 ^ 31" using sigF32_bound [of a] sigF32_bound [of b] eq s by simp_all
    ultimately show ?thesis using expF32_range [of a]
      by (simp only:) (intro roundPackF32_correct [OF agree_of_nat of_nat_0_le_iff], simp_all)
  next
    case lt
    show ?thesis using addF32_aligned [OF b lt, of rm sg] lt b
      unfolding r_def softfloat_addMagsF32_def Let_def
      by (simp add: add.commute add.assoc if_distrib [of fst] if_distrib [of "case_prod _"] cong: if_cong)
  next
    case gt
    show ?thesis using addF32_aligned [OF a gt, of rm sg] gt a
      unfolding r_def softfloat_addMagsF32_def Let_def
      by (simp add: if_distrib [of fst] if_distrib [of "case_prod _"] cong: if_cong)
  qed
qed


section \<open>Normalising\<close>

text \<open>A significand that is exact, or at most one place below the leading bit, is normalised without harm.\<close>

lemma normRoundPackF32_correct:
  fixes sig rm :: u32 and sg :: bool
  assumes ag: "agree 1 x (unat sig)" and x: "0 \<le> x" "x = real (unat sig) \<or> 2 ^ 29 \<le> unat sig"
    and s: "sig \<noteq> 0" "unat sig < 2 ^ 31" and e: "- 1000 \<le> e" "e < 2 ^ 14" and y: "y = x * 2 powi (e - 7)"
  defines "r \<equiv> fst (softfloat_normRoundPackToF32 rm sg e sig)"
  shows "signF32UI r = sg \<and> rounds 23 (255 * 2 ^ 23) rm sg y (unat r mod 2 ^ 31)"
proof -
  define c where "c = softfloat_countLeadingZeros32 sig - 1"
  have n: "normal_shift 32 (unat sig) (c + 1)" using clz32 [OF s(1)] by (simp add: c_def)
  define l where "l = nat c"
  have "c \<noteq> - 1" using n s(2) by (auto simp: normal_shift_def)
  then have l: "c = int l" using n by (simp add: l_def normal_shift_def)
  have nl: "2 ^ 30 \<le> unat sig * 2 ^ l" "unat sig * 2 ^ l < 2 ^ 31" "l < 32"
    using n normal_shift_bound [OF n] unfolding l normal_shift_def by (simp_all add: nat_add_distrib)
  have u: "unat (push_bit l sig) = unat sig * 2 ^ l" using nl unfolding unat_push_bit by simp
  show ?thesis
  proof (cases "7 \<le> c \<and> (e - c) mod 0x10000 < 0xFD")
    case True
    then have l7: "7 \<le> l" by (simp add: l)
    then have p: "(2 :: nat) ^ l = 2 ^ (l - 7) * 2 ^ 7" using power_add [of "2 :: nat" "l - 7" 7] by simp
    have e0: "0 \<le> e - c" "e - c < 0xFD"
    proof -
      have "\<not> e - c < 0"
      proof
        assume "e - c < 0"
        then have "(e - c) mod 0x10000 = e - c + 0x10000" using e nl(3) l by (intro int_mod_pos_eq [where q = "- 1"]) simp_all
        with True e nl(3) l show False by simp
      qed
      then show "0 \<le> e - c" "e - c < 0xFD" using True e nl(3) l by simp_all
    qed
    have t: "2 ^ 23 \<le> unat sig * 2 ^ (l - 7)" "unat sig * 2 ^ (l - 7) < 2 ^ 24"
      using nl unfolding p by simp_all
    have ut: "unat (push_bit (l - 7) sig) = unat sig * 2 ^ (l - 7)" using t unfolding unat_push_bit by simp
    define k where "k = nat (e - c) * 2 ^ 23 + unat sig * 2 ^ (l - 7)"
    have "nat (e - c) * 2 ^ 23 \<le> 252 * 2 ^ 23" using e0 by (intro mult_le_mono1) simp
    then have k: "k < 254 * 2 ^ 23" using t by (simp add: k_def)
    have "r = packToF32UI sg (e - c) (push_bit (l - 7) sig)"
      using True s(1) unfolding r_def softfloat_normRoundPackToF32_def Let_def c_def [symmetric] l by (simp add: nat_diff_distrib)
    then have "unat r = of_bool sg * 2 ^ 31 + k"
      using e0 k ut unat_packF32 [of "e - c" "push_bit (l - 7) sig" sg] by (simp add: k_def)
    moreover have "y = real (mag 23 k)"
    proof -
      have "\<not> 2 ^ 29 \<le> unat sig \<or> \<not> 7 \<le> l"
        using nl(2) power_increasing [of 7 l "2 :: nat"] mult_le_mono [of "2 ^ 29" "unat sig" "2 ^ 7" "2 ^ l"] by auto
      then have "x = real (unat sig)" using x(2) l7 by simp
      moreover have "mag 23 k = unat sig * 2 ^ (l - 7) * 2 ^ nat (e - c)" unfolding k_def using t by (intro mag_pack) simp_all
      moreover have "(2 :: real) ^ (l - 7) * 2 ^ nat (e - c) = 2 powi (e - 7)"
        using e0 l l7 by (simp add: power_int_def nat_diff_distrib flip: power_add)
      ultimately show ?thesis unfolding y by (simp add: mult.assoc)
    qed
    ultimately show ?thesis using k rounds_exact [of k "255 * 2 ^ 23" 23 rm sg] by (simp add: signF32_nat)
  next
    case False
    have "r = fst (softfloat_roundPackToF32 rm sg (e - c) (push_bit l sig))"
      using False unfolding r_def softfloat_normRoundPackToF32_def Let_def c_def [symmetric] l by (simp only: if_False nat_int)
    moreover have "agree 6 (2 ^ l * x) (unat (push_bit l sig))"
    proof (cases "x = real (unat sig)")
      case True
      then show ?thesis using agree_of_nat [of 6 "unat sig * 2 ^ l"] unfolding u by (simp add: mult.commute)
    next
      case False
      then have "l \<le> 1" using x(2) nl(2) power_increasing [of 2 l "2 :: nat"] mult_le_mono [of "2 ^ 29" "unat sig" "2 ^ 2" "2 ^ l"]
        by (cases "2 \<le> l") auto
      then show ?thesis using agree_coarser [OF agree_scale [OF ag, of l], of 6] unfolding u by (simp add: mult.commute)
    qed
    moreover have "y = 2 ^ l * x * 2 powi (e - c - 7)" unfolding y l by (simp add: power_int_diff)
    ultimately show ?thesis using e nl l x(1) u
      by (simp only:) (intro roundPackF32_correct [where x = "2 ^ l * x"], simp_all)
  qed
qed


lemma subF32_aligned:
  fixes a b rm :: u32 and sg :: bool
  assumes a: "expF32UI a \<noteq> 0xFF" and lt: "expF32UI b < expF32UI a"
  defines "w \<equiv> softfloat_shift32RightJam (push_bit 7 (fracF32UI b) + (if expF32UI b \<noteq> 0 then 0x40000000 else push_bit 7 (fracF32UI b)))
      (of_int (expF32UI a - expF32UI b))"
  defines "r \<equiv> fst (softfloat_normRoundPackToF32 rm sg (expF32UI a - 1) ((push_bit 7 (fracF32UI a) OR 0x40000000) - w))"
  shows "signF32UI r = sg \<and> rounds 23 (255 * 2 ^ 23) rm sg (real (magF32 a) - real (magF32 b)) (unat r mod 2 ^ 31)"
    "magF32 b < magF32 a"
proof -
  define l where "l = nat (expF32UI a - expF32UI b)"
  have l: "1 \<le> l" "l < 2 ^ 31" "expF32UI a - expF32UI b = int l"
    using lt expF32_range [of a] expF32_range [of b] by (simp_all add: l_def)
  have W: "unat w = shr_jam (sigF32 b * 2 ^ 7) l"
    using unat_shift32RightJam [OF l(1,2)] unfolding w_def l(3) of_int_of_nat_eq by (simp only: alignedF32(2))
  define x where "x = real (sigF32 b * 2 ^ 7) / 2 ^ l"
  have sb: "sigF32 b * 2 ^ 7 < 2 ^ 31" using sigF32_bound(1) [of b] by simp
  have e0: "expF32UI a \<noteq> 0" using lt expF32_range(1) [of b] by simp
  have sa: "2 ^ 30 \<le> sigF32 a * 2 ^ 7" "sigF32 a * 2 ^ 7 < 2 ^ 31" using sigF32_bound [of a] e0 by simp_all
  have "unat (push_bit 7 (fracF32UI a)) < 2 ^ 30" unfolding unat_fracF32_shift fracF32_nat by simp
  then have ua: "unat (push_bit 7 (fracF32UI a) OR 0x40000000) = sigF32 a * 2 ^ 7"
    using e0 unat_or_lead [of 30 "push_bit 7 (fracF32UI a)"]
    by (simp add: sigF32_def unat_fracF32_shift del: unsigned_push_bit_eq)
  have "(2 :: nat) \<le> 2 ^ l" using l(1) power_increasing [of 1 l "2 :: nat"] by simp
  then have "sigF32 b * 2 ^ 7 < 2 ^ 30 * 2 ^ l" using sb by simp
  then have "real (sigF32 b * 2 ^ 7) < real (2 ^ 30 * 2 ^ l)" by (simp only: of_nat_less_iff)
  then have xb: "x < real (2 ^ 30)" unfolding x_def by (simp add: divide_less_eq)
  have x0: "0 \<le> x" unfolding x_def by simp
  have c: "real (2 ^ 30) \<le> real (sigF32 a * 2 ^ 7)" using sa by (simp only: of_nat_le_iff)
  have "agree 1 x (unat w)" unfolding W x_def by (rule agree_shr_jam [OF agree_of_nat [of 0]]) simp_all
  note ag = agree_sub [OF this x0, of "sigF32 a * 2 ^ 7"]
  define z where "z = (push_bit 7 (fracF32UI a) OR 0x40000000) - w"
  have z: "unat z = sigF32 a * 2 ^ 7 - unat w"
    using ag(2) xb c ua unfolding z_def by (simp add: unat_sub word_le_nat_alt)
  have y: "real (magF32 a) - real (magF32 b) = (real (sigF32 a * 2 ^ 7) - x) * 2 powi (expF32UI a - 1 - 7)"
  proof -
    have e: "expF32UI a = expF32UI b + int l" using l(3) by simp
    have b: "expF32UI b \<noteq> 0xFF" using lt expF32_range(2) [of a] by simp
    show ?thesis unfolding magF32_sig [OF a] magF32_sig [OF b] x_def e
      by (simp add: power_int_diff power_int_add field_simps)
  qed
  have pos: "0 < real (sigF32 a * 2 ^ 7) - x" using xb c by linarith
  have "0 < real (magF32 a) - real (magF32 b)" unfolding y using pos by (rule mult_pos_pos) simp
  then show "magF32 b < magF32 a" by simp
  have ex: "real (sigF32 a * 2 ^ 7) - x = real (unat z) \<or> 2 ^ 29 \<le> unat z"
  proof (cases "l = 1")
    case True
    then have "unat w = sigF32 b * 2 ^ 6" using shr_jam_exact [of 1 7 "sigF32 b"] by (simp add: W)
    then show ?thesis using True ag(2) xb c unfolding z x_def by (simp add: of_nat_diff)
  next
    case False
    then have "(2 :: nat) ^ 2 \<le> 2 ^ l" using l(1) by (intro power_increasing) simp_all
    then have "sigF32 b * 2 ^ 7 < 2 * 2 ^ 28 * 2 ^ l" using sb by simp
    then have "unat w < 2 ^ 29" unfolding W using shr_jam_less [of "sigF32 b * 2 ^ 7" l "2 ^ 28"] by simp
    then have "2 ^ 29 \<le> unat z" using z sa by simp
    then show ?thesis ..
  qed
  have agz: "agree 1 (real (sigF32 a * 2 ^ 7) - x) (unat z)" using ag(1) xb c unfolding z by simp
  moreover have "z \<noteq> 0"
  proof
    assume "z = 0"
    then have "unat z = 0" by simp
    then show False using agreeD(4) [OF agz, of 0] agreeD(2) [OF agz, of 0] pos by simp
  qed
  moreover have "unat z < 2 ^ 31" using z sa by simp
  ultimately show "signF32UI r = sg \<and> rounds 23 (255 * 2 ^ 23) rm sg (real (magF32 a) - real (magF32 b)) (unat r mod 2 ^ 31)"
    unfolding r_def z_def [symmetric] using ex pos y expF32_range [of a]
    by (intro normRoundPackF32_correct [where x = "real (sigF32 a * 2 ^ 7) - x"]) simp_all
qed


lemma subF32_same_exp:
  fixes a b rm :: u32 and sg :: bool
  assumes a: "expF32UI a \<noteq> 0xFF" and e: "expF32UI a = expF32UI b"
  defines "r \<equiv> fst (softfloat_normRoundPackToF32 rm sg ((if expF32UI a = 0 then 1 else expF32UI a) - 1)
      (push_bit 7 (fracF32UI a) - push_bit 7 (fracF32UI b)))"
  shows "magF32 b < magF32 a \<longleftrightarrow> push_bit 7 (fracF32UI b) < push_bit 7 (fracF32UI a)"
    "magF32 b < magF32 a \<Longrightarrow>
      signF32UI r = sg \<and> rounds 23 (255 * 2 ^ 23) rm sg (real (magF32 a) - real (magF32 b)) (unat r mod 2 ^ 31)"
proof -
  define k where "k = (if expF32UI a = 0 then 1 else expF32UI a)"
  let ?f = "unat (fracF32UI a)" and ?g = "unat (fracF32UI b)"
  have y: "real (magF32 a) - real (magF32 b) = (real ?f - real ?g) * 2 powi (k - 1)"
    unfolding magF32_sig [OF a] magF32_sig [OF a [unfolded e]] e sigF32_def k_def
    by (simp add: power_int_diff field_simps)
  have "magF32 b < magF32 a \<longleftrightarrow> 0 < real (magF32 a) - real (magF32 b)" by simp
  also have "\<dots> \<longleftrightarrow> real ?g < real ?f"
    unfolding y using mult_less_cancel_right_pos [of "2 powi (k - 1)" 0 "real ?f - real ?g"] by (simp only: mult_zero_left diff_gt_0_iff_gt) simp
  also have "\<dots> \<longleftrightarrow> ?g < ?f" by (rule of_nat_less_iff)
  finally have lt: "magF32 b < magF32 a \<longleftrightarrow> ?g < ?f" .
  then show "magF32 b < magF32 a \<longleftrightarrow> push_bit 7 (fracF32UI b) < push_bit 7 (fracF32UI a)"
    by (simp only: word_less_nat_alt unat_fracF32_shift) simp
  assume "magF32 b < magF32 a"
  then have g: "?g < ?f" using lt by simp
  define z where "z = push_bit 7 (fracF32UI a) - push_bit 7 (fracF32UI b)"
  have z: "unat z = (?f - ?g) * 2 ^ 7"
    using g unfolding z_def by (subst unat_sub) (simp_all only: word_le_nat_alt unat_fracF32_shift, simp_all add: diff_mult_distrib)
  have f: "?f < 2 ^ 23" by (simp add: fracF32_nat)
  have "z \<noteq> 0" using z g by auto
  moreover have "unat z < 2 ^ 31" using z f by simp
  moreover have "real (magF32 a) - real (magF32 b) = real (unat z) * 2 powi (k - 1 - 7)"
    unfolding y z using g by (simp add: power_int_diff of_nat_diff)
  moreover have "- 1000 \<le> k - 1" "k - 1 < 2 ^ 14" using expF32_range [of a] by (simp_all add: k_def)
  ultimately show "signF32UI r = sg \<and> rounds 23 (255 * 2 ^ 23) rm sg (real (magF32 a) - real (magF32 b)) (unat r mod 2 ^ 31)"
    unfolding r_def z_def [symmetric] k_def [symmetric]
    by (intro normRoundPackF32_correct [OF agree_of_nat of_nat_0_le_iff]) simp_all
qed

lemma subMagsF32_rounds:
  fixes a b rm :: u32 and sg :: bool
  assumes a: "expF32UI a \<noteq> 0xFF" and b: "expF32UI b \<noteq> 0xFF"
  defines "r \<equiv> fst (softfloat_subMagsF32 rm a b sg)"
  defines "sz \<equiv> (if magF32 b < magF32 a then sg else if magF32 a < magF32 b then \<not> sg else rm = 2)"
  shows "signF32UI r = sz \<and> rounds 23 (255 * 2 ^ 23) rm sz \<bar>real (magF32 a) - real (magF32 b)\<bar> (unat r mod 2 ^ 31)"
proof -
  consider (gt) "expF32UI b < expF32UI a" | (lt) "expF32UI a < expF32UI b" | (eq) "expF32UI a = expF32UI b" by linarith
  then show ?thesis
  proof cases
    case gt
    have "r = fst (softfloat_normRoundPackToF32 rm sg (expF32UI a - 1) ((push_bit 7 (fracF32UI a) OR 0x40000000)
        - softfloat_shift32RightJam (push_bit 7 (fracF32UI b) + (if expF32UI b \<noteq> 0 then 0x40000000 else push_bit 7 (fracF32UI b)))
            (of_int (expF32UI a - expF32UI b))))"
      using gt a unfolding r_def softfloat_subMagsF32_def Let_def by (simp only: if_True if_False diff_gt_0_iff_gt)
    then show ?thesis using subF32_aligned(1) [OF a gt, of rm sg] subF32_aligned(2) [OF a gt] by (simp add: sz_def)
  next
    case lt
    have "r = fst (softfloat_normRoundPackToF32 rm (\<not> sg) (expF32UI b - 1) ((push_bit 7 (fracF32UI b) OR 0x40000000)
        - softfloat_shift32RightJam (push_bit 7 (fracF32UI a) + (if expF32UI a \<noteq> 0 then 0x40000000 else push_bit 7 (fracF32UI a)))
            (of_int (expF32UI b - expF32UI a))))"
      unfolding r_def softfloat_subMagsF32_def Let_def
      by (simp only: lt b less_not_sym [OF lt] if_True if_False diff_gt_0_iff_gt diff_less_0_iff_less minus_diff_eq not_less_iff_gr_or_eq simp_thms)
    then show ?thesis using subF32_aligned(1) [OF b lt, of rm "\<not> sg"] subF32_aligned(2) [OF b lt] by (simp add: sz_def abs_minus_commute)
  next
    case eq
    note s = subF32_same_exp(1) [OF a eq] subF32_same_exp(2) [OF a eq, of rm sg]
      subF32_same_exp(1) [OF b eq [symmetric]] subF32_same_exp(2) [OF b eq [symmetric], of rm "\<not> sg"]
    have r: "r = fst (if push_bit 7 (fracF32UI b) < push_bit 7 (fracF32UI a)
        then softfloat_normRoundPackToF32 rm sg ((if expF32UI a = 0 then 1 else expF32UI a) - 1) (push_bit 7 (fracF32UI a) - push_bit 7 (fracF32UI b))
        else if push_bit 7 (fracF32UI a) < push_bit 7 (fracF32UI b)
        then softfloat_normRoundPackToF32 rm (\<not> sg) ((if expF32UI b = 0 then 1 else expF32UI b) - 1) (push_bit 7 (fracF32UI b) - push_bit 7 (fracF32UI a))
        else (packToF32UI (rm = 2) 0 0, 0))"
      using a b eq unfolding r_def softfloat_subMagsF32_def Let_def by (cases "expF32UI b = 0") simp_all
    consider "magF32 b < magF32 a" | "magF32 a < magF32 b" | "magF32 a = magF32 b" by linarith
    then show ?thesis
    proof cases
      case 1
      then show ?thesis using s(1,2) unfolding r by (simp only: sz_def if_True) simp
    next
      case 2
      then have "\<not> magF32 b < magF32 a" by simp
      then show ?thesis using 2 s(1,3,4) unfolding r by (simp only: sz_def if_True if_False) (simp add: abs_minus_commute)
    next
      case 3
      have "unat (packToF32UI (rm = 2) 0 0) = of_bool (rm = 2) * 2 ^ 31" using unat_packF32 [of 0 0 "rm = 2"] by simp
      moreover have "r = packToF32UI (rm = 2) 0 0" using 3 s(1,3) unfolding r by simp
      ultimately show ?thesis using 3 rounds_zero [of "255 * 2 ^ 23" 23 rm "rm = 2"]
        by (simp only: signF32_nat sz_def) auto
    qed
  qed
qed


section \<open>Signed sums\<close>

lemma f32_add_rounds:
  fixes a b rm :: u32
  assumes a: "expF32UI a \<noteq> 0xFF" and b: "expF32UI b \<noteq> 0xFF"
  defines "r \<equiv> fst (f32_add rm a b)"
    and "sz \<equiv> result_sign (valF32 a + valF32 b) (if signF32UI a = signF32UI b then signF32UI a else rm = 2)"
  shows "signF32UI r = sz \<and> rounds 23 (255 * 2 ^ 23) rm sz \<bar>valF32 a + valF32 b\<bar> (unat r mod 2 ^ 31)"
proof (cases "signF32UI a = signF32UI b")
  case True
  then have "sz = signF32UI a" "\<bar>valF32 a + valF32 b\<bar> = real (magF32 a) + real (magF32 b)"
    by (auto simp: sz_def result_sign_def valF32_def)
  moreover have "r = fst (softfloat_addMagsF32 rm a b (signF32UI a))" using True by (simp add: r_def f32_add_def)
  ultimately show ?thesis using addMagsF32_rounds [OF a b, of rm "signF32UI a"] by simp
next
  case False
  have "sz = (if magF32 b < magF32 a then signF32UI a else if magF32 a < magF32 b then \<not> signF32UI a else rm = 2)"
    "\<bar>valF32 a + valF32 b\<bar> = \<bar>real (magF32 a) - real (magF32 b)\<bar>"
    using False by (auto simp: sz_def result_sign_def valF32_def)
  moreover have "r = fst (softfloat_subMagsF32 rm a b (signF32UI a))" using False by (simp add: r_def f32_add_def)
  ultimately show ?thesis using subMagsF32_rounds [OF a b, of rm "signF32UI a"] by (simp only:)
qed

text \<open>Subtraction adds the negated operand.\<close>

lemma negF32:
  "signF32UI (b XOR 0x80000000) = (\<not> signF32UI b)" "expF32UI (b XOR 0x80000000) = expF32UI b"
  "magF32 (b XOR 0x80000000) = magF32 b" "valF32 (b XOR 0x80000000) = - valF32 b"
proof -
  define k :: u32 where "k = 0x80000000"
  have "k = 2 ^ 31" by (simp add: k_def)
  then have kb: "bit k n \<longleftrightarrow> n = 31" for n by (simp only: bit_exp_iff possible_bit_word) auto
  have s: "signF32UI a = bit a 31" for a
  proof -
    have "bit a (31 + n) \<longleftrightarrow> n = 0 \<and> bit a 31" for n using bit_imp_le_length [of a "31 + n"] by (cases n) auto
    then have "drop_bit 31 a = b2w (bit a 31)" by (intro bit_eqI) (auto simp: b2w_def bit_simps)
    then show ?thesis by (simp only: signF32UI_def b2w_def) simp
  qed
  have "(b XOR k) AND mask 31 = b AND mask 31" by (rule bit_eqI) (auto simp: bit_simps kb)
  then have m: "unat (b XOR 0x80000000) mod 2 ^ 31 = unat b mod 2 ^ 31" unfolding k_def by (metis unat_and_mask)
  show "signF32UI (b XOR 0x80000000) = (\<not> signF32UI b)" unfolding s k_def [symmetric] by (simp add: bit_simps kb)
  then show "valF32 (b XOR 0x80000000) = - valF32 b" using m by (simp add: valF32_def magF32_def)
  show "expF32UI (b XOR 0x80000000) = expF32UI b" "magF32 (b XOR 0x80000000) = magF32 b"
    using m by (simp_all add: expF32_nat magF32_def)
qed

lemma f32_sub_add: "f32_sub rm a b = f32_add rm a (b XOR 0x80000000)"
  unfolding f32_sub_def f32_add_def Let_def negF32 by (cases "signF32UI a"; cases "signF32UI b") simp_all

section \<open>Double precision\<close>

definition sigF64 :: "u64 \<Rightarrow> nat" where
  "sigF64 a = (if expF64UI a \<noteq> 0 then 2 ^ 52 + unat (fracF64UI a) else 2 * unat (fracF64UI a))"

lemma sigF64_bound: "sigF64 a < 2 ^ 53" "expF64UI a \<noteq> 0 \<Longrightarrow> 2 ^ 52 \<le> sigF64 a"
  by (simp_all add: sigF64_def fracF64_nat)

lemma magF64_sig:
  assumes "expF64UI a \<noteq> 0x7FF"
  shows "real (magF64 a) = real (sigF64 a) * 2 powi (expF64UI a - 1)"
proof -
  define f where "f = unat (fracF64UI a)"
  define k where "k = unat a mod 2 ^ 63 div 2 ^ 52"
  have e: "expF64UI a = int k" unfolding k_def by (rule expF64_nat)
  have f: "f = unat a mod 2 ^ 63 mod 2 ^ 52" unfolding f_def fracF64_nat by (simp add: mod_mod_cancel)
  have n: "unat a mod 2 ^ 63 = k * 2 ^ 52 + f" unfolding f k_def by (simp only: div_mult_mod_eq)
  have b: "f < 2 ^ 52" unfolding f by simp
  show ?thesis
  proof (cases k)
    case 0
    then have "magF64 a = f" using b mag_pack [of 52 f 0] unfolding magF64_def n by simp
    then show ?thesis using 0 by (simp add: sigF64_def e f_def power_int_minus)
  next
    case (Suc i)
    then have "k * 2 ^ 52 + f = i * 2 ^ 52 + (2 ^ 52 + f)" by simp
    then have "magF64 a = (2 ^ 52 + f) * 2 ^ i" unfolding magF64_def n using b by (simp only:) (intro mag_pack, simp_all)
    then show ?thesis using Suc by (simp add: sigF64_def e f_def)
  qed
qed

lemma expF64_range: "0 \<le> expF64UI a" "expF64UI a \<le> 0x7FF"
  using unat_bound [of a] by (simp_all add: expF64_nat)


lemma unat_fracF64_shift:
  shows "unat (push_bit 9 (fracF64UI a)) = unat (fracF64UI a) * 2 ^ 9"
    "unat (push_bit 10 (fracF64UI a)) = unat (fracF64UI a) * 2 ^ 10"
proof -
  have "unat (fracF64UI a) < 2 ^ 52" by (simp add: fracF64_nat)
  then show "unat (push_bit 9 (fracF64UI a)) = unat (fracF64UI a) * 2 ^ 9"
    "unat (push_bit 10 (fracF64UI a)) = unat (fracF64UI a) * 2 ^ 10"
    unfolding unat_push_bit by simp_all
qed

lemma alignedF64:
  shows "unat (push_bit 9 (fracF64UI a) + (if expF64UI a \<noteq> 0 then 0x2000000000000000 else push_bit 9 (fracF64UI a))) = sigF64 a * 2 ^ 9"
    "unat (push_bit 10 (fracF64UI a) + (if expF64UI a \<noteq> 0 then 0x4000000000000000 else push_bit 10 (fracF64UI a))) = sigF64 a * 2 ^ 10"
proof -
  have "unat (fracF64UI a) < 2 ^ 52" by (simp add: fracF64_nat)
  then show "unat (push_bit 9 (fracF64UI a) + (if expF64UI a \<noteq> 0 then 0x2000000000000000 else push_bit 9 (fracF64UI a))) = sigF64 a * 2 ^ 9"
    "unat (push_bit 10 (fracF64UI a) + (if expF64UI a \<noteq> 0 then 0x4000000000000000 else push_bit 10 (fracF64UI a))) = sigF64 a * 2 ^ 10"
    unfolding sigF64_def by (cases "expF64UI a = 0"; simp only: if_True if_False simp_thms unat_word_ariths unat_fracF64_shift; simp)+
qed

lemma addF64_aligned:
  fixes a b :: u64 and rm :: u32 and sg :: bool
  assumes a: "expF64UI a \<noteq> 0x7FF" and lt: "expF64UI b < expF64UI a" 
  defines "w \<equiv> softfloat_shift64RightJam (push_bit 9 (fracF64UI b) + (if expF64UI b \<noteq> 0 then 0x2000000000000000 else push_bit 9 (fracF64UI b)))
      (of_int (expF64UI a - expF64UI b))"
  defines "z \<equiv> 0x2000000000000000 + push_bit 9 (fracF64UI a) + w"
  defines "r \<equiv> fst (if z < 0x4000000000000000 then softfloat_roundPackToF64 rm sg (expF64UI a - 1) (push_bit 1 z)
      else softfloat_roundPackToF64 rm sg (expF64UI a) z)"
  shows "signF64UI r = sg \<and> rounds 52 (2047 * 2 ^ 52) rm sg (real (magF64 a) + real (magF64 b)) (unat r mod 2 ^ 63)"
proof -
  define l where "l = nat (expF64UI a - expF64UI b)"
  have l: "1 \<le> l" "l < 2 ^ 31" "expF64UI a - expF64UI b = int l"
    using lt expF64_range [of a] expF64_range [of b] by (simp_all add: l_def)
  have W: "unat w = shr_jam (sigF64 b * 2 ^ 9) l"
    using unat_shift64RightJam [OF l(1,2)] unfolding w_def l(3) of_int_of_nat_eq alignedF64(1) [of b] by (simp only: alignedF64(1))
  let ?y = "real (sigF64 b * 2 ^ 9) / 2 ^ l"
  have sb: "sigF64 b < 2 ^ 53" by (rule sigF64_bound)
  have e0: "expF64UI a \<noteq> 0" using lt expF64_range(1) [of b] by simp
  have "(2 :: nat) \<le> 2 ^ l" using l(1) power_increasing [of 1 l "2 :: nat"] by simp
  then have "2 ^ 62 * 1 \<le> (2 ^ 61 :: nat) * 2 ^ l" by simp
  then have "sigF64 b * 2 ^ 9 < 2 * 2 ^ 60 * 2 ^ l" using sb by simp
  then have wb: "unat w < 2 ^ 61" unfolding W using shr_jam_less [of "sigF64 b * 2 ^ 9" l "2 ^ 60"] by simp
  have za: "sigF64 a * 2 ^ 9 = 2 ^ 61 + unat (push_bit 9 (fracF64UI a))"
    using e0 by (simp add: sigF64_def unat_fracF64_shift(1) del: unsigned_push_bit_eq)
  then have z: "unat z = sigF64 a * 2 ^ 9 + unat w"
    using wb sigF64_bound(1) [of a] unfolding z_def unat_word_ariths by simp
  have "agree 1 ?y (unat w)" unfolding W by (rule agree_shr_jam [OF agree_of_nat [of 0]]) simp_all
  then have ag: "agree 1 (real (sigF64 a * 2 ^ 9) + ?y) (unat z)" unfolding z by (rule agree_add) simp_all
  have "real (magF64 a) + real (magF64 b) = (real (sigF64 a * 2 ^ 9) + ?y) * 2 powi (expF64UI a - 10)"
  proof -
    have e: "expF64UI a = expF64UI b + int l" using l(3) by simp
    have b: "expF64UI b \<noteq> 0x7FF" using lt expF64_range(2) [of a] by simp
    show ?thesis unfolding magF64_sig [OF a] magF64_sig [OF b] e
      by (simp add: power_int_diff power_int_add field_simps)
  qed
  moreover have "2 ^ 61 \<le> unat z" "unat z < 2 ^ 63"
    using z wb sigF64_bound [of a] e0 by simp_all
  ultimately show ?thesis unfolding r_def using ag expF64_range [of a]
    by (intro roundPackF64_normalised [where x = "real (sigF64 a * 2 ^ 9) + ?y"]) simp_all
qed


lemma addMagsF64_rounds:
  fixes a b :: u64 and rm :: u32 and sg :: bool
  assumes a: "expF64UI a \<noteq> 0x7FF" and b: "expF64UI b \<noteq> 0x7FF"
  defines "r \<equiv> fst (softfloat_addMagsF64 rm a b sg)"
  shows "signF64UI r = sg \<and> rounds 52 (2047 * 2 ^ 52) rm sg (real (magF64 a) + real (magF64 b)) (unat r mod 2 ^ 63)"
proof -
  consider (sub) "expF64UI a = 0" "expF64UI b = 0" | (eq) "expF64UI a = expF64UI b" "expF64UI a \<noteq> 0"
    | (lt) "expF64UI a < expF64UI b" | (gt) "expF64UI b < expF64UI a" by linarith
  then show ?thesis
  proof cases
    case sub
    define n where "n = unat a mod 2 ^ 63 + unat b mod 2 ^ 63"
    have m: "unat a mod 2 ^ 63 < 2 ^ 52" "unat b mod 2 ^ 63 < 2 ^ 52"
      using sub unfolding expF64_nat by (simp_all add: div_eq_0_iff)
    have "unat ((a + b) AND mask 63) = (unat a + unat b) mod 2 ^ 63"
      unfolding unat_and_mask unat_word_ariths by (simp add: mod_mod_cancel)
    also have "\<dots> = n mod 2 ^ 63" unfolding n_def by (simp only: mod_add_eq)
    finally have u: "unat ((a + b) AND 0x7FFFFFFFFFFFFFFF) = n" using m by (simp add: n_def mask_eq_exp_minus_1)
    have "r = packToF64UI sg 0 ((a + b) AND 0x7FFFFFFFFFFFFFFF)"
      using sub unfolding r_def softfloat_addMagsF64_def Let_def by simp
    then have "unat r = of_bool sg * 2 ^ 63 + n" using m u unat_packF64 [of 0 "(a + b) AND 0x7FFFFFFFFFFFFFFF" sg] by (simp add: n_def)
    moreover have "magF64 a + magF64 b = mag 52 n"
      using m mag_pack [of 52 n 0] mag_pack [of 52 "unat a mod 2 ^ 63" 0] mag_pack [of 52 "unat b mod 2 ^ 63" 0]
      by (simp add: magF64_def n_def)
    moreover have "n < 2047 * 2 ^ 52" "n < 2 ^ 63" using m by (simp_all add: n_def)
    ultimately show ?thesis using rounds_exact [of n "2047 * 2 ^ 52" 52 rm sg]
      by (simp add: signF64_nat flip: of_nat_add)
  next
    case eq
    define s where "s = 0x4000000000000000 + push_bit 9 (fracF64UI a) + push_bit 9 (fracF64UI b)"
    have f: "unat (fracF64UI a) < 2 ^ 52" "unat (fracF64UI b) < 2 ^ 52" by (simp_all add: fracF64_nat)
    have s: "unat s = (sigF64 a + sigF64 b) * 2 ^ 9"
      unfolding s_def unat_word_ariths unat_fracF64_shift using f eq by (simp add: sigF64_def)
    have "r = fst (softfloat_roundPackToF64 rm sg (expF64UI a) s)"
      using eq a unfolding r_def softfloat_addMagsF64_def Let_def s_def by simp
    moreover have "real (magF64 a) + real (magF64 b) = real (unat s) * 2 powi (expF64UI a - 10)"
      unfolding magF64_sig [OF a] magF64_sig [OF b] s eq(1) by (simp add: power_int_diff field_simps)
    moreover have "2 ^ 62 \<le> unat s" "unat s < 2 ^ 63" using sigF64_bound [of a] sigF64_bound [of b] eq s by simp_all
    ultimately show ?thesis using expF64_range [of a]
      by (simp only:) (intro roundPackF64_correct [OF agree_of_nat of_nat_0_le_iff], simp_all)
  next
    case lt
    show ?thesis using addF64_aligned [OF b lt, of rm sg] lt b
      unfolding r_def softfloat_addMagsF64_def Let_def
      by (simp add: add.commute add.assoc if_distrib [of fst] if_distrib [of "case_prod _"] cong: if_cong)
  next
    case gt
    show ?thesis using addF64_aligned [OF a gt, of rm sg] gt a
      unfolding r_def softfloat_addMagsF64_def Let_def
      by (simp add: if_distrib [of fst] if_distrib [of "case_prod _"] cong: if_cong)
  qed
qed


lemma normRoundPackF64_correct:
  fixes sig :: u64 and rm :: u32 and sg :: bool
  assumes ag: "agree 1 x (unat sig)" and x: "0 \<le> x" "x = real (unat sig) \<or> 2 ^ 61 \<le> unat sig"
    and s: "sig \<noteq> 0" "unat sig < 2 ^ 63" and e: "- 3000 \<le> e" "e < 2 ^ 14" and y: "y = x * 2 powi (e - 10)"
  defines "r \<equiv> fst (softfloat_normRoundPackToF64 rm sg e sig)"
  shows "signF64UI r = sg \<and> rounds 52 (2047 * 2 ^ 52) rm sg y (unat r mod 2 ^ 63)"
proof -
  define c where "c = softfloat_countLeadingZeros64 sig - 1"
  have n: "normal_shift 64 (unat sig) (c + 1)" using clz64 [OF s(1)] by (simp add: c_def)
  define l where "l = nat c"
  have "c \<noteq> - 1" using n s(2) by (auto simp: normal_shift_def)
  then have l: "c = int l" using n by (simp add: l_def normal_shift_def)
  have nl: "2 ^ 62 \<le> unat sig * 2 ^ l" "unat sig * 2 ^ l < 2 ^ 63" "l < 64"
    using n normal_shift_bound [OF n] unfolding l normal_shift_def by (simp_all add: nat_add_distrib)
  have u: "unat (push_bit l sig) = unat sig * 2 ^ l" using nl unfolding unat_push_bit by simp
  show ?thesis
  proof (cases "10 \<le> c \<and> (e - c) mod 0x10000 < 0x7FD")
    case True
    then have l10: "10 \<le> l" by (simp add: l)
    then have p: "(2 :: nat) ^ l = 2 ^ (l - 10) * 2 ^ 10" using power_add [of "2 :: nat" "l - 10" 10] by simp
    have e0: "0 \<le> e - c" "e - c < 0x7FD"
    proof -
      have "\<not> e - c < 0"
      proof
        assume "e - c < 0"
        then have "(e - c) mod 0x10000 = e - c + 0x10000" using e nl(3) l by (intro int_mod_pos_eq [where q = "- 1"]) simp_all
        with True e nl(3) l show False by simp
      qed
      then show "0 \<le> e - c" "e - c < 0x7FD" using True e nl(3) l by simp_all
    qed
    have t: "2 ^ 52 \<le> unat sig * 2 ^ (l - 10)" "unat sig * 2 ^ (l - 10) < 2 ^ 53"
      using nl unfolding p by simp_all
    have ut: "unat (push_bit (l - 10) sig) = unat sig * 2 ^ (l - 10)" using t unfolding unat_push_bit by simp
    define k where "k = nat (e - c) * 2 ^ 52 + unat sig * 2 ^ (l - 10)"
    have "nat (e - c) * 2 ^ 52 \<le> 2044 * 2 ^ 52" using e0 by (intro mult_le_mono1) simp
    then have k: "k < 2046 * 2 ^ 52" using t by (simp add: k_def)
    have "r = packToF64UI sg (e - c) (push_bit (l - 10) sig)"
      using True s(1) unfolding r_def softfloat_normRoundPackToF64_def Let_def c_def [symmetric] l by (simp add: nat_diff_distrib)
    then have "unat r = of_bool sg * 2 ^ 63 + k"
      using e0 k ut unat_packF64 [of "e - c" "push_bit (l - 10) sig" sg] by (simp add: k_def)
    moreover have "y = real (mag 52 k)"
    proof -
      have "\<not> 2 ^ 61 \<le> unat sig \<or> \<not> 10 \<le> l"
        using nl(2) power_increasing [of 10 l "2 :: nat"] mult_le_mono [of "2 ^ 61" "unat sig" "2 ^ 10" "2 ^ l"] by auto
      then have "x = real (unat sig)" using x(2) l10 by simp
      moreover have "mag 52 k = unat sig * 2 ^ (l - 10) * 2 ^ nat (e - c)" unfolding k_def using t by (intro mag_pack) simp_all
      moreover have "(2 :: real) ^ (l - 10) * 2 ^ nat (e - c) = 2 powi (e - 10)"
        using e0 l l10 by (simp add: power_int_def nat_diff_distrib flip: power_add)
      ultimately show ?thesis unfolding y by (simp add: mult.assoc)
    qed
    ultimately show ?thesis using k rounds_exact [of k "2047 * 2 ^ 52" 52 rm sg] by (simp add: signF64_nat)
  next
    case False
    have "r = fst (softfloat_roundPackToF64 rm sg (e - c) (push_bit l sig))"
      using False unfolding r_def softfloat_normRoundPackToF64_def Let_def c_def [symmetric] l by (simp only: if_False nat_int)
    moreover have "agree 9 (2 ^ l * x) (unat (push_bit l sig))"
    proof (cases "x = real (unat sig)")
      case True
      then show ?thesis using agree_of_nat [of 9 "unat sig * 2 ^ l"] unfolding u by (simp add: mult.commute)
    next
      case False
      then have "l \<le> 1" using x(2) nl(2) power_increasing [of 2 l "2 :: nat"] mult_le_mono [of "2 ^ 61" "unat sig" "2 ^ 2" "2 ^ l"]
        by (cases "2 \<le> l") auto
      then show ?thesis using agree_coarser [OF agree_scale [OF ag, of l], of 9] unfolding u by (simp add: mult.commute)
    qed
    moreover have "y = 2 ^ l * x * 2 powi (e - c - 10)" unfolding y l by (simp add: power_int_diff)
    ultimately show ?thesis using e nl l x(1) u
      by (simp only:) (intro roundPackF64_correct [where x = "2 ^ l * x"], simp_all)
  qed
qed


lemma subF64_aligned:
  fixes a b :: u64 and rm :: u32 and sg :: bool
  assumes a: "expF64UI a \<noteq> 0x7FF" and lt: "expF64UI b < expF64UI a"
  defines "w \<equiv> softfloat_shift64RightJam (push_bit 10 (fracF64UI b) + (if expF64UI b \<noteq> 0 then 0x4000000000000000 else push_bit 10 (fracF64UI b)))
      (of_int (expF64UI a - expF64UI b))"
  defines "r \<equiv> fst (softfloat_normRoundPackToF64 rm sg (expF64UI a - 1) ((push_bit 10 (fracF64UI a) OR 0x4000000000000000) - w))"
  shows "signF64UI r = sg \<and> rounds 52 (2047 * 2 ^ 52) rm sg (real (magF64 a) - real (magF64 b)) (unat r mod 2 ^ 63)"
    "magF64 b < magF64 a"
proof -
  define l where "l = nat (expF64UI a - expF64UI b)"
  have l: "1 \<le> l" "l < 2 ^ 31" "expF64UI a - expF64UI b = int l"
    using lt expF64_range [of a] expF64_range [of b] by (simp_all add: l_def)
  have W: "unat w = shr_jam (sigF64 b * 2 ^ 10) l"
    using unat_shift64RightJam [OF l(1,2)] unfolding w_def l(3) of_int_of_nat_eq by (simp only: alignedF64(2))
  define x where "x = real (sigF64 b * 2 ^ 10) / 2 ^ l"
  have sb: "sigF64 b * 2 ^ 10 < 2 ^ 63" using sigF64_bound(1) [of b] by simp
  have e0: "expF64UI a \<noteq> 0" using lt expF64_range(1) [of b] by simp
  have sa: "2 ^ 62 \<le> sigF64 a * 2 ^ 10" "sigF64 a * 2 ^ 10 < 2 ^ 63" using sigF64_bound [of a] e0 by simp_all
  have "unat (push_bit 10 (fracF64UI a)) < 2 ^ 62" unfolding unat_fracF64_shift fracF64_nat by simp
  then have ua: "unat (push_bit 10 (fracF64UI a) OR 0x4000000000000000) = sigF64 a * 2 ^ 10"
    using e0 unat_or_lead [of 62 "push_bit 10 (fracF64UI a)"]
    by (simp add: sigF64_def unat_fracF64_shift del: unsigned_push_bit_eq)
  have "(2 :: nat) \<le> 2 ^ l" using l(1) power_increasing [of 1 l "2 :: nat"] by simp
  then have "sigF64 b * 2 ^ 10 < 2 ^ 62 * 2 ^ l" using sb by simp
  then have "real (sigF64 b * 2 ^ 10) < real (2 ^ 62 * 2 ^ l)" by (simp only: of_nat_less_iff)
  then have xb: "x < real (2 ^ 62)" unfolding x_def by (simp add: divide_less_eq)
  have x0: "0 \<le> x" unfolding x_def by simp
  have c: "real (2 ^ 62) \<le> real (sigF64 a * 2 ^ 10)" using sa by (simp only: of_nat_le_iff)
  have "agree 1 x (unat w)" unfolding W x_def by (rule agree_shr_jam [OF agree_of_nat [of 0]]) simp_all
  note ag = agree_sub [OF this x0, of "sigF64 a * 2 ^ 10"]
  define z where "z = (push_bit 10 (fracF64UI a) OR 0x4000000000000000) - w"
  have z: "unat z = sigF64 a * 2 ^ 10 - unat w"
    using ag(2) xb c ua unfolding z_def by (simp add: unat_sub word_le_nat_alt)
  have y: "real (magF64 a) - real (magF64 b) = (real (sigF64 a * 2 ^ 10) - x) * 2 powi (expF64UI a - 1 - 10)"
  proof -
    have e: "expF64UI a = expF64UI b + int l" using l(3) by simp
    have b: "expF64UI b \<noteq> 0x7FF" using lt expF64_range(2) [of a] by simp
    show ?thesis unfolding magF64_sig [OF a] magF64_sig [OF b] x_def e
      by (simp add: power_int_diff power_int_add field_simps)
  qed
  have pos: "0 < real (sigF64 a * 2 ^ 10) - x" using xb c by linarith
  have "0 < real (magF64 a) - real (magF64 b)" unfolding y using pos by (rule mult_pos_pos) simp
  then show "magF64 b < magF64 a" by simp
  have ex: "real (sigF64 a * 2 ^ 10) - x = real (unat z) \<or> 2 ^ 61 \<le> unat z"
  proof (cases "l = 1")
    case True
    then have "unat w = sigF64 b * 2 ^ 9" using shr_jam_exact [of 1 10 "sigF64 b"] by (simp add: W)
    then show ?thesis using True ag(2) xb c unfolding z x_def by (simp add: of_nat_diff)
  next
    case False
    then have "(2 :: nat) ^ 2 \<le> 2 ^ l" using l(1) by (intro power_increasing) simp_all
    then have "sigF64 b * 2 ^ 10 < 2 * 2 ^ 60 * 2 ^ l" using sb by simp
    then have "unat w < 2 ^ 61" unfolding W using shr_jam_less [of "sigF64 b * 2 ^ 10" l "2 ^ 60"] by simp
    then have "2 ^ 61 \<le> unat z" using z sa by simp
    then show ?thesis ..
  qed
  have agz: "agree 1 (real (sigF64 a * 2 ^ 10) - x) (unat z)" using ag(1) xb c unfolding z by simp
  moreover have "z \<noteq> 0"
  proof
    assume "z = 0"
    then have "unat z = 0" by simp
    then show False using agreeD(4) [OF agz, of 0] agreeD(2) [OF agz, of 0] pos by simp
  qed
  moreover have "unat z < 2 ^ 63" using z sa by simp
  ultimately show "signF64UI r = sg \<and> rounds 52 (2047 * 2 ^ 52) rm sg (real (magF64 a) - real (magF64 b)) (unat r mod 2 ^ 63)"
    unfolding r_def z_def [symmetric] using ex pos y expF64_range [of a]
    by (intro normRoundPackF64_correct [where x = "real (sigF64 a * 2 ^ 10) - x"]) simp_all
qed


lemma subF64_same_exp:
  fixes a b :: u64 and rm :: u32 and sg :: bool
  assumes a: "expF64UI a \<noteq> 0x7FF" and e: "expF64UI a = expF64UI b"
  defines "r \<equiv> fst (softfloat_normRoundPackToF64 rm sg ((if expF64UI a = 0 then 1 else expF64UI a) - 1)
      (push_bit 10 (fracF64UI a) - push_bit 10 (fracF64UI b)))"
  shows "magF64 b < magF64 a \<longleftrightarrow> push_bit 10 (fracF64UI b) < push_bit 10 (fracF64UI a)"
    "magF64 b < magF64 a \<Longrightarrow>
      signF64UI r = sg \<and> rounds 52 (2047 * 2 ^ 52) rm sg (real (magF64 a) - real (magF64 b)) (unat r mod 2 ^ 63)"
proof -
  define k where "k = (if expF64UI a = 0 then 1 else expF64UI a)"
  let ?f = "unat (fracF64UI a)" and ?g = "unat (fracF64UI b)"
  have y: "real (magF64 a) - real (magF64 b) = (real ?f - real ?g) * 2 powi (k - 1)"
    unfolding magF64_sig [OF a] magF64_sig [OF a [unfolded e]] e sigF64_def k_def
    by (simp add: power_int_diff field_simps)
  have "magF64 b < magF64 a \<longleftrightarrow> 0 < real (magF64 a) - real (magF64 b)" by simp
  also have "\<dots> \<longleftrightarrow> real ?g < real ?f"
    unfolding y using mult_less_cancel_right_pos [of "2 powi (k - 1)" 0 "real ?f - real ?g"] by (simp only: mult_zero_left diff_gt_0_iff_gt) simp
  also have "\<dots> \<longleftrightarrow> ?g < ?f" by (rule of_nat_less_iff)
  finally have lt: "magF64 b < magF64 a \<longleftrightarrow> ?g < ?f" .
  then show "magF64 b < magF64 a \<longleftrightarrow> push_bit 10 (fracF64UI b) < push_bit 10 (fracF64UI a)"
    by (simp only: word_less_nat_alt unat_fracF64_shift) simp
  assume "magF64 b < magF64 a"
  then have g: "?g < ?f" using lt by simp
  define z where "z = push_bit 10 (fracF64UI a) - push_bit 10 (fracF64UI b)"
  have z: "unat z = (?f - ?g) * 2 ^ 10"
    using g unfolding z_def by (subst unat_sub) (simp_all only: word_le_nat_alt unat_fracF64_shift, simp_all add: diff_mult_distrib)
  have f: "?f < 2 ^ 52" by (simp add: fracF64_nat)
  have "z \<noteq> 0" using z g by auto
  moreover have "unat z < 2 ^ 63" using z f by simp
  moreover have "real (magF64 a) - real (magF64 b) = real (unat z) * 2 powi (k - 1 - 10)"
    unfolding y z using g by (simp add: power_int_diff of_nat_diff)
  moreover have "- 3000 \<le> k - 1" "k - 1 < 2 ^ 14" using expF64_range [of a] by (simp_all add: k_def)
  ultimately show "signF64UI r = sg \<and> rounds 52 (2047 * 2 ^ 52) rm sg (real (magF64 a) - real (magF64 b)) (unat r mod 2 ^ 63)"
    unfolding r_def z_def [symmetric] k_def [symmetric]
    by (intro normRoundPackF64_correct [OF agree_of_nat of_nat_0_le_iff]) simp_all
qed

lemma subMagsF64_rounds:
  fixes a b :: u64 and rm :: u32 and sg :: bool
  assumes a: "expF64UI a \<noteq> 0x7FF" and b: "expF64UI b \<noteq> 0x7FF"
  defines "r \<equiv> fst (softfloat_subMagsF64 rm a b sg)"
  defines "sz \<equiv> (if magF64 b < magF64 a then sg else if magF64 a < magF64 b then \<not> sg else rm = 2)"
  shows "signF64UI r = sz \<and> rounds 52 (2047 * 2 ^ 52) rm sz \<bar>real (magF64 a) - real (magF64 b)\<bar> (unat r mod 2 ^ 63)"
proof -
  consider (gt) "expF64UI b < expF64UI a" | (lt) "expF64UI a < expF64UI b" | (eq) "expF64UI a = expF64UI b" by linarith
  then show ?thesis
  proof cases
    case gt
    have "r = fst (softfloat_normRoundPackToF64 rm sg (expF64UI a - 1) ((push_bit 10 (fracF64UI a) OR 0x4000000000000000)
        - softfloat_shift64RightJam (push_bit 10 (fracF64UI b) + (if expF64UI b \<noteq> 0 then 0x4000000000000000 else push_bit 10 (fracF64UI b)))
            (of_int (expF64UI a - expF64UI b))))"
      using gt a unfolding r_def softfloat_subMagsF64_def Let_def by (simp only: if_True if_False diff_gt_0_iff_gt)
    then show ?thesis using subF64_aligned(1) [OF a gt, of rm sg] subF64_aligned(2) [OF a gt] by (simp add: sz_def)
  next
    case lt
    have "r = fst (softfloat_normRoundPackToF64 rm (\<not> sg) (expF64UI b - 1) ((push_bit 10 (fracF64UI b) OR 0x4000000000000000)
        - softfloat_shift64RightJam (push_bit 10 (fracF64UI a) + (if expF64UI a \<noteq> 0 then 0x4000000000000000 else push_bit 10 (fracF64UI a)))
            (of_int (expF64UI b - expF64UI a))))"
      unfolding r_def softfloat_subMagsF64_def Let_def
      by (simp only: lt b less_not_sym [OF lt] if_True if_False diff_gt_0_iff_gt diff_less_0_iff_less minus_diff_eq not_less_iff_gr_or_eq simp_thms)
    then show ?thesis using subF64_aligned(1) [OF b lt, of rm "\<not> sg"] subF64_aligned(2) [OF b lt] by (simp add: sz_def abs_minus_commute)
  next
    case eq
    note s = subF64_same_exp(1) [OF a eq] subF64_same_exp(2) [OF a eq, of rm sg]
      subF64_same_exp(1) [OF b eq [symmetric]] subF64_same_exp(2) [OF b eq [symmetric], of rm "\<not> sg"]
    have r: "r = fst (if push_bit 10 (fracF64UI b) < push_bit 10 (fracF64UI a)
        then softfloat_normRoundPackToF64 rm sg ((if expF64UI a = 0 then 1 else expF64UI a) - 1) (push_bit 10 (fracF64UI a) - push_bit 10 (fracF64UI b))
        else if push_bit 10 (fracF64UI a) < push_bit 10 (fracF64UI b)
        then softfloat_normRoundPackToF64 rm (\<not> sg) ((if expF64UI b = 0 then 1 else expF64UI b) - 1) (push_bit 10 (fracF64UI b) - push_bit 10 (fracF64UI a))
        else (packToF64UI (rm = 2) 0 0, 0))"
      using a b eq unfolding r_def softfloat_subMagsF64_def Let_def by (cases "expF64UI b = 0") simp_all
    consider "magF64 b < magF64 a" | "magF64 a < magF64 b" | "magF64 a = magF64 b" by linarith
    then show ?thesis
    proof cases
      case 1
      then show ?thesis using s(1,2) unfolding r by (simp only: sz_def if_True) simp
    next
      case 2
      then have "\<not> magF64 b < magF64 a" by simp
      then show ?thesis using 2 s(1,3,4) unfolding r by (simp only: sz_def if_True if_False) (simp add: abs_minus_commute)
    next
      case 3
      have "unat (packToF64UI (rm = 2) 0 0) = of_bool (rm = 2) * 2 ^ 63" using unat_packF64 [of 0 0 "rm = 2"] by simp
      moreover have "r = packToF64UI (rm = 2) 0 0" using 3 s(1,3) unfolding r by simp
      ultimately show ?thesis using 3 rounds_zero [of "2047 * 2 ^ 52" 52 rm "rm = 2"]
        by (simp only: signF64_nat sz_def) auto
    qed
  qed
qed


lemma f64_add_rounds:
  fixes a b :: u64 and rm :: u32
  assumes a: "expF64UI a \<noteq> 0x7FF" and b: "expF64UI b \<noteq> 0x7FF"
  defines "r \<equiv> fst (f64_add rm a b)"
    and "sz \<equiv> result_sign (valF64 a + valF64 b) (if signF64UI a = signF64UI b then signF64UI a else rm = 2)"
  shows "signF64UI r = sz \<and> rounds 52 (2047 * 2 ^ 52) rm sz \<bar>valF64 a + valF64 b\<bar> (unat r mod 2 ^ 63)"
proof (cases "signF64UI a = signF64UI b")
  case True
  then have "sz = signF64UI a" "\<bar>valF64 a + valF64 b\<bar> = real (magF64 a) + real (magF64 b)"
    by (auto simp: sz_def result_sign_def valF64_def)
  moreover have "r = fst (softfloat_addMagsF64 rm a b (signF64UI a))" using True by (simp add: r_def f64_add_def)
  ultimately show ?thesis using addMagsF64_rounds [OF a b, of rm "signF64UI a"] by simp
next
  case False
  have "sz = (if magF64 b < magF64 a then signF64UI a else if magF64 a < magF64 b then \<not> signF64UI a else rm = 2)"
    "\<bar>valF64 a + valF64 b\<bar> = \<bar>real (magF64 a) - real (magF64 b)\<bar>"
    using False by (auto simp: sz_def result_sign_def valF64_def)
  moreover have "r = fst (softfloat_subMagsF64 rm a b (signF64UI a))" using False by (simp add: r_def f64_add_def)
  ultimately show ?thesis using subMagsF64_rounds [OF a b, of rm "signF64UI a"] by (simp only:)
qed

text \<open>\<open>f64_sub\<close> hands the second operand on with its sign, which the routines on magnitudes do not look at.\<close>

lemma f64_sub_rounds:
  fixes a b :: u64 and rm :: u32
  assumes a: "expF64UI a \<noteq> 0x7FF" and b: "expF64UI b \<noteq> 0x7FF"
  defines "r \<equiv> fst (f64_sub rm a b)"
    and "sz \<equiv> result_sign (valF64 a - valF64 b) (if signF64UI a \<noteq> signF64UI b then signF64UI a else rm = 2)"
  shows "signF64UI r = sz \<and> rounds 52 (2047 * 2 ^ 52) rm sz \<bar>valF64 a - valF64 b\<bar> (unat r mod 2 ^ 63)"
proof (cases "signF64UI a = signF64UI b")
  case False
  then have "sz = signF64UI a" "\<bar>valF64 a - valF64 b\<bar> = real (magF64 a) + real (magF64 b)"
    by (auto simp: sz_def result_sign_def valF64_def)
  moreover have "r = fst (softfloat_addMagsF64 rm a b (signF64UI a))" using False by (simp add: r_def f64_sub_def)
  ultimately show ?thesis using addMagsF64_rounds [OF a b, of rm "signF64UI a"] by simp
next
  case True
  have "sz = (if magF64 b < magF64 a then signF64UI a else if magF64 a < magF64 b then \<not> signF64UI a else rm = 2)"
    "\<bar>valF64 a - valF64 b\<bar> = \<bar>real (magF64 a) - real (magF64 b)\<bar>"
    using True by (auto simp: sz_def result_sign_def valF64_def)
  moreover have "r = fst (softfloat_subMagsF64 rm a b (signF64UI a))" using True by (simp add: r_def f64_sub_def)
  ultimately show ?thesis using subMagsF64_rounds [OF a b, of rm "signF64UI a"] by (simp only:)
qed

section \<open>Sums and differences are correctly rounded\<close>

text \<open>
  C15: for finite operands and every rounding mode, \<open>f32_add\<close> returns the exact sum
  correctly rounded and \<open>f32_sub\<close> the exact difference: cancellation, alignment
  with lost bits, subnormal results and overflow included.  The sign is that of
  the exact value; a zero from opposite signs is negative only when rounding down.
\<close>

theorem f32_add_sub_correctly_rounded:
  assumes "expF32UI a \<noteq> 0xFF" "expF32UI b \<noteq> 0xFF"
  shows "(let v = valF32 a + valF32 b; r = fst (f32_add rm a b);
        sg = result_sign v (if signF32UI a = signF32UI b then signF32UI a else rm = softfloat_round_min)
      in signF32UI r = sg \<and> rounds 23 (255 * 2 ^ 23) rm sg \<bar>v\<bar> (unat r mod 2 ^ 31))
    \<and> (let v = valF32 a - valF32 b; r = fst (f32_sub rm a b);
        sg = result_sign v (if signF32UI a \<noteq> signF32UI b then signF32UI a else rm = softfloat_round_min)
      in signF32UI r = sg \<and> rounds 23 (255 * 2 ^ 23) rm sg \<bar>v\<bar> (unat r mod 2 ^ 31))"
proof -
  have "expF32UI (b XOR 0x80000000) \<noteq> 0xFF" using assms(2) unfolding negF32 .
  from f32_add_rounds [OF assms, of rm] f32_add_rounds [OF assms(1) this, of rm]
  show ?thesis unfolding Let_def f32_sub_add negF32 by (cases "signF32UI a"; cases "signF32UI b") simp_all
qed

theorem f32_add_sub_correctly_rounded_witness:
  "(let v = valF32 0x3F800000 + valF32 0x33000001; r = fst (f32_add 0 0x3F800000 0x33000001); sg = result_sign v False
      in signF32UI r = sg \<and> rounds 23 (255 * 2 ^ 23) 0 sg \<bar>v\<bar> (unat r mod 2 ^ 31))"
proof -
  have "expF32UI 0x3F800000 \<noteq> 0xFF" "expF32UI 0x33000001 \<noteq> 0xFF" "\<not> signF32UI 0x3F800000" "\<not> signF32UI 0x33000001"
    by code_simp+
  then show ?thesis using f32_add_sub_correctly_rounded [of "0x3F800000" "0x33000001" 0] by simp
qed

text \<open>
  C16: for finite operands and every rounding mode, \<open>f64_add\<close> returns the exact sum
  correctly rounded and \<open>f64_sub\<close> the exact difference: cancellation, alignment
  with lost bits, subnormal results and overflow included.  The sign is that of
  the exact value; a zero from opposite signs is negative only when rounding down.
\<close>

theorem f64_add_sub_correctly_rounded:
  assumes "expF64UI a \<noteq> 0x7FF" "expF64UI b \<noteq> 0x7FF"
  shows "(let v = valF64 a + valF64 b; r = fst (f64_add rm a b);
        sg = result_sign v (if signF64UI a = signF64UI b then signF64UI a else rm = softfloat_round_min)
      in signF64UI r = sg \<and> rounds 52 (2047 * 2 ^ 52) rm sg \<bar>v\<bar> (unat r mod 2 ^ 63))
    \<and> (let v = valF64 a - valF64 b; r = fst (f64_sub rm a b);
        sg = result_sign v (if signF64UI a \<noteq> signF64UI b then signF64UI a else rm = softfloat_round_min)
      in signF64UI r = sg \<and> rounds 52 (2047 * 2 ^ 52) rm sg \<bar>v\<bar> (unat r mod 2 ^ 63))"
  using f64_add_rounds [OF assms, of rm] f64_sub_rounds [OF assms, of rm] unfolding Let_def by blast

theorem f64_add_sub_correctly_rounded_witness:
  "(let v = valF64 0x3FF0000000000000 + valF64 0x3CA0000000000001; r = fst (f64_add 0 0x3FF0000000000000 0x3CA0000000000001); sg = result_sign v False
      in signF64UI r = sg \<and> rounds 52 (2047 * 2 ^ 52) 0 sg \<bar>v\<bar> (unat r mod 2 ^ 63))
    \<and> (let v = valF64 0x3FF0000000000000 - valF64 0x3CA0000000000001; r = fst (f64_sub 0 0x3FF0000000000000 0x3CA0000000000001); sg = result_sign v False
      in signF64UI r = sg \<and> rounds 52 (2047 * 2 ^ 52) 0 sg \<bar>v\<bar> (unat r mod 2 ^ 63))"
proof -
  have "expF64UI 0x3FF0000000000000 \<noteq> 0x7FF" "expF64UI 0x3CA0000000000001 \<noteq> 0x7FF" "\<not> signF64UI 0x3FF0000000000000" "\<not> signF64UI 0x3CA0000000000001"
    by code_simp+
  then show ?thesis using f64_add_sub_correctly_rounded [of "0x3FF0000000000000" "0x3CA0000000000001" 0] by simp
qed

end
