(* ===== verification/Float_Compare.thy ===== *)
theory Float_Compare
  imports Float_Operand
begin

text \<open>
  The comparisons of both precisions work on the bit patterns; they decide the order of
  the values the patterns stand for, with NaNs told by their encoding.  The value of an infinity is the magnitude of its
  encoding, above that of every finite number.
\<close>

section \<open>What a NaN is\<close>

text \<open>
  The encodings of IEEE 754: without the sign a NaN lies above the pattern of infinity, and a
  signalling one below the pattern with the first fraction bit set.
\<close>

definition is_nan32 :: "u32 \<Rightarrow> bool" where
  "is_nan32 a \<longleftrightarrow> 0x7F800000 < unat a mod 2 ^ 31"

definition signalling32 :: "u32 \<Rightarrow> bool" where
  "signalling32 a \<longleftrightarrow> is_nan32 a \<and> unat a mod 2 ^ 31 < 0x7FC00000"

definition is_nan64 :: "u64 \<Rightarrow> bool" where
  "is_nan64 a \<longleftrightarrow> 0x7FF0000000000000 < unat a mod 2 ^ 63"

definition signalling64 :: "u64 \<Rightarrow> bool" where
  "signalling64 a \<longleftrightarrow> is_nan64 a \<and> unat a mod 2 ^ 63 < 0x7FF8000000000000"

text \<open>The fields the code looks at say the same.\<close>

lemma field_range:
  fixes n :: nat
  assumes "0 < d"
  shows "n div d = k \<and> n mod d \<noteq> 0 \<longleftrightarrow> k * d < n \<and> n < (k + 1) * d"
proof
  assume "n div d = k \<and> n mod d \<noteq> 0"
  moreover have "n = n div d * d + n mod d" "n mod d < d" using assms by simp_all
  ultimately show "k * d < n \<and> n < (k + 1) * d" by (metis add_mult_distrib less_add_same_cancel1 mult_1 nat_add_left_cancel_less neq0_conv)
next
  assume r: "k * d < n \<and> n < (k + 1) * d"
  then have "n div d = k" by (intro div_nat_eqI) (simp_all add: mult.commute)
  moreover from this have "n = k * d + n mod d" by (metis div_mult_mod_eq)
  ultimately show "n div d = k \<and> n mod d \<noteq> 0" using r by linarith
qed

lemma nan_operandF32_iff: "nan_operandF32 a b \<longleftrightarrow> is_nan32 a \<or> is_nan32 b"
proof -
  have "expF32UI x = 0xFF \<and> fracF32UI x \<noteq> 0 \<longleftrightarrow> is_nan32 x" for x
  proof -
    have "unat x mod 2 ^ 23 = unat x mod 2 ^ 31 mod 2 ^ 23" by (simp add: mod_mod_cancel)
    then have f: "fracF32UI x \<noteq> 0 \<longleftrightarrow> unat x mod 2 ^ 31 mod 2 ^ 23 \<noteq> 0" using fracF32_nat [of x] by (metis unat_eq_0)
    have e: "expF32UI x = 0xFF \<longleftrightarrow> unat x mod 2 ^ 31 div 2 ^ 23 = 255" unfolding expF32_nat by linarith
    have "unat x mod 2 ^ 31 < 2 ^ 31" by simp
    then show ?thesis unfolding e f is_nan32_def using field_range [of "2 ^ 23" "unat x mod 2 ^ 31" 255] by simp
  qed
  then show ?thesis unfolding nan_operandF32_def by blast
qed

lemma isSigNaNF32UI_iff: "softfloat_isSigNaNF32UI a \<longleftrightarrow> signalling32 a"
proof -
  have m: "(0x1FF :: u32) = mask 9" "(0x003FFFFF :: u32) = mask 22" by (simp_all add: mask_eq_exp_minus_1)
  have "unat a mod 2 ^ 22 = unat a mod 2 ^ 31 mod 2 ^ 22" by (simp add: mod_mod_cancel)
  then have f: "a AND 0x003FFFFF \<noteq> 0 \<longleftrightarrow> unat a mod 2 ^ 31 mod 2 ^ 22 \<noteq> 0"
    using unat_and_mask [of a 22] unfolding m by (metis unat_eq_0)
  have e: "drop_bit 22 a AND 0x1FF = 0x1FE \<longleftrightarrow> unat a mod 2 ^ 31 div 2 ^ 22 = 0x1FE"
    using unat_field [of 22 a 9] unfolding m word_unat_eq_iff by simp
  show ?thesis unfolding softfloat_isSigNaNF32UI_def e f signalling32_def is_nan32_def
    using field_range [of "2 ^ 22" "unat a mod 2 ^ 31" "0x1FE"] by simp
qed

lemma nan_operandF64_iff: "nan_operandF64 a b \<longleftrightarrow> is_nan64 a \<or> is_nan64 b"
proof -
  have "expF64UI x = 0x7FF \<and> fracF64UI x \<noteq> 0 \<longleftrightarrow> is_nan64 x" for x
  proof -
    have "unat x mod 2 ^ 52 = unat x mod 2 ^ 63 mod 2 ^ 52" by (simp add: mod_mod_cancel)
    then have f: "fracF64UI x \<noteq> 0 \<longleftrightarrow> unat x mod 2 ^ 63 mod 2 ^ 52 \<noteq> 0" using fracF64_nat [of x] by (metis unat_eq_0)
    have e: "expF64UI x = 0x7FF \<longleftrightarrow> unat x mod 2 ^ 63 div 2 ^ 52 = 0x7FF" unfolding expF64_nat by linarith
    have "unat x mod 2 ^ 63 < 2 ^ 63" by simp
    then show ?thesis unfolding e f is_nan64_def using field_range [of "2 ^ 52" "unat x mod 2 ^ 63" "0x7FF"] by simp
  qed
  then show ?thesis unfolding nan_operandF64_def by blast
qed

lemma isSigNaNF64UI_iff: "softfloat_isSigNaNF64UI a \<longleftrightarrow> signalling64 a"
proof -
  have m: "(0xFFF :: u64) = mask 12" "(0x0007FFFFFFFFFFFF :: u64) = mask 51" by (simp_all add: mask_eq_exp_minus_1)
  have "unat a mod 2 ^ 51 = unat a mod 2 ^ 63 mod 2 ^ 51" by (simp add: mod_mod_cancel)
  then have f: "a AND 0x0007FFFFFFFFFFFF \<noteq> 0 \<longleftrightarrow> unat a mod 2 ^ 63 mod 2 ^ 51 \<noteq> 0"
    using unat_and_mask [of a 51] unfolding m by (metis unat_eq_0)
  have e: "drop_bit 51 a AND 0xFFF = 0xFFE \<longleftrightarrow> unat a mod 2 ^ 63 div 2 ^ 51 = 0xFFE"
    using unat_field [of 51 a 12] unfolding m word_unat_eq_iff by simp
  show ?thesis unfolding softfloat_isSigNaNF64UI_def e f signalling64_def is_nan64_def
    using field_range [of "2 ^ 51" "unat a mod 2 ^ 63" "0xFFE"] by simp
qed

section \<open>Patterns and values\<close>

lemma mag_0_iff [simp]: "mag p n = 0 \<longleftrightarrow> n = 0"
proof -
  have "mag p 0 = 0" by (simp add: mag_def)
  then show ?thesis using mag_strict_mono [of p] by (metis strict_mono_eq)
qed

lemma encodedF32: "unat a = of_bool (signF32UI a) * 2 ^ 31 + unat a mod 2 ^ 31"
  using unat_bound [of a] by (cases "signF32UI a") (simp_all add: signF32_nat le_mod_geq)

lemma zerosF32: "push_bit 1 (a OR b) = 0 \<longleftrightarrow> unat a mod 2 ^ 31 = 0 \<and> unat b mod 2 ^ 31 = 0" for a b :: u32
proof -
  have "push_bit 1 x = 0 \<longleftrightarrow> unat x mod 2 ^ 31 = 0" for x :: u32
  proof -
    have "unat (push_bit 1 x) = (unat x mod 2 ^ 31) * 2" unfolding unat_push_bit using mult_mod_left [of "unat x" "2 ^ 31" 2] by simp
    then show ?thesis by (simp only: unat_eq_0 [symmetric]) simp
  qed
  then show ?thesis by (simp only: push_bit_or or_eq_0_iff)
qed

lemma compareF32:
  fixes a b :: u32
  defines "n \<equiv> unat a mod 2 ^ 31" and "m \<equiv> unat b mod 2 ^ 31"
  shows "valF32 a = valF32 b \<longleftrightarrow> a = b \<or> push_bit 1 (a OR b) = 0"
    "valF32 a < valF32 b \<longleftrightarrow> (if signF32UI a \<noteq> signF32UI b then signF32UI a \<and> push_bit 1 (a OR b) \<noteq> 0
        else a \<noteq> b \<and> signF32UI a \<noteq> (a < b))"
    "valF32 a \<le> valF32 b \<longleftrightarrow> (if signF32UI a \<noteq> signF32UI b then signF32UI a \<or> push_bit 1 (a OR b) = 0
        else a = b \<or> signF32UI a \<noteq> (a < b))"
proof -
  have u: "unat a = of_bool (signF32UI a) * 2 ^ 31 + n" "unat b = of_bool (signF32UI b) * 2 ^ 31 + m"
    unfolding n_def m_def by (rule encodedF32)+
  have b: "n < 2 ^ 31" "m < 2 ^ 31" by (simp_all add: n_def m_def)
  have e: "a = b \<longleftrightarrow> signF32UI a = signF32UI b \<and> n = m"
    unfolding word_unat_eq_iff u using b by (cases "signF32UI a"; cases "signF32UI b") simp_all
  have l: "signF32UI a = signF32UI b \<Longrightarrow> a < b \<longleftrightarrow> n < m"
    unfolding word_less_nat_alt u by simp
  have z: "push_bit 1 (a OR b) = 0 \<longleftrightarrow> n = 0 \<and> m = 0" unfolding zerosF32 n_def m_def ..
  have v: "valF32 a = (if signF32UI a then - real (mag 23 n) else real (mag 23 n))"
    "valF32 b = (if signF32UI b then - real (mag 23 m) else real (mag 23 m))"
    by (simp_all add: valF32_def magF32_def n_def m_def)
  have 0: "- real (mag 23 n) = real (mag 23 m) \<longleftrightarrow> n = 0 \<and> m = 0" "real (mag 23 n) = - real (mag 23 m) \<longleftrightarrow> n = 0 \<and> m = 0"
    "- real (mag 23 n) \<le> real (mag 23 m)" "real (mag 23 n) \<le> - real (mag 23 m) \<longleftrightarrow> n = 0 \<and> m = 0"
    "- real (mag 23 n) < real (mag 23 m) \<longleftrightarrow> \<not> (n = 0 \<and> m = 0)" "\<not> real (mag 23 n) < - real (mag 23 m)"
    using mag_0_iff [of 23 n] mag_0_iff [of 23 m] by linarith+
  show "valF32 a = valF32 b \<longleftrightarrow> a = b \<or> push_bit 1 (a OR b) = 0"
    unfolding v e z by (cases "signF32UI a"; cases "signF32UI b") (auto simp: 0)
  show "valF32 a < valF32 b \<longleftrightarrow> (if signF32UI a \<noteq> signF32UI b then signF32UI a \<and> push_bit 1 (a OR b) \<noteq> 0
        else a \<noteq> b \<and> signF32UI a \<noteq> (a < b))"
    unfolding v z using l e by (cases "signF32UI a"; cases "signF32UI b") (auto simp: 0)
  show "valF32 a \<le> valF32 b \<longleftrightarrow> (if signF32UI a \<noteq> signF32UI b then signF32UI a \<or> push_bit 1 (a OR b) = 0
        else a = b \<or> signF32UI a \<noteq> (a < b))"
    unfolding v z using l e by (cases "signF32UI a"; cases "signF32UI b") (auto simp: 0)
qed

lemma encodedF64: "unat a = of_bool (signF64UI a) * 2 ^ 63 + unat a mod 2 ^ 63"
  using unat_bound [of a] by (cases "signF64UI a") (simp_all add: signF64_nat le_mod_geq)

lemma zerosF64: "(a OR b) AND 0x7FFFFFFFFFFFFFFF = 0 \<longleftrightarrow> unat a mod 2 ^ 63 = 0 \<and> unat b mod 2 ^ 63 = 0" for a b :: u64
proof -
  have m: "(0x7FFFFFFFFFFFFFFF :: u64) = mask 63" by (simp add: mask_eq_exp_minus_1)
  have "x AND mask 63 = 0 \<longleftrightarrow> unat x mod 2 ^ 63 = 0" for x :: u64
    using unat_and_mask [of x 63] by (simp only: unat_eq_0 [symmetric])
  then show ?thesis unfolding m by (simp only: bit.conj_disj_distrib2 or_eq_0_iff)
qed

lemma compareF64:
  fixes a b :: u64
  defines "n \<equiv> unat a mod 2 ^ 63" and "m \<equiv> unat b mod 2 ^ 63"
  shows "valF64 a = valF64 b \<longleftrightarrow> a = b \<or> (a OR b) AND 0x7FFFFFFFFFFFFFFF = 0"
    "valF64 a < valF64 b \<longleftrightarrow> (if signF64UI a \<noteq> signF64UI b then signF64UI a \<and> (a OR b) AND 0x7FFFFFFFFFFFFFFF \<noteq> 0
        else a \<noteq> b \<and> signF64UI a \<noteq> (a < b))"
    "valF64 a \<le> valF64 b \<longleftrightarrow> (if signF64UI a \<noteq> signF64UI b then signF64UI a \<or> (a OR b) AND 0x7FFFFFFFFFFFFFFF = 0
        else a = b \<or> signF64UI a \<noteq> (a < b))"
proof -
  have u: "unat a = of_bool (signF64UI a) * 2 ^ 63 + n" "unat b = of_bool (signF64UI b) * 2 ^ 63 + m"
    unfolding n_def m_def by (rule encodedF64)+
  have b: "n < 2 ^ 63" "m < 2 ^ 63" by (simp_all add: n_def m_def)
  have e: "a = b \<longleftrightarrow> signF64UI a = signF64UI b \<and> n = m"
    unfolding word_unat_eq_iff u using b by (cases "signF64UI a"; cases "signF64UI b") simp_all
  have l: "signF64UI a = signF64UI b \<Longrightarrow> a < b \<longleftrightarrow> n < m"
    unfolding word_less_nat_alt u by simp
  have z: "(a OR b) AND 0x7FFFFFFFFFFFFFFF = 0 \<longleftrightarrow> n = 0 \<and> m = 0" unfolding zerosF64 n_def m_def ..
  have v: "valF64 a = (if signF64UI a then - real (mag 52 n) else real (mag 52 n))"
    "valF64 b = (if signF64UI b then - real (mag 52 m) else real (mag 52 m))"
    by (simp_all add: valF64_def magF64_def n_def m_def)
  have 0: "- real (mag 52 n) = real (mag 52 m) \<longleftrightarrow> n = 0 \<and> m = 0" "real (mag 52 n) = - real (mag 52 m) \<longleftrightarrow> n = 0 \<and> m = 0"
    "- real (mag 52 n) \<le> real (mag 52 m)" "real (mag 52 n) \<le> - real (mag 52 m) \<longleftrightarrow> n = 0 \<and> m = 0"
    "- real (mag 52 n) < real (mag 52 m) \<longleftrightarrow> \<not> (n = 0 \<and> m = 0)" "\<not> real (mag 52 n) < - real (mag 52 m)"
    using mag_0_iff [of 52 n] mag_0_iff [of 52 m] by linarith+
  show "valF64 a = valF64 b \<longleftrightarrow> a = b \<or> (a OR b) AND 0x7FFFFFFFFFFFFFFF = 0"
    unfolding v e z by (cases "signF64UI a"; cases "signF64UI b") (auto simp: 0)
  show "valF64 a < valF64 b \<longleftrightarrow> (if signF64UI a \<noteq> signF64UI b then signF64UI a \<and> (a OR b) AND 0x7FFFFFFFFFFFFFFF \<noteq> 0
        else a \<noteq> b \<and> signF64UI a \<noteq> (a < b))"
    unfolding v z using l e by (cases "signF64UI a"; cases "signF64UI b") (auto simp: 0)
  show "valF64 a \<le> valF64 b \<longleftrightarrow> (if signF64UI a \<noteq> signF64UI b then signF64UI a \<or> (a OR b) AND 0x7FFFFFFFFFFFFFFF = 0
        else a = b \<or> signF64UI a \<noteq> (a < b))"
    unfolding v z using l e by (cases "signF64UI a"; cases "signF64UI b") (auto simp: 0)
qed

section \<open>The comparisons decide the order of the values\<close>

text \<open>
  C29: the comparisons decide the order of the values.  With a NaN among the
  operands, a pattern above that of infinity, all three answer no, \<open>f32_le\<close> and \<open>f32_lt\<close> raise the invalid flag,
  and \<open>f32_eq\<close> raises it for a signalling NaN only; otherwise no flag is raised, both zeros
  are equal, and an infinity lies beyond every finite number.
\<close>

theorem f32_comparisons_correct:
  "if is_nan32 a \<or> is_nan32 b
   then f32_eq a b = (False, if signalling32 a \<or> signalling32 b then softfloat_flag_invalid else 0)
     \<and> f32_le a b = (False, softfloat_flag_invalid) \<and> f32_lt a b = (False, softfloat_flag_invalid)
   else f32_eq a b = (valF32 a = valF32 b, 0) \<and> f32_le a b = (valF32 a \<le> valF32 b, 0)
     \<and> f32_lt a b = (valF32 a < valF32 b, 0)"
  unfolding f32_eq_def f32_le_def f32_lt_def quiet_nanF32_def compareF32 Let_def
    nan_operandF32_iff isSigNaNF32UI_iff raise_if_def by simp

text \<open>
  C30: the comparisons decide the order of the values.  With a NaN among the
  operands, a pattern above that of infinity, all three answer no, \<open>f64_le\<close> and \<open>f64_lt\<close> raise the invalid flag,
  and \<open>f64_eq\<close> raises it for a signalling NaN only; otherwise no flag is raised, both zeros
  are equal, and an infinity lies beyond every finite number.
\<close>

theorem f64_comparisons_correct:
  "if is_nan64 a \<or> is_nan64 b
   then f64_eq a b = (False, if signalling64 a \<or> signalling64 b then softfloat_flag_invalid else 0)
     \<and> f64_le a b = (False, softfloat_flag_invalid) \<and> f64_lt a b = (False, softfloat_flag_invalid)
   else f64_eq a b = (valF64 a = valF64 b, 0) \<and> f64_le a b = (valF64 a \<le> valF64 b, 0)
     \<and> f64_lt a b = (valF64 a < valF64 b, 0)"
  unfolding f64_eq_def f64_le_def f64_lt_def quiet_nanF64_def compareF64 Let_def
    nan_operandF64_iff isSigNaNF64UI_iff raise_if_def by simp

end
