(* ===== verification/Libc.thy ===== *)
theory Libc
  imports Prelude
begin

text \<open>
  \<open>bbl/string.c\<close> on the byte memory.  \<open>memcpy\<close> and \<open>memset\<close> have a loop over words for aligned
  blocks and one over bytes; both are shown to be one block write, through a locale each for
  copying and for filling that is interpreted for the two loops.  The string routines are
  described on the bytes before the terminating NUL.
\<close>

section \<open>Memory blocks\<close>

partial_function (option) copy_words :: "u64 \<Rightarrow> u64 \<Rightarrow> u64 \<Rightarrow> mem \<Rightarrow> mem option" where
  "copy_words d s e m =
     (if d < e then copy_words (d + 8) (s + 8) e (wr64 m d (rd64 m s)) else Some m)"

partial_function (option) copy_bytes :: "u64 \<Rightarrow> u64 \<Rightarrow> u64 \<Rightarrow> mem \<Rightarrow> mem option" where
  "copy_bytes d s e m =
     (if d < e then copy_bytes (d + 1) (s + 1) e (m(d := m s)) else Some m)"

declare copy_words.simps [code] copy_bytes.simps [code]

definition memcpy :: "u64 \<Rightarrow> u64 \<Rightarrow> u64 \<Rightarrow> mem \<Rightarrow> (u64 \<times> mem) option" where
  "memcpy dest src len m = do {
     m \<leftarrow> (if (dest OR src OR len) AND 7 = 0 then copy_words dest src (dest + len) m
          else copy_bytes dest src (dest + len) m);
     Some (dest, m) }"

partial_function (option) fill_words :: "u64 \<Rightarrow> u64 \<Rightarrow> u64 \<Rightarrow> mem \<Rightarrow> mem option" where
  "fill_words d e w m = (if d < e then fill_words (d + 8) e w (wr64 m d w) else Some m)"

partial_function (option) fill_bytes :: "u64 \<Rightarrow> u64 \<Rightarrow> u8 \<Rightarrow> mem \<Rightarrow> mem option" where
  "fill_bytes d e c m = (if d < e then fill_bytes (d + 1) e c (m(d := c)) else Some m)"

declare fill_words.simps [code] fill_bytes.simps [code]

definition memset_word :: "u32 \<Rightarrow> u64" where
  "memset_word byte =
     (let word = ucast (byte AND 0xFF);
          word = word OR push_bit 8 word;
          word = word OR push_bit 16 word
      in word OR push_bit 16 (push_bit 16 word))"

definition memset :: "u64 \<Rightarrow> u32 \<Rightarrow> u64 \<Rightarrow> mem \<Rightarrow> (u64 \<times> mem) option" where
  "memset dest byte len m = do {
     m \<leftarrow> (if (dest OR len) AND 7 = 0 then fill_words dest (dest + len) (memset_word byte) m
          else fill_bytes dest (dest + len) (ucast byte) m);
     Some (dest, m) }"

section \<open>Strings\<close>

partial_function (option) strlen_loop :: "u64 \<Rightarrow> mem \<Rightarrow> u64 option" where
  "strlen_loop p m = (if m p \<noteq> 0 then strlen_loop (p + 1) m else Some p)"

declare strlen_loop.simps [code]

definition strlen :: "u64 \<Rightarrow> mem \<Rightarrow> u64 option" where
  "strlen s m = do { p \<leftarrow> strlen_loop s m; Some (p - s) }"

partial_function (option) strcpy_loop :: "u64 \<Rightarrow> u64 \<Rightarrow> mem \<Rightarrow> mem option" where
  "strcpy_loop d src m =
     (let c = m src; m = m(d := c)
      in if c \<noteq> 0 then strcpy_loop (d + 1) (src + 1) m else Some m)"

declare strcpy_loop.simps [code]

definition strcpy :: "u64 \<Rightarrow> u64 \<Rightarrow> mem \<Rightarrow> (u64 \<times> mem) option" where
  "strcpy dest src m = do { m \<leftarrow> strcpy_loop dest src m; Some (dest, m) }"

text \<open>A \<open>long\<close> that overflows has no meaning in C.\<close>

definition in_long :: "int \<Rightarrow> int option" where
  "in_long i = (if - (2 ^ 63) \<le> i \<and> i < 2 ^ 63 then Some i else None)"

partial_function (option) skip_spaces :: "u64 \<Rightarrow> mem \<Rightarrow> u64 option" where
  "skip_spaces str m = (if m str = 0x20 then skip_spaces (str + 1) m else Some str)"

partial_function (option) atol_loop :: "u64 \<Rightarrow> mem \<Rightarrow> int \<Rightarrow> int option" where
  "atol_loop str m res =
     (if m str \<noteq> 0 then do {
        res \<leftarrow> in_long (res * 10);
        res \<leftarrow> in_long (res + (uint (m str) - 0x30));
        atol_loop (str + 1) m res }
      else Some res)"

declare skip_spaces.simps [code] atol_loop.simps [code]

definition atol :: "u64 \<Rightarrow> mem \<Rightarrow> int option" where
  "atol str m = do {
     str \<leftarrow> skip_spaces str m;
     let (sign, str) = (if m str = 0x2D \<or> m str = 0x2B then (m str = 0x2D, str + 1) else (False, str));
     res \<leftarrow> atol_loop str m 0;
     in_long (if sign then - res else res) }"

section \<open>Block operations as one write\<close>

lemma mem_write_Nil [simp]: "mem_write m a [] = m"
  by (simp add: mem_write_def)

lemma unat_diff_add:
  fixes x a :: u64
  assumes n: "n < 2 ^ 64"
  shows "unat (x - (a + of_nat n)) = (if n \<le> unat (x - a) then unat (x - a) - n else unat (x - a) + 2 ^ 64 - n)"
proof -
  define y where "y = x - a"
  have "unat (of_nat n :: u64) = n" using n by (simp add: unat_of_nat take_bit_nat_eq_self)
  then have "unat (y - of_nat n) = (if n \<le> unat y then unat y - n else unat y + 2 ^ 64 - n)"
    by (simp add: unat_sub_if')
  then show ?thesis by (simp only: y_def diff_diff_eq)
qed

lemma mem_write_append:
  assumes "length xs < 2 ^ 64" "length xs + length ys \<le> 2 ^ 64"
  shows "mem_write (mem_write m a xs) (a + of_nat (length xs)) ys = mem_write m a (xs @ ys)"
proof
  fix x
  define y where "y = unat (x - a)"
  have d: "unat (x - (a + of_nat (length xs))) = (if length xs \<le> y then y - length xs else y + 2 ^ 64 - length xs)"
    unfolding y_def using assms by (intro unat_diff_add) simp
  show "mem_write (mem_write m a xs) (a + of_nat (length xs)) ys x = mem_write m a (xs @ ys) x"
    unfolding mem_write_def d y_def [symmetric] using assms by (simp add: nth_append) linarith
qed

lemma mem_read_append: "mem_read m a (n + k) = mem_read m a n @ mem_read m (a + of_nat n) k"
  by (rule nth_equalityI) (simp_all add: nth_append add.assoc flip: of_nat_add)

lemma disjoint_rangesI:
  fixes a b :: u64
  assumes "unat a + n \<le> 2 ^ 64" "unat b + k \<le> 2 ^ 64" "unat a + n \<le> unat b \<or> unat b + k \<le> unat a"
  shows "disjoint_ranges a n b k"
  unfolding disjoint_ranges_def
proof (intro allI impI)
  fix i assume i: "i < n"
  then have "unat (a + of_nat i) = unat a + i"
    using assms by (simp add: unat_word_ariths unat_of_nat take_bit_nat_eq_self)
  then show "k \<le> unat (a + of_nat i - b)"
    using assms i unat_bound [of b] by (auto simp: unat_sub_if')
qed

lemma unat_add_of_nat: "unat a + n < 2 ^ 64 \<Longrightarrow> unat (a + of_nat n) = unat a + n" for a :: u64
  by (simp add: unat_word_ariths unat_of_nat take_bit_nat_eq_self)

lemma le_bytes_take_bit: "8 * n \<le> k \<Longrightarrow> le_bytes n (take_bit k w) = le_bytes n w" for w :: "'a::len word"
proof (induction n arbitrary: k w)
  case (Suc n)
  have "ucast (take_bit k w) = (ucast w :: u8)" using Suc.prems by (intro bit_word_eqI) (auto simp: bit_simps)
  moreover have "drop_bit 8 (take_bit k w) = take_bit (k - 8) (drop_bit 8 w)" by (simp add: drop_bit_take_bit)
  ultimately show ?case using Suc by simp
qed simp

lemma le_bytes_le_word: "le_bytes (length bs) (le_word bs :: 'a::len word) = bs" if "8 * length bs \<le> LENGTH('a)"
  using that
proof (induction bs)
  case (Cons b bs)
  have "ucast (ucast b OR push_bit 8 (le_word bs) :: 'a word) = b"
    using Cons.prems by (intro bit_word_eqI) (auto simp: bit_simps)
  moreover have "drop_bit 8 (ucast b OR push_bit 8 (le_word bs) :: 'a word) = take_bit (LENGTH('a) - 8) (le_word bs)"
    by (intro bit_word_eqI) (auto simp: bit_simps dest: bit_imp_le_length)
  moreover have "le_bytes (length bs) (take_bit (LENGTH('a) - 8) (le_word bs :: 'a word)) = le_bytes (length bs) (le_word bs :: 'a word)"
    using Cons.prems by (intro le_bytes_take_bit) simp
  ultimately show ?case using Cons by simp
qed simp

text \<open>A loop that copies \<open>c\<close> bytes at a time copies the block.\<close>

locale copy_loop =
  fixes loop :: "u64 \<Rightarrow> u64 \<Rightarrow> u64 \<Rightarrow> mem \<Rightarrow> mem option" and c :: nat
  assumes c: "0 < c"
    and step: "loop d s e m
      = (if d < e then loop (d + of_nat c) (s + of_nat c) e (mem_write m d (mem_read m s c)) else Some m)"
begin

lemma copies:
  assumes "unat d + k * c < 2 ^ 64" "unat s + k * c \<le> 2 ^ 64"
    "unat d + k * c \<le> unat s \<or> unat s + k * c \<le> unat d"
  shows "loop d s (d + of_nat (k * c)) m = Some (mem_write m d (mem_read m s (k * c)))"
  using assms
proof (induction k arbitrary: d s m)
  case 0
  then show ?case by (subst step) (simp add: mem_read_def)
next
  case (Suc k)
  let ?m = "mem_write m d (mem_read m s c)"
  have d: "unat (d + of_nat c) = unat d + c" "unat (d + of_nat (Suc k * c)) = unat d + Suc k * c"
    using Suc.prems(1) by (auto simp only: mult_Suc intro!: unat_add_of_nat)
  then have "d < d + of_nat (Suc k * c)" using c by (simp add: word_less_nat_alt)
  then have "loop d s (d + of_nat (Suc k * c)) m = loop (d + of_nat c) (s + of_nat c) (d + of_nat c + of_nat (k * c)) ?m"
    by (subst step) (simp add: add.assoc)
  also have "\<dots> = Some (mem_write ?m (d + of_nat c) (mem_read m (s + of_nat c) (k * c)))"
  proof (cases "k = 0")
    case True
    then show ?thesis by (subst step) (simp add: mem_read_def)
  next
    case False
    then have "0 < k * c" using c by simp
    then have "unat s + c < 2 ^ 64" using Suc.prems(2) unfolding mult_Suc by linarith
    then have s: "unat (s + of_nat c) = unat s + c" by (rule unat_add_of_nat)
    have "disjoint_ranges (s + of_nat c) (k * c) d c" using Suc.prems s by (intro disjoint_rangesI) auto
    then have "mem_read ?m (s + of_nat c) (k * c) = mem_read m (s + of_nat c) (k * c)"
      by (intro mem_read_write_disjoint) simp
    moreover have "loop (d + of_nat c) (s + of_nat c) (d + of_nat c + of_nat (k * c)) ?m
        = Some (mem_write ?m (d + of_nat c) (mem_read ?m (s + of_nat c) (k * c)))"
      using Suc.prems d s by (intro Suc.IH) auto
    ultimately show ?thesis by simp
  qed
  also have "mem_write ?m (d + of_nat c) (mem_read m (s + of_nat c) (k * c)) = mem_write m d (mem_read m s (Suc k * c))"
    using Suc.prems mem_write_append [of "mem_read m s c" "mem_read m (s + of_nat c) (k * c)" m d] mem_read_append [of m s c "k * c"]
    by simp
  finally show ?case .
qed

end

text \<open>A loop that stores the bytes \<open>bs\<close> again and again fills the block with them.\<close>

locale fill_loop =
  fixes loop :: "u64 \<Rightarrow> u64 \<Rightarrow> mem \<Rightarrow> mem option" and bs :: "u8 list"
  assumes bs: "bs \<noteq> []"
    and step: "loop d e m = (if d < e then loop (d + of_nat (length bs)) e (mem_write m d bs) else Some m)"
begin

lemma fills:
  assumes "unat d + k * length bs < 2 ^ 64"
  shows "loop d (d + of_nat (k * length bs)) m = Some (mem_write m d (concat (replicate k bs)))"
  using assms
proof (induction k arbitrary: d m)
  case 0
  then show ?case by (subst step) simp
next
  case (Suc k)
  let ?c = "length bs"
  have d: "unat (d + of_nat ?c) = unat d + ?c" "unat (d + of_nat (Suc k * ?c)) = unat d + Suc k * ?c"
    using Suc.prems by (auto simp only: mult_Suc intro!: unat_add_of_nat)
  then have "d < d + of_nat (Suc k * ?c)" using bs by (simp add: word_less_nat_alt)
  then have "loop d (d + of_nat (Suc k * ?c)) m = loop (d + of_nat ?c) (d + of_nat ?c + of_nat (k * ?c)) (mem_write m d bs)"
    by (subst step) (simp add: add.assoc)
  also have "\<dots> = Some (mem_write (mem_write m d bs) (d + of_nat ?c) (concat (replicate k bs)))"
    using Suc.prems d by (intro Suc.IH) auto
  also have "\<dots> = Some (mem_write m d (concat (replicate (Suc k) bs)))"
    using Suc.prems mem_write_append [of bs "concat (replicate k bs)" m d] by (simp add: length_concat sum_list_replicate)
  finally show ?case .
qed

end


lemma wr64_rd64: "wr64 m d (rd64 m s) = mem_write m d (mem_read m s 8)"
  using le_bytes_le_word [of "mem_read m s 8", where ?'a = 64] by (simp add: wr64_def rd64_def)

lemma mem_write_single: "mem_write m a [b] = m(a := b)"
  by (auto simp: mem_write_def fun_upd_def unat_eq_0)

interpretation words: copy_loop copy_words 8
  by unfold_locales (simp, subst copy_words.simps, simp add: wr64_rd64)

interpretation bytes: copy_loop copy_bytes 1
  by unfold_locales (simp, subst copy_bytes.simps, simp add: mem_write_single mem_read_def)

interpretation fw: fill_loop "\<lambda>d e. fill_words d e w" "le_bytes 8 w"
  by unfold_locales (simp add: numeral_eq_Suc, subst fill_words.simps, simp add: wr64_def)

interpretation fb: fill_loop "\<lambda>d e. fill_bytes d e b" "[b]"
  by unfold_locales (simp, subst fill_bytes.simps, simp add: mem_write_single)

lemma aligned_words:
  fixes len :: u64
  assumes "len AND 7 = 0"
  obtains k where "unat len = k * 8"
proof -
  have "take_bit 3 len = 0" using assms by (simp add: and_low_mask)
  then have "unat (take_bit 3 len) = 0" by simp
  then have "unat len mod 8 = 0" by (simp only: unsigned_take_bit_eq) (simp add: take_bit_eq_mod)
  then show ?thesis using that [of "unat len div 8"] by (simp add: mod_0_imp_dvd)
qed

lemma memcpy_write:
  assumes "unat dest + unat len < 2 ^ 64" "unat src + unat len \<le> 2 ^ 64"
    "unat dest + unat len \<le> unat src \<or> unat src + unat len \<le> unat dest"
  shows "memcpy dest src len m = Some (dest, mem_write m dest (mem_read m src (unat len)))"
proof (cases "(dest OR src OR len) AND 7 = 0")
  case True
  then have "len AND 7 = 0" by (simp add: bit.conj_disj_distrib2 or_eq_0_iff)
  then obtain k where k: "unat len = k * 8" by (rule aligned_words)
  then have l: "len = of_nat (k * 8)" by (metis of_nat_unat ucast_id)
  have "copy_words dest src (dest + len) m = Some (mem_write m dest (mem_read m src (k * 8)))"
    unfolding l using assms k by (intro words.copies) simp_all
  with True k show ?thesis by (simp add: memcpy_def)
next
  case False
  have "copy_bytes dest src (dest + of_nat (unat len * 1)) m = Some (mem_write m dest (mem_read m src (unat len * 1)))"
    using assms by (intro bytes.copies) simp_all
  with False show ?thesis by (simp add: memcpy_def)
qed


lemma le_bytes_memset_word: "le_bytes 8 (memset_word b) = replicate 8 (ucast b)"
proof -
  define c where "c = (ucast b :: u8)"
  have "b AND 0xFF = take_bit 8 b" by (simp add: take_bit_eq_mask mask_eq_exp_minus_1)
  then have "(ucast (b AND 0xFF) :: u64) = ucast c"
    unfolding c_def by (simp only:) (rule bit_word_eqI, auto simp: bit_simps)
  then have "memset_word b = le_word [c, c, c, c, c, c, c, c]"
    unfolding memset_word_def Let_def le_word.simps
    by (simp only: push_bit_or push_bit_push_bit push_bit_of_0 or.right_neutral or.assoc arith_simps)
  moreover have "replicate 8 c = [c, c, c, c, c, c, c, c]" by (simp add: numeral_eq_Suc)
  moreover have "le_bytes (length (replicate 8 c)) (le_word (replicate 8 c) :: u64) = replicate 8 c"
    by (rule le_bytes_le_word) simp
  ultimately show ?thesis unfolding c_def [symmetric] by (metis length_replicate)
qed

lemma memset_write:
  assumes "unat dest + unat len < 2 ^ 64"
  shows "memset dest byte len m = Some (dest, mem_write m dest (replicate (unat len) (ucast byte)))"
proof (cases "(dest OR len) AND 7 = 0")
  case True
  then have "len AND 7 = 0" by (simp add: bit.conj_disj_distrib2 or_eq_0_iff)
  then obtain k where k: "unat len = k * 8" by (rule aligned_words)
  then have l: "len = of_nat (k * 8)" by (metis of_nat_unat ucast_id)
  have "concat (replicate k (replicate 8 c)) = replicate (k * 8) c" for c :: u8
    by (induction k) (simp_all add: replicate_add [symmetric] add.commute)
  moreover have "fill_words dest (dest + of_nat (k * 8)) (memset_word byte) m
      = Some (mem_write m dest (concat (replicate k (le_bytes 8 (memset_word byte)))))"
    using fw.fills [of dest k "memset_word byte" m] assms k by simp
  ultimately have "fill_words dest (dest + len) (memset_word byte) m = Some (mem_write m dest (replicate (unat len) (ucast byte)))"
    unfolding le_bytes_memset_word k l [symmetric] by simp
  with True show ?thesis by (simp add: memset_def)
next
  case False
  have "concat (replicate k [c]) = replicate k c" for k and c :: u8 by (induction k) simp_all
  moreover have "fill_bytes dest (dest + of_nat (unat len * length [ucast byte :: u8])) (ucast byte) m
      = Some (mem_write m dest (concat (replicate (unat len) [ucast byte])))"
    using assms by (intro fb.fills) simp
  ultimately show ?thesis using False by (simp add: memset_def)
qed


section \<open>Strings in memory\<close>

lemma mem_read_Suc: "mem_read m a (Suc n) = m a # mem_read m (a + 1) n"
  using mem_read_append [of m a 1 n] by (simp add: mem_read_def)

lemma strlen_loop_string:
  "mem_read m a (Suc (length bs)) = bs @ [0] \<Longrightarrow> 0 \<notin> set bs \<Longrightarrow> strlen_loop a m = Some (a + of_nat (length bs))"
proof (induction bs arbitrary: a)
  case Nil
  then show ?case by (subst strlen_loop.simps) (simp add: mem_read_Suc)
next
  case (Cons b bs)
  then have "m a \<noteq> 0" "strlen_loop (a + 1) m = Some (a + 1 + of_nat (length bs))" by (auto simp: mem_read_Suc)
  then show ?case by (subst strlen_loop.simps) (simp add: add.assoc)
qed

lemma strlen_string:
  assumes "mem_read m s (Suc (length bs)) = bs @ [0]" "0 \<notin> set bs"
  shows "strlen s m = Some (of_nat (length bs))"
  using strlen_loop_string [OF assms] by (simp add: strlen_def)

lemma strcpy_loop_string:
  assumes "mem_read m src (Suc (length bs)) = bs @ [0]" "0 \<notin> set bs"
    "unat d + length bs < 2 ^ 64" "unat src + length bs < 2 ^ 64"
    "unat d + length bs < unat src \<or> unat src + length bs < unat d"
  shows "strcpy_loop d src m = Some (mem_write m d (bs @ [0]))"
  using assms
proof (induction bs arbitrary: d src m)
  case Nil
  then show ?case by (subst strcpy_loop.simps) (simp add: mem_read_Suc mem_write_single)
next
  case (Cons b bs)
  let ?m = "mem_write m d [b]"
  have b: "m src = b" "b \<noteq> 0" "0 \<notin> set bs" "mem_read m (src + 1) (Suc (length bs)) = bs @ [0]"
    using Cons.prems(1,2) by (auto simp: mem_read_Suc)
  have u: "unat (src + 1) = unat src + 1" "unat (d + 1) = unat d + 1"
    using Cons.prems unat_add_of_nat [of src 1] unat_add_of_nat [of d 1] by simp_all
  have "disjoint_ranges (src + 1) (Suc (length bs)) d (length [b])"
    using Cons.prems u by (intro disjoint_rangesI) auto
  then have "mem_read ?m (src + 1) (Suc (length bs)) = bs @ [0]" using b by (simp only: mem_read_write_disjoint)
  then have "strcpy_loop (d + 1) (src + 1) ?m = Some (mem_write ?m (d + 1) (bs @ [0]))"
    using Cons.prems b u by (intro Cons.IH) auto
  also have "mem_write ?m (d + 1) (bs @ [0]) = mem_write m d ((b # bs) @ [0])"
    using mem_write_append [of "[b]" "bs @ [0]" m d] Cons.prems(3) by simp
  finally show ?case using b by (subst strcpy_loop.simps) (simp add: mem_write_single fun_upd_def)
qed

lemma strcpy_string:
  assumes "mem_read m src (Suc (length bs)) = bs @ [0]" "0 \<notin> set bs"
    "unat dest + length bs < 2 ^ 64" "unat src + length bs < 2 ^ 64"
    "unat dest + length bs < unat src \<or> unat src + length bs < unat dest"
  shows "strcpy dest src m = Some (dest, mem_write m dest (bs @ [0]))"
  using strcpy_loop_string [OF assms] by (simp add: strcpy_def)

section \<open>Copying is one block write\<close>

text \<open>
  C31: for blocks that do not wrap around and do not overlap, \<open>memcpy\<close> returns the
  destination, and the memory has the source's bytes there and is otherwise unchanged,
  whichever of the two loops the alignment selects; \<open>memset\<close> likewise fills its block
  with the low byte of its argument.
\<close>

theorem memcpy_memset_correct:
  assumes "unat dest + unat len < 2 ^ 64" "unat src + unat len \<le> 2 ^ 64"
    "unat dest + unat len \<le> unat src \<or> unat src + unat len \<le> unat dest"
  shows "memcpy dest src len m = Some (dest, mem_write m dest (mem_read m src (unat len)))
    \<and> memset dest byte len m = Some (dest, mem_write m dest (replicate (unat len) (ucast byte)))"
  using memcpy_write [OF assms] memset_write [OF assms(1)] by simp

theorem memcpy_memset_correct_witness:
  "memcpy 0x1000 0x2000 16 (\<lambda>a. ucast a) = Some (0x1000, mem_write (\<lambda>a. ucast a) 0x1000 (mem_read (\<lambda>a. ucast a) 0x2000 16))
    \<and> memset 0x1001 0x5A 3 (\<lambda>a. ucast a) = Some (0x1001, mem_write (\<lambda>a. ucast a) 0x1001 (replicate 3 0x5A))"
  using memcpy_memset_correct [of "0x1000" 16 "0x2000" "\<lambda>a. ucast a" 0]
    memcpy_memset_correct [of "0x1001" 3 "0x2000" "\<lambda>a. ucast a" "0x5A"] by simp

end
