(* ===== verification/Devices.thy ===== *)
theory Devices
  imports Prelude
begin

text \<open>
  \<open>driver/uart.c\<close> and \<open>driver/spi.c\<close>: the polled drivers of the serial line and of the SPI
  controller.  The hardware is the parameter \<open>bus\<close>: what a 32-bit read or write of a device register
  does to the device state \<open>'d\<close>.  A polling loop that is never satisfied does not return
  (\<open>None\<close>).
\<close>

section \<open>Registers\<close>

record 'd bus =
  mmio_rd :: "u64 \<Rightarrow> 'd \<Rightarrow> u32 \<times> 'd"
  mmio_wr :: "u64 \<Rightarrow> u32 \<Rightarrow> 'd \<Rightarrow> 'd"

abbreviation (input) IO_SPACE_BASE :: u64 where "IO_SPACE_BASE \<equiv> 0x80000000"
abbreviation (input) UART_BASE :: u64 where "UART_BASE \<equiv> IO_SPACE_BASE + 0x1000"
abbreviation (input) UART_RBR :: u64 where "UART_RBR \<equiv> 0x0"
abbreviation (input) UART_THR :: u64 where "UART_THR \<equiv> 0x0"
abbreviation (input) UART_IER :: u64 where "UART_IER \<equiv> 0x1"
abbreviation (input) UART_LCR :: u64 where "UART_LCR \<equiv> 0x3"
abbreviation (input) UART_LSR :: u64 where "UART_LSR \<equiv> 0x5"
abbreviation (input) UART_DLL :: u64 where "UART_DLL \<equiv> 0x0"
abbreviation (input) UART_DLM :: u64 where "UART_DLM \<equiv> 0x1"

abbreviation (input) SPI_BASE :: u64 where "SPI_BASE \<equiv> IO_SPACE_BASE + 0x10000"
abbreviation (input) SPI_GIER :: u64 where "SPI_GIER \<equiv> 0x07"
abbreviation (input) SPI_SRR :: u64 where "SPI_SRR \<equiv> 0x10"
abbreviation (input) SPI_CR :: u64 where "SPI_CR \<equiv> 0x18"
abbreviation (input) SPI_SR :: u64 where "SPI_SR \<equiv> 0x19"
abbreviation (input) SPI_DTR :: u64 where "SPI_DTR \<equiv> 0x1A"
abbreviation (input) SPI_DRR :: u64 where "SPI_DRR \<equiv> 0x1B"
abbreviation (input) SPI_SSR :: u64 where "SPI_SSR \<equiv> 0x1C"

text \<open>\<open>*(base + reg)\<close> on a pointer to 32-bit registers.\<close>

definition reg_read :: "'d bus \<Rightarrow> u64 \<Rightarrow> u64 \<Rightarrow> 'd \<Rightarrow> u32 \<times> 'd" where
  "reg_read B base reg d = mmio_rd B (base + 4 * reg) d"

definition reg_write :: "'d bus \<Rightarrow> u64 \<Rightarrow> u64 \<Rightarrow> u32 \<Rightarrow> 'd \<Rightarrow> 'd" where
  "reg_write B base reg v d = mmio_wr B (base + 4 * reg) v d"

text \<open>\<open>while (!(*(base + reg) & mask));\<close>\<close>

partial_function (option) poll :: "'d bus \<Rightarrow> u64 \<Rightarrow> u64 \<Rightarrow> u32 \<Rightarrow> 'd \<Rightarrow> 'd option" where
  "poll B base reg msk d =
     (let (v, d) = reg_read B base reg d
      in if v AND msk = 0 then poll B base reg msk d else Some d)"

declare poll.simps [code]

section \<open>Serial line\<close>

definition uart_init :: "'d bus \<Rightarrow> 'd \<Rightarrow> 'd" where
  "uart_init B d =
     (let d = reg_write B UART_BASE UART_LCR 0x0080 d;
          d = reg_write B UART_BASE UART_DLL (50 * 1000 * 1000 div (16 * 115200) mod 0x100) d;
          d = reg_write B UART_BASE UART_DLM (drop_bit 8 (50 * 1000 * 1000 div (16 * 115200))) d;
          d = reg_write B UART_BASE UART_LCR 0x000B d
      in reg_write B UART_BASE UART_IER 0x0001 d)"

definition uart_send :: "'d bus \<Rightarrow> u8 \<Rightarrow> 'd \<Rightarrow> 'd option" where
  "uart_send B dat d = do {
     d \<leftarrow> poll B UART_BASE UART_LSR 0x40 d;
     Some (reg_write B UART_BASE UART_THR (ucast dat) d) }"

text \<open>The plain \<open>char\<close> of the buffer is unsigned on RISC-V.\<close>

fun uart_send_string :: "'d bus \<Rightarrow> u8 list \<Rightarrow> 'd \<Rightarrow> 'd option" where
  "uart_send_string B [] d = Some d"
| "uart_send_string B (c # str) d = do {
     d \<leftarrow> poll B UART_BASE UART_LSR 0x40 d;
     uart_send_string B str (reg_write B UART_BASE UART_THR (ucast c) d) }"

fun uart_send_buf :: "'d bus \<Rightarrow> u8 list \<Rightarrow> 'd \<Rightarrow> 'd option" where
  "uart_send_buf B [] d = Some d"
| "uart_send_buf B (c # buf) d = do {
     d \<leftarrow> poll B UART_BASE UART_LSR 0x40 d;
     uart_send_buf B buf (reg_write B UART_BASE UART_THR (ucast c) d) }"

definition uart_recv :: "'d bus \<Rightarrow> 'd \<Rightarrow> (u8 \<times> 'd) option" where
  "uart_recv B d = do {
     d \<leftarrow> poll B UART_BASE UART_LSR 0x01 d;
     let (v, d) = reg_read B UART_BASE UART_RBR d;
     Some (ucast v, d) }"

definition uart_read_irq :: "'d bus \<Rightarrow> 'd \<Rightarrow> u8 \<times> 'd" where
  "uart_read_irq B d = (let (v, d) = reg_read B UART_BASE UART_RBR d in (ucast v, d))"

definition uart_check_read_irq :: "'d bus \<Rightarrow> 'd \<Rightarrow> u8 \<times> 'd" where
  "uart_check_read_irq B d = (let (v, d) = reg_read B UART_BASE UART_LSR d in (ucast (v AND 0x01), d))"

definition uart_enable_read_irq :: "'d bus \<Rightarrow> 'd \<Rightarrow> 'd" where
  "uart_enable_read_irq B d = reg_write B UART_BASE UART_IER 0x0001 d"

definition uart_disable_read_irq :: "'d bus \<Rightarrow> 'd \<Rightarrow> 'd" where
  "uart_disable_read_irq B d = reg_write B UART_BASE UART_IER 0x0000 d"

section \<open>SPI controller\<close>

definition spi_init :: "'d bus \<Rightarrow> 'd \<Rightarrow> 'd" where
  "spi_init B d =
     (let d = reg_write B SPI_BASE SPI_SRR 0xA d;
          d = reg_write B SPI_BASE SPI_CR 0xE4 d;
          d = reg_write B SPI_BASE SPI_GIER 0x0 d
      in reg_write B SPI_BASE SPI_CR 0x86 d)"

definition spi_disable :: "'d bus \<Rightarrow> 'd \<Rightarrow> 'd" where
  "spi_disable B d = reg_write B SPI_BASE SPI_CR 0xE4 d"

definition spi_send :: "'d bus \<Rightarrow> u8 \<Rightarrow> 'd \<Rightarrow> (u8 \<times> 'd) option" where
  "spi_send B dat d = do {
     let d = reg_write B SPI_BASE SPI_DTR (ucast dat) d;
     d \<leftarrow> poll B SPI_BASE SPI_SR 0x4 d;
     let (v, d) = reg_read B SPI_BASE SPI_DRR d;
     Some (ucast v, d) }"

text \<open>The transmit loop, and the receive loop that collects the bytes it stores.\<close>

fun spi_fill :: "'d bus \<Rightarrow> u8 list \<Rightarrow> 'd \<Rightarrow> 'd" where
  "spi_fill B [] d = d"
| "spi_fill B (b # bs) d = spi_fill B bs (reg_write B SPI_BASE SPI_DTR (ucast b) d)"

fun spi_drain :: "'d bus \<Rightarrow> nat \<Rightarrow> 'd \<Rightarrow> u8 list \<times> 'd" where
  "spi_drain B 0 d = ([], d)"
| "spi_drain B (Suc n) d =
     (let (v, d) = reg_read B SPI_BASE SPI_DRR d;
          (bs, d) = spi_drain B n d
      in (ucast v # bs, d))"

definition spi_send_multi :: "'d bus \<Rightarrow> u8 list \<Rightarrow> 'd \<Rightarrow> 'd option" where
  "spi_send_multi B dat d = do {
     let d = spi_fill B dat d;
     d \<leftarrow> poll B SPI_BASE SPI_SR 0x4 d;
     Some (reg_write B SPI_BASE SPI_CR 0xC6 d) }"

definition spi_recv_multi :: "'d bus \<Rightarrow> nat \<Rightarrow> 'd \<Rightarrow> (u8 list \<times> 'd) option" where
  "spi_recv_multi B n d = do {
     let d = spi_fill B (replicate n 0xFF) d;
     d \<leftarrow> poll B SPI_BASE SPI_SR 0x4 d;
     Some (spi_drain B n d) }"

definition spi_select_slave :: "'d bus \<Rightarrow> 'd \<Rightarrow> 'd" where
  "spi_select_slave B d = reg_write B SPI_BASE SPI_SSR 0xFFFFFFFE d"

definition spi_deselect_slave :: "'d bus \<Rightarrow> 'd \<Rightarrow> 'd" where
  "spi_deselect_slave B d = reg_write B SPI_BASE SPI_SSR 0xFFFFFFFF d"

lemma length_spi_drain [simp]: "length (fst (spi_drain B n d)) = n"
  by (induction n arbitrary: d) (simp_all add: case_prod_beta)

lemma spi_recv_multi_length: "spi_recv_multi B n d = Some (bs, d') \<Longrightarrow> length bs = n"
  unfolding spi_recv_multi_def by (auto simp: Let_def bind_eq_Some_conv) (metis fst_conv length_spi_drain)

end
