(* ===== verification/Console.thy ===== *)
theory Console
  imports Libc Devices
begin

text \<open>
  \<open>bbl/console.c\<close> and \<open>die\<close> of \<open>bbl/frontend.c\<close>: the formatter and the printing
  routines on top of the serial line.  A format and a string argument are given by their bytes before the
  NUL, the output buffer by its contents.  \<open>render\<close> is the text a format stands for; the
  formatter shows as much of it as fits (\<open>vsnprintf_shows\<close>), except that a string that does not fit
  drives it out of its buffer.
\<close>

section \<open>Formatted output\<close>

text \<open>A variadic argument: a register-sized number, or a string by its bytes before the NUL.\<close>

datatype vararg = Num u64 | Str "u8 list"

text \<open>\<open>if (++pos < n) out[pos-1] = c\<close>; a store outside the buffer has no meaning.\<close>

definition store_at :: "u64 \<Rightarrow> u8 \<Rightarrow> u8 list \<Rightarrow> u8 list option" where
  "store_at i c out = (if unat i < length out then Some (out[unat i := c]) else None)"

definition put :: "u64 \<Rightarrow> u8 \<Rightarrow> u8 list \<times> u64 \<Rightarrow> (u8 list \<times> u64) option" where
  "put n c = (\<lambda>(out, pos).
     let pos = pos + 1
     in if pos < n then do { out \<leftarrow> store_at (pos - 1) c out; Some (out, pos) } else Some (out, pos))"

definition next_num :: "bool \<Rightarrow> vararg list \<Rightarrow> (u64 \<times> vararg list) option" where
  "next_num longarg vl =
     (case vl of Num w # vl \<Rightarrow> Some (if longarg then w else scast (ucast w :: u32), vl) | _ \<Rightarrow> None)"

definition hex_digit :: "u64 \<Rightarrow> u8" where
  "hex_digit d = (if d < 10 then 0x30 + ucast d else 0x61 + ucast d - 10)"

fun put_hex :: "u64 \<Rightarrow> u64 \<Rightarrow> nat \<Rightarrow> u8 list \<times> u64 \<Rightarrow> (u8 list \<times> u64) option" where
  "put_hex n num 0 st = Some st"
| "put_hex n num (Suc i) st = do {
     st \<leftarrow> put n (hex_digit (drop_bit (4 * i) num AND 0xF)) st;
     put_hex n num i st }"

text \<open>\<open>for (long nn = num; nn /= 10; digits++);\<close> on a number that is not negative.\<close>

function count_digits :: "nat \<Rightarrow> nat" where
  "count_digits nn = (if nn div 10 = 0 then 1 else Suc (count_digits (nn div 10)))"
  by pat_completeness auto
termination by (relation "measure id") auto

declare count_digits.simps [simp del]

fun put_digits :: "u64 \<Rightarrow> u64 \<Rightarrow> nat \<Rightarrow> nat \<Rightarrow> u8 list \<Rightarrow> u8 list option" where
  "put_digits n pos num 0 out = Some out"
| "put_digits n pos num (Suc i) out = do {
     out \<leftarrow> (if pos + of_nat i + 1 < n then store_at (pos + of_nat i) (0x30 + of_nat (num mod 10)) out
            else Some out);
     put_digits n pos (num div 10) i out }"

text \<open>\<open>while(*s2) if (++pos < n) out[pos-1] = *s2++;\<close>: the string advances only where a
  character is stored.  Once the position is past the buffer it runs on until the \<open>size_t\<close> wraps; the store
  that then follows, at \<open>out[-1]\<close>, is one outside the buffer.\<close>

partial_function (option) put_string :: "u64 \<Rightarrow> u8 list \<Rightarrow> u8 list \<Rightarrow> u64 \<Rightarrow> (u8 list \<times> u64) option" where
  "put_string n s2 out pos =
     (case s2 of [] \<Rightarrow> Some (out, pos)
      | c # cs \<Rightarrow>
          let pos = pos + 1
          in if pos < n then do { out \<leftarrow> store_at (pos - 1) c out; put_string n cs out pos }
             else put_string n s2 out pos)"

declare put_string.simps [code]

definition fmt_x :: "u64 \<Rightarrow> bool \<Rightarrow> vararg list \<Rightarrow> u8 list \<times> u64 \<Rightarrow> (vararg list \<times> u8 list \<times> u64) option" where
  "fmt_x n longarg vl st = do {
     (num, vl) \<leftarrow> next_num longarg vl;
     st \<leftarrow> put_hex n num (2 * (if longarg then 8 else 4)) st;
     Some (vl, st) }"

definition fmt_d :: "u64 \<Rightarrow> bool \<Rightarrow> vararg list \<Rightarrow> u8 list \<times> u64 \<Rightarrow> (vararg list \<times> u8 list \<times> u64) option" where
  "fmt_d n longarg vl st = do {
     (num, vl) \<leftarrow> next_num longarg vl;
     (num, out, pos) \<leftarrow> (if num <s 0 then do {
         _ \<leftarrow> (if num = 0x8000000000000000 then None else Some ());
         st \<leftarrow> put n 0x2D st;
         Some (- num, st) }
       else Some (num, st));
     let digits = count_digits (unat num);
     out \<leftarrow> put_digits n pos (unat num) digits out;
     Some (vl, out, pos + of_nat digits) }"

definition fmt_s :: "u64 \<Rightarrow> vararg list \<Rightarrow> u8 list \<times> u64 \<Rightarrow> (vararg list \<times> u8 list \<times> u64) option" where
  "fmt_s n vl st =
     (case vl of Str s2 # vl \<Rightarrow> do { st \<leftarrow> put_string n s2 (fst st) (snd st); Some (vl, st) } | _ \<Rightarrow> None)"

text \<open>The argument of \<open>%c\<close> is only taken where the character is stored.\<close>

definition fmt_c :: "u64 \<Rightarrow> vararg list \<Rightarrow> u8 list \<times> u64 \<Rightarrow> (vararg list \<times> u8 list \<times> u64) option" where
  "fmt_c n vl st =
     (let (out, pos) = st; pos = pos + 1
      in if pos < n then do {
           (num, vl) \<leftarrow> next_num False vl;
           out \<leftarrow> store_at (pos - 1) (ucast num) out;
           Some (vl, out, pos) }
         else Some (vl, out, pos))"

fun vsnprintf_loop :: "u64 \<Rightarrow> u8 list \<Rightarrow> vararg list \<Rightarrow> bool \<Rightarrow> bool \<Rightarrow> u8 list \<times> u64 \<Rightarrow> (u8 list \<times> u64) option" where
  "vsnprintf_loop n [] vl fmt longarg st = Some st"
| "vsnprintf_loop n (c # s) vl fmt longarg st =
     (if fmt then
        if c = 0x6C then vsnprintf_loop n s vl True True st
        else if c = 0x70 then do {
          st \<leftarrow> put n 0x30 st;
          st \<leftarrow> put n 0x78 st;
          (vl, st) \<leftarrow> fmt_x n True vl st;
          vsnprintf_loop n s vl False False st }
        else if c = 0x78 then do {
          (vl, st) \<leftarrow> fmt_x n longarg vl st;
          vsnprintf_loop n s vl False False st }
        else if c = 0x64 then do {
          (vl, st) \<leftarrow> fmt_d n longarg vl st;
          vsnprintf_loop n s vl False False st }
        else if c = 0x73 then do {
          (vl, st) \<leftarrow> fmt_s n vl st;
          vsnprintf_loop n s vl False False st }
        else if c = 0x63 then do {
          (vl, st) \<leftarrow> fmt_c n vl st;
          vsnprintf_loop n s vl False False st }
        else None
      else if c = 0x25 then vsnprintf_loop n s vl True longarg st
      else do { st \<leftarrow> put n c st; vsnprintf_loop n s vl False longarg st })"

definition vsnprintf :: "u8 list \<Rightarrow> u64 \<Rightarrow> u8 list \<Rightarrow> vararg list \<Rightarrow> (u32 \<times> u8 list) option" where
  "vsnprintf out n s vl = do {
     (out, pos) \<leftarrow> vsnprintf_loop n s vl False False (out, 0);
     out \<leftarrow> (if pos < n then store_at pos 0 out else if n \<noteq> 0 then store_at (n - 1) 0 out else Some out);
     Some (ucast pos, out) }"

definition snprintf :: "u8 list \<Rightarrow> u64 \<Rightarrow> u8 list \<Rightarrow> vararg list \<Rightarrow> (u32 \<times> u8 list) option" where
  "snprintf out n s vl = vsnprintf out n s vl"

text \<open>\<open>stack\<close> is what the uninitialised 256 bytes of the buffer happen to hold.\<close>

definition vprintk :: "'d bus \<Rightarrow> u8 list \<Rightarrow> u8 list \<Rightarrow> vararg list \<Rightarrow> 'd \<Rightarrow> 'd option" where
  "vprintk B stack s vl d = do {
     (res, out) \<leftarrow> vsnprintf stack 256 s vl;
     uart_send_buf B (take (if scast res < (256 :: u64) then unat (scast res :: u64) else 256) out) d }"

definition printk :: "'d bus \<Rightarrow> u8 list \<Rightarrow> u8 list \<Rightarrow> vararg list \<Rightarrow> 'd \<Rightarrow> 'd option" where
  "printk B stack s vl d = vprintk B stack s vl d"


text \<open>The bytes of a string literal.\<close>

definition ascii :: "string \<Rightarrow> u8 list" where
  "ascii s = map of_char s"

definition die :: "u32 \<Rightarrow> 'a option" where
  "die code = None"

definition do_panic :: "'d bus \<Rightarrow> u8 list \<Rightarrow> u8 list \<Rightarrow> vararg list \<Rightarrow> 'd \<Rightarrow> 'a option" where
  "do_panic B stack s vl d = do { _ \<leftarrow> vprintk B stack s vl d; die (- 1) }"

definition kassert_fail :: "'d bus \<Rightarrow> u8 list \<Rightarrow> u8 list \<Rightarrow> 'd \<Rightarrow> 'a option" where
  "kassert_fail B stack s d = do_panic B stack (ascii ''assertion failed: %s'' @ [0x0A]) [Str s] d"

record trapframe_t =
  tf_gpr :: "u64 list"
  tf_status :: u64
  tf_epc :: u64
  tf_badvaddr :: u64
  tf_cause :: u64
  tf_insn :: u64

definition regnames :: "string list" where
  "regnames =
     [''z '', ''ra'', ''sp'', ''gp'', ''tp'', ''t0'', ''t1'', ''t2'',
      ''s0'', ''s1'', ''a0'', ''a1'', ''a2'', ''a3'', ''a4'', ''a5'',
      ''a6'', ''a7'', ''s2'', ''s3'', ''s4'', ''s5'', ''s6'', ''s7'',
      ''s8'', ''s9'', ''sA'', ''sB'', ''t3'', ''t4'', ''t5'', ''t6'']"

text \<open>Two nested loops over 8 rows of 4 registers; \<open>stack k\<close> is the buffer of the \<open>k\<close>-th call.\<close>

fun dump_regs :: "'d bus \<Rightarrow> (nat \<Rightarrow> u8 list) \<Rightarrow> u64 list \<Rightarrow> nat list \<Rightarrow> 'd \<Rightarrow> 'd option" where
  "dump_regs B stack gpr [] d = Some d"
| "dump_regs B stack gpr (k # ks) d = do {
     d \<leftarrow> printk B (stack k) (ascii ''%s %lx%c'')
            [Str (ascii (regnames ! k)), Num (gpr ! k), Num (if k mod 4 < 3 then 0x20 else 0x0A)] d;
     dump_regs B stack gpr ks d }"

definition dump_tf :: "'d bus \<Rightarrow> (nat \<Rightarrow> u8 list) \<Rightarrow> trapframe_t \<Rightarrow> 'd \<Rightarrow> (trapframe_t \<times> 'd) option" where
  "dump_tf B stack tf d = do {
     let tf = tf\<lparr>tf_gpr := (tf_gpr tf)[0 := 0]\<rparr>;
     d \<leftarrow> dump_regs B stack (tf_gpr tf) [0..<32] d;
     d \<leftarrow> printk B (stack 32) (ascii ''pc %lx va %lx insn       %x sr %lx'' @ [0x0A])
            [Num (tf_epc tf), Num (tf_badvaddr tf), Num (ucast (ucast (tf_insn tf) :: u32)), Num (tf_status tf)] d;
     Some (tf, d) }"

section \<open>The text a format stands for\<close>

text \<open>
  The text is described apart from the formatter: digits come from a table, the digit at a place is the
  quotient by a power of the base, and a number is the value its argument has in C, an \<open>int\<close> or a \<open>long\<close>.
\<close>

definition digit_char :: "nat \<Rightarrow> u8" where
  "digit_char d = ascii ''0123456789abcdef'' ! d"

definition hex_text :: "nat \<Rightarrow> nat \<Rightarrow> u8 list" where
  "hex_text k m = map (\<lambda>i. digit_char (m div 16 ^ i mod 16)) (rev [0..<k])"

fun dec_text :: "nat \<Rightarrow> u8 list" where
  "dec_text m = (if m < 10 then [] else dec_text (m div 10)) @ [digit_char (m mod 10)]"

declare dec_text.simps [simp del]

definition int_text :: "int \<Rightarrow> u8 list" where
  "int_text i = (if i < 0 then ascii ''-'' else []) @ dec_text (nat \<bar>i\<bar>)"

fun render :: "u8 list \<Rightarrow> vararg list \<Rightarrow> bool \<Rightarrow> bool \<Rightarrow> u8 list option" where
  "render [] vl fmt longarg = Some []"
| "render (c # s) vl fmt longarg =
     (if fmt then
        if c = of_char (CHR ''l'') then render s vl True True
        else case vl of
          Num w # vl \<Rightarrow>
            if c = of_char (CHR ''p'') then do {
              t \<leftarrow> render s vl False False;
              Some (ascii ''0x'' @ hex_text 16 (unat w) @ t) }
            else if c = of_char (CHR ''x'') then do {
              t \<leftarrow> render s vl False False;
              Some (hex_text (if longarg then 16 else 8) (unat w) @ t) }
            else if c = of_char (CHR ''d'') then do {
              t \<leftarrow> render s vl False False;
              let i = (if longarg then sint w else sint (ucast w :: u32));
              if i = - (2 ^ 63) then None else Some (int_text i @ t) }
            else if c = of_char (CHR ''c'') then do {
              t \<leftarrow> render s vl False False;
              Some (ucast w # t) }
            else None
        | Str s2 # vl \<Rightarrow>
            if c = of_char (CHR ''s'') then do { t \<leftarrow> render s vl False False; Some (s2 @ t) } else None
        | [] \<Rightarrow> None
      else if c = of_char (CHR ''%'') then render s vl True longarg
      else do { t \<leftarrow> render s vl False longarg; Some (c # t) })"

text \<open>Formats without \<open>%s\<close> and \<open>%c\<close>.\<close>

fun numeric :: "u8 list \<Rightarrow> bool \<Rightarrow> bool" where
  "numeric [] fmt = True"
| "numeric (c # s) fmt =
     (if fmt then c \<noteq> 0x73 \<and> c \<noteq> 0x63 \<and> numeric s (c = 0x6C) else numeric s (c = 0x25))"

section \<open>Digits\<close>

lemma digit_char_eq:
  assumes "d < 16"
  shows "digit_char d = (if d < 10 then 0x30 + of_nat d else 0x61 + of_nat d - 10)"
proof -
  have "\<forall>d \<in> set [0..<16]. digit_char d = (if d < 10 then 0x30 + of_nat d else 0x61 + of_nat d - 10)"
    by (simp add: upt_rec digit_char_def ascii_def)
  then show ?thesis using assms by simp
qed

lemma hex_digit_at: "hex_digit (drop_bit (4 * i) num AND 0xF) = digit_char (unat num div 16 ^ i mod 16)" for num :: u64
proof -
  let ?d = "drop_bit (4 * i) num AND 0xF"
  have "(0xF :: u64) = mask 4" by (simp add: mask_eq_exp_minus_1)
  then have u: "unat ?d = unat num div 16 ^ i mod 16"
    by (simp only: take_bit_eq_mask [symmetric] unsigned_take_bit_eq unat_drop_bit_eq) (simp add: take_bit_eq_mod drop_bit_eq_div power_mult)
  have "?d < 10 \<longleftrightarrow> unat ?d < 10" by (simp add: word_less_nat_alt)
  moreover have "ucast ?d = (of_nat (unat ?d) :: u8)" by (simp add: unsigned_of_nat)
  moreover have "unat ?d < 16" unfolding u by simp
  ultimately show ?thesis unfolding hex_digit_def u [symmetric] using digit_char_eq [of "unat ?d"] by simp
qed

text \<open>The digits the formatter counts and stores.\<close>

fun digits :: "nat \<Rightarrow> nat \<Rightarrow> u8 list" where
  "digits 0 num = []"
| "digits (Suc k) num = digits k (num div 10) @ [0x30 + of_nat (num mod 10)]"

lemma dec_text_digits: "dec_text m = digits (count_digits m) m"
proof (induction m rule: count_digits.induct)
  case (1 m)
  have d: "digit_char (m mod 10) = 0x30 + of_nat (m mod 10)" by (subst digit_char_eq) simp_all
  show ?case
  proof (cases "m div 10 = 0")
    case True
    then have "m < 10" by simp
    then show ?thesis using True d by (subst dec_text.simps, subst count_digits.simps) simp
  next
    case False
    then have "\<not> m < 10" by simp
    then show ?thesis using False 1 d by (subst dec_text.simps, subst count_digits.simps) simp
  qed
qed

text \<open>Sign and magnitude of an argument.\<close>

lemma unat_magnitude:
  fixes num :: u64
  shows "num <s 0 \<longleftrightarrow> sint num < 0" "sint num < 0 \<Longrightarrow> unat (- num) = nat \<bar>sint num\<bar>"
    "\<not> sint num < 0 \<Longrightarrow> unat num = nat \<bar>sint num\<bar>"
proof -
  show "num <s 0 \<longleftrightarrow> sint num < 0" by (simp add: word_sless_alt)
  have r: "- (2 ^ 63) \<le> sint num" "sint num < 2 ^ 63" using sint_range_size [of num] by (simp_all add: word_size)
  have w: "num = of_int (sint num)" by simp
  show "unat (- num) = nat \<bar>sint num\<bar>" if "sint num < 0"
  proof -
    have "- num = of_nat (nat \<bar>sint num\<bar>)" using that by simp
    then show ?thesis using r by (simp only: unat_of_nat) (simp add: take_bit_nat_eq_self)
  qed
  show "unat num = nat \<bar>sint num\<bar>" if "\<not> sint num < 0"
  proof -
    have "unat num = unat (of_nat (nat \<bar>sint num\<bar>) :: u64)" using that by simp
    then show ?thesis using r by (simp only: unat_of_nat) (simp add: take_bit_nat_eq_self)
  qed
qed

section \<open>The buffer holds a prefix of the text\<close>

text \<open>\<open>shown old t out\<close>: the text \<open>t\<close> over the old contents, one byte kept for the NUL.\<close>

definition shown :: "u8 list \<Rightarrow> u8 list \<Rightarrow> u8 list \<Rightarrow> bool" where
  "shown old t out \<longleftrightarrow> length out = length old
     \<and> (\<forall>j < length old. out ! j = (if j < length t \<and> j + 1 < length old then t ! j else old ! j))"

lemma put_shown:
  assumes n: "length old = unat n" and s: "shown old t out" and l: "length t + 1 < 2 ^ 64"
  shows "\<exists>out'. put n c (out, of_nat (length t)) = Some (out', of_nat (length t + 1)) \<and> shown old (t @ [c]) out'"
proof -
  have u: "unat (of_nat (length t) :: u64) = length t" "unat (of_nat (length t) + 1 :: u64) = length t + 1"
    using l by (simp_all add: unat_of_nat take_bit_nat_eq_self unat_word_ariths)
  have o: "length out = unat n" using s n by (simp add: shown_def)
  show ?thesis
  proof (cases "length t + 1 < unat n")
    case True
    then have "put n c (out, of_nat (length t)) = Some (out[length t := c], of_nat (length t + 1))"
      using u o by (simp add: put_def store_at_def word_less_nat_alt add.commute)
    moreover have "shown old (t @ [c]) (out[length t := c])"
      using s True n by (auto simp: shown_def nth_list_update nth_append)
    ultimately show ?thesis by blast
  next
    case False
    then have "put n c (out, of_nat (length t)) = Some (out, of_nat (length t + 1))"
      using u by (simp add: put_def word_less_nat_alt add.commute)
    moreover have "shown old (t @ [c]) out"
      using s False n by (auto simp: shown_def nth_append)
    ultimately show ?thesis by blast
  qed
qed

lemma put_hex_shown:
  assumes n: "length old = unat n"
  shows "shown old t out \<Longrightarrow> length t + k < 2 ^ 64 \<Longrightarrow>
    \<exists>out'. put_hex n num k (out, of_nat (length t)) = Some (out', of_nat (length t + k)) \<and> shown old (t @ hex_text k (unat num)) out'"
proof (induction k arbitrary: t out)
  case 0
  then show ?case by (simp add: hex_text_def)
next
  case (Suc k)
  obtain out1 where 1: "put n (hex_digit (drop_bit (4 * k) num AND 0xF)) (out, of_nat (length t)) = Some (out1, of_nat (length t + 1))"
    "shown old (t @ [hex_digit (drop_bit (4 * k) num AND 0xF)]) out1"
    using put_shown [OF n Suc.prems(1), of "hex_digit (drop_bit (4 * k) num AND 0xF)"] Suc.prems(2) by auto
  from Suc.IH [OF 1(2)] Suc.prems(2) 1(1) show ?case by (simp add: hex_text_def hex_digit_at)
qed


lemma length_digits [simp]: "length (digits k num) = k"
  by (induction k arbitrary: num) simp_all

lemma put_digits_at:
  assumes "length out = unat n" "p + k < 2 ^ 64"
  shows "\<exists>out'. put_digits n (of_nat p) num k out = Some out' \<and> length out' = length out
    \<and> (\<forall>j < length out. out' ! j = (if p \<le> j \<and> j < p + k \<and> j + 1 < length out then digits k num ! (j - p) else out ! j))"
  using assms
proof (induction k arbitrary: num out)
  case 0
  then show ?case by auto
next
  case (Suc k)
  define out1 where "out1 = (if p + k + 1 < unat n then out[p + k := 0x30 + of_nat (num mod 10)] else out)"
  have u: "unat (of_nat p + of_nat k :: u64) = p + k" "unat (of_nat p + of_nat k + 1 :: u64) = p + k + 1"
    using Suc.prems(2) by (simp_all add: unat_of_nat take_bit_nat_eq_self unat_word_ariths)
  have s: "put_digits n (of_nat p) num (Suc k) out = put_digits n (of_nat p) (num div 10) k out1"
    using u Suc.prems(1) by (simp add: out1_def store_at_def word_less_nat_alt)
  have l: "length out1 = length out" by (simp add: out1_def)
  then obtain out' where o: "put_digits n (of_nat p) (num div 10) k out1 = Some out'" "length out' = length out1"
    "\<And>j. j < length out1 \<Longrightarrow> out' ! j = (if p \<le> j \<and> j < p + k \<and> j + 1 < length out1 then digits k (num div 10) ! (j - p) else out1 ! j)"
    using Suc.IH [of out1 "num div 10"] Suc.prems by auto
  have "out' ! j = (if p \<le> j \<and> j < p + Suc k \<and> j + 1 < length out then digits (Suc k) num ! (j - p) else out ! j)"
    if "j < length out" for j
    using o(3) [of j] that l Suc.prems(1) by (auto simp: out1_def nth_append nth_list_update)
  with s o l show ?case by auto
qed

lemma put_digits_shown:
  assumes n: "length old = unat n" and s: "shown old t out" and l: "length t + k < 2 ^ 64"
  shows "\<exists>out'. put_digits n (of_nat (length t)) num k out = Some out' \<and> shown old (t @ digits k num) out'"
proof -
  have "length out = unat n" using s n by (simp add: shown_def)
  from put_digits_at [OF this l, of num] s show ?thesis
    unfolding shown_def by (fastforce simp: nth_append)
qed

lemma put_string_shown:
  assumes n: "length old = unat n"
  shows "shown old t out \<Longrightarrow> length t + length s2 < unat n \<Longrightarrow>
    \<exists>out'. put_string n s2 out (of_nat (length t)) = Some (out', of_nat (length t + length s2)) \<and> shown old (t @ s2) out'"
proof (induction s2 arbitrary: t out)
  case Nil
  then show ?case by (subst put_string.simps) simp
next
  case (Cons c s2)
  have b: "unat n < 2 ^ 64" using unat_bound [of n] by simp
  have u: "unat (of_nat (length t) :: u64) = length t" "unat (of_nat (length t) + 1 :: u64) = length t + 1"
    using Cons.prems b by (simp_all add: unat_of_nat take_bit_nat_eq_self unat_word_ariths)
  have o: "length out = unat n" using Cons.prems n by (simp add: shown_def)
  have "shown old (t @ [c]) (out[length t := c])"
    using Cons.prems n by (auto simp: shown_def nth_list_update nth_append)
  from Cons.IH [OF this] Cons.prems u o show ?case
    by (subst put_string.simps) (simp add: store_at_def word_less_nat_alt add.commute)
qed





text \<open>The conversions show their texts.\<close>

lemma next_num_int:
  fixes w :: u64
  defines "x \<equiv> scast (ucast w :: u32) :: u64"
  shows "k \<le> 8 \<Longrightarrow> hex_text k (unat x) = hex_text k (unat w)" "sint x = sint (ucast w :: u32)" "ucast x = (ucast w :: u8)"
proof -
  have b: "bit x n = bit w n" if "n < 32" for n using that by (simp add: x_def bit_simps)
  have "drop_bit (4 * i) x AND mask 4 = drop_bit (4 * i) w AND mask 4" if "i < 8" for i
    using that b by (intro bit_eqI) (auto simp: bit_simps)
  moreover have "mask 4 = (0xF :: u64)" by (simp add: mask_eq_exp_minus_1)
  ultimately have "drop_bit (4 * i) x AND 0xF = drop_bit (4 * i) w AND 0xF" if "i < 8" for i using that by (simp only:)
  then show "hex_text k (unat x) = hex_text k (unat w)" if "k \<le> 8"
    using that unfolding hex_text_def hex_digit_at [symmetric] by simp
  show "sint x = sint (ucast w :: u32)" unfolding x_def by (rule sint_up_scast) (simp add: is_up)
  show "ucast x = (ucast w :: u8)" using b by (intro bit_eqI) (auto simp: bit_simps)
qed

lemma fmt_x_shown:
  assumes n: "length old = unat n" and s: "shown old t out" and l: "length t + (if la then 16 else 8) < 2 ^ 64"
  shows "\<exists>out'. fmt_x n la (Num w # vl) (out, of_nat (length t)) = Some (vl, out', of_nat (length t + (if la then 16 else 8)))
    \<and> shown old (t @ hex_text (if la then 16 else 8) (unat w)) out'"
proof (cases la)
  case True
  then show ?thesis using put_hex_shown [OF n s, of 16 w] l by (auto simp: fmt_x_def next_num_def)
next
  case False
  then show ?thesis using put_hex_shown [OF n s, of 8 "scast (ucast w :: u32)"] l next_num_int(1) [of 8 w]
    by (auto simp: fmt_x_def next_num_def)
qed

lemma fmt_d_shown:
  assumes n: "length old = unat n" and s: "shown old t out" and a: "next_num la vl = Some (num, vl')" "sint num \<noteq> - (2 ^ 63)"
    and l: "length t + length (int_text (sint num)) < 2 ^ 64"
  shows "\<exists>out'. fmt_d n la vl (out, of_nat (length t)) = Some (vl', out', of_nat (length t + length (int_text (sint num))))
    \<and> shown old (t @ int_text (sint num)) out'"
proof (cases "sint num < 0")
  case True
  have m: "num \<noteq> 0x8000000000000000" using a(2) by auto
  have n0: "num <s 0" and u: "unat (- num) = nat \<bar>sint num\<bar>" using True unat_magnitude [of num] by simp_all
  define k where "k = count_digits (unat (- num))"
  have d: "int_text (sint num) = 0x2D # digits k (unat (- num))"
    using True u by (simp add: int_text_def k_def dec_text_digits ascii_def)
  obtain out1 where 1: "put n 0x2D (out, of_nat (length t)) = Some (out1, of_nat (length t + 1))" "shown old (t @ [0x2D]) out1"
    using put_shown [OF n s, of "0x2D"] l d by auto
  obtain out2 where 2: "put_digits n (of_nat (length t + 1)) (unat (- num)) k out1 = Some out2"
    "shown old (t @ int_text (sint num)) out2"
    using put_digits_shown [OF n 1(2), of k "unat (- num)"] l unfolding d by auto
  have "fmt_d n la vl (out, of_nat (length t)) = Some (vl', out2, of_nat (length t + 1) + of_nat k)"
    unfolding fmt_d_def Let_def
    by (simp only: a(1) n0 m 1(1) 2(1) [unfolded k_def] k_def bind.bind_lunit prod.case if_True if_False)
  with 2(2) show ?thesis unfolding d by simp
next
  case False
  have n0: "\<not> num <s 0" and u: "unat num = nat \<bar>sint num\<bar>" using False unat_magnitude [of num] by simp_all
  define k where "k = count_digits (unat num)"
  have d: "int_text (sint num) = digits k (unat num)" using False u by (simp add: int_text_def k_def dec_text_digits)
  obtain out2 where 2: "put_digits n (of_nat (length t)) (unat num) k out = Some out2" "shown old (t @ int_text (sint num)) out2"
    using put_digits_shown [OF n s, of k "unat num"] l unfolding d by auto
  have "fmt_d n la vl (out, of_nat (length t)) = Some (vl', out2, of_nat (length t) + of_nat k)"
    unfolding fmt_d_def Let_def
    by (simp only: a(1) n0 2(1) [unfolded k_def] k_def bind.bind_lunit prod.case if_True if_False)
  with 2(2) show ?thesis unfolding d by simp
qed

lemma fmt_s_shown:
  assumes "length old = unat n" "shown old t out" "length t + length s2 < unat n"
  shows "\<exists>out'. fmt_s n (Str s2 # vl) (out, of_nat (length t)) = Some (vl, out', of_nat (length t + length s2))
    \<and> shown old (t @ s2) out'"
  using put_string_shown [OF assms] by (auto simp: fmt_s_def)

lemma fmt_c_shown:
  assumes n: "length old = unat n" and s: "shown old t out" and l: "length t + 1 < unat n"
  shows "\<exists>out'. fmt_c n (Num w # vl) (out, of_nat (length t)) = Some (vl, out', of_nat (length t + 1)) \<and> shown old (t @ [ucast w]) out'"
proof -
  have b: "length t + 1 < 2 ^ 64" using l unat_bound [of n] by simp
  then have u: "unat (of_nat (length t) + 1 :: u64) = length t + 1" by (simp add: unat_of_nat take_bit_nat_eq_self unat_word_ariths)
  then have "of_nat (length t) + 1 < n" using l by (simp add: word_less_nat_alt)
  then have "fmt_c n (Num w # vl) (out, of_nat (length t)) = do { (out, pos) \<leftarrow> put n (ucast w) (out, of_nat (length t)); Some (vl, out, pos) }"
    by (simp add: fmt_c_def put_def next_num_def next_num_int(3))
  with put_shown [OF n s b, of "ucast w"] show ?thesis by auto
qed

lemma hex_text_length [simp]: "length (hex_text k num) = k"
  by (simp add: hex_text_def)

lemma vsnprintf_loop_shown:
  assumes n: "length old = unat n"
  shows "render s vl fmt la = Some r \<Longrightarrow> shown old t out \<Longrightarrow> length t + length r < 2 ^ 64 \<Longrightarrow>
    length t + length r < unat n \<or> numeric s fmt \<Longrightarrow>
    \<exists>out'. vsnprintf_loop n s vl fmt la (out, of_nat (length t)) = Some (out', of_nat (length t + length r)) \<and> shown old (t @ r) out'"
proof (induction s arbitrary: vl fmt la r t out)
  case Nil
  then show ?case by simp
next
  case (Cons c s)
  note prems = Cons.prems
  have step: "\<exists>out'. vsnprintf_loop n s vl' fmt' la' (out1, of_nat (length t + length x)) = Some (out', of_nat (length t + length r)) \<and> shown old (t @ r) out'"
    if "render s vl' fmt' la' = Some r'" "r = x @ r'" "shown old (t @ x) out1" "length t + length r < unat n \<or> numeric s fmt'"
    for vl' fmt' la' r' x out1
    using Cons.IH [of vl' fmt' la' r' "t @ x" out1] that prems(3) by (simp add: add.assoc)
  consider (lit) "\<not> fmt" "c \<noteq> 0x25" | (pct) "\<not> fmt" "c = 0x25" | (l) "fmt" "c = 0x6C" | (p) "fmt" "c = 0x70"
    | (x) "fmt" "c = 0x78" | (d) "fmt" "c = 0x64" | (s) "fmt" "c = 0x73" | (c) "fmt" "c = 0x63"
    using prems(1) by (auto split: if_splits list.splits vararg.splits)
  then show ?case
  proof cases
    case lit
    then obtain r' where r: "render s vl False la = Some r'" "r = [c] @ r'" using prems(1) by (auto simp: bind_eq_Some_conv)
    obtain out1 where o: "put n c (out, of_nat (length t)) = Some (out1, of_nat (length t + 1))" "shown old (t @ [c]) out1"
      using put_shown [OF n prems(2), of c] prems(3) r by auto
    from step [OF r o(2)] prems(4) lit o(1) show ?thesis by simp
  next
    case pct
    then show ?thesis using step [of vl True la r "[]" out] prems by simp
  next
    case l
    then show ?thesis using step [of vl True True r "[]" out] prems by simp
  next
    case p
    then obtain w vl' r' where r: "vl = Num w # vl'" "render s vl' False False = Some r'"
      "r = (0x30 # 0x78 # hex_text 16 (unat w)) @ r'"
      using prems(1) by (auto simp: bind_eq_Some_conv ascii_def split: list.splits vararg.splits)
    obtain out1 where o1: "put n 0x30 (out, of_nat (length t)) = Some (out1, of_nat (length t + 1))" "shown old (t @ [0x30]) out1"
      using put_shown [OF n prems(2), of "0x30"] prems(3) r by auto
    obtain out2 where o2: "put n 0x78 (out1, of_nat (length t + 1)) = Some (out2, of_nat (length t + 2))" "shown old (t @ [0x30, 0x78]) out2"
      using put_shown [OF n o1(2), of "0x78"] prems(3) r by auto
    obtain out3 where o3: "fmt_x n True vl (out2, of_nat (length t + 2)) = Some (vl', out3, of_nat (length t + 18))"
      "shown old (t @ 0x30 # 0x78 # hex_text 16 (unat w)) out3"
      using fmt_x_shown [OF n o2(2), of True w vl'] prems(3) r(1,3) by auto
    from step [OF r(2,3) o3(2)] prems(4) p o1(1) o2(1) o3(1) show ?thesis by simp
  next
    case x
    then obtain w vl' r' where r: "vl = Num w # vl'" "render s vl' False False = Some r'"
      "r = hex_text (if la then 16 else 8) (unat w) @ r'"
      using prems(1) by (auto simp: bind_eq_Some_conv split: list.splits vararg.splits)
    obtain out1 where o: "fmt_x n la vl (out, of_nat (length t)) = Some (vl', out1, of_nat (length t + (if la then 16 else 8)))"
      "shown old (t @ hex_text (if la then 16 else 8) (unat w)) out1"
      using fmt_x_shown [OF n prems(2), of la w vl'] prems(3) r(1,3) by auto
    from step [OF r(2,3) o(2)] prems(4) x o(1) show ?thesis by simp
  next
    case d
    then obtain w vl' r' where r: "vl = Num w # vl'" "render s vl' False False = Some r'"
      "r = int_text (if la then sint w else sint (ucast w :: u32)) @ r'" "(if la then sint w else sint (ucast w :: u32)) \<noteq> - (2 ^ 63)"
      using prems(1) by (auto simp: bind_eq_Some_conv Let_def split: if_splits list.splits vararg.splits)
    define num where "num = (if la then w else scast (ucast w :: u32))"
    have num: "next_num la vl = Some (num, vl')" "(if la then sint w else sint (ucast w :: u32)) = sint num"
      using r(1) by (simp_all add: num_def next_num_def next_num_int(2))
    obtain out1 where o: "fmt_d n la vl (out, of_nat (length t)) = Some (vl', out1, of_nat (length t + length (int_text (sint num))))"
      "shown old (t @ int_text (sint num)) out1"
      using fmt_d_shown [OF n prems(2) num(1)] prems(3) r(3,4) num(2) by auto
    from step [OF r(2) r(3) [unfolded num(2)] o(2)] prems(4) d o(1) show ?thesis by simp
  next
    case s
    then obtain s2 vl' r' where r: "vl = Str s2 # vl'" "render s vl' False False = Some r'" "r = s2 @ r'"
      using prems(1) by (auto simp: bind_eq_Some_conv split: list.splits vararg.splits)
    obtain out1 where o: "fmt_s n vl (out, of_nat (length t)) = Some (vl', out1, of_nat (length t + length s2))" "shown old (t @ s2) out1"
      using fmt_s_shown [OF n prems(2), of s2 vl'] prems(4) s r by auto
    from step [OF r(2,3) o(2)] prems(4) s o(1) show ?thesis by simp
  next
    case c
    then obtain w vl' r' where r: "vl = Num w # vl'" "render s vl' False False = Some r'" "r = [ucast w] @ r'"
      using prems(1) by (auto simp: bind_eq_Some_conv split: list.splits vararg.splits)
    obtain out1 where o: "fmt_c n vl (out, of_nat (length t)) = Some (vl', out1, of_nat (length t + 1))" "shown old (t @ [ucast w]) out1"
      using fmt_c_shown [OF n prems(2), of w vl'] prems(4) c r(1,3) by auto
    from step [OF r(2,3) o(2)] prems(4) c o(1) show ?thesis by simp
  qed
qed


lemma vsnprintf_shows:
  assumes n: "length out = unat n" "n \<noteq> 0" and r: "render s vl False False = Some t" "length t < 2 ^ 64"
    and f: "length t < unat n \<or> numeric s False"
  shows "vsnprintf out n s vl
    = Some (of_nat (length t), take (unat n - 1) t @ 0 # drop (length t + 1) out)"
proof -
  have "shown out [] out" by (simp add: shown_def)
  from vsnprintf_loop_shown [OF n(1) r(1) this] r(2) f obtain o1
    where o: "vsnprintf_loop n s vl False False (out, 0) = Some (o1, of_nat (length t))" "shown out t o1"
    by auto
  have l: "length o1 = unat n" using o(2) n by (simp add: shown_def)
  have u: "unat (of_nat (length t) :: u64) = length t" using r(2) by (simp add: unat_of_nat take_bit_nat_eq_self)
  have n0: "0 < unat n" using n(2) by (simp add: unat_gt_0)
  then have n1: "unat (n - 1) = unat n - 1" by (simp add: unat_minus_one n(2))
  define i where "i = min (length t) (unat n - 1)"
  have "(if of_nat (length t) < n then store_at (of_nat (length t)) 0 o1 else if n \<noteq> 0 then store_at (n - 1) 0 o1 else Some o1)
      = Some (o1[i := 0])"
    using u l n0 n1 n(2) by (auto simp: store_at_def word_less_nat_alt i_def min_def)
  moreover have "o1[i := 0] = take (unat n - 1) t @ 0 # drop (length t + 1) out"
  proof (rule nth_equalityI)
    show "length (o1[i := 0]) = length (take (unat n - 1) t @ 0 # drop (length t + 1) out)"
      using l n n0 by (auto simp: min_def)
    have lt: "length (take (unat n - 1) t) = i" by (simp add: i_def min.commute)
    fix j assume "j < length (o1[i := 0])"
    then have j: "j < unat n" using l by simp
    consider "j < i" | "j = i" | "i < j" by linarith
    then show "o1[i := 0] ! j = (take (unat n - 1) t @ 0 # drop (length t + 1) out) ! j"
    proof cases
      case 1
      then show ?thesis using o(2) n(1) lt j by (auto simp: shown_def nth_append i_def)
    next
      case 2
      then show ?thesis using l j lt by (simp add: nth_append)
    next
      case 3
      then have "i = length t" using j by (simp add: i_def min_def split: if_splits)
      moreover from this 3 have "o1 ! j = out ! j" using o(2) n(1) j by (simp add: shown_def)
      ultimately show ?thesis using 3 n(1) j lt by (simp add: nth_append nth_Cons')
    qed
  qed
  moreover have "(ucast (of_nat (length t) :: u64) :: u32) = of_nat (length t)"
    by (simp add: unsigned_of_nat word_of_nat_eq_iff take_bit_take_bit)
  ultimately show ?thesis
    using o(1) by (simp add: vsnprintf_def)
qed



section \<open>Printing and reading a number\<close>

fun value10 :: "u8 list \<Rightarrow> int \<Rightarrow> int" where
  "value10 [] res = res"
| "value10 (c # cs) res = value10 cs (res * 10 + (uint c - 0x30))"

lemma value10_append: "value10 (xs @ ys) res = value10 ys (value10 xs res)"
  by (induction xs arbitrary: res) simp_all

lemma uint_digit: "uint (0x30 + of_nat (m mod 10) :: u8) = 0x30 + int (m mod 10)"
proof -
  have "m mod 10 < 10" by simp
  then have "unat (0x30 + of_nat (m mod 10) :: u8) = 0x30 + m mod 10"
    by (simp add: unat_word_ariths unat_of_nat take_bit_nat_eq_self)
  then show ?thesis by (simp only: uint_nat of_nat_add of_nat_numeral)
qed

lemma value10_digits: "value10 (digits k m) res = res * 10 ^ k + int (m mod 10 ^ k)"
proof (induction k arbitrary: m)
  case (Suc k)
  have "m mod 10 ^ Suc k = 10 * (m div 10 mod 10 ^ k) + m mod 10" by (simp add: mod_mult2_eq)
  then have "int (m mod 10 ^ Suc k) = int (m div 10 mod 10 ^ k) * 10 + int (m mod 10)" by simp
  then show ?case by (simp only: digits.simps value10_append Suc.IH) (simp add: uint_digit algebra_simps)
qed simp

lemma count_digits_bound: "m < 10 ^ count_digits m"
proof (induction m rule: count_digits.induct)
  case (1 m)
  show ?case
  proof (cases "m div 10 = 0")
    case True
    then show ?thesis by (subst count_digits.simps) simp
  next
    case False
    with 1 have "m div 10 < 10 ^ count_digits (m div 10)" by simp
    then have "m < 10 * 10 ^ count_digits (m div 10)" by (simp add: div_less_iff_less_mult mult.commute)
    with False show ?thesis by (subst count_digits.simps) simp
  qed
qed

lemma count_digits_le: "m < 10 ^ k \<Longrightarrow> 1 \<le> k \<Longrightarrow> count_digits m \<le> k"
proof (induction k arbitrary: m)
  case (Suc k)
  show ?case
  proof (cases "m div 10 = 0")
    case False
    then have "k \<noteq> 0" using Suc.prems by (cases k) auto
    moreover have "m div 10 < 10 ^ k" using Suc.prems by (simp add: div_less_iff_less_mult mult.commute)
    ultimately have "count_digits (m div 10) \<le> k" by (intro Suc.IH) simp_all
    with False show ?thesis by (subst count_digits.simps) simp
  qed (subst count_digits.simps, simp)
qed simp

lemma digits_set: "c \<in> set (digits k m) \<Longrightarrow> 0x30 \<le> uint c \<and> uint c \<le> 0x39"
proof (induction k arbitrary: m)
  case (Suc k)
  have "m mod 10 < 10" by simp
  then have "0x30 \<le> uint (0x30 + of_nat (m mod 10) :: u8) \<and> uint (0x30 + of_nat (m mod 10) :: u8) \<le> 0x39"
    unfolding uint_digit by linarith
  with Suc show ?case by auto
qed simp

lemma value10_mono: "(\<forall>c \<in> set cs. 0x30 \<le> uint c) \<Longrightarrow> 0 \<le> res \<Longrightarrow> res \<le> value10 cs res"
proof (induction cs arbitrary: res)
  case (Cons c cs)
  have "0 \<le> res * 10 + (uint c - 0x30)" using Cons.prems by simp
  then have "res * 10 + (uint c - 0x30) \<le> value10 cs (res * 10 + (uint c - 0x30))" using Cons by simp
  then show ?case using Cons.prems by simp
qed simp

lemma atol_loop_digits:
  assumes "mem_read m a (Suc (length cs)) = cs @ [0]" "\<forall>c \<in> set cs. 0x30 \<le> uint c \<and> uint c \<le> 0x39"
    "0 \<le> res" "value10 cs res < 2 ^ 63"
  shows "atol_loop a m res = Some (value10 cs res)"
  using assms
proof (induction cs arbitrary: a res)
  case Nil
  then show ?case by (subst atol_loop.simps) (simp add: mem_read_def)
next
  case (Cons c cs)
  have c: "m a = c" "mem_read m (a + 1) (Suc (length cs)) = cs @ [0]" using Cons.prems(1) by (simp_all add: mem_read_Suc)
  have "c \<noteq> 0" using Cons.prems(2) by auto
  let ?r = "res * 10 + (uint c - 0x30)"
  have r: "0 \<le> ?r" "res * 10 \<le> ?r" using Cons.prems(2,3) by simp_all
  then have "?r < 2 ^ 63" using value10_mono [of cs ?r] Cons.prems(2,4) by simp
  then have "in_long (res * 10) = Some (res * 10)" "in_long ?r = Some ?r" using r Cons.prems(3) by (simp_all add: in_long_def)
  moreover have "atol_loop (a + 1) m ?r = Some (value10 cs ?r)"
    using Cons.IH [OF c(2) _ r(1)] Cons.prems(2,4) by simp
  ultimately show ?case using c(1) \<open>c \<noteq> 0\<close> by (subst atol_loop.simps) simp
qed


lemma sint_of_int: "- (2 ^ 63) < i \<Longrightarrow> i < 2 ^ 63 \<Longrightarrow> sint (of_int i :: u64) = i"
  by (simp add: signed_of_int signed_take_bit_int_eq_self)

lemma atol_int_text:
  assumes i: "- (2 ^ 63) < i" "i < 2 ^ 63" and m: "mem_read m a (Suc (length (int_text i))) = int_text i @ [0]"
  shows "atol a m = Some i"
proof -
  define ds where "ds = digits (count_digits (nat \<bar>i\<bar>)) (nat \<bar>i\<bar>)"
  have v: "value10 ds 0 = \<bar>i\<bar>" unfolding ds_def value10_digits using count_digits_bound [of "nat \<bar>i\<bar>"] by simp
  have s: "\<forall>c \<in> set ds. 0x30 \<le> uint c \<and> uint c \<le> 0x39" unfolding ds_def using digits_set by blast
  have b: "value10 ds 0 < 2 ^ 63" unfolding v using i by simp
  have "length ds \<noteq> 0" unfolding ds_def length_digits by (subst count_digits.simps) simp
  then obtain c cs where ds: "ds = c # cs" by (cases ds) auto
  have d: "int_text i = (if i < 0 then [0x2D] else []) @ ds" by (simp add: ds_def int_text_def dec_text_digits ascii_def)
  have c: "0x30 \<le> uint c" "uint c \<le> 0x39" using s ds by auto
  then have nc: "c \<noteq> 0x20" "c \<noteq> 0x2D" "c \<noteq> 0x2B" by auto
  have *: "atol_loop b m 0 = Some \<bar>i\<bar>" if "mem_read m b (Suc (length ds)) = ds @ [0]" for b
    using atol_loop_digits [OF that s _ b] v by simp
  show ?thesis
  proof (cases "i < 0")
    case True
    then have "m a = 0x2D" "mem_read m (a + 1) (Suc (length ds)) = ds @ [0]" using m d by (simp_all add: mem_read_Suc)
    then show ?thesis using * [of "a + 1"] True i
      by (simp add: atol_def in_long_def) (subst skip_spaces.simps, simp)
  next
    case False
    then have "m a = c" "mem_read m a (Suc (length ds)) = ds @ [0]" using m d ds by (simp_all add: mem_read_Suc)
    then show ?thesis using * [of a] False i nc
      by (simp add: atol_def in_long_def) (subst skip_spaces.simps, simp)
  qed
qed

lemma atol_vsnprintf:
  assumes i: "- (2 ^ 63) < i" "i < 2 ^ 63" and n: "length out = unat n" "21 \<le> unat n"
  shows "\<exists>k out'. vsnprintf out n [0x25, 0x6C, 0x64] [Num (of_int i)] = Some (k, out') \<and> atol a (mem_write m a out') = Some i"
proof -
  let ?t = "int_text i"
  have "nat \<bar>i\<bar> < 10 ^ 19" using i by simp
  then have "count_digits (nat \<bar>i\<bar>) \<le> 19" by (rule count_digits_le) simp
  moreover have "length ?t \<le> 1 + count_digits (nat \<bar>i\<bar>)" by (simp add: int_text_def dec_text_digits ascii_def)
  ultimately have l: "length ?t < unat n" using n(2) by simp
  have r: "render [0x25, 0x6C, 0x64] [Num (of_int i)] False False = Some ?t"
    using sint_of_int [OF i] i by simp
  have n0: "n \<noteq> 0" using n(2) by auto
  have b: "unat n < 2 ^ 64" using unat_bound [of n] by simp
  define out' where "out' = ?t @ 0 # drop (length ?t + 1) out"
  have v: "vsnprintf out n [0x25, 0x6C, 0x64] [Num (of_int i)] = Some (of_nat (length ?t), out')"
    using vsnprintf_shows [OF n(1) n0 r] l b by (simp add: out'_def)
  have lo: "length out' = unat n" using l n(1) by (simp add: out'_def)
  then have "mem_read (mem_write m a out') a (unat n) = out'" using mem_read_write_same [of out' m a] b by simp
  moreover have "mem_read (mem_write m a out') a (Suc (length ?t)) = take (Suc (length ?t)) (mem_read (mem_write m a out') a (unat n))"
    using l by (intro nth_equalityI) simp_all
  ultimately have "mem_read (mem_write m a out') a (Suc (length ?t)) = ?t @ [0]" by (simp add: out'_def)
  from atol_int_text [OF i this] v show ?thesis by blast
qed

section \<open>Properties of the formatter\<close>

text \<open>
  C27: take a format whose conversions match their arguments, and a buffer of \<open>n > 0\<close> bytes into which the text
  fits with its NUL; for a format without \<open>%s\<close> and \<open>%c\<close> it need not fit.  Then \<open>vsnprintf\<close> returns
  the length of the whole text and leaves in the buffer its first \<open>n - 1\<close> bytes, a NUL and the old contents behind it.
\<close>

theorem vsnprintf_correct:
  assumes "length out = unat n" "n \<noteq> 0" "render s vl False False = Some t" "length t < 2 ^ 64"
    "length t < unat n \<or> numeric s False"
  shows "vsnprintf out n s vl
    = Some (of_nat (length t), take (unat n - 1) t @ 0 # drop (length t + 1) out)"
  by (rule vsnprintf_shows [OF assms])

theorem vsnprintf_correct_witness:
  "vsnprintf (replicate 8 0xAA) 8 (ascii ''a=%d!'') [Num (- 42)] = Some (6, ascii ''a=-42!'' @ [0, 0xAA])"
proof -
  have r: "render (ascii ''a=%d!'') [Num (- 42)] False False = Some (ascii ''a=-42!'')" by code_simp
  have d: "length (ascii ''a=-42!'') = 6" by (simp add: ascii_def)
  have "vsnprintf (replicate 8 0xAA) 8 (ascii ''a=%d!'') [Num (- 42)]
      = Some (of_nat (length (ascii ''a=-42!'')), take (unat (8 :: u64) - 1) (ascii ''a=-42!'') @ 0 # drop (length (ascii ''a=-42!'') + 1) (replicate 8 0xAA))"
    by (rule vsnprintf_correct [OF _ _ r]) (simp_all add: d)
  then show ?thesis by (simp add: d)
qed



text \<open>
  C28: a number printed with \<open>%ld\<close> into a buffer of at least 21 bytes and read
  back with \<open>atol\<close> is the number; only the least \<open>long\<close> is excluded, whose negation
  overflows.
\<close>

theorem atol_vsnprintf_roundtrip:
  assumes "- (2 ^ 63) < i" "i < 2 ^ 63" "length out = unat n" "21 \<le> unat n"
  shows "\<exists>k out'. vsnprintf out n (ascii ''%ld'') [Num (of_int i)] = Some (k, out')
    \<and> atol a (mem_write m a out') = Some i"
proof -
  have "ascii ''%ld'' = [0x25, 0x6C, 0x64]" by code_simp
  then show ?thesis using atol_vsnprintf [OF assms] by simp
qed

theorem atol_vsnprintf_roundtrip_witness:
  "\<exists>k out'. vsnprintf (replicate 32 0) 32 (ascii ''%ld'') [Num (of_int (- 9223372036854775807))] = Some (k, out')
    \<and> atol 0x1000 (mem_write (\<lambda>_. 0) 0x1000 out') = Some (- 9223372036854775807)"
  by (rule atol_vsnprintf_roundtrip) simp_all

end
