(* ===== verification/Mtrap.thy ===== *)
theory Mtrap
  imports Vm Console
begin

text \<open>
  \<open>bbl/mtrap.c\<close>, the hart-local storage of \<open>bbl/mtrap.h\<close> and the entry code \<open>bbl/mentry.S\<close>:
  machine calls, the two device queues, interprocessor interrupts, and which trap goes where.
  The state extends that of the memory manager by the device registers, the storage of every hart
  (indexed by its page) and the control registers of the calling hart.
\<close>

section \<open>State\<close>

record hls_t =
  device_request_queue_head :: u64
  device_request_queue_size :: u64
  device_response_queue_head :: u64
  device_response_queue_tail :: u64
  hart_id :: u32
  ipi_pending :: u32

record ('fs, 'fil, 'd) mach = "('fs, 'fil) vm_state" +
  dev :: 'd
  all_hls :: "u64 \<Rightarrow> hls_t"
  this_hls :: u64
  c_mstatus :: u64
  c_mcause :: u64
  c_mepc :: u64
  c_mip :: u64
  c_mie :: u64
  c_mtimecmp :: u64
  c_mscratch :: u64
  c_irq_enable :: u64
  c_send_ipi :: "u64 list"
  machine_stack_top :: u64
  ramdisk :: "nat option"

abbreviation (input) HTIF_CMD_READ :: u64 where "HTIF_CMD_READ \<equiv> 0x00"
abbreviation (input) HTIF_CMD_WRITE :: u64 where "HTIF_CMD_WRITE \<equiv> 0x01"
abbreviation (input) HTIF_CMD_IDENTIFY :: u64 where "HTIF_CMD_IDENTIFY \<equiv> 0xFF"
abbreviation (input) HTIF_MAX_CMD :: u64 where "HTIF_MAX_CMD \<equiv> 256"
abbreviation (input) HTIF_MAX_ID :: u64 where "HTIF_MAX_ID \<equiv> 64"
abbreviation (input) EFAULT :: u64 where "EFAULT \<equiv> 14"
abbreviation (input) MENTRY_FRAME_SIZE :: u64 where "MENTRY_FRAME_SIZE \<equiv> 32 * 8 + 64"

abbreviation (input) MCALL_HART_ID :: u64 where "MCALL_HART_ID \<equiv> 0"
abbreviation (input) MCALL_CONSOLE_PUTCHAR :: u64 where "MCALL_CONSOLE_PUTCHAR \<equiv> 1"
abbreviation (input) MCALL_SEND_DEVICE_REQUEST :: u64 where "MCALL_SEND_DEVICE_REQUEST \<equiv> 2"
abbreviation (input) MCALL_RECEIVE_DEVICE_RESPONSE :: u64 where "MCALL_RECEIVE_DEVICE_RESPONSE \<equiv> 3"
abbreviation (input) MCALL_SEND_IPI :: u64 where "MCALL_SEND_IPI \<equiv> 4"
abbreviation (input) MCALL_CLEAR_IPI :: u64 where "MCALL_CLEAR_IPI \<equiv> 5"
abbreviation (input) MCALL_SHUTDOWN :: u64 where "MCALL_SHUTDOWN \<equiv> 6"
abbreviation (input) MCALL_SET_TIMER :: u64 where "MCALL_SET_TIMER \<equiv> 7"

definition HLS :: "('fs, 'fil, 'd, 'z) mach_scheme \<Rightarrow> hls_t" where
  "HLS s = all_hls s (this_hls s)"

definition set_hls :: "u64 \<Rightarrow> hls_t \<Rightarrow> ('fs, 'fil, 'd, 'z) mach_scheme \<Rightarrow> ('fs, 'fil, 'd, 'z) mach_scheme" where
  "set_hls i h s = s\<lparr>all_hls := (all_hls s)(i := h)\<rparr>"

definition set_HLS :: "hls_t \<Rightarrow> ('fs, 'fil, 'd, 'z) mach_scheme \<Rightarrow> ('fs, 'fil, 'd, 'z) mach_scheme" where
  "set_HLS h s = set_hls (this_hls s) h s"

text \<open>The page of a hart's storage, counted from the calling hart's own.\<close>

definition OTHER_HLS :: "u64 \<Rightarrow> ('fs, 'fil, 'd, 'z) mach_scheme \<Rightarrow> u64" where
  "OTHER_HLS i s = this_hls s + (i - scast (hart_id (HLS s)))"

text \<open>The fields of a \<open>sbi_device_message\<close> in the supervisor's memory.\<close>

definition msg_dev :: "mem \<Rightarrow> u64 \<Rightarrow> u64" where "msg_dev r m = rd64 r m"
definition msg_cmd :: "mem \<Rightarrow> u64 \<Rightarrow> u64" where "msg_cmd r m = rd64 r (m + 8)"
definition msg_data :: "mem \<Rightarrow> u64 \<Rightarrow> u64" where "msg_data r m = rd64 r (m + 16)"
definition msg_private :: "mem \<Rightarrow> u64 \<Rightarrow> u64" where "msg_private r m = rd64 r (m + 24)"

definition set_data :: "u64 \<Rightarrow> u64 \<Rightarrow> mem \<Rightarrow> mem" where "set_data m v r = wr64 r (m + 16) v"
definition set_private :: "u64 \<Rightarrow> u64 \<Rightarrow> mem \<Rightarrow> mem" where "set_private m v r = wr64 r (m + 24) v"

definition supervisor_paddr_valid :: "u64 \<Rightarrow> u64 \<Rightarrow> ('fs, 'fil, 'd, 'z) mach_scheme \<Rightarrow> bool" where
  "supervisor_paddr_valid start len s \<longleftrightarrow>
     first_user_vaddr (current s) + bias (current s) \<le> start
     \<and> start + len < mem_size s \<and> start \<le> start + len"

definition from_machine_mode :: "('fs, 'fil, 'd, 'z) mach_scheme \<Rightarrow> bool" where
  "from_machine_mode s \<longleftrightarrow> EXTRACT_FIELD (c_mstatus s) MSTATUS_PRV1 = PRV_M"

section \<open>Queues\<close>

text \<open>The lines both users of the response queue share.\<close>

definition enqueue_response :: "u64 \<Rightarrow> ('fs, 'fil, 'd, 'z) mach_scheme \<Rightarrow> ('fs, 'fil, 'd, 'z) mach_scheme" where
  "enqueue_response m s =
     (let s = (if device_response_queue_tail (HLS s) \<noteq> 0
               then s\<lparr>ram := set_private (device_response_queue_tail (HLS s)) m (ram s)\<rparr>
               else set_HLS ((HLS s)\<lparr>device_response_queue_head := m\<rparr>) s)
      in set_HLS ((HLS s)\<lparr>device_response_queue_tail := m\<rparr>) s)"

definition mcall_respond :: "u64 \<Rightarrow> u64 \<Rightarrow> ('fs, 'fil, 'd, 'z) mach_scheme \<Rightarrow> ('fs, 'fil, 'd, 'z) mach_scheme" where
  "mcall_respond m resp s =
     (let s = s\<lparr>ram := set_private m 0 (ram s)\<rparr>;
          s = enqueue_response m s;
          s = s\<lparr>ram := set_data m resp (ram s)\<rparr>
      in s\<lparr>c_mip := c_mip s OR MIP_SSIP\<rparr>)"

text \<open>The scan of the request queue; \<open>k\<close> messages are left, \<open>n\<close> is the size read at the start.\<close>

fun io_irq_scan :: "'d bus \<Rightarrow> u64 \<Rightarrow> nat \<Rightarrow> u64 \<Rightarrow> u64 \<Rightarrow> ('fs, 'fil, 'd, 'z) mach_scheme
    \<Rightarrow> (u64 \<times> ('fs, 'fil, 'd, 'z) mach_scheme) option" where
  "io_irq_scan B n 0 prev m s = None"
| "io_irq_scan B n (Suc k) prev m s =
     (if \<not> supervisor_paddr_valid m 32 s \<and> \<not> from_machine_mode s then None
      else
        let nxt = msg_private (ram s) m
        in if msg_dev (ram s) m = 0 \<and> msg_cmd (ram s) m = HTIF_CMD_READ then
             let (ch, d) = uart_read_irq B (dev s);
                 s = s\<lparr>dev := d, ram := set_data m (0x100 OR ucast ch) (ram s)\<rparr>;
                 s = (if prev \<noteq> 0 then s\<lparr>ram := set_private prev nxt (ram s)\<rparr>
                      else set_HLS ((HLS s)\<lparr>device_request_queue_head := nxt\<rparr>) s);
                 s = set_HLS ((HLS s)\<lparr>device_request_queue_size := n - 1\<rparr>) s;
                 s = s\<lparr>ram := set_private m 0 (ram s)\<rparr>;
                 s = enqueue_response m s
             in Some (0, s\<lparr>c_mip := c_mip s OR MIP_SSIP\<rparr>)
           else io_irq_scan B n k m (msg_private (ram s) m) s)"

definition io_irq_service :: "'d bus \<Rightarrow> ('fs, 'fil, 'd, 'z) mach_scheme
    \<Rightarrow> (u64 \<times> ('fs, 'fil, 'd, 'z) mach_scheme) option" where
  "io_irq_service B s =
     (let (r, d) = uart_check_read_irq B (dev s);
          s = s\<lparr>dev := d\<rparr>;
          n = device_request_queue_size (HLS s)
      in if r = 0 then None else io_irq_scan B n (unat n) 0 (device_request_queue_head (HLS s)) s)"

section \<open>Calls\<close>

definition mcall_hart_id :: "('fs, 'fil, 'd, 'z) mach_scheme \<Rightarrow> u64" where
  "mcall_hart_id s = scast (hart_id (HLS s))"

definition mcall_console_putchar :: "'d bus \<Rightarrow> u8 \<Rightarrow> ('fs, 'fil, 'd, 'z) mach_scheme
    \<Rightarrow> (u64 \<times> ('fs, 'fil, 'd, 'z) mach_scheme) option" where
  "mcall_console_putchar B ch s = do { d \<leftarrow> uart_send B ch (dev s); Some (0, s\<lparr>dev := d\<rparr>) }"

text \<open>The name is given by its bytes before the NUL; \<open>strcpy\<close> copies them with the NUL.\<close>

definition handle_identify :: "u64 \<Rightarrow> u8 list \<Rightarrow> ('fs, 'fil, 'd, 'z) mach_scheme
    \<Rightarrow> ('fs, 'fil, 'd, 'z) mach_scheme option" where
  "handle_identify payload dev_name s =
     (let what = payload mod HTIF_MAX_CMD;
          addr = payload div HTIF_MAX_CMD
      in if addr mod HTIF_MAX_ID \<noteq> 0 then None
         else if unat HTIF_MAX_ID < length dev_name then None
         else Some (s\<lparr>ram := mem_write (ram s) addr ((if what = HTIF_CMD_IDENTIFY then dev_name else []) @ [0])\<rparr>))"

definition ramdisk_fn :: string where "ramdisk_fn = ''root.bin''"

text \<open>The disk's own identification; \<open>stack\<close> is what the uninitialised name buffer holds.\<close>

definition disk_identify :: "('fs, 'fil) fatfs \<Rightarrow> u8 list \<Rightarrow> u64 \<Rightarrow> ('fs, 'fil, 'd, 'z) mach_scheme
    \<Rightarrow> ('fs, 'fil, 'd, 'z) mach_scheme option" where
  "disk_identify F stack m s =
     (let (rt, fsize, d) = f_stat F ramdisk_fn (disk s);
          s = s\<lparr>disk := d\<rparr>
      in if rt \<noteq> 0 then do {
           s \<leftarrow> handle_identify (msg_data (ram s) m) [] s;
           Some (mcall_respond m 1 s) }
         else do {
           (f, s) \<leftarrow> file_open F ramdisk_fn O_RDWR s;
           let s = s\<lparr>ramdisk := f\<rparr>;
           if f = None then do {
             s \<leftarrow> handle_identify (msg_data (ram s) m) [] s;
             Some (mcall_respond m 1 s) }
           else do {
             (_, buf) \<leftarrow> snprintf stack HTIF_MAX_ID (ascii ''disk size=%d'') [Num (ucast fsize)];
             s \<leftarrow> handle_identify (msg_data (ram s) m) (takeWhile (\<lambda>c. c \<noteq> 0) buf) s;
             Some (mcall_respond m 1 s) } })"

text \<open>The fields of the \<open>disk_request_t\<close> the message points to.\<close>

definition req_addr :: "mem \<Rightarrow> u64 \<Rightarrow> u64" where "req_addr r q = rd64 r q"
definition req_offset :: "mem \<Rightarrow> u64 \<Rightarrow> u64" where "req_offset r q = rd64 r (q + 8)"
definition req_size :: "mem \<Rightarrow> u64 \<Rightarrow> u64" where "req_size r q = rd64 r (q + 16)"
definition req_tag :: "mem \<Rightarrow> u64 \<Rightarrow> u64" where "req_tag r q = rd64 r (q + 24)"

text \<open>C leaves open whether the size is read before or after the transfer it is compared with; here it is
  read after.\<close>

definition disk_transfer :: "(nat \<Rightarrow> u64 \<Rightarrow> u64 \<Rightarrow> u64 \<Rightarrow> ('fs, 'fil, 'd, 'z) mach_scheme
      \<Rightarrow> (u64 \<times> ('fs, 'fil, 'd, 'z) mach_scheme) option) \<Rightarrow> u64 \<Rightarrow> ('fs, 'fil, 'd, 'z) mach_scheme
    \<Rightarrow> ('fs, 'fil, 'd, 'z) mach_scheme option" where
  "disk_transfer op m s = do {
     let req = msg_data (ram s) m;
     f \<leftarrow> ramdisk s;
     (n, s) \<leftarrow> op f (req_addr (ram s) req) (req_size (ram s) req) (req_offset (ram s) req) s;
     if n \<noteq> req_size (ram s) req then None
     else Some (mcall_respond m (req_tag (ram s) req) s) }"

definition mcall_dev_req :: "('fs, 'fil) fatfs \<Rightarrow> 'd bus \<Rightarrow> u8 list \<Rightarrow> u64 \<Rightarrow> ('fs, 'fil, 'd, 'z) mach_scheme
    \<Rightarrow> (u64 \<times> ('fs, 'fil, 'd, 'z) mach_scheme) option" where
  "mcall_dev_req F B stack m s =
     (if \<not> supervisor_paddr_valid m 32 s \<and> \<not> from_machine_mode s then Some (- EFAULT, s)
      else if 0xFF < msg_dev (ram s) m \<or> 0xFF < msg_cmd (ram s) m \<or> 0x0000FFFFFFFFFFFF < msg_data (ram s) m
      then Some (- EINVAL, s)
      else if msg_dev (ram s) m = 0 then
        if msg_cmd (ram s) m = HTIF_CMD_IDENTIFY then do {
          s \<leftarrow> handle_identify (msg_data (ram s) m) (ascii ''bcd'') s;
          Some (0, mcall_respond m 1 s) }
        else if msg_cmd (ram s) m = HTIF_CMD_READ then
          let s = s\<lparr>c_irq_enable := 0x01\<rparr>;
              s = s\<lparr>ram := set_private m (device_request_queue_head (HLS s)) (ram s)\<rparr>;
              s = set_HLS ((HLS s)\<lparr>device_request_queue_head := m\<rparr>) s
          in Some (0, set_HLS ((HLS s)\<lparr>device_request_queue_size := device_request_queue_size (HLS s) + 1\<rparr>) s)
        else if msg_cmd (ram s) m = HTIF_CMD_WRITE then do {
          d \<leftarrow> uart_send B (ucast (msg_data (ram s) m)) (dev s);
          let s = s\<lparr>dev := d\<rparr>;
          Some (0, mcall_respond m (0x100 OR ucast (ucast (msg_data (ram s) m) :: u8)) s) }
        else None
      else if msg_dev (ram s) m = 1 then
        if msg_cmd (ram s) m = HTIF_CMD_IDENTIFY then do { s \<leftarrow> disk_identify F stack m s; Some (0, s) }
        else if msg_cmd (ram s) m = HTIF_CMD_READ then do { s \<leftarrow> disk_transfer (file_pread F) m s; Some (0, s) }
        else if msg_cmd (ram s) m = HTIF_CMD_WRITE then do { s \<leftarrow> disk_transfer (file_pwrite F) m s; Some (0, s) }
        else None
      else if msg_cmd (ram s) m = HTIF_CMD_IDENTIFY then do {
        s \<leftarrow> handle_identify (msg_data (ram s) m) [] s;
        Some (0, mcall_respond m 1 s) }
      else None)"

definition mcall_dev_resp :: "('fs, 'fil, 'd, 'z) mach_scheme \<Rightarrow> u64 \<times> ('fs, 'fil, 'd, 'z) mach_scheme" where
  "mcall_dev_resp s =
     (let m = device_response_queue_head (HLS s)
      in if m \<noteq> 0 then
           let nxt = msg_private (ram s) m;
               s = set_HLS ((HLS s)\<lparr>device_response_queue_head := nxt\<rparr>) s
           in if nxt = 0 then
                let s = set_HLS ((HLS s)\<lparr>device_response_queue_tail := 0\<rparr>) s;
                    s = s\<lparr>c_mip := c_mip s AND NOT MIP_SSIP\<rparr>
                in (m, if ipi_pending (HLS s) \<noteq> 0 then s\<lparr>c_mip := c_mip s OR MIP_SSIP\<rparr> else s)
              else (m, s)
         else (m, s))"

definition mcall_send_ipi :: "u64 \<Rightarrow> ('fs, 'fil, 'd, 'z) mach_scheme \<Rightarrow> u64 \<times> ('fs, 'fil, 'd, 'z) mach_scheme" where
  "mcall_send_ipi recipient s =
     (if ucast (num_harts s) \<le> recipient then (- 1, s)
      else
        let i = OTHER_HLS recipient s;
            old = ipi_pending (all_hls s i);
            s = set_hls i ((all_hls s i)\<lparr>ipi_pending := 1\<rparr>) s
        in (0, if old = 0 then s\<lparr>c_send_ipi := c_send_ipi s @ [recipient]\<rparr> else s))"

definition mcall_clear_ipi :: "('fs, 'fil, 'd, 'z) mach_scheme \<Rightarrow> u64 \<times> ('fs, 'fil, 'd, 'z) mach_scheme" where
  "mcall_clear_ipi s =
     (let s = (if device_response_queue_head (HLS s) = 0 then s\<lparr>c_mip := c_mip s AND NOT MIP_SSIP\<rparr> else s)
      in (scast (ipi_pending (HLS s)), set_HLS ((HLS s)\<lparr>ipi_pending := 0\<rparr>) s))"

definition mcall_shutdown :: "('fs, 'fil, 'd, 'z) mach_scheme \<Rightarrow> (u64 \<times> ('fs, 'fil, 'd, 'z) mach_scheme) option" where
  "mcall_shutdown s = die 0"

definition mcall_set_timer :: "u64 \<Rightarrow> ('fs, 'fil, 'd, 'z) mach_scheme \<Rightarrow> u64 \<times> ('fs, 'fil, 'd, 'z) mach_scheme" where
  "mcall_set_timer when s =
     (0, s\<lparr>c_mtimecmp := when, c_mip := c_mip s AND NOT MIP_STIP, c_mie := c_mie s OR MIP_MTIP\<rparr>)"

definition mcall :: "('fs, 'fil) fatfs \<Rightarrow> 'd bus \<Rightarrow> u8 list \<Rightarrow> u64 \<Rightarrow> u64 \<Rightarrow> ('fs, 'fil, 'd, 'z) mach_scheme
    \<Rightarrow> (u64 \<times> ('fs, 'fil, 'd, 'z) mach_scheme) option" where
  "mcall F B stack n arg0 s =
     (if n = MCALL_HART_ID then Some (mcall_hart_id s, s)
      else if n = MCALL_CONSOLE_PUTCHAR then mcall_console_putchar B (ucast arg0) s
      else if n = MCALL_SEND_DEVICE_REQUEST then mcall_dev_req F B stack arg0 s
      else if n = MCALL_RECEIVE_DEVICE_RESPONSE then Some (mcall_dev_resp s)
      else if n = MCALL_SEND_IPI then Some (mcall_send_ipi arg0 s)
      else if n = MCALL_CLEAR_IPI then Some (mcall_clear_ipi s)
      else if n = MCALL_SHUTDOWN then mcall_shutdown s
      else if n = MCALL_SET_TIMER then Some (mcall_set_timer arg0 s)
      else Some (- ENOSYS, s))"

text \<open>The saved registers are a list; the handler answers 0, the call's value is in \<open>a0\<close>.\<close>

definition mcall_trap :: "('fs, 'fil) fatfs \<Rightarrow> 'd bus \<Rightarrow> u8 list \<Rightarrow> u64 list \<Rightarrow> ('fs, 'fil, 'd, 'z) mach_scheme
    \<Rightarrow> (u64 \<times> u64 list \<times> ('fs, 'fil, 'd, 'z) mach_scheme) option" where
  "mcall_trap F B stack regs s = do {
     (retval, s) \<leftarrow> mcall F B stack (regs ! 17) (regs ! 10) s;
     Some (0, regs[10 := retval], s\<lparr>c_mepc := c_mepc s + 4\<rparr>) }"

section \<open>Traps from machine mode\<close>

definition bad_trap :: "'d bus \<Rightarrow> u8 list \<Rightarrow> ('fs, 'fil, 'd, 'z) mach_scheme \<Rightarrow> 'a option" where
  "bad_trap B stack s = do_panic B stack (ascii ''machine mode: unhandlable trap %d @ %p'' @ [0x0A]) [Num (c_mcause s), Num (c_mepc s)] (dev s)"

definition tag_trap :: "'d bus \<Rightarrow> u8 list \<Rightarrow> ('fs, 'fil, 'd, 'z) mach_scheme \<Rightarrow> 'a option" where
  "tag_trap B stack s = do_panic B stack (ascii ''machine mode: tag trap triggered [%d] @ %p'' @ [0x0A]) [Num (c_mcause s), Num (c_mepc s)] (dev s)"

definition debug_tag_trap :: "'d bus \<Rightarrow> u8 list \<Rightarrow> ('fs, 'fil, 'd, 'z) mach_scheme \<Rightarrow> 'a option" where
  "debug_tag_trap B stack s = do_panic B stack (ascii ''machine mode: debug tag trap triggered [%d] @ %p'' @ [0x0A]) [Num (c_mcause s), Num (c_mepc s)] (dev s)"

definition htif_interrupt :: "'d bus \<Rightarrow> u8 list \<Rightarrow> ('fs, 'fil, 'd, 'z) mach_scheme \<Rightarrow> 'a option" where
  "htif_interrupt B stack s = do_panic B stack (ascii ''htif_interrupt(): no record'' @ [0x0A]) [] (dev s)"

text \<open>The ranges are pairs of 32-bit addresses the linker collects.  The loop looks at a pair before
  it tests for the end of the table, so an empty table is read past its end, which has no meaning.\<close>

fun machine_page_fault :: "'d bus \<Rightarrow> u8 list \<Rightarrow> (u32 \<times> u32) list \<Rightarrow> u64 \<Rightarrow> u64 list \<Rightarrow> ('fs, 'fil, 'd, 'z) mach_scheme
    \<Rightarrow> (u64 \<times> u64 list \<times> ('fs, 'fil, 'd, 'z) mach_scheme) option" where
  "machine_page_fault B stack [] mepc regs s = None"
| "machine_page_fault B stack ((p0, p1) # ps) mepc regs s =
     (if scast p0 \<le> mepc \<and> mepc < scast p1 then Some (0, regs[5 := 0], s\<lparr>c_mepc := scast p1\<rparr>)
      else if ps = [] then bad_trap B stack s
      else machine_page_fault B stack ps mepc regs s)"

definition machine_illegal_instruction :: "'d bus \<Rightarrow> u8 list \<Rightarrow> ('fs, 'fil, 'd, 'z) mach_scheme \<Rightarrow> 'a option" where
  "machine_illegal_instruction B stack s = bad_trap B stack s"

definition trap_from_machine_mode :: "('fs, 'fil) fatfs \<Rightarrow> 'd bus \<Rightarrow> u8 list \<Rightarrow> (u32 \<times> u32) list \<Rightarrow> u64 list
    \<Rightarrow> ('fs, 'fil, 'd, 'z) mach_scheme \<Rightarrow> (u64 \<times> u64 list \<times> ('fs, 'fil, 'd, 'z) mach_scheme) option" where
  "trap_from_machine_mode F B stack ranges regs s =
     (let mcause = c_mcause s;
          mepc = c_mepc s;
          s = s\<lparr>c_mscratch := machine_stack_top s - MENTRY_FRAME_SIZE\<rparr>
      in if mcause = CAUSE_FAULT_LOAD \<or> mcause = CAUSE_FAULT_STORE then machine_page_fault B stack ranges mepc regs s
         else if mcause = CAUSE_ILLEGAL_INSTRUCTION then machine_illegal_instruction B stack s
         else if mcause = CAUSE_MACHINE_ECALL then mcall_trap F B stack regs s
         else if mcause = CAUSE_TAG_TRAP then tag_trap B stack s
         else if mcause = CAUSE_DEBUG_TAG_TRAP then debug_tag_trap B stack s
         else bad_trap B stack s)"

section \<open>Entry code\<close>

datatype handler = H_bad_trap | H_illegal_insn_trap | H_misaligned_load_trap | H_misaligned_store_trap
  | H_mcall_trap | H_tag_trap | H_debug_tag_trap | H_htif_interrupt | H_trap_from_machine_mode | H_io_irq_service

definition trap_table :: "handler list" where
  "trap_table =
     [H_bad_trap, H_bad_trap, H_illegal_insn_trap, H_bad_trap, H_misaligned_load_trap, H_bad_trap,
      H_misaligned_store_trap, H_bad_trap, H_bad_trap, H_mcall_trap, H_bad_trap, H_bad_trap,
      H_tag_trap, H_debug_tag_trap, H_htif_interrupt, H_trap_from_machine_mode, H_io_irq_service, H_bad_trap]"

abbreviation (input) HTIF_INTERRUPT_VECTOR :: u64 where "HTIF_INTERRUPT_VECTOR \<equiv> 14"
abbreviation (input) TRAP_FROM_MACHINE_MODE_VECTOR :: u64 where "TRAP_FROM_MACHINE_MODE_VECTOR \<equiv> 15"
abbreviation (input) IO_INTERRUPT_VECTOR :: u64 where "IO_INTERRUPT_VECTOR \<equiv> 16"
abbreviation (input) IRQ_TIMER :: u64 where "IRQ_TIMER \<equiv> 1"
abbreviation (input) IRQ_HOST :: u64 where "IRQ_HOST \<equiv> 2"
abbreviation (input) IRQ_IO :: u64 where "IRQ_IO \<equiv> 4"

definition HANDLE_USER_TRAP_IN_MACHINE_MODE :: u32 where
  "HANDLE_USER_TRAP_IN_MACHINE_MODE =
     push_bit (31 - 2) 1 OR push_bit (31 - 4) 1 OR push_bit (31 - 6) 1 OR push_bit (31 - 12) 1 OR push_bit (31 - 13) 1"

definition HANDLE_SUPERVISOR_TRAP_IN_MACHINE_MODE :: u32 where
  "HANDLE_SUPERVISOR_TRAP_IN_MACHINE_MODE =
     push_bit (31 - 2) 1 OR push_bit (31 - 4) 1 OR push_bit (31 - 6) 1 OR push_bit (31 - 9) 1
     OR push_bit (31 - 12) 1 OR push_bit (31 - 13) 1"

text \<open>A 32-bit shift uses the low five bits of the amount and sign-extends; the branch tests the sign.\<close>

definition sll32_negative :: "u32 \<Rightarrow> u64 \<Rightarrow> bool" where
  "sll32_negative a n = (push_bit (unat (n AND 31)) a <s 0)"

text \<open>How the entry code leaves: to a C handler through the table, to the supervisor, or back.\<close>

datatype exit = Call u64 | Mrts | Eret | Bad

definition interrupt_supervisor :: "u64 \<Rightarrow> exit" where
  "interrupt_supervisor mstatus =
     (if mstatus AND (MSTATUS_PRV1 OR MSTATUS_IE1)
         \<noteq> (MSTATUS_PRV1 AND NOT (push_bit 1 MSTATUS_PRV1)) * PRV_S then Mrts else Eret)"

definition entry_interrupt :: "('fs, 'fil, 'd, 'z) mach_scheme \<Rightarrow> exit \<times> ('fs, 'fil, 'd, 'z) mach_scheme" where
  "entry_interrupt s =
     (let a0 = push_bit 1 (c_mcause s)
      in if a0 = IRQ_TIMER * 2 then
           let s = s\<lparr>c_mip := c_mip s AND NOT MIP_MTIP\<rparr>;
               s = s\<lparr>c_mie := c_mie s AND NOT MIP_MTIP\<rparr>;
               s = s\<lparr>c_mip := c_mip s OR MIP_STIP\<rparr>
           in (interrupt_supervisor (c_mstatus s), s)
         else if a0 = 0 then
           let s = s\<lparr>c_mip := c_mip s AND NOT MIP_MSIP\<rparr>;
               s = s\<lparr>c_mip := c_mip s OR MIP_SSIP\<rparr>
           in (interrupt_supervisor (c_mstatus s), s)
         else if a0 = IRQ_HOST * 2 then (Call HTIF_INTERRUPT_VECTOR, s)
         else if a0 = IRQ_IO * 2 then (Call IO_INTERRUPT_VECTOR, s)
         else (Bad, s))"

definition entry_user :: "('fs, 'fil, 'd, 'z) mach_scheme \<Rightarrow> exit \<times> ('fs, 'fil, 'd, 'z) mach_scheme" where
  "entry_user s =
     (if c_mcause s <s 0 then entry_interrupt s
      else if sll32_negative HANDLE_USER_TRAP_IN_MACHINE_MODE (c_mcause s) then (Call (c_mcause s), s)
      else (Mrts, s))"

text \<open>A double fault is a trap taken while the previous mode, \<open>PRV2\<close>, is the supervisor already.\<close>

definition entry_supervisor :: "('fs, 'fil, 'd, 'z) mach_scheme \<Rightarrow> exit \<times> ('fs, 'fil, 'd, 'z) mach_scheme" where
  "entry_supervisor s =
     (if c_mcause s <s 0 then entry_interrupt s
      else if sll32_negative HANDLE_SUPERVISOR_TRAP_IN_MACHINE_MODE (c_mcause s) then (Call (c_mcause s), s)
      else if sll32_negative (ucast (c_mstatus s)) (31 - 7) then
        (Mrts, s\<lparr>c_mstatus := c_mstatus s AND NOT (MSTATUS_PRV2 OR MSTATUS_IE2 OR MSTATUS_IE1)\<rparr>)
      else (Mrts, s))"

definition entry_machine :: "('fs, 'fil, 'd, 'z) mach_scheme \<Rightarrow> exit \<times> ('fs, 'fil, 'd, 'z) mach_scheme" where
  "entry_machine s = (Call TRAP_FROM_MACHINE_MODE_VECTOR, s)"

end
