(* ===== verification/Mtrap_Queue.thy ===== *)
theory Mtrap_Queue
  imports Mtrap
begin

text \<open>
  The two device queues of \<open>bbl/mtrap.c\<close> as linked lists in the supervisor's memory, chained through
  \<open>sbi_private_data\<close>.  \<open>response_queue\<close> and \<open>request_queue\<close> relate them to plain lists; the
  operations are described on those, and the locale \<open>fifo_queue\<close>, interpreted for responding and
  receiving, carries over to every sequence of operations.
\<close>

section \<open>Messages in memory\<close>

definition apart :: "u64 \<Rightarrow> u64 \<Rightarrow> bool" where
  "apart a b \<longleftrightarrow> 32 \<le> unat (a - b) \<and> 32 \<le> unat (b - a)"

lemma apart_sym: "apart a b \<longleftrightarrow> apart b a"
  by (auto simp: apart_def)

lemma apart_irrefl [simp]: "\<not> apart a a"
  by (simp add: apart_def)

lemma unat_diff_flip:
  fixes x y :: u64
  assumes "x \<noteq> y"
  shows "unat (x - y) + unat (y - x) = 2 ^ 64"
proof -
  have "unat x \<noteq> unat y" using assms by (simp only: word_unat_eq_iff not_False_eq_True)
  with unat_bound [of x] unat_bound [of y] show ?thesis
    using sub_borrow [of x y] sub_borrow [of y x] by (auto simp: word_less_nat_alt of_bool_def split: if_splits)
qed

lemma rd64_wr64_far:
  assumes "8 \<le> unat (x - y)" "8 \<le> unat (y - x)"
  shows "rd64 (wr64 r y v) x = rd64 r x"
proof -
  have "disjoint_ranges x 8 y (length (le_bytes 8 v))"
    unfolding disjoint_ranges_def length_le_bytes
  proof (intro allI impI)
    fix i :: nat assume i: "i < 8"
    have "x \<noteq> y" using assms by auto
    from unat_diff_flip [OF this] have "unat (x - y) + i < 2 ^ 64" using assms i by linarith
    then have "unat (x - y + of_nat i) = unat (x - y) + i"
      using i by (simp add: unat_word_ariths unat_of_nat take_bit_nat_eq_self)
    moreover have "x + of_nat i - y = x - y + of_nat i" by (simp only: diff_conv_add_uminus ac_simps)
    ultimately show "8 \<le> unat (x + of_nat i - y)" using assms(1) by (simp only: trans_le_add1)
  qed
  then show ?thesis unfolding rd64_def wr64_def by (simp add: mem_read_write_disjoint)
qed

lemma far_offsets:
  assumes "apart a b" "j \<le> 24" "k \<le> 24"
  shows "8 \<le> unat ((a + of_nat j) - (b + of_nat k))"
proof -
  define d where "d = unat (a - b)"
  have "a \<noteq> b" using assms(1) by auto
  from unat_diff_flip [OF this] have d: "32 \<le> d" "d + 32 \<le> 2 ^ 64" using assms(1) unfolding apart_def d_def by linarith+
  have "(a + of_nat j) - (b + of_nat k) = (of_nat (d + j - k) :: u64)"
    using d assms unfolding d_def by (simp add: of_nat_diff)
  moreover have "d + j - k < 2 ^ 64" using d assms by linarith
  ultimately have "unat ((a + of_nat j) - (b + of_nat k)) = d + j - k"
    by (simp add: unat_of_nat take_bit_nat_eq_self)
  then show ?thesis using d assms by linarith
qed

lemma rd64_wr64_apart:
  assumes "apart a b" "j \<le> 24" "k \<le> 24"
  shows "rd64 (wr64 r (b + of_nat k) v) (a + of_nat j) = rd64 r (a + of_nat j)"
  using rd64_wr64_far far_offsets assms apart_sym by blast

lemmas field_apart =
  rd64_wr64_apart [where j = 0] rd64_wr64_apart [where j = 8]
  rd64_wr64_apart [where j = 16] rd64_wr64_apart [where j = 24]

lemmas msg_defs = msg_dev_def msg_cmd_def msg_data_def msg_private_def set_data_def set_private_def

lemma fields_apart [simp]:
  assumes "apart m n"
  shows "msg_dev (set_data n v r) m = msg_dev r m" "msg_cmd (set_data n v r) m = msg_cmd r m"
    "msg_data (set_data n v r) m = msg_data r m" "msg_private (set_data n v r) m = msg_private r m"
    "msg_dev (set_private n v r) m = msg_dev r m" "msg_cmd (set_private n v r) m = msg_cmd r m"
    "msg_data (set_private n v r) m = msg_data r m" "msg_private (set_private n v r) m = msg_private r m"
  using field_apart [OF assms, where k = 16 and r = r and v = v] field_apart [OF assms, where k = 24 and r = r and v = v]
  by (simp_all add: msg_defs)

lemma near_fields: "rd64 (wr64 r (m + of_nat k) v) (m + of_nat j) = rd64 r (m + of_nat j)"
  if "j + 8 \<le> k \<or> k + 8 \<le> j" "j \<le> 24" "k \<le> 24"
proof (rule rd64_wr64_far)
  have "unat (of_nat a - of_nat b :: u64) \<ge> 8" if "a + 8 \<le> b \<or> b + 8 \<le> a" "a \<le> 24" "b \<le> 24" for a b
    using that by (auto simp: unat_sub_if' unat_of_nat take_bit_nat_eq_self)
  from this [of j k] this [of k j] that
  show "8 \<le> unat (m + of_nat j - (m + of_nat k))" "8 \<le> unat (m + of_nat k - (m + of_nat j))"
    unfolding add_diff_cancel_left by auto
qed

lemma fields_same [simp]:
  "msg_data (set_data m v r) m = v" "msg_private (set_private m v r) m = v"
  "msg_private (set_data m v r) m = msg_private r m" "msg_data (set_private m v r) m = msg_data r m"
  "msg_dev (set_data m v r) m = msg_dev r m" "msg_cmd (set_data m v r) m = msg_cmd r m"
  "msg_dev (set_private m v r) m = msg_dev r m" "msg_cmd (set_private m v r) m = msg_cmd r m"
  using near_fields [of 24 16 r m v] near_fields [of 16 24 r m v] near_fields [of 0 16 r m v] near_fields [of 8 16 r m v]
    near_fields [of 0 24 r m v] near_fields [of 8 24 r m v]
  by (simp_all add: msg_defs)


section \<open>Linked lists of messages\<close>

fun chain :: "mem \<Rightarrow> u64 \<Rightarrow> u64 list \<Rightarrow> bool" where
  "chain r h [] \<longleftrightarrow> h = 0"
| "chain r h (m # ms) \<longleftrightarrow> h = m \<and> m \<noteq> 0 \<and> chain r (msg_private r m) ms"

lemma chain_head: "chain r h ms \<Longrightarrow> h = (if ms = [] then 0 else hd ms)"
  by (cases ms) auto

lemma chain_nonzero: "chain r h ms \<Longrightarrow> 0 \<notin> set ms"
  by (induction ms arbitrary: h) auto

lemma chain_cong:
  "(\<And>m. m \<in> set ms \<Longrightarrow> msg_private r' m = msg_private r m) \<Longrightarrow> chain r' h ms = chain r h ms"
  by (induction ms arbitrary: h) auto

lemma chain_set_data [simp]: "\<forall>m \<in> set ms. apart m n \<or> m = n \<Longrightarrow> chain (set_data n v r) h ms = chain r h ms"
  by (rule chain_cong) auto

lemma chain_set_private [simp]: "\<forall>m \<in> set ms. apart m n \<Longrightarrow> chain (set_private n v r) h ms = chain r h ms"
  by (rule chain_cong) auto

lemma chain_append:
  assumes "chain r h ms" "sorted_wrt apart ms" "\<forall>x \<in> set ms. apart x m" "m \<noteq> 0" "ms \<noteq> []" "msg_private r m = 0"
  shows "chain (set_private (last ms) m r) h (ms @ [m])"
  using assms
proof (induction ms arbitrary: h)
  case (Cons a ms)
  show ?case
  proof (cases "ms = []")
    case True
    with Cons.prems show ?thesis by (simp add: apart_sym)
  next
    case False
    then have "apart a (last ms)" using Cons.prems by simp
    with False Cons show ?thesis by simp
  qed
qed simp

lemma apart_last: "sorted_wrt apart ms \<Longrightarrow> x \<in> set ms \<Longrightarrow> apart x (last ms) \<or> x = last ms"
  by (induction ms) auto

text \<open>Taking one message out of the middle.\<close>

lemma chain_split:
  "chain r h (xs @ m # ys) \<Longrightarrow> chain r m (m # ys)"
  by (induction xs arbitrary: h) auto

lemma chain_remove:
  assumes "chain r h (xs @ m # ys)" "sorted_wrt apart (xs @ m # ys)"
  shows "chain (if xs = [] then r else set_private (last xs) (msg_private r m) r)
    (if xs = [] then msg_private r m else h) (xs @ ys)"
  using assms
proof (induction xs arbitrary: h)
  case (Cons a xs)
  show ?case
  proof (cases "xs = []")
    case True
    with Cons.prems show ?thesis by (simp add: apart_sym)
  next
    case False
    then have "apart a (last xs)" using Cons.prems by simp
    with False Cons show ?thesis by simp
  qed
qed simp

section \<open>The queues\<close>

lemma hls_simps [simp]:
  "HLS (set_HLS h s) = h" "ram (set_HLS h s) = ram s" "c_mip (set_HLS h s) = c_mip s" "dev (set_HLS h s) = dev s"
  "HLS (s\<lparr>ram := r\<rparr>) = HLS s" "HLS (s\<lparr>c_mip := v\<rparr>) = HLS s" "HLS (s\<lparr>dev := d\<rparr>) = HLS s"
  "HLS (s\<lparr>c_irq_enable := w\<rparr>) = HLS s"
  by (simp_all add: HLS_def set_HLS_def set_hls_def)

definition response_queue :: "('fs, 'fil, 'd, 'z) mach_scheme \<Rightarrow> (u64 \<times> u64) list \<Rightarrow> bool" where
  "response_queue s q \<longleftrightarrow>
     chain (ram s) (device_response_queue_head (HLS s)) (map fst q)
     \<and> device_response_queue_tail (HLS s) = (if q = [] then 0 else fst (last q))
     \<and> sorted_wrt apart (map fst q)
     \<and> (\<forall>(m, d) \<in> set q. msg_data (ram s) m = d)"

definition request_queue :: "('fs, 'fil, 'd, 'z) mach_scheme \<Rightarrow> u64 list \<Rightarrow> bool" where
  "request_queue s ms \<longleftrightarrow>
     chain (ram s) (device_request_queue_head (HLS s)) ms
     \<and> device_request_queue_size (HLS s) = of_nat (length ms)
     \<and> sorted_wrt apart ms"

lemma enqueue_response_queue:
  assumes "response_queue s q" "m \<noteq> 0" "\<forall>x \<in> fst ` set q. apart x m" "msg_private (ram s) m = 0"
  shows "response_queue (enqueue_response m s) (q @ [(m, msg_data (ram s) m)])"
proof (cases "q = []")
  case True
  with assms show ?thesis
    by (auto simp: response_queue_def enqueue_response_def Let_def)
next
  case False
  let ?ms = "map fst q"
  have q: "chain (ram s) (device_response_queue_head (HLS s)) ?ms" "sorted_wrt apart ?ms" "?ms \<noteq> []"
    "device_response_queue_tail (HLS s) = last ?ms" "\<forall>x \<in> set ?ms. apart x m"
    using assms False by (auto simp: response_queue_def last_map)
  have "last ?ms \<noteq> 0" using chain_nonzero [OF q(1)] q(3) last_in_set by metis
  moreover have "\<forall>(x, d) \<in> set q. msg_data (set_private (last ?ms) m (ram s)) x = d"
  proof clarify
    fix x d assume x: "(x, d) \<in> set q"
    have "apart x (last ?ms) \<or> x = last ?ms" by (rule apart_last [OF q(2)]) (use x in force)
    with x assms(1) show "msg_data (set_private (last ?ms) m (ram s)) x = d"
      by (auto simp: response_queue_def)
  qed
  moreover have "msg_data (set_private (last ?ms) m (ram s)) m = msg_data (ram s) m"
    using q(3,5) last_in_set apart_sym by (metis fields_apart(7))
  ultimately show ?thesis
    using q chain_append [OF q(1,2,5) assms(2) q(3) assms(4)]
    by (auto simp: response_queue_def enqueue_response_def Let_def sorted_wrt_append)
qed


lemma mcall_respond_queue:
  assumes "response_queue s q" "m \<noteq> 0" "\<forall>x \<in> fst ` set q. apart x m"
  shows "response_queue (mcall_respond m d s) (q @ [(m, d)])"
proof -
  let ?s = "s\<lparr>ram := set_private m 0 (ram s)\<rparr>"
  have "response_queue ?s q" using assms by (fastforce simp: response_queue_def)
  from enqueue_response_queue [OF this assms(2,3)]
  have *: "response_queue (enqueue_response m ?s) (q @ [(m, msg_data (ram s) m)])" by simp
  show ?thesis unfolding mcall_respond_def Let_def
    using * assms by (fastforce simp: response_queue_def)
qed

lemma mcall_dev_resp_empty: "response_queue s [] \<Longrightarrow> mcall_dev_resp s = (0, s)"
  by (simp add: response_queue_def mcall_dev_resp_def)

lemma mcall_dev_resp_queue:
  assumes "response_queue s ((m, d) # q)"
  shows "\<exists>s'. mcall_dev_resp s = (m, s') \<and> response_queue s' q \<and> ram s' = ram s"
proof -
  have "msg_private (ram s) m = (if q = [] then 0 else fst (hd q))" "q \<noteq> [] \<Longrightarrow> fst (hd q) \<noteq> 0"
    using assms by (cases q; auto simp: response_queue_def)+
  with assms show ?thesis
    by (cases "q = []") (auto simp: response_queue_def mcall_dev_resp_def Let_def)
qed


section \<open>Serial input\<close>

definition is_uart_read :: "mem \<Rightarrow> u64 \<Rightarrow> bool" where
  "is_uart_read r m \<longleftrightarrow> msg_dev r m = 0 \<and> msg_cmd r m = HTIF_CMD_READ"

definition accessible :: "('fs, 'fil, 'd, 'z) mach_scheme \<Rightarrow> u64 \<Rightarrow> bool" where
  "accessible s m \<longleftrightarrow> supervisor_paddr_valid m 32 s \<or> from_machine_mode s"

lemma io_irq_scan_skip:
  assumes "chain (ram s) h (xs @ m # ys)" "\<forall>x \<in> set xs. accessible s x \<and> \<not> is_uart_read (ram s) x"
  shows "io_irq_scan B n (length xs + k) prev h s = io_irq_scan B n k (if xs = [] then prev else last xs) m s"
  using assms
proof (induction xs arbitrary: h prev)
  case (Cons a xs)
  then show ?case by (auto simp: accessible_def is_uart_read_def Let_def)
qed simp

lemma response_queue_cong:
  assumes "response_queue s q" "\<forall>x \<in> fst ` set q. msg_private r x = msg_private (ram s) x \<and> msg_data r x = msg_data (ram s) x"
    "ram s' = r" "device_response_queue_head (HLS s') = device_response_queue_head (HLS s)"
    "device_response_queue_tail (HLS s') = device_response_queue_tail (HLS s)"
  shows "response_queue s' q"
proof -
  have "chain r h (map fst q) = chain (ram s) h (map fst q)" for h
    by (rule chain_cong) (use assms(2) in auto)
  with assms show ?thesis by (fastforce simp: response_queue_def)
qed

lemma enqueue_request_queue:
  assumes "request_queue s ms" "response_queue s q" "\<forall>x \<in> set ms. \<forall>y \<in> fst ` set q. apart x y"
  shows "request_queue (enqueue_response m s) ms"
proof -
  have "q \<noteq> [] \<Longrightarrow> \<forall>x \<in> set ms. apart x (fst (last q))" using assms(3) by simp
  with assms(1,2) show ?thesis
    by (auto simp: request_queue_def response_queue_def enqueue_response_def Let_def)
qed

lemma enqueue_response_simps [simp]:
  "c_mip (enqueue_response m s) = c_mip s" "dev (enqueue_response m s) = dev s"
  by (simp_all add: enqueue_response_def Let_def)

lemma queues_mip [simp]:
  "response_queue (s\<lparr>c_mip := v\<rparr>) = response_queue s" "request_queue (s\<lparr>c_mip := v\<rparr>) = request_queue s"
  by (simp_all add: fun_eq_iff response_queue_def request_queue_def)

lemma io_irq_take:
  assumes rq: "request_queue s (xs @ m # ys)" and rs: "response_queue s q"
    and sep: "\<forall>x \<in> set (xs @ m # ys). \<forall>y \<in> fst ` set q. apart x y"
    and n: "n = of_nat (length (xs @ m # ys))"
    and ok: "accessible s m" "is_uart_read (ram s) m" and ch: "uart_read_irq B (dev s) = (ch, d)"
  shows "\<exists>s'. io_irq_scan B n (Suc k) (if xs = [] then 0 else last xs) m s = Some (0, s')
    \<and> request_queue s' (xs @ ys) \<and> response_queue s' (q @ [(m, 0x100 OR ucast ch)])
    \<and> c_mip s' = c_mip s OR MIP_SSIP \<and> dev s' = d"
proof -
  let ?v = "0x100 OR ucast ch" and ?nxt = "msg_private (ram s) m"
  define s1 where "s1 = s\<lparr>dev := d, ram := set_data m ?v (ram s)\<rparr>"
  define s2 where "s2 = (if xs \<noteq> [] then s1\<lparr>ram := set_private (last xs) ?nxt (ram s1)\<rparr>
    else set_HLS ((HLS s1)\<lparr>device_request_queue_head := ?nxt\<rparr>) s1)"
  define s4 where "s4 = (set_HLS ((HLS s2)\<lparr>device_request_queue_size := n - 1\<rparr>) s2)\<lparr>ram := set_private m 0 (ram s2)\<rparr>"
  have c: "chain (ram s) (device_request_queue_head (HLS s)) (xs @ m # ys)" and so: "sorted_wrt apart (xs @ m # ys)"
    using rq by (auto simp: request_queue_def)
  have m0: "m \<noteq> 0" using chain_nonzero [OF c] by auto
  have px: "xs \<noteq> [] \<Longrightarrow> last xs \<noteq> 0" using chain_nonzero [OF c] last_in_set by force
  have ax: "\<forall>x \<in> set (xs @ ys). apart x m" using so by (auto simp: sorted_wrt_append apart_sym)
  have am: "\<forall>y \<in> fst ` set q. apart y m" using sep by (auto simp: apart_sym)
  have ap: "xs \<noteq> [] \<Longrightarrow> apart (last xs) m \<and> apart m (last xs) \<and> (\<forall>y \<in> fst ` set q. apart y (last xs))"
    using ax sep by (auto simp: apart_sym)
  have "chain (set_data m ?v (ram s)) (device_request_queue_head (HLS s)) (xs @ m # ys)" using c ax by simp
  from chain_remove [OF this so] have "request_queue s4 (xs @ ys)"
    using ax so n unfolding request_queue_def s4_def s2_def s1_def
    by (auto simp: sorted_wrt_append)
  moreover have rs4: "response_queue s4 q"
    by (rule response_queue_cong [OF rs _ refl])
      (use am ap in \<open>auto simp: s4_def s2_def s1_def\<close>)
  moreover have "msg_private (ram s4) m = 0" "msg_data (ram s4) m = ?v"
    using ap by (auto simp: s4_def s2_def s1_def)
  moreover have "io_irq_scan B n (Suc k) (if xs = [] then 0 else last xs) m s
      = Some (0, (enqueue_response m s4)\<lparr>c_mip := c_mip (enqueue_response m s4) OR MIP_SSIP\<rparr>)"
    using ok ch px by (simp add: accessible_def is_uart_read_def s4_def s2_def s1_def Let_def)
  ultimately show ?thesis
    using enqueue_response_queue [OF rs4 m0 am] enqueue_request_queue [of s4 "xs @ ys" q m] sep
    by (auto simp: s4_def s2_def s1_def)
qed


lemma io_irq_service_take:
  assumes "request_queue s (xs @ m # ys)" "response_queue s q"
    and "\<forall>x \<in> set (xs @ m # ys). \<forall>y \<in> fst ` set q. apart x y"
    and "length (xs @ m # ys) < 2 ^ 64"
    and "\<forall>x \<in> set xs. accessible s x \<and> \<not> is_uart_read (ram s) x"
    and "accessible s m" "is_uart_read (ram s) m"
    and irq: "uart_check_read_irq B (dev s) = (c, d)" "c \<noteq> 0" and "uart_read_irq B d = (ch, d')"
  shows "\<exists>s'. io_irq_service B s = Some (0, s')
    \<and> request_queue s' (xs @ ys) \<and> response_queue s' (q @ [(m, 0x100 OR ucast ch)])
    \<and> c_mip s' = c_mip s OR MIP_SSIP \<and> dev s' = d'"
proof -
  let ?s = "s\<lparr>dev := d\<rparr>" and ?n = "of_nat (length (xs @ m # ys)) :: u64"
  have q: "request_queue ?s (xs @ m # ys)" "response_queue ?s q"
    using assms(1,2) by (simp_all add: request_queue_def response_queue_def)
  have acc: "accessible ?s = accessible s"
    by (simp add: fun_eq_iff accessible_def supervisor_paddr_valid_def from_machine_mode_def)
  have c: "chain (ram ?s) (device_request_queue_head (HLS ?s)) (xs @ m # ys)" "device_request_queue_size (HLS ?s) = ?n"
    using q(1) by (simp_all add: request_queue_def)
  have "unat (of_nat k :: u64) = k" if "k < 2 ^ 64" for k using that by (simp add: unat_of_nat take_bit_nat_eq_self)
  from this [OF assms(4)] have "unat ?n = length xs + Suc (length ys)" by simp
  then have "io_irq_service B s
      = io_irq_scan B ?n (Suc (length ys)) (if xs = [] then 0 else last xs) m ?s"
    using irq io_irq_scan_skip [OF c(1), of B ?n "Suc (length ys)" 0] assms(5) c(2)
    by (simp add: io_irq_service_def Let_def acc)
  then show ?thesis
    using io_irq_take [OF q assms(3) refl, of B ch d' "length ys"] assms(6,7,10) by (simp add: acc)
qed

section \<open>First in, first out\<close>

datatype ('m, 'd) queue_op = Put 'm 'd | Get

fun run_queue :: "('m \<Rightarrow> 'd \<Rightarrow> 's \<Rightarrow> 's) \<Rightarrow> ('s \<Rightarrow> ('m \<times> 'd) option \<times> 's) \<Rightarrow> ('m, 'd) queue_op list \<Rightarrow> 's
    \<Rightarrow> ('m \<times> 'd) option list \<times> 's" where
  "run_queue enq deq [] s = ([], s)"
| "run_queue enq deq (Put m d # ops) s = run_queue enq deq ops (enq m d s)"
| "run_queue enq deq (Get # ops) s =
     (let (r, s) = deq s; (rs, s) = run_queue enq deq ops s in (r # rs, s))"

definition fifo_put :: "'m \<Rightarrow> 'd \<Rightarrow> ('m \<times> 'd) list \<Rightarrow> ('m \<times> 'd) list" where
  "fifo_put m d q = q @ [(m, d)]"

fun fifo_get :: "('m \<times> 'd) list \<Rightarrow> ('m \<times> 'd) option \<times> ('m \<times> 'd) list" where
  "fifo_get [] = (None, [])"
| "fifo_get (x # q) = (Some x, q)"

fun legal_ops :: "('m \<Rightarrow> ('m \<times> 'd) list \<Rightarrow> bool) \<Rightarrow> ('m, 'd) queue_op list \<Rightarrow> ('m \<times> 'd) list \<Rightarrow> bool" where
  "legal_ops ok [] q \<longleftrightarrow> True"
| "legal_ops ok (Put m d # ops) q \<longleftrightarrow> ok m q \<and> legal_ops ok ops (fifo_put m d q)"
| "legal_ops ok (Get # ops) q \<longleftrightarrow> legal_ops ok ops (snd (fifo_get q))"

locale fifo_queue =
  fixes rep :: "'s \<Rightarrow> ('m \<times> 'd) list \<Rightarrow> bool" and ok :: "'m \<Rightarrow> ('m \<times> 'd) list \<Rightarrow> bool"
    and enq :: "'m \<Rightarrow> 'd \<Rightarrow> 's \<Rightarrow> 's" and deq :: "'s \<Rightarrow> ('m \<times> 'd) option \<times> 's"
  assumes put_rep: "rep s q \<Longrightarrow> ok m q \<Longrightarrow> rep (enq m d s) (fifo_put m d q)"
    and get_rep: "rep s q \<Longrightarrow> \<exists>s'. deq s = (fst (fifo_get q), s') \<and> rep s' (snd (fifo_get q))"
begin

lemma run_simulates:
  "rep s q \<Longrightarrow> legal_ops ok ops q \<Longrightarrow>
    \<exists>s'. run_queue enq deq ops s = (fst (run_queue fifo_put fifo_get ops q), s')
      \<and> rep s' (snd (run_queue fifo_put fifo_get ops q))"
proof (induction ops arbitrary: s q)
  case (Cons x ops)
  show ?case
  proof (cases x)
    case (Put m d)
    with Cons put_rep show ?thesis by simp
  next
    case Get
    from get_rep [OF Cons.prems(1)] obtain s1
      where "deq s = (fst (fifo_get q), s1)" "rep s1 (snd (fifo_get q))" by blast
    with Get Cons.IH [of s1 "snd (fifo_get q)"] Cons.prems(2) show ?thesis
      by (auto simp: Let_def split: prod.splits)
  qed
qed simp

end

definition receive :: "('fs, 'fil, 'd, 'z) mach_scheme \<Rightarrow> (u64 \<times> u64) option \<times> ('fs, 'fil, 'd, 'z) mach_scheme" where
  "receive s = (let (m, s) = mcall_dev_resp s in (if m = 0 then None else Some (m, msg_data (ram s) m), s))"

definition fresh_message :: "u64 \<Rightarrow> (u64 \<times> u64) list \<Rightarrow> bool" where
  "fresh_message m q \<longleftrightarrow> m \<noteq> 0 \<and> (\<forall>x \<in> set q. apart (fst x) m)"

lemma receive_queue:
  assumes "response_queue s q"
  shows "\<exists>s'. receive s = (fst (fifo_get q), s') \<and> response_queue s' (snd (fifo_get q))"
proof (cases q)
  case Nil
  with assms show ?thesis by (simp add: receive_def mcall_dev_resp_empty)
next
  case (Cons x q')
  obtain m d where x: "x = (m, d)" by (cases x)
  with assms Cons have "m \<noteq> 0" "msg_data (ram s) m = d" by (auto simp: response_queue_def)
  with mcall_dev_resp_queue [of s m d q'] assms Cons x show ?thesis by (auto simp: receive_def)
qed

interpretation responses: fifo_queue response_queue fresh_message mcall_respond receive
  by unfold_locales (auto simp: fifo_put_def fresh_message_def intro!: mcall_respond_queue receive_queue)

end
