(* ===== verification/Mtrap_Props.thy ===== *)
theory Mtrap_Props
  imports Mtrap_Queue Vm_Props
begin

text \<open>
  The properties of the machine-mode traps: the order of responses, the delivery of serial input, the
  pending-interrupt invariant of every call, the rejection of malformed calls, and the routing of traps.
  The storage of the harts is apart from the memory the supervisor's messages are in.
\<close>

section \<open>Pending events\<close>

definition queue_inv :: "('fs, 'fil, 'd, 'z) mach_scheme \<Rightarrow> bool" where
  "queue_inv s \<longleftrightarrow>
     (device_response_queue_head (HLS s) = 0 \<longleftrightarrow> device_response_queue_tail (HLS s) = 0)
     \<and> (device_response_queue_head (HLS s) \<noteq> 0 \<longrightarrow> c_mip s AND MIP_SSIP \<noteq> 0)"

lemma queue_inv_cong:
  "device_response_queue_head (HLS s') = device_response_queue_head (HLS s) \<Longrightarrow>
   device_response_queue_tail (HLS s') = device_response_queue_tail (HLS s) \<Longrightarrow>
   c_mip s' = c_mip s \<Longrightarrow> queue_inv s' = queue_inv s"
  by (simp add: queue_inv_def)

lemma ssip_set [simp]: "(v OR MIP_SSIP) AND MIP_SSIP \<noteq> 0"
  by (simp add: bit.conj_disj_distrib2)

lemma queue_inv_respond: "m \<noteq> 0 \<Longrightarrow> queue_inv s \<Longrightarrow> queue_inv (mcall_respond m d s)"
  by (auto simp: queue_inv_def mcall_respond_def enqueue_response_def Let_def)

lemma queue_inv_dev_resp: "queue_inv s \<Longrightarrow> queue_inv (snd (mcall_dev_resp s))"
  by (auto simp: queue_inv_def mcall_dev_resp_def Let_def)


text \<open>What the calls keep of the hart's own state; \<open>more\<close> is everything outside the file table.\<close>

definition same_mode :: "('fs, 'fil, 'd, 'z) mach_scheme \<Rightarrow> ('fs, 'fil, 'd, 'z) mach_scheme \<Rightarrow> bool" where
  "same_mode s s' \<longleftrightarrow> current s' = current s \<and> mem_size s' = mem_size s \<and> c_mstatus s' = c_mstatus s"

lemma same_more:
  fixes s :: "('fs, 'fil, 'd, 'z) mach_scheme"
  assumes "file_state.more s' = file_state.more s"
  shows "queue_inv s' = queue_inv s" "same_mode s s'"
proof -
  have "HLS s' = HLS s" "c_mip s' = c_mip s" using assms by (cases s; cases s'; simp add: HLS_def)+
  then show "queue_inv s' = queue_inv s" by (simp add: queue_inv_def)
  show "same_mode s s'" using assms by (cases s; cases s'; simp add: same_mode_def)
qed

lemma file_pwrite_more:
  "file_pwrite F i buf sz off s = Some (r, s') \<Longrightarrow> file_state.more s' = file_state.more s"
  by (auto simp: file_pwrite_def fil_lseek_def fil_write_def lock_simps Let_def split: bind_splits prod.splits if_splits)

lemma file_open_more:
  "file_open F fn flags s = Some (r, s') \<Longrightarrow> file_state.more s' = file_state.more s"
  by (auto simp: file_open_def file_openat_def file_get_free_def Let_def split: bind_splits prod.splits if_splits)

lemma same_mode_trans: "same_mode s t \<Longrightarrow> same_mode t u \<Longrightarrow> same_mode s u"
  by (simp add: same_mode_def)

definition keeps_inv :: "('fs, 'fil, 'd, 'z) mach_scheme \<Rightarrow> ('fs, 'fil, 'd, 'z) mach_scheme \<Rightarrow> bool" where
  "keeps_inv s s' \<longleftrightarrow> (queue_inv s \<longrightarrow> queue_inv s') \<and> same_mode s s'"

lemma keeps_inv_trans: "keeps_inv s t \<Longrightarrow> keeps_inv t u \<Longrightarrow> keeps_inv s u"
  by (auto simp: keeps_inv_def same_mode_def)

lemma keeps_inv_more: "file_state.more s' = file_state.more s \<Longrightarrow> keeps_inv s s'"
  for s :: "('fs, 'fil, 'd, 'z) mach_scheme"
  using same_more by (auto simp: keeps_inv_def)

lemma keeps_inv_upd [simp]:
  "keeps_inv s s" "keeps_inv s (s\<lparr>ram := r\<rparr>)" "keeps_inv s (s\<lparr>dev := d\<rparr>)" "keeps_inv s (s\<lparr>ramdisk := f\<rparr>)"
  "keeps_inv s (s\<lparr>disk := k\<rparr>)" "keeps_inv s (s\<lparr>c_irq_enable := w\<rparr>)"
  by (auto simp: keeps_inv_def same_mode_def queue_inv_def HLS_def)

lemma same_mode_set_HLS [simp]: "same_mode s (set_HLS h s')  = same_mode s s'"
  by (simp add: same_mode_def set_HLS_def set_hls_def)

lemma keeps_inv_respond: "m \<noteq> 0 \<Longrightarrow> keeps_inv s (mcall_respond m d s)"
proof -
  have "same_mode s (mcall_respond m d s)"
    by (simp add: mcall_respond_def enqueue_response_def Let_def) (simp add: same_mode_def set_HLS_def set_hls_def)
  then show "m \<noteq> 0 \<Longrightarrow> ?thesis" using queue_inv_respond by (auto simp: keeps_inv_def)
qed

lemma keeps_inv_identify: "handle_identify p n s = Some s' \<Longrightarrow> keeps_inv s s'"
  by (auto simp: handle_identify_def Let_def split: if_splits)

lemma keeps_inv_identify_respond:
  "do { s \<leftarrow> handle_identify p n s; Some (mcall_respond m d s) } = Some s' \<Longrightarrow> m \<noteq> 0 \<Longrightarrow> keeps_inv s s'"
  by (auto split: bind_splits dest!: keeps_inv_identify intro: keeps_inv_trans keeps_inv_respond)

lemma keeps_inv_disk_identify:
  assumes "disk_identify F stack m s = Some s'" "m \<noteq> 0"
  shows "keeps_inv s s'"
proof -
  obtain rt fsize d where st: "f_stat F ramdisk_fn (disk s) = (rt, fsize, d)" by (cases "f_stat F ramdisk_fn (disk s)")
  let ?s = "s\<lparr>disk := d\<rparr>"
  have "keeps_inv ?s s'"
  proof (cases "rt = 0")
    case False
    with assms st show ?thesis by (auto simp: disk_identify_def Let_def intro: keeps_inv_identify_respond)
  next
    case True
    with assms st obtain f s1 where f: "file_open F ramdisk_fn O_RDWR ?s = Some (f, s1)"
      by (auto simp: disk_identify_def Let_def split: bind_splits)
    have "keeps_inv ?s (s1\<lparr>ramdisk := f\<rparr>)"
      using keeps_inv_more [OF file_open_more [OF f]] keeps_inv_upd(4) keeps_inv_trans by blast
    moreover have "keeps_inv (s1\<lparr>ramdisk := f\<rparr>) s'"
      using assms st True f
      by (auto simp: disk_identify_def Let_def split: if_splits bind_splits
          intro: keeps_inv_identify_respond keeps_inv_trans keeps_inv_respond dest!: keeps_inv_identify)
    ultimately show ?thesis by (rule keeps_inv_trans)
  qed
  with keeps_inv_upd(5) show ?thesis by (rule keeps_inv_trans)
qed

lemma keeps_inv_disk_transfer:
  assumes "disk_transfer op m s = Some s'" "m \<noteq> 0"
    and "\<And>f a n k r s1. op f a n k s = Some (r, s1) \<Longrightarrow> file_state.more s1 = file_state.more s"
  shows "keeps_inv s s'"
  using assms by (auto simp: disk_transfer_def Let_def split: bind_splits if_splits
      intro!: keeps_inv_trans [OF keeps_inv_more keeps_inv_respond])

lemma set_HLS_twice [simp]: "set_HLS h (set_HLS h' s) = set_HLS h s"
  by (simp add: set_HLS_def set_hls_def)

lemma keeps_inv_request:
  "keeps_inv s (set_HLS ((HLS s)\<lparr>device_request_queue_head := h, device_request_queue_size := n\<rparr>) (s\<lparr>c_irq_enable := 1, ram := r\<rparr>))"
  by (simp add: keeps_inv_def queue_inv_def) (simp add: same_mode_def)

lemma keeps_inv_dev_req:
  assumes "mcall_dev_req F B stack m s = Some (v, s')" "accessible s m \<longrightarrow> m \<noteq> 0"
  shows "keeps_inv s s'"
proof (cases "accessible s m")
  case False
  with assms(1) show ?thesis by (simp add: mcall_dev_req_def accessible_def)
next
  case True
  with assms have m: "m \<noteq> 0" by simp
  note rules = keeps_inv_identify_respond [OF _ m] keeps_inv_disk_identify [OF _ m]
    keeps_inv_disk_transfer [OF _ m file_pread_frame(1)] keeps_inv_disk_transfer [OF _ m file_pwrite_more]
  show ?thesis using assms(1) True unfolding mcall_dev_req_def accessible_def
    by (auto simp: Let_def split: if_splits bind_splits
        intro: rules keeps_inv_request keeps_inv_trans [OF keeps_inv_identify keeps_inv_respond [OF m]]
          keeps_inv_trans [OF keeps_inv_upd(3) keeps_inv_respond [OF m]])
qed


lemma keeps_inv_send_ipi: "keeps_inv s (snd (mcall_send_ipi i s))"
  by (auto simp: keeps_inv_def same_mode_def queue_inv_def mcall_send_ipi_def Let_def HLS_def set_hls_def)

lemma keeps_inv_clear_ipi: "keeps_inv s (snd (mcall_clear_ipi s))"
  by (auto simp: keeps_inv_def same_mode_def queue_inv_def mcall_clear_ipi_def Let_def HLS_def set_hls_def set_HLS_def)

lemma keeps_inv_dev_resp: "keeps_inv s (snd (mcall_dev_resp s))"
proof -
  have "same_mode s (snd (mcall_dev_resp s))"
    by (simp add: mcall_dev_resp_def Let_def) (simp add: same_mode_def set_HLS_def set_hls_def)
  then show ?thesis using queue_inv_dev_resp by (auto simp: keeps_inv_def)
qed

lemma ssip_timer: "(v AND - 33) AND 2 = v AND 2" for v :: u64
  by (simp add: and.assoc)

lemma keeps_inv_set_timer: "keeps_inv s (snd (mcall_set_timer t s))"
  by (simp add: keeps_inv_def same_mode_def queue_inv_def mcall_set_timer_def HLS_def ssip_timer)

lemma keeps_inv_mcall:
  assumes "mcall F B stack n arg0 s = Some (v, s')" "accessible s arg0 \<longrightarrow> arg0 \<noteq> 0"
  shows "keeps_inv s s'"
proof -
  have resp: "mcall_dev_resp s = (v, s') \<Longrightarrow> keeps_inv s s'" using keeps_inv_dev_resp [of s] by simp
  have send: "mcall_send_ipi arg0 s = (v, s') \<Longrightarrow> keeps_inv s s'" using keeps_inv_send_ipi [of s arg0] by simp
  have clear: "mcall_clear_ipi s = (v, s') \<Longrightarrow> keeps_inv s s'" using keeps_inv_clear_ipi [of s] by simp
  have timer: "mcall_set_timer arg0 s = (v, s') \<Longrightarrow> keeps_inv s s'" using keeps_inv_set_timer [of s arg0] by simp
  from assms resp send clear timer keeps_inv_dev_req [of F B stack arg0 s v s'] show ?thesis
    by (auto simp: mcall_def mcall_console_putchar_def mcall_shutdown_def die_def split: if_splits bind_splits)
qed

lemma same_mode_accessible: "same_mode s s' \<Longrightarrow> accessible s' = accessible s"
  by (simp add: fun_eq_iff same_mode_def accessible_def supervisor_paddr_valid_def from_machine_mode_def)

lemma keeps_inv_enqueue:
  assumes "m \<noteq> 0"
  shows "keeps_inv s ((enqueue_response m s)\<lparr>c_mip := v OR MIP_SSIP\<rparr>)"
proof -
  have "same_mode s ((enqueue_response m s)\<lparr>c_mip := v OR MIP_SSIP\<rparr>)"
    by (simp add: enqueue_response_def Let_def) (simp add: same_mode_def set_HLS_def set_hls_def)
  with assms show ?thesis by (auto simp: keeps_inv_def queue_inv_def enqueue_response_def Let_def)
qed

lemma keeps_invI:
  assumes "HLS t = (HLS s)\<lparr>device_request_queue_head := h, device_request_queue_size := n\<rparr>" "c_mip t = c_mip s" "same_mode s t"
  shows "keeps_inv s t"
  using assms by (simp add: keeps_inv_def queue_inv_def)

lemma io_irq_scan_next:
  assumes "accessible s m" "\<not> is_uart_read (ram s) m"
  shows "io_irq_scan B n (Suc k) prev m s = io_irq_scan B n k m (msg_private (ram s) m) s"
proof -
  have "\<not> (\<not> supervisor_paddr_valid m 32 s \<and> \<not> from_machine_mode s)" "\<not> (msg_dev (ram s) m = 0 \<and> msg_cmd (ram s) m = HTIF_CMD_READ)"
    using assms by (auto simp: accessible_def is_uart_read_def)
  then show ?thesis by (simp only: io_irq_scan.simps if_False Let_def)
qed

lemma set_HLS_ram: "(set_HLS h s)\<lparr>ram := r\<rparr> = set_HLS h (s\<lparr>ram := r\<rparr>)"
  by (simp add: set_HLS_def set_hls_def)

lemma io_irq_scan_found:
  assumes "accessible s m" "is_uart_read (ram s) m" "uart_read_irq B (dev s) = (ch, d)"
  shows "\<exists>h r. io_irq_scan B n (Suc k) prev m s =
    Some (0, (enqueue_response m (set_HLS ((HLS s)\<lparr>device_request_queue_head := h, device_request_queue_size := n - 1\<rparr>)
      (s\<lparr>dev := d, ram := r\<rparr>)))\<lparr>c_mip := c_mip s OR MIP_SSIP\<rparr>)"
proof -
  have c: "\<not> (\<not> supervisor_paddr_valid m 32 s \<and> \<not> from_machine_mode s)" "msg_dev (ram s) m = 0 \<and> msg_cmd (ram s) m = HTIF_CMD_READ"
    using assms by (auto simp: accessible_def is_uart_read_def)
  have h: "(HLS s)\<lparr>device_request_queue_size := n - 1\<rparr>
      = (HLS s)\<lparr>device_request_queue_head := device_request_queue_head (HLS s), device_request_queue_size := n - 1\<rparr>" by simp
  show ?thesis
  proof (cases "prev = 0")
    case True
    then show ?thesis
      by (simp only: io_irq_scan.simps c if_False if_True Let_def assms(3) prod.case simp_thms) (auto simp: set_HLS_ram)
  next
    case False
    then show ?thesis
      by (simp only: io_irq_scan.simps c if_False if_True Let_def assms(3) prod.case simp_thms)
        (simp add: set_HLS_ram, subst h, blast)
  qed
qed

lemma keeps_inv_io_scan:
  assumes "io_irq_scan B n k prev m s = Some (v, s')" "\<not> accessible s 0"
  shows "keeps_inv s s'"
  using assms
proof (induction k arbitrary: prev m)
  case (Suc k)
  then have ok: "m \<noteq> 0" "accessible s m" by (auto simp: accessible_def split: if_splits)
  show ?case
  proof (cases "is_uart_read (ram s) m")
    case False
    from Suc.prems(1) have "io_irq_scan B n k m (msg_private (ram s) m) s = Some (v, s')"
      by (simp only: io_irq_scan_next [OF ok(2) False])
    then show ?thesis using Suc.IH Suc.prems(2) by blast
  next
    case True
    obtain ch d where ch: "uart_read_irq B (dev s) = (ch, d)" by (cases "uart_read_irq B (dev s)")
    obtain h r where "s' = (enqueue_response m (set_HLS ((HLS s)\<lparr>device_request_queue_head := h, device_request_queue_size := n - 1\<rparr>)
        (s\<lparr>dev := d, ram := r\<rparr>)))\<lparr>c_mip := c_mip s OR MIP_SSIP\<rparr>"
      using io_irq_scan_found [OF ok(2) True ch, of n k prev] Suc.prems(1) by auto
    moreover have "keeps_inv s (set_HLS ((HLS s)\<lparr>device_request_queue_head := h, device_request_queue_size := n - 1\<rparr>)
        (s\<lparr>dev := d, ram := r\<rparr>))"
      by (rule keeps_invI) (simp, simp, simp, simp add: same_mode_def)
    ultimately show ?thesis using keeps_inv_enqueue [OF ok(1)] keeps_inv_trans by blast
  qed
qed simp

lemma keeps_inv_io_irq:
  assumes "io_irq_service B s = Some (v, s')" "\<not> accessible s 0"
  shows "keeps_inv s s'"
proof -
  obtain c d where c: "uart_check_read_irq B (dev s) = (c, d)" by (cases "uart_check_read_irq B (dev s)")
  have "\<not> accessible (s\<lparr>dev := d\<rparr>) 0" using assms(2) same_mode_accessible [of s "s\<lparr>dev := d\<rparr>"] by (simp add: same_mode_def)
  moreover have "io_irq_scan B (device_request_queue_size (HLS s)) (unat (device_request_queue_size (HLS s))) 0
      (device_request_queue_head (HLS s)) (s\<lparr>dev := d\<rparr>) = Some (v, s')"
    using assms(1) c by (simp add: io_irq_service_def Let_def split: if_splits)
  ultimately have "keeps_inv (s\<lparr>dev := d\<rparr>) s'" by (rule keeps_inv_io_scan [rotated])
  then show ?thesis by (rule keeps_inv_trans [OF keeps_inv_upd(3)])
qed


section \<open>Trap routing\<close>

lemma below32:
  assumes "c < 32" "\<forall>k \<in> set [0..<32]. P (of_nat k)"
  shows "P (c :: u64)"
proof -
  have "unat c < 32" using assms(1) by (simp add: word_less_nat_alt)
  then have "P (of_nat (unat c))" using bspec [OF assms(2), of "unat c"] by simp
  then show ?thesis by simp
qed

definition good_vector :: "u64 \<Rightarrow> bool" where
  "good_vector v \<longleftrightarrow> unat v < length trap_table \<and> trap_table ! unat v \<noteq> H_bad_trap"

lemma trap_masks_word:
  assumes "c < 32"
  shows "sll32_negative HANDLE_USER_TRAP_IN_MACHINE_MODE c = (c \<in> {2, 4, 6, 12, 13})"
    and "sll32_negative HANDLE_SUPERVISOR_TRAP_IN_MACHINE_MODE c = (c \<in> {2, 4, 6, 9, 12, 13})"
  by (rule below32 [OF assms], code_simp)+

lemma good_vectors: "\<forall>v \<in> {2, 4, 6, 9, 12, 13, 14, 15, 16}. good_vector v"
  by (simp add: good_vector_def trap_table_def)

definition raised_cause :: "u64 \<Rightarrow> bool" where
  "raised_cause c \<longleftrightarrow> c < 32 \<or> c \<in> {0x8000000000000000, 0x8000000000000001, 0x8000000000000002, 0x8000000000000004}"

lemma exception_not_negative: "c < 32 \<Longrightarrow> \<not> c <s (0 :: u64)"
  by (rule below32, assumption) code_simp

lemma entry_interrupt_exit:
  assumes "c_mcause s \<in> {0x8000000000000000, 0x8000000000000001, 0x8000000000000002, 0x8000000000000004}"
  shows "fst (entry_interrupt s) \<in> {Call 14, Call 16, Mrts, Eret}"
  using assms by (auto simp: entry_interrupt_def interrupt_supervisor_def Let_def)

lemma interrupt_negative:
  "c \<in> {0x8000000000000000, 0x8000000000000001, 0x8000000000000002, 0x8000000000000004} \<Longrightarrow> c <s (0 :: u64)"
  by (elim insertE emptyE; hypsubst) code_simp+

section \<open>A machine\<close>

definition hls_example :: hls_t where
  "hls_example = \<lparr>device_request_queue_head = 0x4000000, device_request_queue_size = 1, device_response_queue_head = 0,
     device_response_queue_tail = 0, hart_id = 0, ipi_pending = 0\<rparr>"

definition mach_example :: "(unit, unit, unit) mach" where
  "mach_example = vm_state.extend (vm_example\<lparr>ram := (\<lambda>_. 0), current := info_example\<lparr>first_user_vaddr := 0x200000\<rparr>\<rparr>)
     (mach.fields () (\<lambda>_. hls_example) 0 0x10 9 0x80000000 0 0 0 0 0 [] 0x80001000 None)"

lemma mach_example_simps [simp]:
  "ram mach_example = (\<lambda>_. 0)" "HLS mach_example = hls_example" "c_mstatus mach_example = 0x10"
  "current mach_example = info_example\<lparr>first_user_vaddr := 0x200000\<rparr>" "mem_size mach_example = 0x8000000" "c_mip mach_example = 0"
  "c_mcause mach_example = 9" "dev mach_example = ()"
  by (simp_all add: mach_example_def vm_example_def HLS_def vm_state.defs mach.defs)

lemma mach_example_accessible: "accessible mach_example 0x4000000" "\<not> accessible mach_example 0"
  by (simp_all add: accessible_def supervisor_paddr_valid_def from_machine_mode_def EXTRACT_FIELD_def info_example_def)

lemma rd64_zero [simp]: "rd64 (\<lambda>_. 0) a = 0"
  by (simp add: rd64_def mem_read_def upt_conv_Cons)

definition bus_example :: "unit bus" where
  "bus_example = \<lparr>mmio_rd = (\<lambda>a d. (if a = UART_BASE then 0x41 else 1, d)), mmio_wr = (\<lambda>a v d. d)\<rparr>"

lemma bus_example_uart: "uart_check_read_irq bus_example d = (1, d)" "uart_read_irq bus_example d = (0x41, d)"
  by (simp_all add: uart_check_read_irq_def uart_read_irq_def reg_read_def bus_example_def)

lemma mach_example_queues: "request_queue mach_example [0x4000000]" "response_queue mach_example []"
  by (simp_all add: request_queue_def response_queue_def hls_example_def msg_private_def)

section \<open>Properties\<close>

text \<open>
  C26: for every exception number below 32 and the software, timer, host and device interrupts, the entry code
  of each mode does not take its error exit, and a handler number it computes is an index of the trap
  table whose entry is not \<open>bad_trap\<close>.
\<close>

theorem trap_vectors_in_table:
  assumes "raised_cause (c_mcause s)" "x \<in> {entry_user s, entry_supervisor s, entry_machine s}"
  shows "fst x \<noteq> Bad \<and> (\<forall>v. fst x = Call v \<longrightarrow> good_vector v)"
proof -
  have "fst x \<in> Call ` {2, 4, 6, 9, 12, 13, 14, 15, 16} \<union> {Mrts, Eret}"
  proof (cases "c_mcause s < 32")
    case True
    from assms(2) exception_not_negative [OF True] trap_masks_word [OF True] show ?thesis
      by (auto simp: entry_user_def entry_supervisor_def entry_machine_def split: if_splits)
  next
    case False
    with assms(1) have c: "c_mcause s \<in> {0x8000000000000000, 0x8000000000000001, 0x8000000000000002, 0x8000000000000004}"
      by (simp add: raised_cause_def)
    from assms(2) interrupt_negative [OF c] entry_interrupt_exit [OF c] show ?thesis
      by (auto simp: entry_user_def entry_supervisor_def entry_machine_def)
  qed
  with good_vectors show ?thesis by auto
qed

theorem trap_vectors_in_table_witness:
  "fst (entry_supervisor mach_example) = Call 9 \<and> good_vector 9"
proof -
  have "fst (entry_supervisor mach_example) = Call 9"
    using exception_not_negative [of 9] trap_masks_word(2) [of 9] by (simp add: entry_supervisor_def)
  then show ?thesis using trap_vectors_in_table [of mach_example "entry_supervisor mach_example"]
    by (simp add: raised_cause_def)
qed

text \<open>
  C5: the response queue is first in, first out.  Whatever sequence of responses and receptions runs,
  as long as a message is not answered while it is still queued, each reception returns the oldest
  message not yet received with the response stored in it, and nothing when there is none: the
  linked list in the supervisor's memory refines a plain list.
\<close>

theorem response_queue_fifo:
  assumes "response_queue s q" "legal_ops fresh_message ops q"
  shows "\<exists>s'. run_queue mcall_respond receive ops s = (fst (run_queue fifo_put fifo_get ops q), s')
    \<and> response_queue s' (snd (run_queue fifo_put fifo_get ops q))"
  using assms by (rule responses.run_simulates)

theorem response_queue_fifo_witness:
  "fst (run_queue mcall_respond receive [Put 0x5000000 7, Get, Put 0x5000000 8, Put 0x5000100 9, Get, Get, Get] mach_example)
    = [Some (0x5000000, 7), Some (0x5000000, 8), Some (0x5000100, 9), None]"
proof -
  have "legal_ops fresh_message [Put 0x5000000 7, Get, Put 0x5000000 8, Put 0x5000100 9, Get, Get, Get] []"
    by (simp add: fresh_message_def fifo_put_def apart_def)
  from response_queue_fifo [OF mach_example_queues(2) this] show ?thesis by (auto simp: fifo_put_def)
qed

text \<open>
  C7: when the serial line has a character and the request queue has a pending read, the interrupt handler
  returns; it stores the character in the first such message, moves that message from its place in
  the request queue to the end of the response queue, keeps the order of all others, and
  signals the supervisor.
\<close>

theorem serial_input_delivered:
  assumes "request_queue s (xs @ m # ys)" "response_queue s q"
    and "\<forall>x \<in> set (xs @ m # ys). \<forall>y \<in> fst ` set q. apart x y"
    and "length (xs @ m # ys) < 2 ^ 64"
    and "\<forall>x \<in> set xs. accessible s x \<and> \<not> is_uart_read (ram s) x"
    and "accessible s m" "is_uart_read (ram s) m"
    and "uart_check_read_irq B (dev s) = (c, d)" "c \<noteq> 0" "uart_read_irq B d = (ch, d')"
  shows "\<exists>s'. io_irq_service B s = Some (0, s')
    \<and> request_queue s' (xs @ ys) \<and> response_queue s' (q @ [(m, 0x100 OR ucast ch)])
    \<and> c_mip s' = c_mip s OR MIP_SSIP \<and> dev s' = d'"
  by (rule io_irq_service_take [OF assms])

theorem serial_input_delivered_witness:
  "\<exists>s'. io_irq_service bus_example mach_example = Some (0, s') \<and> request_queue s' []
    \<and> response_queue s' [(0x4000000, 0x141)] \<and> c_mip s' = MIP_SSIP"
proof -
  have "\<exists>s'. io_irq_service bus_example mach_example = Some (0, s')
    \<and> request_queue s' ([] @ []) \<and> response_queue s' ([] @ [(0x4000000, 0x100 OR ucast (0x41 :: u8))])
    \<and> c_mip s' = c_mip mach_example OR MIP_SSIP \<and> dev s' = ()"
    by (rule serial_input_delivered [where c = 1 and d = "()"])
      (simp_all add: mach_example_queues mach_example_accessible bus_example_uart is_uart_read_def msg_dev_def msg_cmd_def)
  then show ?thesis by simp
qed

text \<open>
  C8: no call leaves a response unsignalled.  While the null pointer is not an address the
  supervisor may pass, every machine call and the serial interrupt keep the invariant that the
  two ends of the response queue are both null or both not, and that the
  supervisor's software interrupt is pending whenever the queue is not empty.
\<close>

theorem responses_stay_signalled:
  assumes "queue_inv s" "\<not> accessible s 0"
    and "(\<exists>regs' r. mcall_trap F B stack regs s = Some (r, regs', s')) \<or> (\<exists>r. io_irq_service B s = Some (r, s'))"
  shows "queue_inv s' \<and> \<not> accessible s' 0"
proof -
  have "keeps_inv s s'"
    using assms(3)
  proof
    assume "\<exists>regs' r. mcall_trap F B stack regs s = Some (r, regs', s')"
    then obtain v t where t: "mcall F B stack (regs ! 17) (regs ! 10) s = Some (v, t)" and s': "s' = t\<lparr>c_mepc := c_mepc t + 4\<rparr>"
      by (auto simp: mcall_trap_def split: bind_splits)
    have "keeps_inv s t" by (rule keeps_inv_mcall [OF t]) (use assms(2) in metis)
    then show ?thesis unfolding s' by (simp add: keeps_inv_def queue_inv_def same_mode_def HLS_def)
  qed (use keeps_inv_io_irq assms(2) in blast)
  with assms show ?thesis by (auto simp: keeps_inv_def same_mode_accessible)
qed

theorem responses_stay_signalled_witness:
  "\<exists>s'. io_irq_service bus_example mach_example = Some (0, s') \<and> queue_inv s' \<and> \<not> accessible s' 0"
proof -
  have inv: "queue_inv mach_example" by (simp add: queue_inv_def hls_example_def)
  have "\<exists>s'. io_irq_service bus_example mach_example = Some (0, s')"
    using io_irq_service_take [of mach_example "[]" "0x4000000" "[]" "[]" bus_example]
    by (simp add: mach_example_queues mach_example_accessible bus_example_uart is_uart_read_def msg_dev_def msg_cmd_def) blast
  with responses_stay_signalled [OF inv mach_example_accessible(2)] show ?thesis by blast
qed

text \<open>
  C25: a malformed call changes nothing.  A request at an address the caller may not pass gets
  \<open>-EFAULT\<close>, one with a device, command or payload out of range \<open>-EINVAL\<close>, and an unknown call number
  \<open>-ENOSYS\<close>; apart from the result in \<open>a0\<close> and the step over the call the machine is as before.
\<close>

theorem malformed_call_rejected:
  assumes "regs ! 17 = MCALL_SEND_DEVICE_REQUEST \<and> \<not> accessible s (regs ! 10) \<and> e = - EFAULT
    \<or> regs ! 17 = MCALL_SEND_DEVICE_REQUEST \<and> accessible s (regs ! 10) \<and> e = - EINVAL
        \<and> (0xFF < msg_dev (ram s) (regs ! 10) \<or> 0xFF < msg_cmd (ram s) (regs ! 10)
           \<or> 0xFFFFFFFFFFFF < msg_data (ram s) (regs ! 10))
    \<or> 7 < regs ! 17 \<and> e = - ENOSYS"
  shows "mcall_trap F B stack regs s = Some (0, regs[10 := e], s\<lparr>c_mepc := c_mepc s + 4\<rparr>)"
proof -
  have dev: "mcall F B stack MCALL_SEND_DEVICE_REQUEST a s = mcall_dev_req F B stack a s" for a by (simp add: mcall_def)
  have unknown: "mcall F B stack n a s = Some (- ENOSYS, s)" if "7 < n" for n a
  proof -
    have "n \<notin> {0, 1, 2, 3, 4, 5, 6, 7}" using that by auto
    then show ?thesis by (simp add: mcall_def)
  qed
  from assms have "mcall F B stack (regs ! 17) (regs ! 10) s = Some (e, s)"
  proof (elim disjE conjE)
    assume "regs ! 17 = MCALL_SEND_DEVICE_REQUEST" "\<not> accessible s (regs ! 10)" "e = - EFAULT"
    then show ?thesis by (simp only: dev mcall_dev_req_def accessible_def de_Morgan_disj simp_thms if_True)
  next
    assume "7 < regs ! 17" "e = - ENOSYS"
    then show ?thesis by (simp only: unknown)
  qed (simp_all only: dev mcall_dev_req_def accessible_def de_Morgan_disj [symmetric] simp_thms if_True if_False)
  then show ?thesis by (simp add: mcall_trap_def)
qed

theorem malformed_call_rejected_witness:
  "mcall_trap fatfs_example bus_example [] ((replicate 32 0)[17 := 2]) mach_example
    = Some (0, (replicate 32 0)[17 := 2, 10 := - EFAULT], mach_example\<lparr>c_mepc := c_mepc mach_example + 4\<rparr>)"
  by (rule malformed_call_rejected) (simp add: mach_example_accessible)

end
