(* ===== verification/Ipi.thy ===== *)
theory Ipi
  imports Mtrap_Props
begin

text \<open>
  Interprocessor interrupts of \<open>bbl/mtrap.c\<close> and \<open>bbl/mentry.S\<close> with the harts interleaved.  A step
  is one access to what harts share: the atomic swap of \<open>ipi_pending\<close>, the write that raises the
  recipient's \<open>MSIP\<close>, and the set, clear and test instructions on a hart's own \<open>mip\<close>.  Between two steps
  of a call any other hart may run; traps are off inside a call, so a hart starts one only when it is
  outside.  The supervisor is taken not to change its pending bit by itself.  A step carries the number of the
  hart that takes it, and \<open>ipi_sent h\<close> is what hart \<open>h\<close> has written to \<open>send_ipi\<close> so far.
\<close>

section \<open>Harts\<close>

text \<open>Where a hart is: outside a call, between swap and write of \<open>mcall_send_ipi\<close>, between the
  clear and the swap of \<open>mcall_clear_ipi\<close>, between the clear and the test of \<open>mcall_dev_resp\<close>, or
  between the clear and the set of the entry code.\<close>

datatype ipi_pc = Idle | Sending nat | Clearing | Rechecking | Posting

record ipi_sys =
  ipi_pcs :: "nat \<Rightarrow> ipi_pc"
  pend :: "nat \<Rightarrow> bool"
  msip :: "nat \<Rightarrow> bool"
  ipi_sent :: "nat \<Rightarrow> nat list"
  ssip :: "nat \<Rightarrow> bool"
  resp_empty :: "nat \<Rightarrow> bool"

inductive ipi_step :: "nat \<Rightarrow> ipi_sys \<Rightarrow> ipi_sys \<Rightarrow> bool" where
  send_first: "ipi_pcs s h = Idle \<Longrightarrow> \<not> pend s r \<Longrightarrow>
    ipi_step h s (s\<lparr>pend := (pend s)(r := True), ipi_pcs := (ipi_pcs s)(h := Sending r)\<rparr>)"
| send_again: "ipi_pcs s h = Idle \<Longrightarrow> pend s r \<Longrightarrow>
    ipi_step h s (s\<lparr>pend := (pend s)(r := True)\<rparr>)"
| send_write: "ipi_pcs s h = Sending r \<Longrightarrow>
    ipi_step h s (s\<lparr>msip := (msip s)(r := True), ipi_sent := (ipi_sent s)(h := ipi_sent s h @ [r]),
      ipi_pcs := (ipi_pcs s)(h := Idle)\<rparr>)"
| clear_ssip: "ipi_pcs s h = Idle \<Longrightarrow>
    ipi_step h s (s\<lparr>ssip := (ssip s)(h := if resp_empty s h then False else ssip s h),
      ipi_pcs := (ipi_pcs s)(h := Clearing)\<rparr>)"
| clear_swap: "ipi_pcs s h = Clearing \<Longrightarrow>
    ipi_step h s (s\<lparr>pend := (pend s)(h := False), ipi_pcs := (ipi_pcs s)(h := Idle)\<rparr>)"
| resp_last: "ipi_pcs s h = Idle \<Longrightarrow> \<not> resp_empty s h \<Longrightarrow>
    ipi_step h s (s\<lparr>resp_empty := (resp_empty s)(h := True), ssip := (ssip s)(h := False),
      ipi_pcs := (ipi_pcs s)(h := Rechecking)\<rparr>)"
| resp_recheck: "ipi_pcs s h = Rechecking \<Longrightarrow>
    ipi_step h s (s\<lparr>ssip := (ssip s)(h := if pend s h then True else ssip s h),
      ipi_pcs := (ipi_pcs s)(h := Idle)\<rparr>)"
| respond: "ipi_pcs s h = Idle \<Longrightarrow>
    ipi_step h s (s\<lparr>resp_empty := (resp_empty s)(h := False), ssip := (ssip s)(h := True)\<rparr>)"
| soft_interrupt: "ipi_pcs s h = Idle \<Longrightarrow> msip s h \<Longrightarrow>
    ipi_step h s (s\<lparr>msip := (msip s)(h := False), ipi_pcs := (ipi_pcs s)(h := Posting)\<rparr>)"
| soft_post: "ipi_pcs s h = Posting \<Longrightarrow>
    ipi_step h s (s\<lparr>ssip := (ssip s)(h := True), ipi_pcs := (ipi_pcs s)(h := Idle)\<rparr>)"

definition ipi_init :: ipi_sys where
  "ipi_init = \<lparr>ipi_pcs = (\<lambda>_. Idle), pend = (\<lambda>_. False), msip = (\<lambda>_. False), ipi_sent = (\<lambda>_. []),
     ssip = (\<lambda>_. False), resp_empty = (\<lambda>_. True)\<rparr>"

inductive ipi_reachable :: "ipi_sys \<Rightarrow> bool" where
  start: "ipi_reachable ipi_init"
| step: "ipi_reachable s \<Longrightarrow> ipi_step h s s' \<Longrightarrow> ipi_reachable s'"

section \<open>The invariant\<close>

definition ipi_covered :: "ipi_sys \<Rightarrow> nat \<Rightarrow> bool" where
  "ipi_covered s r \<longleftrightarrow> ssip s r \<or> msip s r \<or> (\<exists>h. ipi_pcs s h = Sending r)
     \<or> ipi_pcs s r \<in> {Clearing, Rechecking, Posting}"

definition in_call :: "ipi_sys \<Rightarrow> nat \<Rightarrow> bool" where
  "in_call s r \<longleftrightarrow> ipi_pcs s r \<in> {Clearing, Rechecking, Posting}"

lemma ipi_covered_keep:
  assumes "ipi_covered s r" "ssip s r \<Longrightarrow> ssip t r \<or> in_call t r" "msip s r \<Longrightarrow> msip t r \<or> in_call t r"
    "in_call s r \<Longrightarrow> ssip t r \<or> in_call t r" "\<And>h. ipi_pcs s h = Sending r \<Longrightarrow> msip t r \<or> ipi_pcs t h = Sending r"
  shows "ipi_covered t r"
  using assms unfolding ipi_covered_def in_call_def [symmetric] by meson

lemma ipi_step_covered:
  assumes "ipi_step h s t" "pend s r \<longrightarrow> ipi_covered s r" "pend t r"
  shows "ipi_covered t r"
  using assms(1)
proof cases
  case (send_first r')
  show ?thesis
  proof (cases "r = r'")
    case True
    then have "ipi_pcs t h = Sending r" using send_first by simp
    then show ?thesis unfolding ipi_covered_def by blast
  next
    case False
    then have "ipi_covered s r" using assms send_first by simp
    then show ?thesis by (rule ipi_covered_keep) (use send_first in \<open>auto simp: in_call_def\<close>)
  qed
next
  case clear_swap
  then have "r \<noteq> h" using assms(3) by auto
  then have "ipi_covered s r" using assms clear_swap by simp
  then show ?thesis by (rule ipi_covered_keep) (use clear_swap \<open>r \<noteq> h\<close> in \<open>auto simp: in_call_def\<close>)
next
  case (send_again r')
  then have "t = s" using assms by (simp add: fun_upd_idem)
  then show ?thesis using assms by simp
next
  case (send_write r')
  then have "ipi_covered s r" using assms by simp
  then show ?thesis by (rule ipi_covered_keep) (use send_write in \<open>auto simp: in_call_def\<close>)
next
  case clear_ssip
  then have "ipi_covered s r" using assms by simp
  then show ?thesis by (rule ipi_covered_keep) (use clear_ssip in \<open>auto simp: in_call_def\<close>)
next
  case resp_last
  then have "ipi_covered s r" using assms by simp
  then show ?thesis by (rule ipi_covered_keep) (use resp_last in \<open>auto simp: in_call_def\<close>)
next
  case resp_recheck
  then have "ipi_covered s r" "pend s r" using assms by simp_all
  then show ?thesis by (rule_tac ipi_covered_keep) (use resp_recheck in \<open>auto simp: in_call_def\<close>)
next
  case respond
  then have "ipi_covered s r" using assms by simp
  then show ?thesis by (rule ipi_covered_keep) (use respond in \<open>auto simp: in_call_def\<close>)
next
  case soft_interrupt
  then have "ipi_covered s r" using assms by simp
  then show ?thesis by (rule ipi_covered_keep) (use soft_interrupt in \<open>auto simp: in_call_def\<close>)
next
  case soft_post
  then have "ipi_covered s r" using assms by simp
  then show ?thesis by (rule ipi_covered_keep) (use soft_post in \<open>auto simp: in_call_def\<close>)
qed

lemma ipi_step_responses: "ipi_step h s t \<Longrightarrow> \<forall>r. \<not> resp_empty s r \<longrightarrow> ssip s r \<Longrightarrow> \<not> resp_empty t r \<Longrightarrow> ssip t r"
  by (induction rule: ipi_step.induct) (auto split: if_splits)

lemma ipi_reachable_inv:
  "ipi_reachable s \<Longrightarrow> (\<forall>r. pend s r \<longrightarrow> ipi_covered s r) \<and> (\<forall>r. \<not> resp_empty s r \<longrightarrow> ssip s r)"
proof (induction rule: ipi_reachable.induct)
  case start
  then show ?case by (simp add: ipi_init_def)
next
  case (step s h t)
  then show ?case using ipi_step_covered [OF step.hyps(2)] ipi_step_responses [OF step.hyps(2)] by blast
qed

section \<open>The calls are runs of steps\<close>

text \<open>What one hart's state shows of the system while it is outside a call; \<open>hart_id\<close> keeps its number, and
  \<open>c_send_ipi\<close> lists its writes to \<open>send_ipi\<close>.\<close>

definition ipi_view :: "nat \<Rightarrow> ('fs, 'fil, 'd, 'z) mach_scheme \<Rightarrow> ipi_sys \<Rightarrow> bool" where
  "ipi_view h s u \<longleftrightarrow>
     ipi_pcs u h = Idle \<and> h < unat (num_harts s) \<and> scast (hart_id (HLS s)) = (of_nat h :: u64)
     \<and> (\<forall>i < unat (num_harts s). pend u i = (ipi_pending (all_hls s (OTHER_HLS (of_nat i) s)) \<noteq> 0))
     \<and> c_send_ipi s = map of_nat (ipi_sent u h)
     \<and> ssip u h = (c_mip s AND MIP_SSIP \<noteq> 0)
     \<and> resp_empty u h = (device_response_queue_head (HLS s) = 0)"

lemma hart_index_inj: "i < unat n \<Longrightarrow> j < unat n \<Longrightarrow> (of_nat i :: u64) = of_nat j \<longleftrightarrow> i = j" for n :: u32
  using unat_bound [of n] by (simp add: word_of_nat_eq_iff take_bit_nat_eq_self)

lemma ssip_clear: "(v AND - 3) AND 2 = 0" for v :: u64
  by (simp add: and.assoc)

lemma send_ipi_steps:
  assumes v: "ipi_view h s u" and r: "r < unat (num_harts s)"
  shows "\<exists>u'. (ipi_step h)\<^sup>*\<^sup>* u u' \<and> ipi_view h (snd (mcall_send_ipi (of_nat r) s)) u'
    \<and> pend u' r \<and> (pend u r \<or> msip u' r)"
proof -
  let ?s = "snd (mcall_send_ipi (of_nat r) s)" and ?new = "u\<lparr>pend := (pend u)(r := True)\<rparr>"
  have idle: "ipi_pcs u h = Idle" and p: "pend u r = (ipi_pending (all_hls s (OTHER_HLS (of_nat r) s)) \<noteq> 0)"
    using v r by (auto simp: ipi_view_def)
  have in_range: "\<not> ucast (num_harts s) \<le> (of_nat r :: u64)"
    using r unat_bound [of "num_harts s"] by (simp add: word_le_nat_alt unat_of_nat take_bit_nat_eq_self unsigned_ucast_eq)
  have view: "ipi_view h ?s w"
    if "pend w = (pend u)(r := True)" "ipi_pcs w h = Idle" "ssip w = ssip u" "resp_empty w = resp_empty u"
      "ipi_sent w h = (if pend u r then ipi_sent u h else ipi_sent u h @ [r])" for w
    using v r in_range that p hart_index_inj [of _ "num_harts s" r]
    by (auto simp: ipi_view_def mcall_send_ipi_def Let_def set_hls_def HLS_def OTHER_HLS_def)
  show ?thesis
  proof (cases "pend u r")
    case True
    have "ipi_step h u ?new" by (rule ipi_step.send_again [OF idle True])
    moreover have "ipi_view h ?s ?new" by (rule view) (simp_all add: idle True)
    ultimately show ?thesis using True by (intro exI [of _ ?new]) auto
  next
    case False
    define u1 where "u1 = u\<lparr>pend := (pend u)(r := True), ipi_pcs := (ipi_pcs u)(h := Sending r)\<rparr>"
    define u2 where "u2 = u1\<lparr>msip := (msip u1)(r := True), ipi_sent := (ipi_sent u1)(h := ipi_sent u1 h @ [r]),
      ipi_pcs := (ipi_pcs u1)(h := Idle)\<rparr>"
    have "ipi_step h u u1" unfolding u1_def by (rule ipi_step.send_first [OF idle False])
    moreover have "ipi_step h u1 u2" unfolding u2_def by (rule ipi_step.send_write) (simp add: u1_def)
    ultimately have "(ipi_step h)\<^sup>*\<^sup>* u u2" by auto
    moreover have "ipi_view h ?s u2" by (rule view) (simp_all add: u1_def u2_def False)
    moreover have "msip u2 r" "pend u2 r" by (simp_all add: u2_def u1_def)
    ultimately show ?thesis by blast
  qed
qed

lemma clear_ipi_steps:
  assumes v: "ipi_view h s u"
  shows "\<exists>u'. (ipi_step h)\<^sup>*\<^sup>* u u' \<and> ipi_view h (snd (mcall_clear_ipi s)) u'"
proof -
  define u1 where "u1 = u\<lparr>ssip := (ssip u)(h := if resp_empty u h then False else ssip u h), ipi_pcs := (ipi_pcs u)(h := Clearing)\<rparr>"
  define u2 where "u2 = u1\<lparr>pend := (pend u1)(h := False), ipi_pcs := (ipi_pcs u1)(h := Idle)\<rparr>"
  have "ipi_step h u u1" unfolding u1_def by (rule ipi_step.clear_ssip) (use v in \<open>simp add: ipi_view_def\<close>)
  moreover have "ipi_step h u1 u2" unfolding u2_def by (rule ipi_step.clear_swap) (simp add: u1_def)
  ultimately have "(ipi_step h)\<^sup>*\<^sup>* u u2" by auto
  moreover have "ipi_view h (snd (mcall_clear_ipi s)) u2"
    using v hart_index_inj [of _ "num_harts s" h]
    by (auto simp: ipi_view_def u2_def u1_def mcall_clear_ipi_def Let_def set_HLS_def set_hls_def HLS_def OTHER_HLS_def ssip_clear)
  ultimately show ?thesis by auto
qed

lemma dev_resp_steps:
  assumes v: "ipi_view h s u"
  shows "\<exists>u'. (ipi_step h)\<^sup>*\<^sup>* u u' \<and> ipi_view h (snd (mcall_dev_resp s)) u'"
proof (cases "device_response_queue_head (HLS s) \<noteq> 0 \<and> msg_private (ram s) (device_response_queue_head (HLS s)) = 0")
  case False
  then have "ipi_view h (snd (mcall_dev_resp s)) u"
    using v by (auto simp: ipi_view_def mcall_dev_resp_def Let_def set_HLS_def set_hls_def HLS_def OTHER_HLS_def)
  then show ?thesis by auto
next
  case True
  define u1 where "u1 = u\<lparr>resp_empty := (resp_empty u)(h := True), ssip := (ssip u)(h := False), ipi_pcs := (ipi_pcs u)(h := Rechecking)\<rparr>"
  define u2 where "u2 = u1\<lparr>ssip := (ssip u1)(h := if pend u1 h then True else ssip u1 h), ipi_pcs := (ipi_pcs u1)(h := Idle)\<rparr>"
  have "ipi_step h u u1" unfolding u1_def by (rule ipi_step.resp_last) (use v True in \<open>simp_all add: ipi_view_def\<close>)
  moreover have "ipi_step h u1 u2" unfolding u2_def by (rule ipi_step.resp_recheck) (simp add: u1_def)
  ultimately have "(ipi_step h)\<^sup>*\<^sup>* u u2" by auto
  moreover have "ipi_view h (snd (mcall_dev_resp s)) u2"
    using v True 
    by (auto simp: ipi_view_def u2_def u1_def mcall_dev_resp_def Let_def set_HLS_def set_hls_def HLS_def OTHER_HLS_def ssip_clear bit.conj_disj_distrib2)
  ultimately show ?thesis by auto
qed

lemma ipi_reachable_steps: "(ipi_step h)\<^sup>*\<^sup>* s t \<Longrightarrow> ipi_reachable s \<Longrightarrow> ipi_reachable t"
  by (induction rule: rtranclp_induct) (auto intro: ipi_reachable.step)

text \<open>The recipient's \<open>ipi_pending\<close> before and after a send, and the write that goes with a change of it.\<close>

lemma send_ipi_pending:
  assumes v: "ipi_view h s u" "ipi_view h s' u'" "num_harts s' = num_harts s" and r: "r < unat (num_harts s)"
  shows "pend u r = (ipi_pending (all_hls s (OTHER_HLS (of_nat r) s)) \<noteq> 0)"
    "pend u' r = (ipi_pending (all_hls s' (OTHER_HLS (of_nat r) s')) \<noteq> 0)"
  using v r by (auto simp: ipi_view_def)

lemma send_ipi_harts: "num_harts (snd (mcall_send_ipi r s)) = num_harts s"
  by (simp add: mcall_send_ipi_def Let_def set_hls_def)

text \<open>
  C6: no interprocessor interrupt is lost.  Take any interleaving of any number of harts that send, clear,
  answer, receive and take software interrupts, and let a hart in it send an interrupt, clear its own
  or receive a response.  The call is a run of the hart's own steps, and the writes to \<open>send_ipi\<close> in that run are
  those of the call.  A send leaves the recipient's \<open>ipi_pending\<close> set, and raises its machine software interrupt
  unless \<open>ipi_pending\<close> was set before.  After every call a set
  \<open>ipi_pending\<close> of this hart comes with its machine or its supervisor software interrupt pending, or with
  another hart between the swap and the write of a send to it, whose write is the next thing that hart does; a queued response
  comes with the supervisor software interrupt pending.
\<close>

theorem ipi_not_lost:
  assumes "ipi_reachable u" "ipi_view h s u" "r < unat (num_harts s)"
    and "s' \<in> {snd (mcall_send_ipi (of_nat r) s), snd (mcall_clear_ipi s), snd (mcall_dev_resp s)}"
  shows "\<exists>u'. (ipi_step h)\<^sup>*\<^sup>* u u' \<and> ipi_view h s' u'
    \<and> (s' = snd (mcall_send_ipi (of_nat r) s) \<longrightarrow> ipi_pending (all_hls s' (OTHER_HLS (of_nat r) s')) \<noteq> 0
        \<and> (ipi_pending (all_hls s (OTHER_HLS (of_nat r) s)) = 0 \<longrightarrow> msip u' r))
    \<and> (ipi_pending (HLS s') \<noteq> 0 \<longrightarrow> msip u' h \<or> c_mip s' AND MIP_SSIP \<noteq> 0 \<or> (\<exists>k. k \<noteq> h \<and> ipi_pcs u' k = Sending h))
    \<and> (device_response_queue_head (HLS s') \<noteq> 0 \<longrightarrow> c_mip s' AND MIP_SSIP \<noteq> 0)"
proof -
  obtain u' where u': "(ipi_step h)\<^sup>*\<^sup>* u u'" "ipi_view h s' u'"
    "s' = snd (mcall_send_ipi (of_nat r) s) \<longrightarrow> pend u' r \<and> (pend u r \<or> msip u' r)"
    using assms(4) send_ipi_steps [OF assms(2,3)] clear_ipi_steps [OF assms(2)] dev_resp_steps [OF assms(2)]
    by (cases "s' = snd (mcall_send_ipi (of_nat r) s)") auto
  have "OTHER_HLS (of_nat h) s' = this_hls s'" using u'(2) by (simp add: ipi_view_def OTHER_HLS_def)
  then have "pend u' h = (ipi_pending (HLS s') \<noteq> 0)" using u'(2) by (auto simp: ipi_view_def HLS_def)
  moreover have "ipi_pcs u' h = Idle" "ssip u' h = (c_mip s' AND MIP_SSIP \<noteq> 0)"
    "resp_empty u' h = (device_response_queue_head (HLS s') = 0)" using u'(2) by (simp_all add: ipi_view_def)
  moreover have "pend u' h \<longrightarrow> ipi_covered u' h" "\<not> resp_empty u' h \<longrightarrow> ssip u' h"
    using ipi_reachable_inv [OF ipi_reachable_steps [OF u'(1) assms(1)]] by blast+
  moreover have "s' = snd (mcall_send_ipi (of_nat r) s) \<longrightarrow> ipi_pending (all_hls s' (OTHER_HLS (of_nat r) s')) \<noteq> 0
        \<and> (ipi_pending (all_hls s (OTHER_HLS (of_nat r) s)) = 0 \<longrightarrow> msip u' r)"
    using u'(3) send_ipi_pending [OF assms(2) u'(2) _ assms(3)] send_ipi_harts by auto
  moreover have "k \<noteq> h" if "ipi_pcs u' k = Sending h" for k using that u'(2) by (auto simp: ipi_view_def)
  ultimately show ?thesis using u'(1,2) unfolding ipi_covered_def by (intro exI [of _ u']) auto
qed

theorem ipi_not_lost_witness:
  "\<exists>u'. (ipi_step 0)\<^sup>*\<^sup>* ipi_init u' \<and> ipi_view 0 (snd (mcall_send_ipi 0 mach_example)) u' \<and> msip u' 0"
proof -
  have v: "ipi_view 0 mach_example ipi_init"
    by (simp add: ipi_view_def ipi_init_def mach_example_def vm_example_def hls_example_def HLS_def OTHER_HLS_def vm_state.defs mach.defs)
  have n: "0 < unat (num_harts mach_example)" by (simp add: mach_example_def vm_example_def vm_state.defs mach.defs)
  have p: "ipi_pending (all_hls mach_example (OTHER_HLS (of_nat 0) mach_example)) = 0"
    by (simp add: OTHER_HLS_def mach_example_def vm_example_def hls_example_def vm_state.defs mach.defs)
  from ipi_not_lost [OF ipi_reachable.start v n, of "snd (mcall_send_ipi 0 mach_example)"] p show ?thesis by auto
qed

end
