(* ===== verification/Elf.thy ===== *)
theory Elf
  imports Vm Libc
begin

text \<open>
  The two program loaders: \<open>bbl/elf.c\<close>, which loads the supervisor from a file through the memory
  manager, and \<open>driver/elf.c\<close> of the boot program, which unpacks an image that is already in memory.
  Headers are read from memory where the code reads them, so that a segment that overwrites
  them has the effect it has in the code.
\<close>

section \<open>Headers\<close>

record Elf64_Ehdr =
  e_ident :: "u8 list"
  e_type :: u16
  e_entry :: u64
  e_phoff :: u64
  e_phnum :: u16

record Elf64_Phdr =
  p_type :: u32
  p_offset :: u64
  p_vaddr :: u64
  p_paddr :: u64
  p_filesz :: u64
  p_memsz :: u64

abbreviation (input) EHDR_SIZE :: u64 where "EHDR_SIZE \<equiv> 64"
abbreviation (input) PHDR_SIZE :: u64 where "PHDR_SIZE \<equiv> 56"
abbreviation (input) PT_LOAD :: u32 where "PT_LOAD \<equiv> 1"
abbreviation (input) ET_DYN :: u16 where "ET_DYN \<equiv> 3"

definition rd_ehdr :: "mem \<Rightarrow> u64 \<Rightarrow> Elf64_Ehdr" where
  "rd_ehdr m a =
     \<lparr>e_ident = mem_read m a 16, e_type = le_word (mem_read m (a + 16) 2), e_entry = rd64 m (a + 24),
      e_phoff = rd64 m (a + 32), e_phnum = le_word (mem_read m (a + 56) 2)\<rparr>"

definition rd_phdr :: "mem \<Rightarrow> u64 \<Rightarrow> Elf64_Phdr" where
  "rd_phdr m a =
     \<lparr>p_type = le_word (mem_read m a 4), p_offset = rd64 m (a + 8), p_vaddr = rd64 m (a + 16),
      p_paddr = rd64 m (a + 24), p_filesz = rd64 m (a + 32), p_memsz = rd64 m (a + 40)\<rparr>"

definition IS_ELF :: "Elf64_Ehdr \<Rightarrow> bool" where
  "IS_ELF hdr \<longleftrightarrow> e_ident hdr ! 0 = 0x7f \<and> e_ident hdr ! 1 = 0x45 \<and> e_ident hdr ! 2 = 0x4C \<and> e_ident hdr ! 3 = 0x46"

definition IS_ELF64 :: "Elf64_Ehdr \<Rightarrow> bool" where
  "IS_ELF64 hdr \<longleftrightarrow> IS_ELF hdr \<and> e_ident hdr ! 4 = 2"

definition loadable :: "Elf64_Phdr \<Rightarrow> bool" where
  "loadable p \<longleftrightarrow> p_type p = PT_LOAD \<and> p_memsz p \<noteq> 0"

section \<open>The loader of bbl\<close>

definition phdr_at :: "u64 \<Rightarrow> nat \<Rightarrow> ('fs, 'fil, 'z) vm_state_scheme \<Rightarrow> Elf64_Phdr" where
  "phdr_at ph i s = rd_phdr (ram s) (ph + PHDR_SIZE * of_nat i)"

definition ram_memset :: "u64 \<Rightarrow> u32 \<Rightarrow> u64 \<Rightarrow> ('fs, 'fil, 'z) vm_state_scheme
    \<Rightarrow> ('fs, 'fil, 'z) vm_state_scheme option" where
  "ram_memset a c n s = do { (_, r) \<leftarrow> memset a c n (ram s); Some (s\<lparr>ram := r\<rparr>) }"

fun find_min_vaddr :: "u64 \<Rightarrow> nat list \<Rightarrow> ('fs, 'fil, 'z) vm_state_scheme \<Rightarrow> u64 \<Rightarrow> u64" where
  "find_min_vaddr ph [] s min_vaddr = min_vaddr"
| "find_min_vaddr ph (i # is) s min_vaddr =
     find_min_vaddr ph is s
       (if loadable (phdr_at ph i s) \<and> p_vaddr (phdr_at ph i s) < min_vaddr then p_vaddr (phdr_at ph i s) else min_vaddr)"

definition load_supervisor_segment :: "('fs, 'fil) fatfs \<Rightarrow> nat \<Rightarrow> u64 \<Rightarrow> nat \<Rightarrow> u64 \<Rightarrow> u64
    \<Rightarrow> ('fs, 'fil, 'z) vm_state_scheme \<Rightarrow> ('fs, 'fil, 'z) vm_state_scheme option" where
  "load_supervisor_segment F f ph i vaddr prepad s =
     (if \<not> valid_user_range (current s) (vaddr - prepad) (vaddr + p_memsz (phdr_at ph i s)) then None
      else do {
        (ret, s) \<leftarrow> file_pread F f vaddr (p_filesz (phdr_at ph i s)) (p_offset (phdr_at ph i s)) s;
        if ret <s p_filesz (phdr_at ph i s) then None
        else do {
          s \<leftarrow> ram_memset (vaddr - prepad) 0 prepad s;
          ram_memset (vaddr + p_filesz (phdr_at ph i s)) 0 (p_memsz (phdr_at ph i s) - p_filesz (phdr_at ph i s)) s } })"

definition load_user_segment :: "('fs, 'fil) fatfs \<Rightarrow> nat \<Rightarrow> u64 \<Rightarrow> nat \<Rightarrow> u32 \<Rightarrow> u64 \<Rightarrow> u64
    \<Rightarrow> ('fs, 'fil, 'z) vm_state_scheme \<Rightarrow> ('fs, 'fil, 'z) vm_state_scheme option" where
  "load_user_segment F f ph i flags vaddr prepad s = do {
     let flags2 = flags OR (if prepad \<noteq> 0 then MAP_POPULATE else 0);
     (a, s) \<leftarrow> do_mmap_nolock F (vaddr - prepad) (p_filesz (phdr_at ph i s) + prepad) (- 1) flags2 (Some f)
                (p_offset (phdr_at ph i s) - prepad) s;
     if a \<noteq> vaddr - prepad then None
     else do {
       s \<leftarrow> ram_memset (vaddr - prepad) 0 prepad s;
       let mapped = ROUNDUP (p_filesz (phdr_at ph i s) + prepad) RISCV_PGSIZE - prepad;
       if mapped < p_memsz (phdr_at ph i s) then do {
         (a, s) \<leftarrow> do_mmap_nolock F (vaddr + mapped) (p_memsz (phdr_at ph i s) - mapped) (- 1) (flags OR MAP_ANONYMOUS) None 0 s;
         if a \<noteq> vaddr + mapped then None else Some s }
       else Some s } }"

text \<open>The loop over the segments runs downwards; \<open>Suc i\<close> handles number \<open>i\<close>.\<close>

fun load_segments :: "('fs, 'fil) fatfs \<Rightarrow> nat \<Rightarrow> u64 \<Rightarrow> nat \<Rightarrow> u32 \<Rightarrow> u64 \<Rightarrow> u64
    \<Rightarrow> ('fs, 'fil, 'z) vm_state_scheme \<Rightarrow> (u64 \<times> ('fs, 'fil, 'z) vm_state_scheme) option" where
  "load_segments F f ph 0 flags bia max_vaddr s = Some (max_vaddr, s)"
| "load_segments F f ph (Suc i) flags bia max_vaddr s =
     (if loadable (phdr_at ph i s) then do {
        let prepad = p_vaddr (phdr_at ph i s) mod RISCV_PGSIZE;
        let vaddr = p_vaddr (phdr_at ph i s) + bia;
        let max_vaddr = (if max_vaddr < vaddr + p_memsz (phdr_at ph i s) then vaddr + p_memsz (phdr_at ph i s) else max_vaddr);
        s \<leftarrow> (if is_supervisor (current s) then load_supervisor_segment F f ph i vaddr prepad s
             else load_user_segment F f ph i flags vaddr prepad s);
        load_segments F f ph i flags bia max_vaddr s }
      else load_segments F f ph i flags bia max_vaddr s)"

text \<open>What the headers say of the program, lines 38 to 59; \<open>info\<close> is \<open>current\<close>, as in the only call.\<close>

definition read_program_info :: "u64 \<Rightarrow> ('fs, 'fil, 'z) vm_state_scheme \<Rightarrow> u64 \<times> ('fs, 'fil, 'z) vm_state_scheme" where
  "read_program_info eh64 s =
     (let eh = rd_ehdr (ram s) eh64;
          c = (current s)\<lparr>phnum := ucast (e_phnum eh), phent := ucast PHDR_SIZE,
                is_supervisor := drop_bit 63 (e_entry eh) \<noteq> 0\<rparr>;
          c = (if is_supervisor c then c\<lparr>first_free_paddr := ROUNDUP (first_free_paddr c) SUPERPAGE_SIZE\<rparr> else c);
          min_vaddr = find_min_vaddr (phdr c) [0..<unat (e_phnum eh)] s (- 1);
          min_vaddr = ROUNDDOWN min_vaddr (if is_supervisor c then SUPERPAGE_SIZE else RISCV_PGSIZE);
          bia = (if is_supervisor c \<or> e_type eh = ET_DYN then first_free_paddr c - min_vaddr else 0);
          c = c\<lparr>entry := e_entry eh\<rparr>;
          (c, min_vaddr) = (if \<not> is_supervisor c then (c\<lparr>entry := entry c + bia\<rparr>, min_vaddr + bia) else (c, min_vaddr))
      in (min_vaddr, s\<lparr>current := c\<lparr>bias := bia\<rparr>\<rparr>))"

text \<open>Opening the file and reading its header and program headers, lines 15 to 37.\<close>

definition load_headers :: "('fs, 'fil) fatfs \<Rightarrow> string \<Rightarrow> u64 \<Rightarrow> ('fs, 'fil, 'z) vm_state_scheme
    \<Rightarrow> (nat \<times> ('fs, 'fil, 'z) vm_state_scheme) option" where
  "load_headers F fn eh64 s = do {
     (f, s) \<leftarrow> file_open F fn O_RDONLY s;
     f \<leftarrow> f;
     (ehdr_size, s) \<leftarrow> file_pread F f eh64 EHDR_SIZE 0 s;
     let eh = rd_ehdr (ram s) eh64;
     if ehdr_size <s EHDR_SIZE \<or> \<not> IS_ELF64 eh then None
     else do {
       let s = s\<lparr>current := (current s)\<lparr>elf64 := 1\<rparr>\<rparr>;
       let size_ph = ucast (e_phnum eh) * PHDR_SIZE;
       if phdr_size (current s) < size_ph then None
       else do {
         (ret, s) \<leftarrow> file_pread F f (phdr (current s)) size_ph (e_phoff eh) s;
         if ret <s size_ph then None else Some (f, s) } } }"

definition load_elf :: "('fs, 'fil) fatfs \<Rightarrow> string \<Rightarrow> u64 \<Rightarrow> ('fs, 'fil, 'z) vm_state_scheme
    \<Rightarrow> ('fs, 'fil, 'z) vm_state_scheme option" where
  "load_elf F fn eh64 s = do {
     (f, s) \<leftarrow> load_headers F fn eh64 s;
     let (min_vaddr, s) = read_program_info eh64 s;
     let flags = MAP_FIXED OR MAP_PRIVATE;
     let flags = (if is_supervisor (current s) then flags OR MAP_POPULATE else flags);
     (max_vaddr, s) \<leftarrow> load_segments F f (phdr (current s)) (unat (e_phnum (rd_ehdr (ram s) eh64))) flags (bias (current s)) 0 s;
     let s = s\<lparr>current := (current s)\<lparr>first_user_vaddr := min_vaddr,
           first_vaddr_after_user := ROUNDUP (max_vaddr - bias (current s)) RISCV_PGSIZE, brk_min := max_vaddr\<rparr>\<rparr>;
     file_decref F f s }"

section \<open>The loader of the boot program\<close>

text \<open>The library's \<open>memcpy\<close> has no meaning on blocks that overlap.\<close>

definition c_memcpy :: "u64 \<Rightarrow> u64 \<Rightarrow> u64 \<Rightarrow> mem \<Rightarrow> mem option" where
  "c_memcpy d s n m =
     (if \<forall>i \<in> set [0..<unat n]. unat n \<le> unat (s + of_nat i - d)
      then Some (mem_write m d (mem_read m s (unat n))) else None)"

definition c_memset0 :: "u64 \<Rightarrow> u64 \<Rightarrow> mem \<Rightarrow> mem" where
  "c_memset0 d n m = mem_write m d (replicate (unat n) 0)"

text \<open>One segment: the code to return with, if any, and the memory.\<close>

definition boot_load_segment :: "u64 \<Rightarrow> u64 \<Rightarrow> u32 \<Rightarrow> u64 \<Rightarrow> mem \<Rightarrow> (u32 option \<times> mem) option" where
  "boot_load_segment target_base elf elf_size a m =
     (if loadable (rd_phdr m a) then do {
        (e, m) \<leftarrow> (if p_filesz (rd_phdr m a) \<noteq> 0 then
            if ucast elf_size < p_offset (rd_phdr m a) + p_filesz (rd_phdr m a) then Some (Some 3, m)
            else do {
              m \<leftarrow> c_memcpy (target_base + p_paddr (rd_phdr m a)) (elf + p_offset (rd_phdr m a)) (p_filesz (rd_phdr m a)) m;
              Some (None, m) }
          else Some (None, m));
        if e \<noteq> None then Some (e, m)
        else if p_filesz (rd_phdr m a) < p_memsz (rd_phdr m a) then
          Some (None, c_memset0 (target_base + p_paddr (rd_phdr m a) + p_filesz (rd_phdr m a))
            (p_memsz (rd_phdr m a) - p_filesz (rd_phdr m a)) m)
        else Some (None, m) }
      else Some (None, m))"

lemma unat_phnum: "unat (ucast n :: u32) = unat n" "unat (ucast n :: u64) = unat n" for n :: u16
  using unat_bound [of n] by (simp_all only: unsigned_ucast_eq) (simp_all add: take_bit_nat_eq_self)

function boot_load_loop :: "u64 \<Rightarrow> u64 \<Rightarrow> u32 \<Rightarrow> u64 \<Rightarrow> u32 \<Rightarrow> mem \<Rightarrow> (u32 \<times> mem) option" where
  "boot_load_loop target_base elf elf_size ph i m =
     (if i < ucast (e_phnum (rd_ehdr m elf)) then
        case boot_load_segment target_base elf elf_size (ph + PHDR_SIZE * ucast i) m of
          None \<Rightarrow> None
        | Some (Some e, m) \<Rightarrow> Some (e, m)
        | Some (None, m) \<Rightarrow> boot_load_loop target_base elf elf_size ph (i + 1) m
      else Some (0, m))"
  by pat_completeness auto
termination
proof (relation "measure (\<lambda>(_, _, _, _, i, _). 2 ^ 16 - unat i)")
  fix i :: u32 and elf :: u64 and m :: mem
  assume "i < ucast (e_phnum (rd_ehdr m elf))"
  then have "unat i < unat (e_phnum (rd_ehdr m elf))" by (simp only: word_less_nat_alt unat_phnum)
  then have "unat i < 2 ^ 16" using unat_bound [of "e_phnum (rd_ehdr m elf)"] by simp
  moreover from this have "unat (i + 1) = unat i + 1" by (simp add: unat_word_ariths)
  ultimately show "((a, b, c, d, i + 1, n), (a', b', c', d', i, n')) \<in> measure (\<lambda>(_, _, _, _, i, _). 2 ^ 16 - unat i)" for a b c d n a' b' c' d' n'
    by simp
qed simp

declare boot_load_loop.simps [simp del]

definition boot_load_elf :: "u64 \<Rightarrow> u64 \<Rightarrow> u32 \<Rightarrow> mem \<Rightarrow> (u32 \<times> mem) option" where
  "boot_load_elf target_base elf elf_size m =
     (if ucast elf_size \<le> EHDR_SIZE then Some (1, m)
      else let eh = rd_ehdr m elf
      in if \<not> IS_ELF64 eh then Some (2, m)
         else let ph = elf + e_phoff eh
         in if ucast elf_size < e_phoff eh + ucast (e_phnum eh) * PHDR_SIZE then Some (3, m)
            else boot_load_loop target_base elf elf_size ph 0 m)"

end
