(* ===== verification/Elf_Props.thy ===== *)
theory Elf_Props
  imports Elf Vm_Region
begin

text \<open>
  The properties of the two loaders.  The image loader is described as placing its segments one after the
  other; of the supervisor's loader the theory shows which memory it can change, step by step along the
  calls it makes.
\<close>

section \<open>The image\<close>

definition same_image :: "u64 \<Rightarrow> nat \<Rightarrow> mem \<Rightarrow> mem \<Rightarrow> bool" where
  "same_image elf n m m' \<longleftrightarrow> (\<forall>k<n. m' (elf + of_nat k) = m (elf + of_nat k))"

lemma same_image_refl [simp]: "same_image elf n m m"
  by (simp add: same_image_def)

lemma same_image_write:
  "same_image elf n m m' \<Longrightarrow> disjoint_ranges elf n t (length bs) \<Longrightarrow> same_image elf n m (mem_write m' t bs)"
  by (auto simp: same_image_def disjoint_ranges_def mem_write_def)

lemma same_image_read:
  assumes "same_image elf n m m'" "off + k \<le> n"
  shows "mem_read m' (elf + of_nat off) k = mem_read m (elf + of_nat off) k"
proof (rule nth_equalityI)
  fix i assume "i < length (mem_read m' (elf + of_nat off) k)"
  then have "i < k" by simp
  with assms have "m' (elf + of_nat (off + i)) = m (elf + of_nat (off + i))"
    unfolding same_image_def by (auto simp del: of_nat_add)
  then show "mem_read m' (elf + of_nat off) k ! i = mem_read m (elf + of_nat off) k ! i"
    using \<open>i < k\<close> by (simp add: add.assoc)
qed simp

lemma same_image_ehdr:
  assumes "same_image elf n m m'" "64 \<le> n"
  shows "rd_ehdr m' elf = rd_ehdr m elf"
  using same_image_read [OF assms(1), of 0 16] same_image_read [OF assms(1), of 16 2] same_image_read [OF assms(1), of 24 8]
    same_image_read [OF assms(1), of 32 8] same_image_read [OF assms(1), of 56 2] assms(2)
  by (simp add: rd_ehdr_def rd64_def)

lemma same_image_phdr:
  assumes "same_image elf n m m'" "off + 56 \<le> n"
  shows "rd_phdr m' (elf + of_nat off) = rd_phdr m (elf + of_nat off)"
  using same_image_read [OF assms(1), of off 4] same_image_read [OF assms(1), of "off + 8" 8] same_image_read [OF assms(1), of "off + 16" 8]
    same_image_read [OF assms(1), of "off + 24" 8] same_image_read [OF assms(1), of "off + 32" 8] same_image_read [OF assms(1), of "off + 40" 8] assms(2)
  by (simp add: rd_phdr_def rd64_def add.assoc)

section \<open>Placing segments\<close>

text \<open>The bytes a segment asks for: those of the image, and zeros up to its sz in memory.\<close>

definition segment_bytes :: "u64 \<Rightarrow> mem \<Rightarrow> Elf64_Phdr \<Rightarrow> u8 list" where
  "segment_bytes elf m p =
     mem_read m (elf + p_offset p) (unat (p_filesz p)) @ replicate (unat (p_memsz p) - unat (p_filesz p)) 0"

definition place :: "u64 \<Rightarrow> u64 \<Rightarrow> mem \<Rightarrow> Elf64_Phdr \<Rightarrow> mem \<Rightarrow> mem" where
  "place base elf m p m' = mem_write m' (base + p_paddr p) (segment_bytes elf m p)"

definition segment_ok :: "u64 \<Rightarrow> u64 \<Rightarrow> nat \<Rightarrow> Elf64_Phdr \<Rightarrow> bool" where
  "segment_ok base elf n p \<longleftrightarrow> unat (p_offset p) + unat (p_filesz p) \<le> n
     \<and> disjoint_ranges elf n (base + p_paddr p) (max (unat (p_filesz p)) (unat (p_memsz p)))"

lemma length_segment_bytes: "length (segment_bytes elf m p) = max (unat (p_filesz p)) (unat (p_memsz p))"
  by (simp add: segment_bytes_def)

lemma disjoint_ranges_less: "disjoint_ranges a n b k \<Longrightarrow> j \<le> k \<Longrightarrow> disjoint_ranges a n b j"
  by (auto simp: disjoint_ranges_def)

lemma c_memcpy_image:
  assumes "disjoint_ranges elf n d (unat len)" "off + unat len \<le> n"
  shows "c_memcpy d (elf + of_nat off) len m = Some (mem_write m d (mem_read m (elf + of_nat off) (unat len)))"
proof -
  have "unat len \<le> unat (elf + of_nat off + of_nat i - d)" if "i < unat len" for i
  proof -
    have "off + i < n" using assms(2) that by simp
    then have "unat len \<le> unat (elf + of_nat (off + i) - d)" using assms(1) unfolding disjoint_ranges_def by blast
    then show ?thesis by (simp add: add.assoc)
  qed
  then show ?thesis by (simp add: c_memcpy_def)
qed

lemma unat_ucast32: "unat (ucast x :: u64) = unat x" for x :: u32
  using unat_bound [of x] by (simp only: unsigned_ucast_eq) (simp add: take_bit_nat_eq_self)

lemma boot_load_segment_ok:
  assumes same: "same_image elf (unat sz) m m'" and off: "off + 56 \<le> unat sz"
    and ok: "loadable (rd_phdr m (elf + of_nat off)) \<Longrightarrow> segment_ok base elf (unat sz) (rd_phdr m (elf + of_nat off))"
  shows "boot_load_segment base elf sz (elf + of_nat off) m'
    = Some (None, if loadable (rd_phdr m (elf + of_nat off)) then place base elf m (rd_phdr m (elf + of_nat off)) m' else m')"
proof (cases "loadable (rd_phdr m (elf + of_nat off))")
  case False
  then show ?thesis using same_image_phdr [OF same off] by (simp add: boot_load_segment_def)
next
  case True
  define p where "p = rd_phdr m (elf + of_nat off)"
  define t where "t = base + p_paddr p"
  have l: "loadable p" and fit: "unat (p_offset p) + unat (p_filesz p) \<le> unat sz"
    and dis: "disjoint_ranges elf (unat sz) t (max (unat (p_filesz p)) (unat (p_memsz p)))"
    using ok [OF True] True unfolding p_def t_def segment_ok_def by auto
  have rd: "rd_phdr x (elf + of_nat off) = p" if "same_image elf (unat sz) m x" for x
    using same_image_phdr [OF that off] by (simp add: p_def)
  have small: "\<not> ucast sz < p_offset p + p_filesz p"
  proof -
    have "unat (p_offset p + p_filesz p) \<le> unat sz"
      using fit by (metis le_trans mod_le_divisor mod_less_eq_dividend unat_word_ariths(1))
    then show ?thesis by (simp only: word_less_nat_alt unat_ucast32 not_less)
  qed
  let ?bs = "mem_read m (elf + p_offset p) (unat (p_filesz p))"
  define m1 where "m1 = mem_write m' t ?bs"
  have s1: "same_image elf (unat sz) m m1" unfolding m1_def
    by (rule same_image_write [OF same disjoint_ranges_less [OF dis]]) simp
  have bs: "mem_read m' (elf + p_offset p) (unat (p_filesz p)) = ?bs"
    using same_image_read [OF same fit] by simp
  have cp: "c_memcpy t (elf + p_offset p) (p_filesz p) m' = Some m1"
    using c_memcpy_image [OF disjoint_ranges_less [OF dis] fit, of m'] bs unfolding m1_def by simp
  have skip: "p_filesz p = 0 \<Longrightarrow> m1 = m'" by (simp add: m1_def mem_write_def mem_read_def)
  have pad: "place base elf m p m' = (if p_filesz p < p_memsz p then c_memset0 (t + p_filesz p) (p_memsz p - p_filesz p) m1 else m1)"
  proof (cases "p_filesz p < p_memsz p")
    case True
    then have "unat (p_memsz p - p_filesz p) = unat (p_memsz p) - unat (p_filesz p)" by (simp add: unat_sub_if' word_less_nat_alt)
    moreover have "mem_write m1 (t + p_filesz p) (replicate (unat (p_memsz p) - unat (p_filesz p)) 0)
        = mem_write m' t (?bs @ replicate (unat (p_memsz p) - unat (p_filesz p)) 0)"
      using mem_write_append [of ?bs "replicate (unat (p_memsz p) - unat (p_filesz p)) 0" m' t]
        unat_bound [of "p_filesz p"] unat_bound [of "p_memsz p"] by (simp add: m1_def)
    ultimately show ?thesis using True by (simp add: place_def segment_bytes_def c_memset0_def t_def)
  next
    case False
    then show ?thesis by (simp add: place_def segment_bytes_def m1_def t_def word_less_nat_alt)
  qed
  have "boot_load_segment base elf sz (elf + of_nat off) m'
      = Some (None, if p_filesz p < p_memsz p then c_memset0 (t + p_filesz p) (p_memsz p - p_filesz p) m1 else m1)"
    using l small cp skip by (simp add: boot_load_segment_def rd [OF same] rd [OF s1] t_def [symmetric])
  then show ?thesis using l pad by (simp add: p_def [symmetric])
qed


section \<open>The whole image\<close>

definition image_segment :: "u64 \<Rightarrow> mem \<Rightarrow> nat \<Rightarrow> Elf64_Phdr" where
  "image_segment elf m i = rd_phdr m (elf + e_phoff (rd_ehdr m elf) + PHDR_SIZE * of_nat i)"

definition image_ok :: "u64 \<Rightarrow> u64 \<Rightarrow> u32 \<Rightarrow> mem \<Rightarrow> bool" where
  "image_ok base elf sz m \<longleftrightarrow>
     64 < unat sz \<and> IS_ELF64 (rd_ehdr m elf)
     \<and> unat (e_phoff (rd_ehdr m elf)) + 56 * unat (e_phnum (rd_ehdr m elf)) \<le> unat sz
     \<and> (\<forall>i \<in> set [0..<unat (e_phnum (rd_ehdr m elf))].
          loadable (image_segment elf m i) \<longrightarrow> segment_ok base elf (unat sz) (image_segment elf m i))"

lemma boot_load_loop_ok:
  assumes "image_ok base elf sz m" "same_image elf (unat sz) m m'"
    and "k + i = unat (e_phnum (rd_ehdr m elf))"
  shows "boot_load_loop base elf sz (elf + e_phoff (rd_ehdr m elf)) (of_nat i) m'
    = Some (0, fold (place base elf m) (filter loadable (map (image_segment elf m) [i..<i + k])) m')"
  using assms(2,3)
proof (induction k arbitrary: i m')
  case 0
  then show ?case
    using same_image_ehdr [OF 0(1)] assms(1) by (subst boot_load_loop.simps) (simp add: image_ok_def)
next
  case (Suc k)
  let ?eh = "rd_ehdr m elf" and ?p = "image_segment elf m i"
  have i: "i < unat (e_phnum ?eh)" "i < 2 ^ 16" using Suc.prems unat_bound [of "e_phnum ?eh"] by simp_all
  then have lt: "(of_nat i :: u32) < ucast (e_phnum ?eh)"
    by (simp add: word_less_nat_alt unat_phnum unat_of_nat take_bit_nat_eq_self)
  have off: "unat (e_phoff ?eh) + 56 * i + 56 \<le> unat sz" using assms(1) i by (simp add: image_ok_def)
  have a: "elf + e_phoff ?eh + PHDR_SIZE * ucast (of_nat i :: u32) = elf + of_nat (unat (e_phoff ?eh) + 56 * i)"
    using i by (simp add: unsigned_of_nat take_bit_nat_eq_self)
  have p: "rd_phdr m (elf + of_nat (unat (e_phoff ?eh) + 56 * i)) = ?p" by (simp add: image_segment_def add.assoc)
  have ok: "loadable ?p \<Longrightarrow> segment_ok base elf (unat sz) ?p" using assms(1) i by (simp add: image_ok_def)
  define m1 where "m1 = (if loadable ?p then place base elf m ?p m' else m')"
  have seg: "boot_load_segment base elf sz (elf + e_phoff ?eh + PHDR_SIZE * ucast (of_nat i :: u32)) m' = Some (None, m1)"
    using boot_load_segment_ok [OF Suc.prems(1) off, of base] ok unfolding a p m1_def by simp
  have "same_image elf (unat sz) m m1"
    using same_image_write [OF Suc.prems(1)] Suc.prems(1) ok by (auto simp: m1_def place_def segment_ok_def length_segment_bytes)
  from Suc.IH [OF this, of "Suc i"] Suc.prems(2)
  have "boot_load_loop base elf sz (elf + e_phoff ?eh) (of_nat (Suc i)) m1
      = Some (0, fold (place base elf m) (filter loadable (map (image_segment elf m) [Suc i..<Suc i + k])) m1)"
    by (simp only: add_Suc_right add_Suc)
  moreover have "rd_ehdr m' elf = ?eh" using same_image_ehdr [OF Suc.prems(1)] assms(1) by (simp add: image_ok_def)
  moreover have "[i..<i + Suc k] = i # [Suc i..<Suc i + k]" by (simp add: upt_conv_Cons del: upt_Suc)
  ultimately show ?case using seg lt by (subst boot_load_loop.simps) (simp add: m1_def add.commute del: upt_Suc)
qed

lemma boot_load_elf_places:
  assumes "image_ok base elf sz m"
  shows "boot_load_elf base elf sz m
    = Some (0, fold (place base elf m) (filter loadable (map (image_segment elf m) [0..<unat (e_phnum (rd_ehdr m elf))])) m)"
proof -
  let ?eh = "rd_ehdr m elf"
  have ok: "64 < unat sz" "IS_ELF64 ?eh" "unat (e_phoff ?eh) + 56 * unat (e_phnum ?eh) \<le> unat sz"
    using assms by (auto simp: image_ok_def)
  have "e_phoff ?eh + ucast (e_phnum ?eh) * PHDR_SIZE = of_nat (unat (e_phoff ?eh) + 56 * unat (e_phnum ?eh))"
    by (simp add: mult.commute)
  then have "unat (e_phoff ?eh + ucast (e_phnum ?eh) * PHDR_SIZE) \<le> unat (e_phoff ?eh) + 56 * unat (e_phnum ?eh)"
    by (simp only: unat_of_nat mod_less_eq_dividend)
  with ok(3) have "unat (e_phoff ?eh + ucast (e_phnum ?eh) * PHDR_SIZE) \<le> unat sz" by (rule order_trans [rotated])
  then have "\<not> ucast sz < e_phoff ?eh + ucast (e_phnum ?eh) * PHDR_SIZE" "\<not> ucast sz \<le> EHDR_SIZE"
    using ok(1) by (simp_all only: word_less_nat_alt word_le_nat_alt unat_ucast32 not_less) simp
  then show ?thesis
    using boot_load_loop_ok [OF assms same_image_refl, of "unat (e_phnum ?eh)" 0] ok(2) by (simp add: boot_load_elf_def Let_def)
qed


section \<open>An image\<close>

definition example_ehdr :: "u64 \<Rightarrow> u8 list" where
  "example_ehdr start = [0x7F, 0x45, 0x4C, 0x46, 2] @ replicate 11 0 @ le_bytes 2 (2 :: u16) @ replicate 6 0 @ le_bytes 8 start
     @ le_bytes 8 (64 :: u64) @ replicate 16 0 @ le_bytes 2 (1 :: u16) @ replicate 6 0"

definition example_phdr :: "u64 \<Rightarrow> u64 \<Rightarrow> u8 list" where
  "example_phdr va pa = le_bytes 4 (1 :: u32) @ replicate 4 0 @ le_bytes 8 (120 :: u64) @ le_bytes 8 va @ le_bytes 8 pa
     @ le_bytes 8 (4 :: u64) @ le_bytes 8 (8 :: u64) @ replicate 8 0"

definition example_image :: mem where
  "example_image = mem_write (\<lambda>_. 7) 0x1000 (example_ehdr 0x200 @ example_phdr 0x200 0x200 @ [1, 2, 3, 4])"

lemma example_ehdr_read:
  "rd_ehdr example_image 0x1000 = \<lparr>e_ident = [0x7F, 0x45, 0x4C, 0x46, 2, 0, 0, 0, 0, 0, 0, 0, 0, 0, 0, 0], e_type = 2,
     e_entry = 0x200, e_phoff = 64, e_phnum = 1\<rparr>"
  by code_simp

lemma example_phdr_read:
  "rd_phdr example_image 0x1040 = \<lparr>p_type = 1, p_offset = 120, p_vaddr = 0x200, p_paddr = 0x200, p_filesz = 4, p_memsz = 8\<rparr>"
  by code_simp

lemma example_image_ok: "image_ok 0x100000 0x1000 124 example_image"
proof -
  have "disjoint_ranges 0x1000 124 0x100200 8" by (rule disjoint_rangesI) simp_all
  then show ?thesis
    by (simp add: image_ok_def image_segment_def example_ehdr_read example_phdr_read IS_ELF64_def IS_ELF_def segment_ok_def)
qed

section \<open>Bounds of the supervisor's loader\<close>

text \<open>What FatFs promises of a read: it gives at most the bytes asked for.\<close>

definition reads_bounded :: "('fs, 'fil) fatfs \<Rightarrow> bool" where
  "reads_bounded F \<longleftrightarrow> (\<forall>fil n fs. length (fst (snd (f_read F fil n fs))) \<le> unat n)"

definition in_block :: "u64 \<Rightarrow> nat \<Rightarrow> u64 \<Rightarrow> bool" where
  "in_block a n x \<longleftrightarrow> unat (x - a) < n"

definition in_area :: "elf_info \<Rightarrow> u64 \<Rightarrow> bool" where
  "in_area c x \<longleftrightarrow> first_free_paddr c \<le> x \<and> x < mmap_max c"

definition phdr_ok :: "u64 \<Rightarrow> Elf64_Phdr \<Rightarrow> bool" where
  "phdr_ok bia p \<longleftrightarrow> (loadable p \<longrightarrow> p_filesz p \<le> p_memsz p \<and> unat (p_vaddr p + bia) + unat (p_memsz p) < 2 ^ 64)"

lemma mem_write_outside: "\<not> in_block a (length bs) x \<Longrightarrow> mem_write m a bs x = m x"
  by (simp add: mem_write_def in_block_def)

lemma in_block_mono: "in_block a n x \<Longrightarrow> n \<le> k \<Longrightarrow> in_block a k x"
  by (simp add: in_block_def)

lemma in_block_range:
  assumes "in_block a n x" "unat a + n \<le> 2 ^ 64"
  shows "unat a \<le> unat x \<and> unat x < unat a + n"
proof -
  have "unat (x - a) + unat a = unat x + 2 ^ 64 * of_bool (x < a)" using sub_borrow [of x a] by simp
  then show ?thesis using assms unat_bound [of x] by (cases "x < a") (auto simp: in_block_def)
qed

lemma file_pread_ram:
  assumes "reads_bounded F" "file_pread F i buf sz off s = Some (r, s')"
  shows "\<exists>bs. ram s' = mem_write (ram s) buf bs \<and> length bs \<le> unat sz"
proof -
  have "unat (ucast sz :: u32) \<le> unat sz" by (simp add: unsigned_ucast_eq take_bit_nat_less_eq_self)
  moreover have "length bs \<le> unat (ucast sz :: u32)" if "f_read F fil (ucast sz) d = (rt, bs, q)" for fil d rt bs q
    using assms(1) that unfolding reads_bounded_def by (metis fst_conv snd_conv)
  ultimately show ?thesis using assms(2)
    by (auto simp: file_pread_def fil_lseek_def fil_read_def lock_simps Let_def split: bind_splits prod.splits if_splits)
      (blast intro: le_trans)
qed

lemma file_open_frame:
  assumes "file_open F fn flags s = Some (r, s')"
  shows "file_state.more s' = file_state.more s" "ram s' = ram s"
  using assms by (auto simp: file_open_def file_openat_def file_get_free_def Let_def split: bind_splits prod.splits if_splits)

lemma in_block_area:
  assumes "in_block a n x" "first_free_paddr c \<le> a" "unat a + n \<le> unat (mmap_max c)"
  shows "in_area c x"
proof -
  have "unat a \<le> unat x \<and> unat x < unat a + n"
    by (rule in_block_range [OF assms(1)]) (use assms(3) unat_bound [of "mmap_max c"] in simp)
  then show ?thesis using assms(2,3) by (simp add: in_area_def word_le_nat_alt word_less_nat_alt)
qed

lemma phdr_at_cong:
  assumes "\<forall>x. in_block (ph + 56 * of_nat i) 56 x \<longrightarrow> ram s' x = ram s x"
  shows "phdr_at ph i s' = phdr_at ph i s"
proof -
  have "in_block a 56 (a + of_nat k)" if "k < 56" for a k using that by (simp add: in_block_def unat_of_nat take_bit_nat_eq_self)
  then have "same_image (ph + 56 * of_nat i) 56 (ram s) (ram s')" using assms unfolding same_image_def by blast
  from same_image_phdr [OF this, of 0] show ?thesis by (simp add: phdr_at_def)
qed

lemma ram_memset_frame:
  assumes "ram_memset a b n s = Some s'" "first_free_paddr c \<le> a" "unat a + unat n \<le> unat (mmap_max c)"
  shows "file_state.more s' = file_state.more s \<and> (\<forall>x. \<not> in_area c x \<longrightarrow> ram s' x = ram s x)"
proof -
  have "unat a + unat n < 2 ^ 64" using assms(3) unat_bound [of "mmap_max c"] by simp
  from memset_write [OF this, of b "ram s"] assms(1)
  have s': "s' = s\<lparr>ram := mem_write (ram s) a (replicate (unat n) (ucast b))\<rparr>" by (simp add: ram_memset_def)
  have "ram s' x = ram s x" if "\<not> in_area c x" for x
  proof -
    have "\<not> in_block a (unat n) x" using in_block_area [OF _ assms(2,3)] that by blast
    then show ?thesis by (simp add: s' mem_write_outside)
  qed
  then show ?thesis by (simp add: s')
qed

lemma file_pread_area:
  assumes "reads_bounded F" "file_pread F f a n off s = Some (r, s')" "first_free_paddr c \<le> a" "unat a + unat n \<le> unat (mmap_max c)"
  shows "file_state.more s' = file_state.more s \<and> (\<forall>x. \<not> in_area c x \<longrightarrow> ram s' x = ram s x)"
proof -
  obtain bs where bs: "ram s' = mem_write (ram s) a bs" "length bs \<le> unat n" using file_pread_ram [OF assms(1,2)] by blast
  have "ram s' x = ram s x" if "\<not> in_area c x" for x
  proof -
    have "\<not> in_block a (length bs) x" using in_block_area [OF _ assms(3,4)] in_block_mono [OF _ bs(2)] that by blast
    then show ?thesis by (simp add: bs mem_write_outside)
  qed
  then show ?thesis using file_pread_frame(1) [OF assms(2)] by blast
qed

text \<open>The bounds a segment that passes the range check has, when its size does not wrap around.\<close>

lemma valid_segment_bounds:
  assumes v: "valid_user_range c (vaddr - prepad) (vaddr + memsz)" and "unat vaddr + unat memsz < 2 ^ 64"
    and "prepad < 4096" "mmap_max c < 2 ^ 63"
  shows "first_free_paddr c \<le> vaddr - prepad" "unat (vaddr - prepad) + unat prepad = unat vaddr"
    "unat vaddr + unat memsz \<le> unat (mmap_max c)"
proof -
  let ?a = "vaddr - prepad" and ?e = "vaddr + memsz"
  have r: "\<not> ?a + ?e < ?a" "first_free_paddr c \<le> ?a" "?a + ?e \<le> mmap_max c"
    using v by (auto simp: valid_user_range_def split: if_splits)
  have e: "unat ?e = unat vaddr + unat memsz" using assms(2) by (simp add: unat_word_ariths)
  have "unat ?a + unat ?e = unat (?a + ?e)" using add_carry64 [of ?a ?e] r(1) by simp
  then have sum: "unat ?a + unat ?e \<le> unat (mmap_max c)" using r(3) by (simp add: word_le_nat_alt)
  have top: "unat (mmap_max c) < 2 ^ 63" using assms(4) by (simp add: word_less_nat_alt)
  have pre: "unat prepad < 4096" using assms(3) by (simp add: word_less_nat_alt)
  have "unat ?a + unat prepad = unat vaddr + 2 ^ 64 * of_bool (vaddr < prepad)" using sub_borrow [of vaddr prepad] by simp
  then show "unat ?a + unat prepad = unat vaddr" using sum top pre by (cases "vaddr < prepad") simp_all
  show "first_free_paddr c \<le> ?a" by (fact r(2))
  show "unat vaddr + unat memsz \<le> unat (mmap_max c)" using sum e by simp
qed

lemma supervisor_segment_frame:
  fixes s :: "('fs, 'fil, 'z) vm_state_scheme"
  assumes F: "reads_bounded F" and run: "load_supervisor_segment F f ph i (p_vaddr p + bia) (p_vaddr p mod 4096) s = Some s'"
    and p: "p = phdr_at ph i s" "loadable p" "phdr_ok bia p"
    and top: "mmap_max (current s) < 2 ^ 63"
    and tab: "\<forall>x. in_block (ph + 56 * of_nat i) 56 x \<longrightarrow> \<not> in_area (current s) x"
  shows "file_state.more s' = file_state.more s \<and> (\<forall>x. \<not> in_area (current s) x \<longrightarrow> ram s' x = ram s x)"
proof -
  let ?c = "current s" and ?v = "p_vaddr p + bia" and ?q = "p_vaddr p mod 4096"
  have ok: "p_filesz p \<le> p_memsz p" "unat ?v + unat (p_memsz p) < 2 ^ 64" using p by (auto simp: phdr_ok_def)
  have valid: "valid_user_range ?c (?v - ?q) (?v + p_memsz p)"
    using run p(1) by (simp add: load_supervisor_segment_def split: if_splits)
  have "?q < 4096" by (simp add: word_mod_less_divisor)
  note b = valid_segment_bounds [OF valid ok(2) this top]
  have fm: "unat (p_filesz p) \<le> unat (p_memsz p)" using ok(1) by (simp add: word_le_nat_alt)
  have vf: "unat (?v + p_filesz p) = unat ?v + unat (p_filesz p)" "unat (p_memsz p - p_filesz p) = unat (p_memsz p) - unat (p_filesz p)"
    using ok fm by (simp_all add: unat_word_ariths unat_sub_if')
  have ge: "first_free_paddr ?c \<le> ?v" "first_free_paddr ?c \<le> ?v + p_filesz p"
    using b(1,2) vf(1) by (simp_all add: word_le_nat_alt)
  obtain r s1 where s1: "file_pread F f ?v (p_filesz p) (p_offset p) s = Some (r, s1)"
    using run valid p(1) by (auto simp: load_supervisor_segment_def split: bind_splits)
  have f1: "file_state.more s1 = file_state.more s" "\<forall>x. \<not> in_area ?c x \<longrightarrow> ram s1 x = ram s x"
    using file_pread_area [OF F s1 ge(1)] b(3) fm by auto
  have p1: "phdr_at ph i s1 = p" using phdr_at_cong [of ph i s1 s] tab f1(2) p(1) by blast
  obtain s2 where s2: "ram_memset (?v - ?q) 0 ?q s1 = Some s2"
    and s3: "ram_memset (?v + p_filesz (phdr_at ph i s2)) 0 (p_memsz (phdr_at ph i s2) - p_filesz (phdr_at ph i s2)) s2 = Some s'"
    using run valid s1 p(1) by (auto simp: load_supervisor_segment_def split: bind_splits if_splits)
  have f2: "file_state.more s2 = file_state.more s" "\<forall>x. \<not> in_area ?c x \<longrightarrow> ram s2 x = ram s x"
    using ram_memset_frame [OF s2 b(1)] b(2,3) f1 by auto
  have "phdr_at ph i s2 = p" using phdr_at_cong [of ph i s2 s] tab f2(2) p(1) by blast
  then have "file_state.more s' = file_state.more s2 \<and> (\<forall>x. \<not> in_area ?c x \<longrightarrow> ram s' x = ram s2 x)"
    using ram_memset_frame [of "?v + p_filesz p" 0 "p_memsz p - p_filesz p" s2 s' ?c] s3 ge(2) b(3) vf fm by simp
  with f2 show ?thesis by simp
qed


lemma load_segments_frame:
  fixes s :: "('fs, 'fil, 'z) vm_state_scheme"
  assumes F: "reads_bounded F" and top: "mmap_max c < 2 ^ 63" and sup: "is_supervisor c"
    and "load_segments F f ph n flags bia mx s = Some (mx', s')" "current s = c"
    and "\<forall>i<n. phdr_ok bia (phdr_at ph i s) \<and> (\<forall>x. in_block (ph + 56 * of_nat i) 56 x \<longrightarrow> \<not> in_area c x)"
  shows "current s' = c \<and> (\<forall>x. \<not> in_area c x \<longrightarrow> ram s' x = ram s x)"
  using assms(4-)
proof (induction n arbitrary: mx s)
  case (Suc i)
  show ?case
  proof (cases "loadable (phdr_at ph i s)")
    case False
    with Suc.prems(1) have "load_segments F f ph i flags bia mx s = Some (mx', s')" by simp
    then show ?thesis by (rule Suc.IH) (use Suc.prems(2,3) less_SucI in blast)+
  next
    case True
    define p where "p = phdr_at ph i s"
    obtain s1 mx1 where s1: "load_supervisor_segment F f ph i (p_vaddr p + bia) (p_vaddr p mod 4096) s = Some s1"
      and rest: "load_segments F f ph i flags bia mx1 s1 = Some (mx', s')"
      using Suc.prems True sup by (auto simp: p_def Let_def split: bind_splits)
    have fr: "file_state.more s1 = file_state.more s" "\<forall>x. \<not> in_area c x \<longrightarrow> ram s1 x = ram s x"
      using supervisor_segment_frame [OF F s1 p_def] True Suc.prems(2,3) top by (auto simp: p_def)
    have "phdr_at ph k s1 = phdr_at ph k s" if "k < Suc i" for k
      using phdr_at_cong [of ph k s1 s] fr(2) Suc.prems(3) that by blast
    then have "\<forall>k<i. phdr_ok bia (phdr_at ph k s1) \<and> (\<forall>x. in_block (ph + 56 * of_nat k) 56 x \<longrightarrow> \<not> in_area c x)"
      using Suc.prems(3) less_SucI by metis
    moreover have "current s1 = c" using Suc.prems(2) more_fields(5) [OF fr(1)] by simp
    ultimately have "current s' = c \<and> (\<forall>x. \<not> in_area c x \<longrightarrow> ram s' x = ram s1 x)" by (intro Suc.IH [OF rest])
    with fr(2) show ?thesis by simp
  qed
qed simp

lemma load_headers_frame:
  assumes F: "reads_bounded F" and run: "load_headers F fn eh64 s = Some (f, s')"
  shows "current s' = (current s)\<lparr>elf64 := 1\<rparr> \<and>
    (\<forall>x. in_block eh64 64 x \<or> in_block (phdr (current s)) (unat (phdr_size (current s))) x \<or> ram s' x = ram s x)"
proof -
  obtain g s1 where o: "file_open F fn O_RDONLY s = Some (Some g, s1)" 
    using run by (auto simp: load_headers_def split: bind_splits)
  obtain r s2 where r: "file_pread F g eh64 64 0 s1 = Some (r, s2)"
    using run o by (auto simp: load_headers_def split: bind_splits)
  let ?s3 = "s2\<lparr>current := (current s2)\<lparr>elf64 := 1\<rparr>\<rparr>" and ?n = "ucast (e_phnum (rd_ehdr (ram s2) eh64)) * 56 :: u64"
  obtain r' where r': "file_pread F g (phdr (current ?s3)) ?n (e_phoff (rd_ehdr (ram s2) eh64)) ?s3 = Some (r', s')"
    and n: "?n \<le> phdr_size (current s2)"
    using run o r by (auto simp: load_headers_def Let_def not_less split: bind_splits if_splits)
  have c: "current s1 = current s" "current s2 = current s" "current s' = (current s)\<lparr>elf64 := 1\<rparr>"
    using more_fields(5) [OF file_open_frame(1) [OF o]] more_fields(5) [OF file_pread_frame(1) [OF r]]
      more_fields(5) [OF file_pread_frame(1) [OF r']] by simp_all
  obtain b1 where b1: "ram s2 = mem_write (ram s1) eh64 b1" "length b1 \<le> 64" using file_pread_ram [OF F r] by auto
  obtain b2 where "ram s' = mem_write (ram ?s3) (phdr (current ?s3)) b2" and n2: "length b2 \<le> unat ?n"
    using file_pread_ram [OF F r'] by (elim exE conjE) (rule that)
  then have b2: "ram s' = mem_write (ram s2) (phdr (current s)) b2" using c(2) by simp
  note b = b1 b2 n2
  have "length b2 \<le> unat (phdr_size (current s))" using b(4) n c(2) by (simp add: word_le_nat_alt)
  then have "in_block (phdr (current s)) (length b2) x \<Longrightarrow> in_block (phdr (current s)) (unat (phdr_size (current s))) x" for x
    by (rule in_block_mono [rotated])
  moreover have "in_block eh64 (length b1) x \<Longrightarrow> in_block eh64 64 x" for x using b(2) by (rule in_block_mono [rotated])
  ultimately have "in_block eh64 64 x \<or> in_block (phdr (current s)) (unat (phdr_size (current s))) x \<or> ram s' x = ram s x" for x
    using mem_write_outside [of "phdr (current s)" b2 x "ram s2"] mem_write_outside [of eh64 b1 x "ram s1"] file_open_frame(2) [OF o]
    unfolding b(1,3) by metis
  then show ?thesis using c(3) by simp
qed


lemma read_program_info_frame:
  assumes "read_program_info eh64 s = (mn, s')"
  shows "ram s' = ram s" "mmap_max (current s') = mmap_max (current s)" "phdr (current s') = phdr (current s)"
    "phdr_size (current s') = phdr_size (current s)"
  using assms by (auto simp: read_program_info_def Let_def split: if_splits)

lemma load_elf_frame:
  assumes F: "reads_bounded F" and hd: "load_headers F fn eh64 s = Some (f, s1)" and info: "read_program_info eh64 s1 = (mn, s2)"
    and run: "load_elf F fn eh64 s = Some s'" and sup: "is_supervisor (current s2)" and top: "mmap_max (current s) < 2 ^ 63"
    and ph: "\<forall>i < unat (e_phnum (rd_ehdr (ram s1) eh64)). phdr_ok (bias (current s2)) (phdr_at (phdr (current s)) i s1)
      \<and> (\<forall>x. in_block (phdr (current s) + 56 * of_nat i) 56 x \<longrightarrow> \<not> in_area (current s2) x)"
  shows "ram s' x = ram s x \<or> in_block eh64 64 x \<or> in_block (phdr (current s)) (unat (phdr_size (current s))) x \<or> in_area (current s2) x"
proof -
  have fr: "current s1 = (current s)\<lparr>elf64 := 1\<rparr>" "\<forall>x. in_block eh64 64 x \<or> in_block (phdr (current s)) (unat (phdr_size (current s))) x \<or> ram s1 x = ram s x"
    using load_headers_frame [OF F hd] by auto
  note fi = read_program_info_frame [OF info]
  obtain flags mx s3 where sg: "load_segments F f (phdr (current s2)) (unat (e_phnum (rd_ehdr (ram s2) eh64))) flags (bias (current s2)) 0 s2 = Some (mx, s3)"
    and dec: "ram s' = ram s3"
    using run hd info by (auto simp: load_elf_def Let_def split: bind_splits dest!: file_decref_frame(4))
  have "phdr_at q i s2 = phdr_at q i s1" for q i by (simp add: phdr_at_def fi(1))
  then have "\<forall>x. \<not> in_area (current s2) x \<longrightarrow> ram s3 x = ram s2 x"
    using load_segments_frame [OF F _ sup sg refl] top ph fi fr(1) by simp
  then show ?thesis using fr(2) dec fi(1) by metis
qed


section \<open>A file\<close>

text \<open>A file system with one file; an open file is its position.\<close>

definition example_file :: "u8 list" where
  "example_file = example_ehdr 0xFFFFFFFFFFA00000 @ example_phdr 0xFFFFFFFFFFA00010 0 @ [1, 2, 3, 4]"

definition example_fatfs :: "(unit, nat) fatfs" where
  "example_fatfs = \<lparr>f_open = (\<lambda>_ _ fil fs. (0, 0, fs)), f_close = (\<lambda>fil fs. (0, fil, fs)),
     f_lseek = (\<lambda>fil n fs. (0, unat n, fs)), f_read = (\<lambda>fil n fs. (0, take (unat n) (drop fil example_file), fil + unat n, fs)),
     f_write = (\<lambda>fil _ fs. (0, 0, fil, fs)), f_stat = (\<lambda>_ fs. (0, 0, fs))\<rparr>"

definition example_info :: elf_info where
  "example_info = \<lparr>elf64 = 0, phent = 0, phnum = 0, is_supervisor = False, phdr = 0x1000, phdr_size = 1024,
     first_free_paddr = 0x150000, first_user_vaddr = 0, first_vaddr_after_user = 0, bias = 0, entry = 0,
     brk_min = 0, brk = 0, brk_max = 0x7000000, mmap_max = 0x7000000, stack_bottom = 0, stack_top = 0, info_t0 = 0\<rparr>"

definition example_machine :: "(unit, nat) vm_state" where
  "example_machine = \<lparr>disk = (), files = [\<lparr>fd = 0, offset = 0, refcnt = 0\<rparr>], file_lock = 0, refcnt_lock = 0, sstatus = 1, ram = (\<lambda>_. 7),
     vm_lock = 0, vmrs = 0, vmr_tab = [], root_page_table = 0, first_free_page = 0x7000000, next_free_page = 0, free_pages = 64,
     pt = (\<lambda>_. 0), current = example_info, have_vm = True, mem_size = 0x8000000, num_harts = 1, sptbr = 0\<rparr>"

lemma example_reads: "reads_bounded example_fatfs"
  by (simp add: reads_bounded_def example_fatfs_def)

lemma mem_read_write_sub:
  assumes "k + n \<le> length bs" "length bs \<le> 2 ^ 64"
  shows "mem_read (mem_write m a bs) (a + of_nat k) n = take n (drop k bs)"
proof (rule nth_equalityI)
  fix i assume "i < length (mem_read (mem_write m a bs) (a + of_nat k) n)"
  then have "i < n" by simp
  then have "unat (of_nat (k + i) :: u64) = k + i" using assms by (simp only: unat_of_nat) simp
  then show "mem_read (mem_write m a bs) (a + of_nat k) n ! i = take n (drop k bs) ! i"
    using \<open>i < n\<close> assms(1) by (simp add: mem_write_def add.assoc)
qed (use assms in simp)

lemma rd_ehdr_write:
  "rd_ehdr (mem_write m a (example_ehdr e)) a = \<lparr>e_ident = [0x7F, 0x45, 0x4C, 0x46, 2] @ replicate 11 0, e_type = 2,
     e_entry = e, e_phoff = 64, e_phnum = 1\<rparr>"
proof -
  define bs where "bs = example_ehdr e"
  have len: "length bs = 64" by (simp add: bs_def example_ehdr_def)
  have r: "mem_read (mem_write m a bs) (a + of_nat k) n = take n (drop k bs)" if "k + n \<le> 64" for k n
    using mem_read_write_sub [of k n bs m a] that by (simp add: len)
  have "take 16 bs = [0x7F, 0x45, 0x4C, 0x46, 2] @ replicate 11 0" "take 2 (drop 16 bs) = le_bytes 2 (2 :: u16)"
    "take 8 (drop 24 bs) = le_bytes 8 e" "take 8 (drop 32 bs) = le_bytes 8 (64 :: u64)" "take 2 (drop 56 bs) = le_bytes 2 (1 :: u16)"
    by (simp_all add: bs_def example_ehdr_def)
  then have "rd_ehdr (mem_write m a bs) a = \<lparr>e_ident = [0x7F, 0x45, 0x4C, 0x46, 2] @ replicate 11 0, e_type = 2,
     e_entry = e, e_phoff = 64, e_phnum = 1\<rparr>"
    using r [of 0 16] r [of 16 2] r [of 24 8] r [of 32 8] r [of 56 2]
    by (simp add: rd_ehdr_def rd64_def le_word_le_bytes_full)
  then show ?thesis by (simp add: bs_def)
qed

lemma rd_phdr_write:
  "rd_phdr (mem_write m a (example_phdr va pa)) a
    = \<lparr>p_type = 1, p_offset = 120, p_vaddr = va, p_paddr = pa, p_filesz = 4, p_memsz = 8\<rparr>"
proof -
  define bs where "bs = example_phdr va pa"
  have len: "length bs = 56" by (simp add: bs_def example_phdr_def)
  have r: "mem_read (mem_write m a bs) (a + of_nat k) n = take n (drop k bs)" if "k + n \<le> 56" for k n
    using mem_read_write_sub [of k n bs m a] that by (simp add: len)
  have "take 4 bs = le_bytes 4 (1 :: u32)" "take 8 (drop 8 bs) = le_bytes 8 (120 :: u64)" "take 8 (drop 16 bs) = le_bytes 8 va"
    "take 8 (drop 24 bs) = le_bytes 8 pa" "take 8 (drop 32 bs) = le_bytes 8 (4 :: u64)" "take 8 (drop 40 bs) = le_bytes 8 (8 :: u64)"
    by (simp_all add: bs_def example_phdr_def)
  then have "rd_phdr (mem_write m a bs) a = \<lparr>p_type = 1, p_offset = 120, p_vaddr = va, p_paddr = pa, p_filesz = 4, p_memsz = 8\<rparr>"
    using r [of 0 4] r [of 8 8] r [of 16 8] r [of 24 8] r [of 32 8] r [of 40 8]
    by (simp add: rd_phdr_def rd64_def le_word_le_bytes_full)
  then show ?thesis by (simp add: bs_def)
qed

definition example_ram :: mem where
  "example_ram = mem_write (mem_write (\<lambda>_. 7) 0x800 (example_ehdr 0xFFFFFFFFFFA00000)) 0x1000 (example_phdr 0xFFFFFFFFFFA00010 0)"

lemma example_ram_ehdr: "rd_ehdr example_ram 0x800 = \<lparr>e_ident = [0x7F, 0x45, 0x4C, 0x46, 2] @ replicate 11 0, e_type = 2,
     e_entry = 0xFFFFFFFFFFA00000, e_phoff = 64, e_phnum = 1\<rparr>"
proof -
  have "disjoint_ranges 0x800 64 0x1000 (length (example_phdr 0xFFFFFFFFFFA00010 0))"
    by (rule disjoint_rangesI) (simp_all add: example_phdr_def)
  from same_image_ehdr [OF same_image_write [OF same_image_refl this]] show ?thesis
    by (simp add: example_ram_def rd_ehdr_write)
qed

lemma example_pread:
  assumes "file_lock s = 0" "files s = [f]" "bs = take (unat (ucast n :: u32)) (drop (unat (ucast off :: u32)) example_file)"
  shows "file_pread example_fatfs 0 a n off s = Some (ucast (of_nat (length bs) :: u32),
    s\<lparr>files := [f\<lparr>fd := unat (ucast off :: u32) + unat (ucast n :: u32)\<rparr>], ram := mem_write (ram s) a bs\<rparr>)"
  using assms by (cases s) (simp add: file_pread_def lock_file_def spinlock_lock_irqsave_def disable_irqsave_def unlock_file_simp
      fil_lseek_def fil_read_def example_fatfs_def Let_def)

text \<open>A machine about to load that file: a free table entry, no lock held, the header buffers at \<open>0x800\<close> and
  \<open>0x1000\<close>, and enough memory from \<open>0x200000\<close> on.\<close>

definition example_start :: "(unit, nat, 'z) vm_state_scheme \<Rightarrow> bool" where
  "example_start s \<longleftrightarrow> files s = [\<lparr>fd = 0, offset = 0, refcnt = 0\<rparr>] \<and> file_lock s = 0 \<and> refcnt_lock s = 0 \<and> ram s = (\<lambda>_. 7)
     \<and> phdr (current s) = 0x1000 \<and> phdr_size (current s) = 1024 \<and> 0x400018 \<le> mmap_max (current s)
     \<and> ROUNDUP (first_free_paddr (current s)) SUPERPAGE_SIZE = 0x200000"

definition example_read :: "(unit, nat, 'z) vm_state_scheme \<Rightarrow> (unit, nat, 'z) vm_state_scheme" where
  "example_read s = s\<lparr>files := [\<lparr>fd = 120, offset = 0, refcnt = 2\<rparr>], ram := example_ram, current := (current s)\<lparr>elf64 := 1\<rparr>\<rparr>"

definition example_loaded :: "elf_info \<Rightarrow> elf_info" where
  "example_loaded c = c\<lparr>elf64 := 1, phent := 56, phnum := 1, is_supervisor := True, first_free_paddr := 0x200000,
     bias := 0x800000, entry := 0xFFFFFFFFFFA00000\<rparr>"

lemma example_machine_start: "example_start example_machine"
proof -
  have "ROUNDUP 0x150000 SUPERPAGE_SIZE = 0x200000" by code_simp
  then show ?thesis by (simp add: example_start_def example_machine_def example_info_def)
qed

lemma example_headers:
  assumes "example_start s"
  shows "load_headers example_fatfs ''vmlinux'' 0x800 s = Some (0, example_read s)"
proof -
  let ?f = "\<lparr>fd = 0, offset = 0, refcnt = 2\<rparr>"
  note st = assms [unfolded example_start_def]
  define s1 where "s1 = s\<lparr>files := [?f]\<rparr>"
  define s2 where "s2 = s1\<lparr>files := [?f\<lparr>fd := 64\<rparr>], ram := mem_write (ram s1) 0x800 (example_ehdr 0xFFFFFFFFFFA00000)\<rparr>"
  define s3 where "s3 = s2\<lparr>current := (current s2)\<lparr>elf64 := 1\<rparr>\<rparr>"
  have t: "take 64 example_file = example_ehdr 0xFFFFFFFFFFA00000" "take 56 (drop 64 example_file) = example_phdr 0xFFFFFFFFFFA00010 0"
    by (simp_all add: example_file_def example_ehdr_def example_phdr_def)
  have len: "length (example_ehdr e) = 64" "length (example_phdr va pa) = 56" for e va pa
    by (simp_all add: example_ehdr_def example_phdr_def)
  have o: "file_open example_fatfs ''vmlinux'' O_RDONLY s = Some (Some 0, s1)"
    using st by (cases s) (simp add: s1_def file_open_def file_openat_def file_get_free_def example_fatfs_def)
  have r1: "file_pread example_fatfs 0 0x800 64 0 s1 = Some (64, s2)"
    using example_pread [of s1 ?f "example_ehdr 0xFFFFFFFFFFA00000" 64 0 "0x800"] t(1) st
    by (simp add: s2_def s1_def len)
  have eh: "rd_ehdr (ram s2) 0x800 = \<lparr>e_ident = [0x7F, 0x45, 0x4C, 0x46, 2] @ replicate 11 0, e_type = 2,
     e_entry = 0xFFFFFFFFFFA00000, e_phoff = 64, e_phnum = 1\<rparr>"
    by (simp add: s2_def rd_ehdr_write)
  have r2: "file_pread example_fatfs 0 (phdr (current s3)) 56 64 s3 = Some (56, example_read s)"
    using example_pread [of s3 "?f\<lparr>fd := 64\<rparr>" "example_phdr 0xFFFFFFFFFFA00010 0" 56 64 "phdr (current s3)"] t(2) st
    by (simp add: s3_def s2_def s1_def example_ram_def len example_read_def)
  have c: "phdr_size (current s3) = 1024" using st by (simp add: s3_def s2_def s1_def)
  show ?thesis
    unfolding load_headers_def by (simp add: o r1 eh IS_ELF64_def IS_ELF_def Let_def s3_def [symmetric] c r2)
qed

lemma example_phdr0: "ram s = example_ram \<Longrightarrow> phdr_at 0x1000 0 s
    = \<lparr>p_type = 1, p_offset = 120, p_vaddr = 0xFFFFFFFFFFA00010, p_paddr = 0, p_filesz = 4, p_memsz = 8\<rparr>"
  by (simp add: phdr_at_def example_ram_def rd_phdr_write)

lemma example_program_info:
  assumes "example_start s"
  shows "read_program_info 0x800 (example_read s) = (0xFFFFFFFFFFA00000, (example_read s)\<lparr>current := example_loaded (current s)\<rparr>)"
proof -
  have w: "ROUNDDOWN 0xFFFFFFFFFFA00010 SUPERPAGE_SIZE = 0xFFFFFFFFFFA00000" "drop_bit 63 (0xFFFFFFFFFFA00000 :: u64) = 1" by code_simp+
  show ?thesis
    using w assms by (simp add: example_start_def read_program_info_def example_read_def example_loaded_def Let_def example_ram_ehdr
        example_phdr0 loadable_def)
qed

text \<open>What the loader leaves: the description of the program, and all the memory manager's state but that.\<close>

lemma example_load:
  assumes "example_start s"
  shows "\<exists>s'. load_elf example_fatfs ''vmlinux'' 0x800 s = Some s'
    \<and> file_state.more s' = file_state.more (s\<lparr>current := (example_loaded (current s))\<lparr>first_user_vaddr := 0xFFFFFFFFFFA00000,
         first_vaddr_after_user := 0xFFFFFFFFFFA01000, brk_min := 0x200018\<rparr>\<rparr>)"
proof -
  let ?s = "(example_read s)\<lparr>current := example_loaded (current s)\<rparr>" and ?p = "phdr_at 0x1000 0"
  note st = assms [unfolded example_start_def]
  define s1 where "s1 = ?s\<lparr>files := [\<lparr>fd = 124, offset = 0, refcnt = 2\<rparr>], ram := mem_write example_ram 0x200010 [1, 2, 3, 4]\<rparr>"
  define s2 where "s2 = s1\<lparr>ram := mem_write (ram s1) 0x200000 (replicate 16 0)\<rparr>"
  define s3 where "s3 = s2\<lparr>ram := mem_write (ram s2) 0x200014 (replicate 4 0)\<rparr>"
  have w: "(0xFFFFFFFFFFA00010 :: u64) mod 4096 = 16" "ROUNDUP 0xFFFFFFFFFFA00018 RISCV_PGSIZE = 0xFFFFFFFFFFA01000"
    "(0x10000000000200010 :: u64) = 0x200010" "(- 0x5FFFE8 :: u64) = 0xFFFFFFFFFFA00018" by code_simp+
  have d: "take 4 (drop 120 example_file) = [1, 2, 3, 4]" by (simp add: example_file_def example_ehdr_def example_phdr_def)
  have far: "disjoint_ranges 0x1000 56 0x200010 (Suc (Suc (Suc (Suc 0))))" "disjoint_ranges 0x1000 56 0x200000 16" by (rule disjoint_rangesI; simp)+
  have "same_image 0x1000 56 example_ram (ram s1)" "same_image 0x1000 56 example_ram (ram s2)"
    using far by (auto simp: s1_def s2_def intro!: same_image_write)
  from this [THEN same_image_phdr, of 0] have p: "?p t = \<lparr>p_type = 1, p_offset = 120, p_vaddr = 0xFFFFFFFFFFA00010, p_paddr = 0, p_filesz = 4, p_memsz = 8\<rparr>"
    if "ram t \<in> {example_ram, ram s1, ram s2}" for t :: "(unit, nat, 'z) vm_state_scheme"
    using that by (auto simp: phdr_at_def example_ram_def rd_phdr_write)
  have rs: "ram ?s = example_ram" by (simp add: example_read_def)
  have "file_pread example_fatfs 0 0x200010 4 120 ?s = Some (4, s1)"
    using example_pread [of ?s "\<lparr>fd = 120, offset = 0, refcnt = 2\<rparr>" "[1, 2, 3, 4]" 4 120 "0x200010"] d st
    by (simp add: s1_def example_read_def)
  moreover have "valid_user_range (current ?s) (0x200010 - 16) (0x200010 + 8)"
    using st by (simp add: valid_user_range_def example_loaded_def)
  moreover have "ram_memset 0x200000 0 16 s1 = Some s2"
    using memset_write [of "0x200000" 16 0 "ram s1"] by (simp add: ram_memset_def s2_def)
  moreover have "ram_memset 0x200014 0 4 s2 = Some s3"
    using memset_write [of "0x200014" 4 0 "ram s2"] by (simp add: ram_memset_def s3_def)
  ultimately have seg: "load_supervisor_segment example_fatfs 0 0x1000 0 0x200010 16 ?s = Some s3"
    using p [of ?s] p [of s1] p [of s2] rs by (simp add: load_supervisor_segment_def)
  have cur: "phdr (example_loaded (current s)) = 0x1000" "is_supervisor (example_loaded (current s))" "bias (example_loaded (current s)) = 0x800000"
    "current s3 = example_loaded (current s)"
    using st by (simp_all add: example_loaded_def s3_def s2_def s1_def)
  define s4 where "s4 = s3\<lparr>current := (current s3)\<lparr>first_user_vaddr := 0xFFFFFFFFFFA00000,
      first_vaddr_after_user := 0xFFFFFFFFFFA01000, brk_min := 0x200018\<rparr>\<rparr>"
  have "refcnt_lock s4 = 0" using st by (simp add: s4_def s3_def s2_def s1_def example_read_def)
  then obtain s' where dec: "file_decref example_fatfs 0 s4 = Some s'" using file_decref_returns by blast
  have n: "unat (e_phnum (rd_ehdr example_ram 0x800)) = Suc 0" by (simp add: example_ram_ehdr)
  have "load_elf example_fatfs ''vmlinux'' 0x800 s = Some s'"
    unfolding load_elf_def example_headers [OF assms]
    using seg p [of ?s] rs dec [unfolded s4_def]
    by (simp add: w example_program_info [OF assms] n cur loadable_def Let_def del: One_nat_def)
  moreover have "file_state.more s' = file_state.more s4" by (rule file_decref_frame(1) [OF dec])
  ultimately show ?thesis using cur(4) by (simp add: s4_def s3_def s2_def s1_def example_read_def) (cases s, simp)
qed

section \<open>Properties\<close>

text \<open>
  C12: the boot program's loader unpacks a well-formed image.  If the image is a 64-bit ELF whose
  program headers and segments lie inside it and whose segments are to be placed outside it, the
  loader returns 0, and the memory is the old one with every loadable segment placed, in the order of the program
  headers: its bytes from the image, followed by zeros up to its size in memory.
\<close>

theorem boot_load_elf_correct:
  assumes "image_ok base elf sz m"
  shows "boot_load_elf base elf sz m
    = Some (0, fold (place base elf m) (filter loadable (map (image_segment elf m) [0..<unat (e_phnum (rd_ehdr m elf))])) m)"
  by (rule boot_load_elf_places [OF assms])

theorem boot_load_elf_correct_witness:
  "boot_load_elf 0x100000 0x1000 124 example_image
    = Some (0, mem_write example_image 0x100200 [1, 2, 3, 4, 0, 0, 0, 0])"
proof -
  have r: "mem_read example_image 0x1078 4 = [1, 2, 3, 4]" by code_simp
  have z: "replicate 4 0 = [0, 0, 0, 0 :: u8]" by (simp add: numeral_eq_Suc)
  from boot_load_elf_correct [OF example_image_ok] show ?thesis
    by (simp add: image_segment_def example_ehdr_read example_phdr_read loadable_def place_def segment_bytes_def r z)
qed

text \<open>
  C9: the supervisor's loader stays in bounds.  If the program headers it read keep file sizes within
  memory sizes and do not wrap around, and the table of headers is outside the area above \<open>first_free_paddr\<close>, then
  loading a supervisor changes memory only in the two header buffers and in the area between \<open>first_free_paddr\<close> and
  \<open>mmap_max\<close>.  FatFs is assumed to deliver at most the bytes asked for.
\<close>

theorem load_elf_in_bounds:
  assumes "reads_bounded F" "load_headers F fn eh64 s = Some (f, s1)" "read_program_info eh64 s1 = (mn, s2)"
    and "load_elf F fn eh64 s = Some s'" "is_supervisor (current s2)" "mmap_max (current s) < 2 ^ 63"
    and "\<forall>i < unat (e_phnum (rd_ehdr (ram s1) eh64)). phdr_ok (bias (current s2)) (phdr_at (phdr (current s)) i s1)
      \<and> (\<forall>x. in_block (phdr (current s) + 56 * of_nat i) 56 x \<longrightarrow> \<not> in_area (current s2) x)"
  shows "ram s' x = ram s x \<or> in_block eh64 64 x \<or> in_block (phdr (current s)) (unat (phdr_size (current s))) x \<or> in_area (current s2) x"
  by (rule load_elf_frame [OF assms])

theorem load_elf_in_bounds_witness:
  "\<exists>s'. load_elf example_fatfs ''vmlinux'' 0x800 example_machine = Some s' \<and> ram s' 0x1FFFFF = 7"
proof -
  note st = example_machine_start
  obtain s' where s': "load_elf example_fatfs ''vmlinux'' 0x800 example_machine = Some s'" using example_load [OF st] by blast
  have cur: "current example_machine = example_info" "phdr example_info = 0x1000" "phdr_size example_info = 1024" "mmap_max example_info = 0x7000000"
    "is_supervisor (example_loaded example_info)" "bias (example_loaded example_info) = 0x800000"
    "first_free_paddr (example_loaded example_info) = 0x200000" "mmap_max (example_loaded example_info) = 0x7000000"
    by (simp_all add: example_machine_def example_loaded_def example_info_def)
  have r: "ram (example_read example_machine) = example_ram" "ram example_machine = (\<lambda>_. 7)" by (simp_all add: example_read_def example_machine_def)
  have tab: "in_block 0x1000 56 x \<Longrightarrow> \<not> in_area (example_loaded example_info) x" for x
    using in_block_range [of "0x1000" 56 x] by (auto simp: in_area_def cur word_le_nat_alt)
  have "ram s' 0x1FFFFF = ram example_machine 0x1FFFFF \<or> in_block 0x800 64 0x1FFFFF
      \<or> in_block (phdr (current example_machine)) (unat (phdr_size (current example_machine))) 0x1FFFFF
      \<or> in_area (current ((example_read example_machine)\<lparr>current := example_loaded (current example_machine)\<rparr>)) 0x1FFFFF"
    by (rule load_elf_in_bounds [OF example_reads example_headers [OF st] example_program_info [OF st] s'])
      (simp_all add: cur r example_ram_ehdr example_phdr0 phdr_ok_def tab)
  then show ?thesis using s' by (auto simp: cur r in_block_def in_area_def)
qed

end
