(* ===== verification/Boot.thy ===== *)
theory Boot
  imports Mtrap_Props Elf_Props
begin

text \<open>
  Start-up: \<open>bbl/minit.c\<close>, \<open>bbl/init.c\<close>, \<open>bbl/bbl.c\<close> and \<open>bbl/sbi_impl.c\<close>.  These functions do not
  return: they end in the \<open>eret\<close> that enters the loaded program, and \<open>Some s\<close> is the state in which
  it is executed; \<open>None\<close> is a panic or a wait that no step of this hart ends.  What the processor adds is the
  parameter \<open>cpu\<close>: the extensions it reports, what \<open>mstatus\<close> reads after a write, from its old
  value and the value written, and the register contents a move of a 32-bit word leaves.  \<open>rocket\<close> is the
  repository's own processor; of \<open>csr.scala\<close> it takes the identification and the status register.
\<close>

section \<open>State\<close>

record 'fr cpu =
  mcpuid :: u64
  mstatus_keeps :: "u64 \<Rightarrow> u64 \<Rightarrow> u64"
  put_f32 :: "u32 \<Rightarrow> 'fr"

record ('fs, 'fil, 'd, 'fr) boot = "('fs, 'fil, 'd) mach" +
  fp_regs :: "nat \<Rightarrow> 'fr"
  c_fcsr :: u64
  c_tagctrl :: u64
  elf_loaded :: bool

definition supports_extension :: "'fr cpu \<Rightarrow> u8 \<Rightarrow> bool" where
  "supports_extension C ext \<longleftrightarrow> mcpuid C AND push_bit (unat (ext - 0x41)) 1 \<noteq> 0"

section \<open>The processor\<close>

text \<open>The build decides on virtual memory, the floating point unit and the coprocessor port.\<close>

abbreviation (input) MSTATUS64_SD :: u64 where "MSTATUS64_SD \<equiv> 0x8000000000000000"

definition isa_string :: "bool \<Rightarrow> bool \<Rightarrow> bool \<Rightarrow> string" where
  "isa_string use_vm fpu rocc =
     ''IMA'' @ (if use_vm then ''S'' else '''') @ (if fpu then ''FD'' else '''') @ (if rocc then ''X'' else '''')"

definition cpuid :: "bool \<Rightarrow> bool \<Rightarrow> bool \<Rightarrow> u64" where
  "cpuid use_vm fpu rocc =
     push_bit 62 2 OR foldr (\<lambda>x r. push_bit (unat (x - 0x41)) 1 OR r) (ascii (isa_string use_vm fpu rocc)) 0"

text \<open>A write of \<open>mstatus\<close> takes over a privilege field only for a mode that is built in.\<close>

definition write_mstatus :: "bool \<Rightarrow> bool \<Rightarrow> bool \<Rightarrow> u64 \<Rightarrow> u64 \<Rightarrow> u64" where
  "write_mstatus use_vm fpu rocc reg wdata =
     (let get = EXTRACT_FIELD wdata;
          supported = (\<lambda>p. p = PRV_M \<or> p = PRV_U \<or> use_vm \<and> p = PRV_S);
          set = (\<lambda>f c r. if c then INSERT_FIELD r f (get f) else r);
          reg = set MSTATUS_IE True reg;
          reg = set MSTATUS_IE1 True reg;
          reg = set MSTATUS_MPRV True reg;
          reg = set MSTATUS_PRV (supported (get MSTATUS_PRV)) reg;
          reg = set MSTATUS_PRV1 (supported (get MSTATUS_PRV1)) reg;
          reg = set MSTATUS_PRV2 (use_vm \<and> supported (get MSTATUS_PRV2)) reg;
          reg = set MSTATUS_IE2 use_vm reg;
          reg = set MSTATUS_VM (use_vm \<and> (get MSTATUS_VM = 0 \<or> get MSTATUS_VM = VM_SV39)) reg;
          reg = set MSTATUS_FS (use_vm \<or> fpu) reg
      in set MSTATUS_XS rocc reg)"

definition read_mstatus :: "u64 \<Rightarrow> u64" where
  "read_mstatus reg =
     (let fs = (if EXTRACT_FIELD reg MSTATUS_FS \<noteq> 0 then 3 else 0);
          xs = (if EXTRACT_FIELD reg MSTATUS_XS \<noteq> 0 then 3 else 0);
          st = INSERT_FIELD reg MSTATUS_FS fs;
          st = INSERT_FIELD st MSTATUS_XS xs
      in INSERT_FIELD st MSTATUS64_SD (if fs = 3 \<or> xs = 3 then 1 else 0))"

text \<open>What \<open>eret\<close> does to the register.\<close>

definition insn_ret :: "u64 \<Rightarrow> u64" where
  "insn_ret reg =
     (let get = EXTRACT_FIELD reg;
          r = INSERT_FIELD reg MSTATUS_IE (get MSTATUS_IE1);
          r = INSERT_FIELD r MSTATUS_PRV (get MSTATUS_PRV1);
          r = INSERT_FIELD r MSTATUS_PRV1 (get MSTATUS_PRV2);
          r = INSERT_FIELD r MSTATUS_IE1 (get MSTATUS_IE2);
          r = INSERT_FIELD r MSTATUS_PRV2 PRV_U
      in INSERT_FIELD r MSTATUS_IE2 1)"

definition rocket :: "bool \<Rightarrow> bool \<Rightarrow> bool \<Rightarrow> (u32 \<Rightarrow> 'fr) \<Rightarrow> 'fr cpu" where
  "rocket use_vm fpu rocc pf =
     \<lparr>mcpuid = cpuid use_vm fpu rocc, mstatus_keeps = (\<lambda>reg wdata. read_mstatus (write_mstatus use_vm fpu rocc reg wdata)), put_f32 = pf\<rparr>"

section \<open>Initialisation\<close>

definition initial_mstatus :: u64 where
  "initial_mstatus =
     (let ms = 0;
          ms = INSERT_FIELD ms MSTATUS_PRV PRV_M;
          ms = INSERT_FIELD ms MSTATUS_PRV1 PRV_S;
          ms = INSERT_FIELD ms MSTATUS_PRV2 PRV_U;
          ms = INSERT_FIELD ms MSTATUS_IE2 1;
          ms = INSERT_FIELD ms MSTATUS_VM VM_SV39;
          ms = INSERT_FIELD ms MSTATUS_FS 3
      in INSERT_FIELD ms MSTATUS_XS 3)"

definition mstatus_init :: "'fr cpu \<Rightarrow> ('fs, 'fil, 'd, 'fr, 'z) boot_scheme \<Rightarrow> ('fs, 'fil, 'd, 'fr, 'z) boot_scheme option" where
  "mstatus_init C s =
     (if \<not> supports_extension C 0x53 then None
      else
        let s = s\<lparr>c_mstatus := mstatus_keeps C (c_mstatus s) initial_mstatus\<rparr>;
            s = (if EXTRACT_FIELD (c_mstatus s) MSTATUS_VM \<noteq> VM_SV39 then s\<lparr>have_vm := False\<rparr> else s)
        in Some (s\<lparr>c_mtimecmp := 0, c_mip := c_mip s AND NOT MIP_MSIP, c_mie := c_mie s OR MIP_MSIP\<rparr>))"

definition memory_init :: "('fs, 'fil, 'd, 'fr, 'z) boot_scheme \<Rightarrow> ('fs, 'fil, 'd, 'fr, 'z) boot_scheme option" where
  "memory_init s =
     (let mem_mb = 956;
          s = s\<lparr>mem_size := push_bit 20 mem_mb\<rparr>;
          s = (if drop_bit 20 (mem_size s) < mem_mb then s\<lparr>mem_size := - 1 AND - RISCV_PGSIZE\<rparr> else s)
      in if mem_size s = 0 then None else if num_harts s = 0 then None else Some s)"

definition fp_init :: "'fr cpu \<Rightarrow> ('fs, 'fil, 'd, 'fr, 'z) boot_scheme \<Rightarrow> ('fs, 'fil, 'd, 'fr, 'z) boot_scheme option" where
  "fp_init C s =
     (if c_mstatus s AND MSTATUS_FS = 0 then None
      else if \<not> supports_extension C 0x44 then None
      else Some (s\<lparr>fp_regs := (\<lambda>i. if i < 32 then put_f32 C 0 else fp_regs s i), c_fcsr := 0\<rparr>))"

definition hls_init :: "u32 \<Rightarrow> ('fs, 'fil, 'd, 'fr, 'z) boot_scheme \<Rightarrow> ('fs, 'fil, 'd, 'fr, 'z) boot_scheme" where
  "hls_init hart s = set_HLS \<lparr>device_request_queue_head = 0, device_request_queue_size = 0, device_response_queue_head = 0,
     device_response_queue_tail = 0, hart_id = hart, ipi_pending = 0\<rparr> s"

section \<open>Entering the program\<close>

definition uart_line :: "'d bus \<Rightarrow> string \<Rightarrow> ('fs, 'fil, 'd, 'fr, 'z) boot_scheme \<Rightarrow> ('fs, 'fil, 'd, 'fr, 'z) boot_scheme option" where
  "uart_line B str s = do { d \<leftarrow> uart_send_string B (ascii str @ [0x0A]) (dev s); Some (s\<lparr>dev := d\<rparr>) }"

definition enter_entry_point :: "'d bus \<Rightarrow> ('fs, 'fil, 'd, 'fr, 'z) boot_scheme \<Rightarrow> ('fs, 'fil, 'd, 'fr, 'z) boot_scheme option" where
  "enter_entry_point B s =
     (let s = s\<lparr>c_mepc := entry (current s), c_tagctrl := 7\<rparr> in uart_line B ''Start Linux'' s)"

definition run_loaded_program :: "'d bus \<Rightarrow> u64 \<Rightarrow> ('fs, 'fil, 'd, 'fr, 'z) boot_scheme \<Rightarrow> ('fs, 'fil, 'd, 'fr, 'z) boot_scheme option" where
  "run_loaded_program B end_addr s = do {
     s \<leftarrow> uart_line B ''Running loaded program'' s;
     if \<not> is_supervisor (current s) then None
     else do {
       s \<leftarrow> supervisor_vm_init end_addr s;
       enter_entry_point B (s\<lparr>elf_loaded := True\<rparr>) } }"

definition boot_other_hart :: "'d bus \<Rightarrow> ('fs, 'fil, 'd, 'fr, 'z) boot_scheme \<Rightarrow> ('fs, 'fil, 'd, 'fr, 'z) boot_scheme option" where
  "boot_other_hart B s = (if elf_loaded s then enter_entry_point B s else None)"

text \<open>\<open>phdrs\<close> and \<open>eh64\<close> are where the two local buffers lie on the stack.\<close>

definition boot_loader :: "('fs, 'fil) fatfs \<Rightarrow> 'd bus \<Rightarrow> u64 \<Rightarrow> u64 \<Rightarrow> u64 \<Rightarrow> ('fs, 'fil, 'd, 'fr, 'z) boot_scheme
    \<Rightarrow> ('fs, 'fil, 'd, 'fr, 'z) boot_scheme option" where
  "boot_loader F B end_addr phdrs eh64 s = do {
     let s = s\<lparr>current := (current s)\<lparr>phdr := phdrs, phdr_size := 1024\<rparr>\<rparr>;
     s \<leftarrow> uart_line B ''Loadng linux ELF'' s;
     s \<leftarrow> load_elf F ''vmlinux'' eh64 s;
     s \<leftarrow> uart_line B ''Linux ELF loaded'' s;
     run_loaded_program B end_addr s }"

definition init_first_hart :: "('fs, 'fil) fatfs \<Rightarrow> 'd bus \<Rightarrow> u64 \<Rightarrow> u64 \<Rightarrow> u64 \<Rightarrow> ('fs, 'fil, 'd, 'fr, 'z) boot_scheme
    \<Rightarrow> ('fs, 'fil, 'd, 'fr, 'z) boot_scheme option" where
  "init_first_hart F B end_addr phdrs eh64 s = do {
     let s = file_init s;
     s \<leftarrow> memory_init s;
     let s = vm_init end_addr s;
     boot_loader F B end_addr phdrs eh64 s }"

definition init_other_hart :: "'d bus \<Rightarrow> ('fs, 'fil, 'd, 'fr, 'z) boot_scheme \<Rightarrow> ('fs, 'fil, 'd, 'fr, 'z) boot_scheme option" where
  "init_other_hart B s =
     (if root_page_table s = 0 then None
      else
        let s = s\<lparr>sptbr := root_page_table s\<rparr>
        in if num_harts s \<le> hart_id (HLS s) then None else boot_other_hart B s)"

text \<open>\<open>mount\<close> is what \<open>f_mount\<close> does to the file system.\<close>

definition machine_init :: "'fr cpu \<Rightarrow> ('fs, 'fil) fatfs \<Rightarrow> ('fs \<Rightarrow> 'fs) \<Rightarrow> 'd bus \<Rightarrow> u64 \<Rightarrow> u64 \<Rightarrow> u64 \<Rightarrow> u32
    \<Rightarrow> ('fs, 'fil, 'd, 'fr, 'z) boot_scheme \<Rightarrow> ('fs, 'fil, 'd, 'fr, 'z) boot_scheme option" where
  "machine_init C F mount B end_addr phdrs eh64 hart s = do {
     let s = s\<lparr>dev := uart_init B (dev s)\<rparr>;
     s \<leftarrow> mstatus_init C s;
     let s = s\<lparr>disk := mount (disk s)\<rparr>;
     let s = hls_init hart s;
     s \<leftarrow> mstatus_init C s;
     s \<leftarrow> fp_init C s;
     if hart = 0 then init_first_hart F B end_addr phdrs eh64 s else init_other_hart B s }"

section \<open>Services for the supervisor\<close>

definition sbi_query_memory :: "u64 \<Rightarrow> ('fs, 'fil, 'z) vm_state_scheme \<Rightarrow> u64 \<times> (u64 \<times> u64) option" where
  "sbi_query_memory i s =
     (if i = 0 then (0, Some (first_free_paddr (current s), mem_size s - first_free_paddr (current s))) else (- 1, None))"

definition init_tf :: "u64 \<Rightarrow> u64 \<Rightarrow> bool \<Rightarrow> u64 \<Rightarrow> trapframe_t option" where
  "init_tf pc sp user64 status =
     (if \<not> user64 then None
      else Some \<lparr>tf_gpr = (replicate 32 0)[2 := sp], tf_status = status, tf_epc = pc, tf_badvaddr = 0, tf_cause = 0, tf_insn = 0\<rparr>)"

end
