(* ===== verification/Boot_Props.thy ===== *)
theory Boot_Props
  imports Boot
begin

text \<open>
  What start-up hands over.  The memory manager and the loader are shown to leave the machine's registers and,
  when every mapping is placed at a fixed address, the description of the program alone; with that, what
  \<open>machine_init\<close> sets up on its way is still there when the program is entered.
\<close>

section \<open>What the memory manager leaves alone\<close>

definition outer_same :: "('fs, 'fil, 'z) vm_state_scheme \<Rightarrow> ('fs, 'fil, 'z) vm_state_scheme \<Rightarrow> bool" where
  "outer_same s s' \<longleftrightarrow> current s' = current s \<and> vm_state.more s' = vm_state.more s"

lemma outer_refl [simp]: "outer_same s s"
  by (simp add: outer_same_def)

lemma outer_trans [trans]: "outer_same s t \<Longrightarrow> outer_same t u \<Longrightarrow> outer_same s u"
  by (simp add: outer_same_def)

lemma outer_upd [simp]:
  "outer_same s (t\<lparr>pt := a\<rparr>) = outer_same s t" "outer_same s (t\<lparr>ram := r\<rparr>) = outer_same s t"
  "outer_same s (t\<lparr>vmr_tab := v\<rparr>) = outer_same s t" "outer_same s (t\<lparr>vm_lock := l\<rparr>) = outer_same s t"
  "outer_same s (t\<lparr>next_free_page := n\<rparr>) = outer_same s t" "outer_same s (t\<lparr>vmrs := p\<rparr>) = outer_same s t"
  "outer_same s (t\<lparr>root_page_table := p\<rparr>) = outer_same s t" "outer_same s (t\<lparr>sptbr := p\<rparr>) = outer_same s t"
  "outer_same (s\<lparr>pt := a\<rparr>) t = outer_same s t" "outer_same (s\<lparr>vmr_tab := v\<rparr>) t = outer_same s t"
  "outer_same (s\<lparr>root_page_table := p\<rparr>) t = outer_same s t" "outer_same (s\<lparr>vm_lock := l\<rparr>) t = outer_same s t"
  "outer_same (s\<lparr>next_free_page := n\<rparr>) t = outer_same s t"
  by (simp_all add: outer_same_def)

lemma outer_more: "file_state.more s' = file_state.more s \<Longrightarrow> outer_same s s'" for s :: "('fs, 'fil, 'z) vm_state_scheme"
  by (cases s; cases s') (simp add: outer_same_def)

lemma outer_page_alloc: "page_alloc s = Some (p, s') \<Longrightarrow> outer_same s s'"
  by (auto simp: page_alloc_def kassert_def Let_def split: bind_splits if_splits)

lemma outer_root: "maybe_create_root_page_table s = Some s' \<Longrightarrow> outer_same s s'"
  by (auto simp: maybe_create_root_page_table_def Let_def dest!: outer_page_alloc split: bind_splits if_splits)

lemma outer_walk_loop: "walk_loop a c n t s = Some (p, s') \<Longrightarrow> outer_same s s'"
proof (induction n arbitrary: c t s)
  case (Suc n)
  show ?case using Suc.prems
    by (auto simp: Let_def kassert_def dest!: outer_page_alloc Suc.IH split: bind_splits if_splits) (simp_all add: outer_same_def)
qed simp

lemma outer_walk: "walk a s = Some (p, s') \<Longrightarrow> outer_same s s'" "walk_create a s = Some (p, s') \<Longrightarrow> outer_same s s'"
  by (auto simp: walk_def walk_create_def walk_internal_def dest!: outer_root outer_walk_loop split: bind_splits intro: outer_trans)

lemma outer_vmr_decref: "vmr_decref F i n s = Some s' \<Longrightarrow> outer_same s s'"
  using outer_more [OF file_decref_frame(1)] by (fastforce simp: vmr_decref_def Let_def split: option.splits if_splits)

lemma outer_vmr_table: "vmr_table_init s = Some s' \<Longrightarrow> outer_same s s'"
  by (auto simp: vmr_table_init_def lock_vm_def unlock_vm_def dest!: outer_page_alloc split: bind_splits if_splits)

lemma outer_vmr_alloc: "vmr_alloc a n f ofs cnt prot s = Some (r, s') \<Longrightarrow> outer_same s s'"
  by (auto simp: vmr_alloc_def dest!: outer_vmr_table file_incref_frame(1) [THEN outer_more] split: bind_splits option.splits intro: outer_trans)

lemma outer_page_loop:
  assumes "page_loop body a hi s = Some s'" "\<forall>a s s'. body a s = Some s' \<longrightarrow> outer_same s s'"
  shows "outer_same s s'"
  using assms
proof (induction body a hi s s' rule: page_loop.raw_induct [rotated, consumes 1])
  case (1 loop body a hi s s')
  show ?case
  proof (cases "a < hi")
    case True
    then obtain t where "body a s = Some t" "loop body (a + RISCV_PGSIZE) hi t = Some s'"
      using 1(2) by (auto split: bind_splits)
    then show ?thesis using 1(1,3) outer_trans by blast
  qed (use 1 in simp)
qed

lemma outer_munmap_page: "munmap_page F a s = Some s' \<Longrightarrow> outer_same s s'"
  by (auto simp: munmap_page_def dest!: outer_walk outer_vmr_decref split: bind_splits if_splits)
      (simp add: outer_same_def)

lemma outer_munmap: "do_munmap_nolock F a n s = Some s' \<Longrightarrow> outer_same s s'"
  using outer_page_loop outer_munmap_page unfolding do_munmap_nolock_def by blast

lemma outer_mmap_page: "mmap_page F v a s = Some s' \<Longrightarrow> outer_same s s'"
  by (auto simp: mmap_page_def kassert_def dest!: outer_walk outer_munmap split: bind_splits if_splits)
      (simp add: outer_same_def)

lemma outer_fill_page: "fill_page F v a s = Some s' \<Longrightarrow> outer_same s s'"
  by (auto simp: fill_page_def kassert_def Let_def dest!: file_pread_frame(1) [THEN outer_more] split: bind_splits if_splits option.splits)

lemma outer_fault: "handle_page_fault_nolock F a prot s = Some (r, s') \<Longrightarrow> outer_same s s'"
  by (auto simp: handle_page_fault_nolock_def check_perms_def Let_def dest!: outer_walk outer_fill_page outer_vmr_decref
      split: bind_splits if_splits) (simp_all add: outer_same_def)

lemma outer_populate: "populate_page F prot a s = Some s' \<Longrightarrow> outer_same s s'"
  by (auto simp: populate_page_def kassert_def dest!: outer_fault split: bind_splits if_splits)

lemma outer_mmap:
  assumes "do_mmap_nolock F a n prot flags f ofs s = Some (r, s')" "flags AND MAP_FIXED \<noteq> 0"
  shows "outer_same s s'"
proof -
  have "outer_same t t'" if "page_loop (mmap_page F v) b hi t = Some t'" for v b hi t t'
    using outer_page_loop [OF that] outer_mmap_page by blast
  moreover have "outer_same t t'" if "page_loop (populate_page F prot) b hi t = Some t'" for b hi t t'
    using outer_page_loop [OF that] outer_populate by blast
  ultimately show ?thesis using assms
    by (auto simp: do_mmap_nolock_def mmap_addr_def Let_def dest!: outer_vmr_alloc split: bind_splits if_splits option.splits)
      (blast intro: outer_trans)+
qed


section \<open>What the loader leaves alone\<close>

lemma more_segment: "load_supervisor_segment F f ph i v q s = Some s' \<Longrightarrow> outer_same s s'"
  by (auto simp: load_supervisor_segment_def ram_memset_def dest!: file_pread_frame(1) [THEN outer_more] split: bind_splits if_splits)

lemma more_user_segment:
  assumes "load_user_segment F f ph i flags v q s = Some s'" "flags AND MAP_FIXED \<noteq> 0"
  shows "outer_same s s'"
proof -
  have fx: "(flags OR k) AND MAP_FIXED \<noteq> 0" for k
    using assms(2) by (metis bit.conj_disj_distrib2 or_eq_0_iff)
  note step = outer_mmap [OF _ assms(2)] outer_mmap [OF _ fx]
  show ?thesis using assms(1)
    by (auto simp: load_user_segment_def ram_memset_def Let_def dest!: step split: bind_splits if_splits) (simp_all add: outer_same_def)
qed

lemma more_segments:
  "load_segments F f ph n flags bia mx s = Some (mx', s') \<Longrightarrow> flags AND MAP_FIXED \<noteq> 0 \<Longrightarrow> outer_same s s'"
proof (induction n arbitrary: mx s)
  case (Suc n)
  then show ?case
    by (auto simp: Let_def split: bind_splits if_splits dest!: more_segment more_user_segment intro: outer_trans)
qed simp

lemma more_headers: "load_headers F fn eh64 s = Some (f, s') \<Longrightarrow> vm_state.more s' = vm_state.more s"
  by (auto simp: load_headers_def Let_def dest!: file_open_frame(1) [THEN outer_more] file_pread_frame(1) [THEN outer_more]
      split: bind_splits if_splits) (simp add: outer_same_def)

lemma more_load_elf:
  assumes "load_elf F fn eh64 s = Some s'"
  shows "vm_state.more s' = vm_state.more s" and "is_supervisor (current s') \<Longrightarrow> drop_bit 63 (entry (current s')) \<noteq> 0"
proof -
  obtain f a where hd: "load_headers F fn eh64 s = Some (f, a)" using assms by (auto simp: load_elf_def split: bind_splits)
  obtain v b where info: "read_program_info eh64 a = (v, b)" by fastforce
  let ?fl = "if is_supervisor (current b) then MAP_FIXED OR MAP_PRIVATE OR MAP_POPULATE else MAP_FIXED OR MAP_PRIVATE :: u32"
  obtain mx c where seg: "load_segments F f (phdr (current b)) (unat (e_phnum (rd_ehdr (ram b) eh64))) ?fl (bias (current b)) 0 b = Some (mx, c)"
    and fin: "file_decref F f (c\<lparr>current := (current c)\<lparr>first_user_vaddr := v,
           first_vaddr_after_user := ROUNDUP (mx - bias (current c)) RISCV_PGSIZE, brk_min := mx\<rparr>\<rparr>) = Some s'"
    using assms hd info by (auto simp: load_elf_def Let_def split: bind_splits if_splits)
  have "?fl AND MAP_FIXED \<noteq> 0" by simp
  then have same: "outer_same b c" by (rule more_segments [OF seg])
  have inf: "vm_state.more b = vm_state.more a" "is_supervisor (current b) \<Longrightarrow> drop_bit 63 (entry (current b)) \<noteq> 0"
    using info by (auto simp: read_program_info_def Let_def split: if_splits)
  have last: "vm_state.more s' = vm_state.more c" "is_supervisor (current s') = is_supervisor (current c)" "entry (current s') = entry (current c)"
    using outer_more [OF file_decref_frame(1) [OF fin]] by (simp_all add: outer_same_def)
  show "vm_state.more s' = vm_state.more s" using more_headers [OF hd] inf last same by (simp add: outer_same_def)
  show "is_supervisor (current s') \<Longrightarrow> drop_bit 63 (entry (current s')) \<noteq> 0" using inf last same by (simp add: outer_same_def)
qed

section \<open>The status register\<close>

lemma rocket_extension:
  "supports_extension (rocket use_vm fpu rocc pf) 0x53 = use_vm" "supports_extension (rocket use_vm fpu rocc pf) 0x44 = fpu"
proof -
  have "\<forall>v f r. (cpuid v f r AND push_bit (unat (0x53 - 0x41 :: u8)) 1 \<noteq> 0) = v" by code_simp
  moreover have "\<forall>v f r. (cpuid v f r AND push_bit (unat (0x44 - 0x41 :: u8)) 1 \<noteq> 0) = f" by code_simp
  ultimately show "supports_extension (rocket use_vm fpu rocc pf) 0x53 = use_vm" "supports_extension (rocket use_vm fpu rocc pf) 0x44 = fpu"
    by (simp_all add: supports_extension_def rocket_def)
qed

lemma and_insert: "INSERT_FIELD r f v AND k = (r AND (NOT f AND k)) OR (v * (f AND NOT (f - 1)) AND k)"
  unfolding INSERT_FIELD_def bit.conj_disj_distrib2 and.assoc ..

lemma initial_fields:
  "EXTRACT_FIELD initial_mstatus MSTATUS_IE = 0" "EXTRACT_FIELD initial_mstatus MSTATUS_IE1 = 0"
  "EXTRACT_FIELD initial_mstatus MSTATUS_MPRV = 0" "EXTRACT_FIELD initial_mstatus MSTATUS_PRV = PRV_M"
  "EXTRACT_FIELD initial_mstatus MSTATUS_PRV1 = PRV_S" "EXTRACT_FIELD initial_mstatus MSTATUS_PRV2 = PRV_U"
  "EXTRACT_FIELD initial_mstatus MSTATUS_IE2 = 1" "EXTRACT_FIELD initial_mstatus MSTATUS_VM = VM_SV39"
  "EXTRACT_FIELD initial_mstatus MSTATUS_FS = 3" "EXTRACT_FIELD initial_mstatus MSTATUS_XS = 3"
  by code_simp+

lemma write_initial:
  "write_mstatus True fpu rocc reg initial_mstatus AND MSTATUS_PRV1 = 0x10"
  "write_mstatus True fpu rocc reg initial_mstatus AND MSTATUS_FS = 0x3000"
  unfolding write_mstatus_def Let_def initial_fields by (simp_all add: and_insert)

lemma read_fields:
  assumes "r AND MSTATUS_FS = 0x3000"
  shows "read_mstatus r AND MSTATUS_PRV1 = r AND MSTATUS_PRV1" "read_mstatus r AND MSTATUS_FS = 0x3000"
  using assms by (simp_all add: read_mstatus_def Let_def EXTRACT_FIELD_def and_insert)

lemma rocket_keeps:
  "EXTRACT_FIELD (mstatus_keeps (rocket True fpu rocc pf) reg initial_mstatus) MSTATUS_PRV1 = PRV_S"
  "mstatus_keeps (rocket True fpu rocc pf) reg initial_mstatus AND MSTATUS_FS \<noteq> 0"
  using read_fields [OF write_initial(2)] write_initial(1) by (simp_all add: rocket_def EXTRACT_FIELD_def)

lemma mult_power_and: "v * 2 ^ n AND mask n = 0" for v :: u64
  by (simp add: push_bit_eq_mult [symmetric]) (rule bit_eqI, auto simp: bit_simps)

lemma insn_ret_mode: "EXTRACT_FIELD reg MSTATUS_PRV1 = PRV_S \<Longrightarrow> EXTRACT_FIELD (insn_ret reg) MSTATUS_PRV = PRV_S"
proof -
  assume p: "EXTRACT_FIELD reg MSTATUS_PRV1 = PRV_S"
  have m: "v * 8 AND 6 = 0" "v * 16 AND 6 = 0" for v :: u64
  proof -
    have "v * 2 ^ n AND 6 = (v * 2 ^ n AND mask n) AND 6" if "mask n AND 6 = (6 :: u64)" for n using that by (simp add: and.assoc)
    from this [of 3] this [of 4] show "v * 8 AND 6 = 0" "v * 16 AND 6 = 0"
      unfolding mult_power_and by (simp_all add: mask_eq_exp_minus_1)
  qed
  show ?thesis unfolding insn_ret_def Let_def p
    by (subst EXTRACT_FIELD_def) (simp add: and_insert m)
qed

section \<open>A hart that is set up\<close>

definition hart_ready :: "'fr cpu \<Rightarrow> u32 \<Rightarrow> ('fs, 'fil, 'd, 'fr, 'z) boot_scheme \<Rightarrow> bool" where
  "hart_ready C hart s \<longleftrightarrow> EXTRACT_FIELD (c_mstatus s) MSTATUS_PRV1 = PRV_S \<and> c_mie s AND MIP_MSIP \<noteq> 0 \<and> c_mip s AND MIP_MSIP = 0
     \<and> hart_id (HLS s) = hart \<and> ipi_pending (HLS s) = 0 \<and> (\<forall>i<32. fp_regs s i = put_f32 C 0) \<and> c_fcsr s = 0"

lemma hart_ready_more: "vm_state.more s' = vm_state.more s \<Longrightarrow> hart_ready C hart s' = hart_ready C hart s"
  by (cases s; cases s') (simp add: hart_ready_def HLS_def)

lemma hart_ready_upd [simp]:
  "hart_ready C hart (s\<lparr>dev := d\<rparr>) = hart_ready C hart s" "hart_ready C hart (s\<lparr>c_mepc := e\<rparr>) = hart_ready C hart s"
  "hart_ready C hart (s\<lparr>c_tagctrl := t\<rparr>) = hart_ready C hart s" "hart_ready C hart (s\<lparr>elf_loaded := l\<rparr>) = hart_ready C hart s"
  "hart_ready C hart (s\<lparr>sptbr := p\<rparr>) = hart_ready C hart s" "hart_ready C hart (s\<lparr>current := c\<rparr>) = hart_ready C hart s"
  by (simp_all add: hart_ready_def HLS_def)

lemma uart_line_frame: "uart_line B str s = Some s' \<Longrightarrow> \<exists>d. s' = s\<lparr>dev := d\<rparr>"
  by (auto simp: uart_line_def split: bind_splits)

lemma supervisor_vm_init_frame:
  assumes "supervisor_vm_init e s = Some s'"
  shows "vm_state.more s' = vm_state.more s" and "entry (current s') = entry (current s)" and "sptbr s' = root_page_table s'"
  using assms by (auto simp: supervisor_vm_init_def Let_def kassert_def split: bind_splits if_splits)

lemma mstatus_init_ready:
  assumes "mstatus_init (rocket use_vm fpu rocc pf) s = Some s'"
  shows "EXTRACT_FIELD (c_mstatus s') MSTATUS_PRV1 = PRV_S" "c_mie s' AND MIP_MSIP \<noteq> 0" "c_mip s' AND MIP_MSIP = 0" "HLS s' = HLS s"
proof -
  have use_vm using assms by (simp add: mstatus_init_def rocket_extension split: if_splits)
  then show "EXTRACT_FIELD (c_mstatus s') MSTATUS_PRV1 = PRV_S"
    using assms rocket_keeps(1) by (auto simp: mstatus_init_def Let_def split: if_splits)
  have "(x OR MIP_MSIP) AND MIP_MSIP \<noteq> 0" "(x AND NOT MIP_MSIP) AND MIP_MSIP = 0" for x :: u64
    by (simp_all add: bit.conj_disj_distrib2 or_eq_0_iff and.assoc)
  then show "c_mie s' AND MIP_MSIP \<noteq> 0" "c_mip s' AND MIP_MSIP = 0" "HLS s' = HLS s"
    using assms by (auto simp: mstatus_init_def Let_def HLS_def split: if_splits)
qed


section \<open>Into the program\<close>

lemma enter_ready:
  assumes "enter_entry_point B s = Some s'"
  shows "hart_ready C hart s' = hart_ready C hart s" "c_mepc s' = entry (current s')" "current s' = current s" "c_tagctrl s' = 7"
    "elf_loaded s' = elf_loaded s" "sptbr s' = sptbr s" "root_page_table s' = root_page_table s"
  using assms by (auto simp: enter_entry_point_def dest!: uart_line_frame)

lemma boot_loader_ready:
  assumes "boot_loader F B end_addr phdrs eh64 s = Some s'"
  shows "hart_ready C hart s' = hart_ready C hart s" "c_mepc s' = entry (current s')" "c_tagctrl s' = 7" "elf_loaded s'"
    "sptbr s' = root_page_table s'" "drop_bit 63 (c_mepc s') \<noteq> 0"
proof -
  obtain d1 t d2 d3 u where elf: "load_elf F ''vmlinux'' eh64 (s\<lparr>current := (current s)\<lparr>phdr := phdrs, phdr_size := 1024\<rparr>, dev := d1\<rparr>) = Some t"
    and sup: "is_supervisor (current t)" and vm: "supervisor_vm_init end_addr (t\<lparr>dev := d3\<rparr>) = Some u"
    and ent: "enter_entry_point B (u\<lparr>elf_loaded := True\<rparr>) = Some s'"
    using assms by (auto simp: boot_loader_def run_loaded_program_def Let_def split: bind_splits if_splits dest!: uart_line_frame)
  note e = enter_ready [OF ent] and v = supervisor_vm_init_frame [OF vm] and l = more_load_elf [OF elf]
  show "hart_ready C hart s' = hart_ready C hart s"
    using e(1) hart_ready_more [OF v(1)] hart_ready_more [OF l(1)] by simp
  show "c_mepc s' = entry (current s')" "c_tagctrl s' = 7" "elf_loaded s'" "sptbr s' = root_page_table s'" using e v(3) by simp_all
  show "drop_bit 63 (c_mepc s') \<noteq> 0" using e(2,3) v(2) l(2) sup by simp
qed

section \<open>A machine that starts\<close>

definition ready_bus :: "unit bus" where
  "ready_bus = \<lparr>mmio_rd = (\<lambda>a d. (0x40, d)), mmio_wr = (\<lambda>a v d. d)\<rparr>"

definition boot_example :: "u64 \<Rightarrow> bool \<Rightarrow> (unit, nat, unit, u32) boot" where
  "boot_example root loaded = mach.extend (vm_state.extend (example_machine\<lparr>root_page_table := root, num_harts := 2\<rparr>)
     (mach.fields () (\<lambda>_. hls_example) 1 0 0 0 0 0 0 0 0 [] 0x80001000 None)) (boot.fields (\<lambda>_. 5) 7 0 loaded)"

lemma ready_bus_sends: "uart_send_string ready_bus bs d = Some ()"
proof (induction bs arbitrary: d)
  case (Cons b bs)
  have "poll ready_bus UART_BASE UART_LSR 0x40 d = Some d" by (subst poll.simps) (simp add: reg_read_def ready_bus_def)
  then show ?case using Cons by simp
qed simp

lemma ready_bus_line: "uart_line ready_bus str s = Some s"
  by (cases s) (simp add: uart_line_def ready_bus_sends)

text \<open>A second hart finds the program loaded.\<close>

definition program_loaded :: "('fs, 'fil, 'd, 'fr, 'z) boot_scheme \<Rightarrow> bool" where
  "program_loaded s \<longleftrightarrow> root_page_table s \<noteq> 0 \<and> num_harts s = 2 \<and> elf_loaded s"

lemma mstatus_init_runs:
  "\<exists>s'. mstatus_init (rocket True fpu rocc pf) s = Some s' \<and> c_mstatus s' AND MSTATUS_FS \<noteq> 0 \<and> program_loaded s' = program_loaded s \<and> HLS s' = HLS s"
  using rocket_keeps(2) by (auto simp: mstatus_init_def rocket_extension Let_def program_loaded_def HLS_def)

lemma example_other_hart:
  "\<exists>s'. machine_init (rocket True True False (\<lambda>v. v)) F (\<lambda>f. f) ready_bus 0 0 0 1 (boot_example 0x4000000 True) = Some s'"
proof -
  let ?C = "rocket True True False (\<lambda>v. v)"
  have h: "HLS (hls_init hart s) = \<lparr>device_request_queue_head = 0, device_request_queue_size = 0, device_response_queue_head = 0,
     device_response_queue_tail = 0, hart_id = hart, ipi_pending = 0\<rparr>" "program_loaded (hls_init hart s) = program_loaded s"
    for hart and s :: "(unit, nat, unit, u32) boot"
    by (simp_all add: hls_init_def set_HLS_def set_hls_def HLS_def program_loaded_def)
  obtain a where a: "mstatus_init ?C ((boot_example 0x4000000 True)\<lparr>dev := uart_init ready_bus ()\<rparr>) = Some a"
    "program_loaded a = program_loaded ((boot_example 0x4000000 True)\<lparr>dev := uart_init ready_bus ()\<rparr>)"
    using mstatus_init_runs by metis
  obtain b where b: "mstatus_init ?C (hls_init 1 (a\<lparr>disk := ()\<rparr>)) = Some b" "c_mstatus b AND MSTATUS_FS \<noteq> 0"
    "program_loaded b = program_loaded (hls_init 1 (a\<lparr>disk := ()\<rparr>))" "HLS b = HLS (hls_init 1 (a\<lparr>disk := ()\<rparr>))"
    using mstatus_init_runs by metis
  have "program_loaded (boot_example 0x4000000 True)"
    by (simp add: program_loaded_def boot_example_def example_machine_def vm_state.defs mach.defs boot.defs)
  then have p: "program_loaded b" "hart_id (HLS b) = 1" using a(2) b(3,4) h by (simp_all add: program_loaded_def)
  obtain c where c: "fp_init ?C b = Some c" "program_loaded c" "hart_id (HLS c) = 1"
    using b(2) p by (simp add: fp_init_def rocket_extension program_loaded_def HLS_def)
  have "\<not> (2 :: u32) \<le> 1" by code_simp
  then show ?thesis using a(1) b(1) c
    by (simp add: machine_init_def Let_def init_other_hart_def boot_other_hart_def enter_entry_point_def ready_bus_line program_loaded_def HLS_def)
qed

text \<open>The first hart loads the file of \<open>example_fatfs\<close> and maps it.\<close>

lemma example_vm_init:
  assumes "first_free_paddr (current s) = 0x200000" "first_user_vaddr (current s) = 0xFFFFFFFFFFA00000"
    "first_vaddr_after_user (current s) = 0xFFFFFFFFFFA01000" "bias (current s) = 0x800000" "mem_size s = 0x3BC00000" "next_free_page s = 0"
  shows "\<exists>s'. supervisor_vm_init 0x2000 s = Some s'"
proof -
  have w: "min 0x3BC00000 (- 0x200000 - 0xFFFFFFFFFFA00000) AND - SUPERPAGE_SIZE = (0x400000 :: u64)"
    "(- 0xFFFFFFFFFFA00000 - 1) div MEGAPAGE_SIZE + 1 = (1 :: u64)" "0xFFFFFFFFFFA01000 + 0x800000 = (0x201000 :: u64)"
    "0xFFFFFFFFFFA00000 + 0x800000 = (0x200000 :: u64)" "sbi_top_paddr 0x2000 div RISCV_PGSIZE = 2"
    by code_simp+
  obtain e where e: "pte_create 0x200 (PROT_READ OR PROT_WRITE OR PROT_EXEC) False = Some e" by (simp add: pte_create_def Let_def kassert_def)
  have lp: "superpage_loop 0x202000 0xFFFFFFFFFFA00000 0x400000 0xFFFFFFFFFFA00000 0x200000 m = Some (m(0x202FE8 := e))" for m
  proof -
    have "drop_bit 21 (0xFFFFFFFFFFA00000 :: u64) AND 511 = 0x1FD" "drop_bit 12 (0x200000 :: u64) = 0x200" by code_simp+
    then show ?thesis using e by (subst superpage_loop.simps, simp add: Let_def) (subst superpage_loop.simps, simp)
  qed
  obtain e0 e1 where p: "pte_create 0 (PROT_READ OR PROT_EXEC) False = Some e0" "pte_create 1 (PROT_READ OR PROT_EXEC) False = Some e1"
    by (simp add: pte_create_def Let_def kassert_def)
  have "sbi_pt_loop 0x201000 2 (unat (2 :: u64)) m = Some (m(0x201FF0 := e0, 0x201FF8 := e1))" for m
  proof -
    have "unat (2 :: u64) = Suc (Suc 0)" by simp
    then show ?thesis using p by (simp only: sbi_pt_loop.simps) simp
  qed
  then show ?thesis
    unfolding supervisor_vm_init_def Let_def assms w using lp
    by (simp add: zero_range_def kassert_def assms)
qed

lemma example_boot_loader:
  assumes "example_start (s\<lparr>current := (current s)\<lparr>phdr := 0x1000, phdr_size := 1024\<rparr>\<rparr>)" "mem_size s = 0x3BC00000" "next_free_page s = 0"
  shows "\<exists>s'. boot_loader example_fatfs ready_bus 0x2000 0x1000 0x800 s = Some s'"
proof -
  let ?s = "s\<lparr>current := (current s)\<lparr>phdr := 0x1000, phdr_size := 1024\<rparr>\<rparr>"
  obtain t where t: "load_elf example_fatfs ''vmlinux'' 0x800 ?s = Some t"
    "file_state.more t = file_state.more (?s\<lparr>current := (example_loaded (current ?s))\<lparr>first_user_vaddr := 0xFFFFFFFFFFA00000,
         first_vaddr_after_user := 0xFFFFFFFFFFA01000, brk_min := 0x200018\<rparr>\<rparr>)"
    using example_load [OF assms(1)] by blast
  have c: "current t = (example_loaded (current ?s))\<lparr>first_user_vaddr := 0xFFFFFFFFFFA00000,
         first_vaddr_after_user := 0xFFFFFFFFFFA01000, brk_min := 0x200018\<rparr>" "mem_size t = mem_size s" "next_free_page t = next_free_page s"
    using t(2) by (cases s; cases t; simp)+
  obtain u where u: "supervisor_vm_init 0x2000 t = Some u"
    using example_vm_init [of t] assms(2,3) c by (auto simp: example_loaded_def)
  have "is_supervisor (current t)" by (simp add: c(1) example_loaded_def)
  then show ?thesis
    using t(1) u by (simp add: boot_loader_def run_loaded_program_def enter_entry_point_def ready_bus_line Let_def)
qed

definition example_hart :: "(unit, nat, 'z) vm_state_scheme \<Rightarrow> bool" where
  "example_hart s \<longleftrightarrow> files s = [\<lparr>fd = 0, offset = 0, refcnt = 0\<rparr>] \<and> file_lock s = 0 \<and> refcnt_lock s = 0 \<and> ram s = (\<lambda>_. 7)
     \<and> num_harts s = 2 \<and> next_free_page s = 0"

lemma example_mstatus_init:
  assumes "example_hart s"
  shows "\<exists>s'. mstatus_init (rocket True fpu rocc pf) s = Some s' \<and> example_hart s' \<and> c_mstatus s' AND MSTATUS_FS \<noteq> 0"
  using assms rocket_keeps(2) by (auto simp: mstatus_init_def rocket_extension Let_def example_hart_def)

lemma example_init_first_hart:
  assumes "example_hart s"
  shows "\<exists>s'. init_first_hart example_fatfs ready_bus 0x2000 0x1000 0x800 s = Some s'"
proof -
  have w: "push_bit 20 956 = (0x3BC00000 :: u64)" "drop_bit 20 (0x3BC00000 :: u64) = 956" "sbi_top_paddr 0x2000 = 0x2000"
    "drop_bit 12 (0x3BC00000 :: u64) = 0x3BC00" "drop_bit 8 (0x3BC00 :: u64) = 0x3BC" "ROUNDUP 0x4000 SUPERPAGE_SIZE = 0x200000"
    by code_simp+
  obtain d where d: "memory_init (file_init s) = Some d" "example_hart d" "mem_size d = 0x3BC00000"
    using assms by (auto simp: memory_init_def file_init_def example_hart_def Let_def w)
  let ?v = "vm_init 0x2000 d"
  have "example_start (?v\<lparr>current := (current ?v)\<lparr>phdr := 0x1000, phdr_size := 1024\<rparr>\<rparr>)" "mem_size ?v = 0x3BC00000" "next_free_page ?v = 0"
    using d(2,3) by (simp_all add: example_hart_def example_start_def vm_init_def Let_def w)
  from example_boot_loader [OF this] d(1) show ?thesis by (simp add: init_first_hart_def Let_def)
qed

lemma example_first_hart:
  "\<exists>s'. machine_init (rocket True True False (\<lambda>v. v)) example_fatfs (\<lambda>f. f) ready_bus 0x2000 0x1000 0x800 0 (boot_example 0 False) = Some s'"
proof -
  let ?C = "rocket True True False (\<lambda>v. v)"
  have "example_hart ((boot_example 0 False)\<lparr>dev := uart_init ready_bus ()\<rparr>)"
    by (simp add: example_hart_def boot_example_def example_machine_def vm_state.defs mach.defs boot.defs)
  from example_mstatus_init [OF this] obtain a
    where a: "mstatus_init ?C ((boot_example 0 False)\<lparr>dev := uart_init ready_bus ()\<rparr>) = Some a" "example_hart a" by blast
  have "example_hart (hls_init 0 (a\<lparr>disk := ()\<rparr>))" using a(2) by (simp add: example_hart_def hls_init_def set_HLS_def set_hls_def)
  from example_mstatus_init [OF this] obtain b
    where b: "mstatus_init ?C (hls_init 0 (a\<lparr>disk := ()\<rparr>)) = Some b" "example_hart b" "c_mstatus b AND MSTATUS_FS \<noteq> 0" by blast
  obtain c where c: "fp_init ?C b = Some c" "example_hart c"
    using b(2,3) by (simp add: fp_init_def rocket_extension example_hart_def)
  from example_init_first_hart [OF c(2)] a(1) b(1) c(1) show ?thesis by (simp add: machine_init_def Let_def)
qed

section \<open>The program is entered as supervisor\<close>

text \<open>C10: What the program is entered with.  When \<open>machine_init\<close> on the repository's processor reaches the \<open>eret\<close>, that
  instruction leaves machine mode for supervisor mode; software interrupts are enabled and none is pending; the
  hart's storage carries its number; the floating point registers and \<open>fcsr\<close> are clear; the tag checks are
  switched on; the page table that is installed is the kernel's; and the address entered is the loaded program's entry, on
  hart 0 one in the upper half, where no user program lives.  The start-up of a first hart that loads a program and that of a second hart
  both come that far.\<close>

theorem machine_init_enters_supervisor:
  fixes pf :: "u32 \<Rightarrow> 'fr" and use_vm fpu rocc :: bool
  defines "C \<equiv> rocket use_vm fpu rocc pf"
  assumes "machine_init C F mount B end_addr phdrs eh64 hart s = Some s'"
  shows "EXTRACT_FIELD (insn_ret (c_mstatus s')) MSTATUS_PRV = PRV_S \<and> hart_ready C hart s' \<and> elf_loaded s'
    \<and> c_mepc s' = entry (current s') \<and> c_tagctrl s' = 7 \<and> sptbr s' = root_page_table s' \<and> (hart = 0 \<longrightarrow> drop_bit 63 (c_mepc s') \<noteq> 0)"
proof -
  let ?fst = "init_first_hart F B end_addr phdrs eh64"
  obtain a b c where a: "mstatus_init C (s\<lparr>dev := uart_init B (dev s)\<rparr>) = Some a"
    and b: "mstatus_init C (hls_init hart (a\<lparr>disk := mount (disk a)\<rparr>)) = Some b" and c: "fp_init C b = Some c"
    and go: "(if hart = 0 then ?fst c else init_other_hart B c) = Some s'"
    using assms(2) by (auto simp: machine_init_def Let_def split: bind_splits)
  note m = mstatus_init_ready [OF b [unfolded C_def]]
  have "hart_id (HLS b) = hart" "ipi_pending (HLS b) = 0" using m(4) by (simp_all add: hls_init_def set_HLS_def set_hls_def HLS_def)
  then have c: "hart_ready C hart c" using c m by (auto simp: fp_init_def hart_ready_def HLS_def split: if_splits)
  have *: "hart_ready C hart s' \<and> elf_loaded s' \<and> c_mepc s' = entry (current s') \<and> c_tagctrl s' = 7 \<and> sptbr s' = root_page_table s'
    \<and> (hart = 0 \<longrightarrow> drop_bit 63 (c_mepc s') \<noteq> 0)"
  proof (cases "hart = 0")
    case True
    then obtain d where d: "memory_init (file_init c) = Some d" and go: "boot_loader F B end_addr phdrs eh64 (vm_init end_addr d) = Some s'"
      using go by (auto simp: init_first_hart_def Let_def split: bind_splits)
    have "vm_state.more (vm_init end_addr d) = vm_state.more c"
      using d by (auto simp: memory_init_def vm_init_def file_init_def Let_def split: if_splits)
    then show ?thesis using boot_loader_ready [OF go] c hart_ready_more by blast
  next
    case False
    then have "enter_entry_point B (c\<lparr>sptbr := root_page_table c\<rparr>) = Some s'" "elf_loaded c"
      using go by (auto simp: init_other_hart_def boot_other_hart_def Let_def split: if_splits)
    then show ?thesis using enter_ready c False by fastforce
  qed
  then have "EXTRACT_FIELD (c_mstatus s') MSTATUS_PRV1 = PRV_S" by (simp add: hart_ready_def)
  from insn_ret_mode [OF this] * show ?thesis by blast
qed

theorem machine_init_enters_supervisor_witness:
  "(\<exists>s'. machine_init (rocket True True False (\<lambda>v. v)) example_fatfs (\<lambda>f. f) ready_bus 0x2000 0x1000 0x800 0 (boot_example 0 False) = Some s'
      \<and> EXTRACT_FIELD (insn_ret (c_mstatus s')) MSTATUS_PRV = PRV_S \<and> drop_bit 63 (c_mepc s') \<noteq> 0)
   \<and> (\<exists>s'. machine_init (rocket True True False (\<lambda>v. v)) example_fatfs (\<lambda>f. f) ready_bus 0 0 0 1 (boot_example 0x4000000 True) = Some s'
      \<and> EXTRACT_FIELD (insn_ret (c_mstatus s')) MSTATUS_PRV = PRV_S \<and> c_tagctrl s' = 7)"
proof -
  obtain s0 where s0: "machine_init (rocket True True False (\<lambda>v. v)) example_fatfs (\<lambda>f. f) ready_bus 0x2000 0x1000 0x800 0 (boot_example 0 False) = Some s0"
    using example_first_hart by blast
  obtain s1 where s1: "machine_init (rocket True True False (\<lambda>v. v)) example_fatfs (\<lambda>f. f) ready_bus 0 0 0 1 (boot_example 0x4000000 True) = Some s1"
    using example_other_hart by blast
  have e0: "EXTRACT_FIELD (insn_ret (c_mstatus s0)) MSTATUS_PRV = PRV_S \<and> drop_bit 63 (c_mepc s0) \<noteq> 0"
    using machine_init_enters_supervisor [OF s0] by metis
  have e1: "EXTRACT_FIELD (insn_ret (c_mstatus s1)) MSTATUS_PRV = PRV_S \<and> c_tagctrl s1 = 7"
    using machine_init_enters_supervisor [OF s1] by (elim conjE) (intro conjI)
  show ?thesis
    by (rule conjI; rule exI, rule conjI) (rule s0 s1 e0 e1)+
qed

end
