(* ===== verification/Emulation.thy ===== *)
theory Emulation
  imports Encoding Softfloat_F64
begin

text \<open>
  \<open>bbl/emulation.c\<close> and the access macros of \<open>bbl/mtrap.h\<close>: the instructions the machine-mode
  handler carries out for a lower privilege level, and \<open>illegal_insn_trap\<close> of \<open>bbl/mtrap.c\<close> that
  dispatches to them.

  The state is one hart as its trap handler sees it: the saved integer registers (\<open>regs\<close>), the
  floating-point registers, the control registers the code touches, the register \<open>tp\<close> that carries
  the rounding mode, and the memory of the interrupted program with its access rights.  What the
  hardware does and the source does not say is the parameter \<open>hw\<close>: how a floating-point register is
  read and written by the move instructions of \<open>fp_asm.S\<close>, and what a fault inside an unprivileged
  access leaves in \<open>mstatus\<close>, \<open>mepc\<close> and \<open>mcause\<close>.

  Results are \<open>option\<close> values.  \<open>None\<close> stands for a handler that does not come back (a
  floating-point register touched while \<open>mstatus.FS\<close> is off traps from machine mode, which ends
  in \<open>bad_trap\<close>) and for a division C gives no meaning to.
\<close>

section \<open>State\<close>

record 'fr hw =
  fget32 :: "'fr \<Rightarrow> u32"
  fput32 :: "u32 \<Rightarrow> 'fr"
  fget64 :: "'fr \<Rightarrow> u64"
  fput64 :: "u64 \<Rightarrow> 'fr"
  trap_mstatus :: "u64 \<Rightarrow> u64"
  trap_mepc :: u64
  trap_mcause :: u64

record 'fr hart =
  regs :: "nat \<Rightarrow> u64"
  fregs :: "nat \<Rightarrow> 'fr"
  csr_mstatus :: u64
  csr_mepc :: u64
  csr_mcause :: u64
  csr_frm :: u64
  csr_fflags :: u64
  tp :: u32
  umem :: mem
  uread :: "u64 \<Rightarrow> bool"
  uwrite :: "u64 \<Rightarrow> bool"

section \<open>Unprivileged accesses\<close>

text \<open>The code between the labels 98 and 99 gives \<open>None\<close> if one of its accesses faults; the
  effects before the fault stay.\<close>

definition unpriv_mem_access :: "'fr hw \<Rightarrow> ('fr hart \<Rightarrow> 'v option \<times> 'fr hart) \<Rightarrow> 'fr hart
    \<Rightarrow> 'v option \<times> 'fr hart" where
  "unpriv_mem_access H code s =
     (let (r, s) = code (s\<lparr>csr_mstatus := csr_mstatus s OR MSTATUS_MPRV\<rparr>);
          s = (case r of Some _ \<Rightarrow> s
               | None \<Rightarrow> s\<lparr>csr_mstatus := trap_mstatus H (csr_mstatus s), csr_mepc := trap_mepc H,
                          csr_mcause := trap_mcause H\<rparr>)
      in (r, s\<lparr>csr_mstatus := csr_mstatus s AND NOT MSTATUS_MPRV\<rparr>))"

definition restore_mask :: u64 where
  "restore_mask = MSTATUS_PRV1 OR MSTATUS_IE1 OR MSTATUS_PRV2 OR MSTATUS_IE2 OR MSTATUS_PRV3 OR MSTATUS_IE3"

definition restore_mstatus :: "u64 \<Rightarrow> u64 \<Rightarrow> 'fr hart \<Rightarrow> 'fr hart" where
  "restore_mstatus mstatus mepc s =
     s\<lparr>csr_mstatus := (csr_mstatus s AND NOT restore_mask) OR (restore_mask AND mstatus),
       csr_mepc := mepc\<rparr>"

definition user_load :: "nat \<Rightarrow> u64 \<Rightarrow> 'fr hart \<Rightarrow> 'v::len word option \<times> 'fr hart" where
  "user_load n a s =
     (if \<forall>i\<in>set [0..<n]. uread s (a + of_nat i) then (Some (le_word (mem_read (umem s) a n)), s)
      else (None, s))"

text \<open>\<open>sb\<close> of one byte after the other: a fault keeps the bytes already written.\<close>

fun user_store_bytes :: "u64 \<Rightarrow> u8 list \<Rightarrow> 'fr hart \<Rightarrow> unit option \<times> 'fr hart" where
  "user_store_bytes a [] s = (Some (), s)"
| "user_store_bytes a (b # bs) s =
     (if uwrite s a then user_store_bytes (a + 1) bs (s\<lparr>umem := (umem s)(a := b)\<rparr>) else (None, s))"

text \<open>An aligned \<open>sw\<close> or \<open>sd\<close>: all bytes or none.\<close>

definition user_store :: "u64 \<Rightarrow> u8 list \<Rightarrow> 'fr hart \<Rightarrow> unit option \<times> 'fr hart" where
  "user_store a bs s =
     (if \<forall>i\<in>set [0..<length bs]. uwrite s (a + of_nat i)
      then (Some (), s\<lparr>umem := mem_write (umem s) a bs\<rparr>) else (None, s))"

section \<open>Decoding and registers\<close>

definition GET_REG :: "u32 \<Rightarrow> nat \<Rightarrow> nat" where
  "GET_REG insn pos = unat (drop_bit pos insn AND 0x1F)"

abbreviation (input) GET_RS1 :: "u32 \<Rightarrow> 'fr hart \<Rightarrow> u64" where
  "GET_RS1 insn s \<equiv> regs s (GET_REG insn 15)"

abbreviation (input) GET_RS2 :: "u32 \<Rightarrow> 'fr hart \<Rightarrow> u64" where
  "GET_RS2 insn s \<equiv> regs s (GET_REG insn 20)"

definition SET_RD :: "u32 \<Rightarrow> u64 \<Rightarrow> 'fr hart \<Rightarrow> 'fr hart" where
  "SET_RD insn v s = s\<lparr>regs := (regs s)(GET_REG insn 7 := v)\<rparr>"

definition IMM_I :: "u32 \<Rightarrow> u64" where
  "IMM_I insn = scast (signed_drop_bit 20 insn)"

definition IMM_S :: "u32 \<Rightarrow> u64" where
  "IMM_S insn = scast (push_bit 5 (signed_drop_bit 25 insn) OR (drop_bit 7 insn AND 0x1F))"

definition GET_PRECISION :: "u32 \<Rightarrow> u32" where
  "GET_PRECISION insn = drop_bit 25 insn AND 3"

definition GET_RM :: "u32 \<Rightarrow> u32" where
  "GET_RM insn = drop_bit 12 insn AND 7"

abbreviation (input) PRECISION_S :: u32 where "PRECISION_S \<equiv> 0"
abbreviation (input) PRECISION_D :: u32 where "PRECISION_D \<equiv> 1"
abbreviation (input) MASK_FUNCT3 :: u32 where "MASK_FUNCT3 \<equiv> 0x7000"

text \<open>The floating-point registers answer only while \<open>mstatus.FS\<close> is not off.\<close>

definition fp_on :: "'fr hart \<Rightarrow> bool" where
  "fp_on s \<longleftrightarrow> csr_mstatus s AND MSTATUS_FS \<noteq> 0"

definition GET_F32_REG :: "'fr hw \<Rightarrow> u32 \<Rightarrow> nat \<Rightarrow> 'fr hart \<Rightarrow> u32 option" where
  "GET_F32_REG H insn pos s = (if fp_on s then Some (fget32 H (fregs s (GET_REG insn pos))) else None)"

definition GET_F64_REG :: "'fr hw \<Rightarrow> u32 \<Rightarrow> nat \<Rightarrow> 'fr hart \<Rightarrow> u64 option" where
  "GET_F64_REG H insn pos s = (if fp_on s then Some (fget64 H (fregs s (GET_REG insn pos))) else None)"

definition SET_FS_DIRTY :: "'fr hart \<Rightarrow> 'fr hart" where
  "SET_FS_DIRTY s = s\<lparr>csr_mstatus := csr_mstatus s OR MSTATUS_FS\<rparr>"

definition SET_F32_RD :: "'fr hw \<Rightarrow> u32 \<Rightarrow> u32 \<Rightarrow> 'fr hart \<Rightarrow> 'fr hart option" where
  "SET_F32_RD H insn v s =
     (if fp_on s
      then Some (SET_FS_DIRTY (s\<lparr>fregs := (fregs s)(GET_REG insn 7 := fput32 H v)\<rparr>)) else None)"

definition SET_F64_RD :: "'fr hw \<Rightarrow> u32 \<Rightarrow> u64 \<Rightarrow> 'fr hart \<Rightarrow> 'fr hart option" where
  "SET_F64_RD H insn v s =
     (if fp_on s
      then Some (SET_FS_DIRTY (s\<lparr>fregs := (fregs s)(GET_REG insn 7 := fput64 H v)\<rparr>)) else None)"

definition softfloat_raiseFlags :: "u8 \<Rightarrow> 'fr hart \<Rightarrow> 'fr hart" where
  "softfloat_raiseFlags fl s = s\<lparr>csr_fflags := csr_fflags s OR ucast fl\<rparr>"

text \<open>\<open>write_csr(mepc, mepc + 4); return 0;\<close> and \<open>return -1;\<close>\<close>

definition emulated :: "u64 \<Rightarrow> 'fr hart \<Rightarrow> (u64 \<times> 'fr hart) option" where
  "emulated mepc s = Some (0, s\<lparr>csr_mepc := mepc + 4\<rparr>)"

definition not_emulated :: "'fr hart \<Rightarrow> (u64 \<times> 'fr hart) option" where
  "not_emulated s = Some (- 1, s)"

record insn_fetch_t =
  f_error :: bool
  f_insn :: u32

definition get_insn :: "'fr hw \<Rightarrow> u64 \<Rightarrow> u64 \<Rightarrow> u64 \<Rightarrow> 'fr hart \<Rightarrow> insn_fetch_t \<times> 'fr hart" where
  "get_insn H mcause mstatus mepc s =
     (case unpriv_mem_access H (user_load 4 mepc) s of
        (Some insn, s) \<Rightarrow> (\<lparr>f_error = False, f_insn = insn\<rparr>, s)
      | (None, s) \<Rightarrow> (\<lparr>f_error = True, f_insn = 0\<rparr>, (restore_mstatus mstatus mepc s)\<lparr>csr_mcause := mcause\<rparr>))"

definition truly_illegal_insn :: "'fr hw \<Rightarrow> u64 \<Rightarrow> u32 \<Rightarrow> u64 \<Rightarrow> u64 \<Rightarrow> 'fr hart \<Rightarrow> (u64 \<times> 'fr hart) option" where
  "truly_illegal_insn H mcause insn mstatus mepc s = not_emulated s"

section \<open>Misaligned accesses\<close>

text \<open>\<open>DO_LOAD\<close> for a 4- or 8-byte type: the two aligned words around the address, shifted
  together.  The shift counts are taken modulo the width, as the shift instructions do.\<close>

definition shift_together :: "u64 \<Rightarrow> 'v::len word \<Rightarrow> 'v word \<Rightarrow> 'v word" where
  "shift_together addr val_lo val_hi =
     (let masked_addr = addr
      in drop_bit (unat (masked_addr * 8) mod LENGTH('v)) val_lo
         OR push_bit (unat ((of_nat (LENGTH('v) div 8) - masked_addr) * 8) mod LENGTH('v)) val_hi)"

definition DO_LOAD :: "'fr hw \<Rightarrow> u64 \<Rightarrow> 'fr hart \<Rightarrow> 'v::len word option \<times> 'fr hart" where
  "DO_LOAD H addr s =
     (let n = LENGTH('v) div 8;
          addr_lo = addr AND - of_nat n;
          addr_hi = addr_lo + of_nat n;
          (r, s) = unpriv_mem_access H (\<lambda>s. case user_load n addr_lo s of
                     (None, s) \<Rightarrow> (None, s)
                   | (Some val_lo, s) \<Rightarrow> (case user_load n addr_hi s of
                       (None, s) \<Rightarrow> (None, s)
                     | (Some val_hi, s) \<Rightarrow> (Some (val_lo, val_hi), s))) s
      in (map_option (\<lambda>(lo, hi). shift_together addr lo hi) r, s))"

text \<open>\<open>lbu val, 0(addr); lb/lbu tmp, 1(addr); val |= tmp << 8\<close>\<close>

definition load_half :: "'fr hw \<Rightarrow> bool \<Rightarrow> u64 \<Rightarrow> 'fr hart \<Rightarrow> u64 option \<times> 'fr hart" where
  "load_half H sx addr s =
     (let (r, s) = unpriv_mem_access H (\<lambda>s. case user_load 1 addr s of
                     (None, s) \<Rightarrow> (None, s)
                   | (Some v, s) \<Rightarrow> (case user_load 1 (addr + 1) s of
                       (None, s) \<Rightarrow> (None, s)
                     | (Some t, s) \<Rightarrow> (Some (v, t), s))) s
      in (map_option (\<lambda>(v, t). ucast (v :: u8)
            OR push_bit 8 (if sx then scast (t :: u8) else ucast t)) r, s))"

definition load_done :: "u32 \<Rightarrow> u64 \<Rightarrow> u64 \<Rightarrow> u64 option \<times> 'fr hart \<Rightarrow> (u64 \<times> 'fr hart) option" where
  "load_done insn mstatus mepc = (\<lambda>(r, s). case r of
     None \<Rightarrow> not_emulated (restore_mstatus mstatus mepc s)
   | Some val \<Rightarrow> emulated mepc (SET_RD insn val s))"

definition misaligned_load_trap :: "'fr hw \<Rightarrow> u64 \<Rightarrow> 'fr hart \<Rightarrow> (u64 \<times> 'fr hart) option" where
  "misaligned_load_trap H mcause s =
     (let mstatus = csr_mstatus s;
          mepc = csr_mepc s;
          (fetch, s) = get_insn H mcause mstatus mepc s;
          insn = f_insn fetch
      in if f_error fetch then not_emulated s
         else
           let addr = GET_RS1 insn s + IMM_I insn
           in if insn AND MASK_LW = MATCH_LW
              then let (r, s) = DO_LOAD H addr s
                   in load_done insn mstatus mepc (map_option (\<lambda>v :: u32. scast v) r, s)
              else if insn AND MASK_LD = MATCH_LD
              then let (r, s) = DO_LOAD H addr s in load_done insn mstatus mepc (r, s)
              else if insn AND MASK_LWU = MATCH_LWU
              then let (r, s) = DO_LOAD H addr s
                   in load_done insn mstatus mepc (map_option (\<lambda>v :: u32. ucast v) r, s)
              else if insn AND MASK_FLD = MATCH_FLD
              then let (r, s) = DO_LOAD H addr s
                   in (case r of None \<Rightarrow> not_emulated (restore_mstatus mstatus mepc s)
                       | Some val \<Rightarrow> do { s \<leftarrow> SET_F64_RD H insn val s; emulated mepc s })
              else if insn AND MASK_FLW = MATCH_FLW
              then let (r, s) = DO_LOAD H addr s
                   in (case r of None \<Rightarrow> not_emulated (restore_mstatus mstatus mepc s)
                       | Some val \<Rightarrow> do { s \<leftarrow> SET_F32_RD H insn val s; emulated mepc s })
              else if insn AND MASK_LH = MATCH_LH
              then load_done insn mstatus mepc (load_half H True addr s)
              else if insn AND MASK_LHU = MATCH_LHU
              then load_done insn mstatus mepc (load_half H False addr s)
              else not_emulated s)"

definition store_done :: "u64 \<Rightarrow> u64 \<Rightarrow> unit option \<times> 'fr hart \<Rightarrow> (u64 \<times> 'fr hart) option" where
  "store_done mstatus mepc = (\<lambda>(r, s). case r of
     None \<Rightarrow> not_emulated (restore_mstatus mstatus mepc s)
   | Some _ \<Rightarrow> emulated mepc s)"

definition misaligned_store_trap :: "'fr hw \<Rightarrow> u64 \<Rightarrow> 'fr hart \<Rightarrow> (u64 \<times> 'fr hart) option" where
  "misaligned_store_trap H mcause s =
     (let mstatus = csr_mstatus s;
          mepc = csr_mepc s;
          (fetch, s) = get_insn H mcause mstatus mepc s;
          insn = f_insn fetch
      in if f_error fetch then not_emulated s
         else
           let addr = GET_RS1 insn s + IMM_S insn;
               val = GET_RS2 insn s;
               SW = (\<lambda>val. store_done mstatus mepc
                       (unpriv_mem_access H (user_store_bytes addr (le_bytes 4 (val :: u64))) s));
               SD = (\<lambda>val. store_done mstatus mepc
                       (unpriv_mem_access H (user_store_bytes addr (le_bytes 8 (val :: u64))) s))
           in if insn AND MASK_SW = MATCH_SW then SW val
              else if insn AND MASK_SD = MATCH_SD then SD val
              else if insn AND MASK_SH = MATCH_SH
              then store_done mstatus mepc (unpriv_mem_access H (user_store_bytes addr (le_bytes 2 val)) s)
              else if insn AND MASK_FSD = MATCH_FSD then do { val \<leftarrow> GET_F64_REG H insn 20 s; SD val }
              else if insn AND MASK_FSW = MATCH_FSW
              then do { val \<leftarrow> GET_F32_REG H insn 20 s; SW (scast val) }
              else not_emulated s)"

section \<open>Floating-point loads and stores\<close>

definition emulate_float_load :: "'fr hw \<Rightarrow> u64 \<Rightarrow> u32 \<Rightarrow> u64 \<Rightarrow> u64 \<Rightarrow> 'fr hart
    \<Rightarrow> (u64 \<times> 'fr hart) option" where
  "emulate_float_load H mcause insn mstatus mepc s =
     (let addr = GET_RS1 insn s + IMM_I insn
      in if insn AND MASK_FUNCT3 = MATCH_FLW AND MASK_FUNCT3 then
           if addr mod 4 \<noteq> 0 then misaligned_load_trap H mcause s
           else (case unpriv_mem_access H (user_load 4 addr) s of
                   (None, s) \<Rightarrow> not_emulated (restore_mstatus mstatus mepc s)
                 | (Some val, s) \<Rightarrow> do { s \<leftarrow> SET_F32_RD H insn val s; emulated mepc s })
         else if insn AND MASK_FUNCT3 = MATCH_FLD AND MASK_FUNCT3 then
           if addr mod 8 \<noteq> 0 then misaligned_load_trap H mcause s
           else (case unpriv_mem_access H (user_load 8 addr) s of
                   (None, s) \<Rightarrow> not_emulated (restore_mstatus mstatus mepc s)
                 | (Some val, s) \<Rightarrow> do { s \<leftarrow> SET_F64_RD H insn val s; emulated mepc s })
         else not_emulated (restore_mstatus mstatus mepc s))"

definition emulate_float_store :: "'fr hw \<Rightarrow> u64 \<Rightarrow> u32 \<Rightarrow> u64 \<Rightarrow> u64 \<Rightarrow> 'fr hart
    \<Rightarrow> (u64 \<times> 'fr hart) option" where
  "emulate_float_store H mcause insn mstatus mepc s =
     (let addr = GET_RS1 insn s + IMM_S insn
      in if insn AND MASK_FUNCT3 = MATCH_FSW AND MASK_FUNCT3 then
           if addr mod 4 \<noteq> 0 then misaligned_store_trap H mcause s
           else do {
             val \<leftarrow> GET_F32_REG H insn 20 s;
             store_done mstatus mepc (unpriv_mem_access H (user_store addr (le_bytes 4 val)) s) }
         else if insn AND MASK_FUNCT3 = MATCH_FSD AND MASK_FUNCT3 then
           if addr mod 8 \<noteq> 0 then misaligned_store_trap H mcause s
           else do {
             val \<leftarrow> GET_F64_REG H insn 20 s;
             store_done mstatus mepc (unpriv_mem_access H (user_store addr (le_bytes 8 val)) s) }
         else not_emulated (restore_mstatus mstatus mepc s))"

section \<open>Multiplication and division\<close>

text \<open>C division truncates; a zero divisor and the overflowing quotient have no meaning.\<close>

definition c_div :: "'v::len word \<Rightarrow> 'v word \<Rightarrow> 'v word option" where
  "c_div a b =
     (if b = 0 \<or> (b = - 1 \<and> a = push_bit (LENGTH('v) - 1) 1) then None
      else Some (word_of_int (sgn (sint a) * sgn (sint b) * (\<bar>sint a\<bar> div \<bar>sint b\<bar>))))"

definition c_rem :: "'v::len word \<Rightarrow> 'v word \<Rightarrow> 'v word option" where
  "c_rem a b =
     (if b = 0 \<or> (b = - 1 \<and> a = push_bit (LENGTH('v) - 1) 1) then None
      else Some (word_of_int (sgn (sint a) * (\<bar>sint a\<bar> mod \<bar>sint b\<bar>))))"

definition c_divu :: "'v::len word \<Rightarrow> 'v word \<Rightarrow> 'v word option" where
  "c_divu a b = (if b = 0 then None else Some (a div b))"

definition c_remu :: "'v::len word \<Rightarrow> 'v word \<Rightarrow> 'v word option" where
  "c_remu a b = (if b = 0 then None else Some (a mod b))"

text \<open>\<open>double_int\<close> is the signed 128-bit type.\<close>

definition emulate_mul_div :: "'fr hw \<Rightarrow> u64 \<Rightarrow> u32 \<Rightarrow> u64 \<Rightarrow> u64 \<Rightarrow> 'fr hart \<Rightarrow> (u64 \<times> 'fr hart) option"
  where
  "emulate_mul_div H mcause insn mstatus mepc s =
     (let rs1 = GET_RS1 insn s; rs2 = GET_RS2 insn s;
          val_done = (\<lambda>v. do { val \<leftarrow> v; emulated mepc (SET_RD insn val s) })
      in if insn AND MASK_MUL = MATCH_MUL then val_done (Some (rs1 * rs2))
         else if insn AND MASK_DIV = MATCH_DIV then val_done (c_div rs1 rs2)
         else if insn AND MASK_DIVU = MATCH_DIVU then val_done (c_divu rs1 rs2)
         else if insn AND MASK_REM = MATCH_REM then val_done (c_rem rs1 rs2)
         else if insn AND MASK_REMU = MATCH_REMU then val_done (c_remu rs1 rs2)
         else if insn AND MASK_MULH = MATCH_MULH
         then val_done (Some (ucast (signed_drop_bit 64 (scast rs1 * scast rs2 :: i128))))
         else if insn AND MASK_MULHU = MATCH_MULHU
         then val_done (Some (ucast (signed_drop_bit 64 (ucast rs1 * ucast rs2 :: i128))))
         else if insn AND MASK_MULHSU = MATCH_MULHSU
         then val_done (Some (ucast (signed_drop_bit 64 (scast rs1 * ucast rs2 :: i128))))
         else not_emulated s)"

definition emulate_mul_div32 :: "'fr hw \<Rightarrow> u64 \<Rightarrow> u32 \<Rightarrow> u64 \<Rightarrow> u64 \<Rightarrow> 'fr hart \<Rightarrow> (u64 \<times> 'fr hart) option"
  where
  "emulate_mul_div32 H mcause insn mstatus mepc s =
     (let rs1 = (ucast (GET_RS1 insn s) :: u32); rs2 = (ucast (GET_RS2 insn s) :: u32);
          val_done = (\<lambda>v. do { val \<leftarrow> v; emulated mepc (SET_RD insn (scast (val :: u32)) s) })
      in if insn AND MASK_MUL = MATCH_MULW then val_done (Some (rs1 * rs2))
         else if insn AND MASK_DIV = MATCH_DIV then val_done (c_div rs1 rs2)
         else if insn AND MASK_DIVU = MATCH_DIVU then val_done (c_divu rs1 rs2)
         else if insn AND MASK_REM = MATCH_REM then val_done (c_rem rs1 rs2)
         else if insn AND MASK_REMU = MATCH_REMU then val_done (c_remu rs1 rs2)
         else not_emulated s)"

section \<open>Floating-point control registers\<close>

definition GET_FCSR :: "'fr hart \<Rightarrow> u64" where
  "GET_FCSR s = push_bit 5 (csr_frm s) OR csr_fflags s"

definition emulate_read_csr :: "u32 \<Rightarrow> u64 \<Rightarrow> 'fr hart \<Rightarrow> u64 option" where
  "emulate_read_csr num mstatus s =
     (if mstatus AND MSTATUS_FS = 0 then None
      else if num = CSR_FRM then Some (csr_frm s)
      else if num = CSR_FFLAGS then Some (csr_fflags s)
      else if num = CSR_FCSR then Some (GET_FCSR s)
      else None)"

definition emulate_write_csr :: "u32 \<Rightarrow> u64 \<Rightarrow> 'fr hart \<Rightarrow> 'fr hart option" where
  "emulate_write_csr num val s =
     (if num = CSR_FRM then Some (s\<lparr>csr_frm := val AND 7\<rparr>)
      else if num = CSR_FFLAGS then Some (s\<lparr>csr_fflags := val AND 0x1F\<rparr>)
      else if num = CSR_FCSR then Some (s\<lparr>csr_frm := drop_bit 5 val AND 7, csr_fflags := val AND 0x1F\<rparr>)
      else None)"

definition emulate_system :: "'fr hw \<Rightarrow> u64 \<Rightarrow> u32 \<Rightarrow> u64 \<Rightarrow> u64 \<Rightarrow> 'fr hart \<Rightarrow> (u64 \<times> 'fr hart) option"
  where
  "emulate_system H mcause insn mstatus mepc s =
     (let rs1_num = (ucast (drop_bit 15 insn AND 0x1F) :: u64);
          rs1_val = GET_RS1 insn s;
          csr_num = drop_bit 20 insn
      in case emulate_read_csr csr_num mstatus s of
           None \<Rightarrow> not_emulated s
         | Some csr_val \<Rightarrow>
             let op_val =
                   (if GET_RM insn = 1 then Some (True, rs1_val)
                    else if GET_RM insn = 2 then Some (rs1_num \<noteq> 0, csr_val OR rs1_val)
                    else if GET_RM insn = 3 then Some (rs1_num \<noteq> 0, csr_val AND NOT rs1_val)
                    else if GET_RM insn = 5 then Some (True, rs1_num)
                    else if GET_RM insn = 6 then Some (rs1_num \<noteq> 0, csr_val OR rs1_num)
                    else if GET_RM insn = 7 then Some (rs1_num \<noteq> 0, csr_val AND NOT rs1_num)
                    else None)
             in case op_val of
                  None \<Rightarrow> not_emulated s
                | Some (do_write, new_csr_val) \<Rightarrow>
                    if do_write
                    then (case emulate_write_csr csr_num new_csr_val s of
                            None \<Rightarrow> not_emulated s
                          | Some s \<Rightarrow> emulated mepc (SET_RD insn csr_val s))
                    else emulated mepc (SET_RD insn csr_val s))"

section \<open>Floating-point arithmetic\<close>

text \<open>The mode \<open>SETUP_STATIC_ROUNDING\<close> leaves in \<open>tp\<close>; \<open>None\<close> is its \<open>return -1\<close>.\<close>

definition SETUP_STATIC_ROUNDING :: "u32 \<Rightarrow> 'fr hart \<Rightarrow> 'fr hart option" where
  "SETUP_STATIC_ROUNDING insn s =
     (if insn AND MASK_FUNCT3 = MASK_FUNCT3 then Some (s\<lparr>tp := ucast (csr_frm s)\<rparr>)
      else if 4 < GET_RM insn then None
      else Some (s\<lparr>tp := GET_RM insn\<rparr>))"

definition set_result32 :: "'fr hw \<Rightarrow> u32 \<Rightarrow> u64 \<Rightarrow> u32 \<times> u8 \<Rightarrow> 'fr hart \<Rightarrow> (u64 \<times> 'fr hart) option" where
  "set_result32 H insn mepc = (\<lambda>(v, fl) s. do {
     s \<leftarrow> SET_F32_RD H insn v (softfloat_raiseFlags fl s);
     emulated mepc s })"

definition set_result64 :: "'fr hw \<Rightarrow> u32 \<Rightarrow> u64 \<Rightarrow> u64 \<times> u8 \<Rightarrow> 'fr hart \<Rightarrow> (u64 \<times> 'fr hart) option" where
  "set_result64 H insn mepc = (\<lambda>(v, fl) s. do {
     s \<leftarrow> SET_F64_RD H insn v (softfloat_raiseFlags fl s);
     emulated mepc s })"

definition emulate_any_fadd :: "'fr hw \<Rightarrow> u32 \<Rightarrow> u64 \<Rightarrow> u64 \<Rightarrow> 'fr hart \<Rightarrow> (u64 \<times> 'fr hart) option" where
  "emulate_any_fadd H insn mepc neg_b s =
     (if GET_PRECISION insn = PRECISION_S then do {
        rs1 \<leftarrow> GET_F32_REG H insn 15 s;
        rs2 \<leftarrow> GET_F32_REG H insn 20 s;
        set_result32 H insn mepc (f32_add (tp s) rs1 (rs2 XOR ucast neg_b)) s }
      else if GET_PRECISION insn = PRECISION_D then do {
        rs1 \<leftarrow> GET_F64_REG H insn 15 s;
        rs2 \<leftarrow> GET_F64_REG H insn 20 s;
        set_result64 H insn mepc (f64_add (tp s) rs1 (rs2 XOR push_bit 32 neg_b)) s }
      else not_emulated s)"

definition emulate_fadd :: "'fr hw \<Rightarrow> u64 \<Rightarrow> u32 \<Rightarrow> u64 \<Rightarrow> u64 \<Rightarrow> 'fr hart \<Rightarrow> (u64 \<times> 'fr hart) option" where
  "emulate_fadd H mcause insn mstatus mepc s = emulate_any_fadd H insn mepc 0 s"

definition emulate_fsub :: "'fr hw \<Rightarrow> u64 \<Rightarrow> u32 \<Rightarrow> u64 \<Rightarrow> u64 \<Rightarrow> 'fr hart \<Rightarrow> (u64 \<times> 'fr hart) option" where
  "emulate_fsub H mcause insn mstatus mepc s = emulate_any_fadd H insn mepc 0xFFFFFFFF80000000 s"

definition emulate_fmul :: "'fr hw \<Rightarrow> u64 \<Rightarrow> u32 \<Rightarrow> u64 \<Rightarrow> u64 \<Rightarrow> 'fr hart \<Rightarrow> (u64 \<times> 'fr hart) option" where
  "emulate_fmul H mcause insn mstatus mepc s =
     (if GET_PRECISION insn = PRECISION_S then do {
        rs1 \<leftarrow> GET_F32_REG H insn 15 s;
        rs2 \<leftarrow> GET_F32_REG H insn 20 s;
        set_result32 H insn mepc (f32_mul (tp s) rs1 rs2) s }
      else if GET_PRECISION insn = PRECISION_D then do {
        rs1 \<leftarrow> GET_F64_REG H insn 15 s;
        rs2 \<leftarrow> GET_F64_REG H insn 20 s;
        set_result64 H insn mepc (f64_mul (tp s) rs1 rs2) s }
      else not_emulated s)"

definition emulate_fdiv :: "'fr hw \<Rightarrow> u64 \<Rightarrow> u32 \<Rightarrow> u64 \<Rightarrow> u64 \<Rightarrow> 'fr hart \<Rightarrow> (u64 \<times> 'fr hart) option" where
  "emulate_fdiv H mcause insn mstatus mepc s =
     (if GET_PRECISION insn = PRECISION_S then do {
        rs1 \<leftarrow> GET_F32_REG H insn 15 s;
        rs2 \<leftarrow> GET_F32_REG H insn 20 s;
        set_result32 H insn mepc (f32_div (tp s) rs1 rs2) s }
      else if GET_PRECISION insn = PRECISION_D then do {
        rs1 \<leftarrow> GET_F64_REG H insn 15 s;
        rs2 \<leftarrow> GET_F64_REG H insn 20 s;
        r \<leftarrow> f64_div (tp s) rs1 rs2;
        set_result64 H insn mepc r s }
      else not_emulated s)"

definition emulate_fsqrt :: "'fr hw \<Rightarrow> u64 \<Rightarrow> u32 \<Rightarrow> u64 \<Rightarrow> u64 \<Rightarrow> 'fr hart \<Rightarrow> (u64 \<times> 'fr hart) option" where
  "emulate_fsqrt H mcause insn mstatus mepc s =
     (if drop_bit 20 insn AND 0x1F \<noteq> 0 then not_emulated s
      else if GET_PRECISION insn = PRECISION_S then do {
        rs1 \<leftarrow> GET_F32_REG H insn 15 s;
        r \<leftarrow> f32_sqrt (tp s) rs1;
        set_result32 H insn mepc r s }
      else if GET_PRECISION insn = PRECISION_D then do {
        rs1 \<leftarrow> GET_F64_REG H insn 15 s;
        r \<leftarrow> f64_sqrt (tp s) rs1;
        set_result64 H insn mepc r s }
      else not_emulated s)"

text \<open>The macro works at the width of its operands.\<close>

definition DO_FSGNJ :: "'v::len word \<Rightarrow> 'v word \<Rightarrow> 'v word \<Rightarrow> 'v word" where
  "DO_FSGNJ rs1 rs2 rm =
     (let rs1_sign = drop_bit (LENGTH('v) - 1) rs1;
          rs2_sign = drop_bit (LENGTH('v) - 1) rs2;
          rs1_sign = rs1_sign AND drop_bit 1 rm;
          rs1_sign = rs1_sign XOR (rm XOR rs2_sign)
      in drop_bit 1 (push_bit 1 rs1) OR push_bit (LENGTH('v) - 1) rs1_sign)"

definition emulate_fsgnj :: "'fr hw \<Rightarrow> u64 \<Rightarrow> u32 \<Rightarrow> u64 \<Rightarrow> u64 \<Rightarrow> 'fr hart \<Rightarrow> (u64 \<times> 'fr hart) option" where
  "emulate_fsgnj H mcause insn mstatus mepc s =
     (let rm = GET_RM insn
      in if 3 \<le> rm then not_emulated s
         else if GET_PRECISION insn = PRECISION_S then do {
           rs1 \<leftarrow> GET_F32_REG H insn 15 s;
           rs2 \<leftarrow> GET_F32_REG H insn 20 s;
           set_result32 H insn mepc (DO_FSGNJ rs1 rs2 rm, 0) s }
         else if GET_PRECISION insn = PRECISION_D then do {
           rs1 \<leftarrow> GET_F64_REG H insn 15 s;
           rs2 \<leftarrow> GET_F64_REG H insn 20 s;
           set_result64 H insn mepc (DO_FSGNJ rs1 rs2 (ucast rm), 0) s }
         else not_emulated s)"

definition emulate_fmin :: "'fr hw \<Rightarrow> u64 \<Rightarrow> u32 \<Rightarrow> u64 \<Rightarrow> u64 \<Rightarrow> 'fr hart \<Rightarrow> (u64 \<times> 'fr hart) option" where
  "emulate_fmin H mcause insn mstatus mepc s =
     (let rm = GET_RM insn
      in if 2 \<le> rm then not_emulated s
         else if GET_PRECISION insn = PRECISION_S then do {
           rs1 \<leftarrow> GET_F32_REG H insn 15 s;
           rs2 \<leftarrow> GET_F32_REG H insn 20 s;
           let arg1 = (if rm \<noteq> 0 then rs2 else rs1);
           let arg2 = (if rm \<noteq> 0 then rs1 else rs2);
           let (lt, fl) = f32_lt_quiet arg1 arg2;
           let use_rs1 = (lt \<or> isNaNF32UI rs2);
           set_result32 H insn mepc (if use_rs1 then rs1 else rs2, fl) s }
         else if GET_PRECISION insn = PRECISION_D then do {
           rs1 \<leftarrow> GET_F64_REG H insn 15 s;
           rs2 \<leftarrow> GET_F64_REG H insn 20 s;
           let arg1 = (if rm \<noteq> 0 then rs2 else rs1);
           let arg2 = (if rm \<noteq> 0 then rs1 else rs2);
           let (lt, fl) = f64_lt_quiet arg1 arg2;
           let use_rs1 = (lt \<or> isNaNF64UI rs2);
           set_result64 H insn mepc (if use_rs1 then rs1 else rs2, fl) s }
         else not_emulated s)"

section \<open>Floating-point conversions, comparisons, moves\<close>

definition emulate_fcvt_ff :: "'fr hw \<Rightarrow> u64 \<Rightarrow> u32 \<Rightarrow> u64 \<Rightarrow> u64 \<Rightarrow> 'fr hart \<Rightarrow> (u64 \<times> 'fr hart) option"
  where
  "emulate_fcvt_ff H mcause insn mstatus mepc s =
     (let rs2_num = drop_bit 20 insn AND 0x1F
      in if GET_PRECISION insn = PRECISION_S then
           if rs2_num \<noteq> 1 then not_emulated s
           else do { rs1 \<leftarrow> GET_F64_REG H insn 15 s; set_result32 H insn mepc (f64_to_f32 (tp s) rs1) s }
         else if GET_PRECISION insn = PRECISION_D then
           if rs2_num \<noteq> 0 then not_emulated s
           else do { rs1 \<leftarrow> GET_F32_REG H insn 15 s; set_result64 H insn mepc (f32_to_f64 rs1) s }
         else not_emulated s)"

text \<open>The magnitude and the sign of the integer operand; the negation of the smallest 32-bit
  integer overflows and has no meaning in C.\<close>

definition fcvt_fi_operand :: "u32 \<Rightarrow> u64 \<Rightarrow> (u64 \<times> bool) option option" where
  "fcvt_fi_operand rs2_num v =
     (if rs2_num = 0 then
        let w = (ucast v :: u32); negative = (sint w < 0)
        in if w = 0x80000000 then None
           else Some (Some (if negative then scast (- w) else scast w, negative))
      else if rs2_num = 1 then Some (Some (ucast (ucast v :: u32), False))
      else if rs2_num = 2 then
        let negative = (sint v < 0) in Some (Some (if negative then - v else v, negative))
      else if rs2_num = 3 then Some (Some (v, False))
      else Some None)"

definition emulate_fcvt_fi :: "'fr hw \<Rightarrow> u64 \<Rightarrow> u32 \<Rightarrow> u64 \<Rightarrow> u64 \<Rightarrow> 'fr hart \<Rightarrow> (u64 \<times> 'fr hart) option"
  where
  "emulate_fcvt_fi H mcause insn mstatus mepc s =
     (if GET_PRECISION insn \<noteq> PRECISION_S \<and> GET_PRECISION insn \<noteq> PRECISION_D then not_emulated s
      else do {
        r \<leftarrow> fcvt_fi_operand (drop_bit 20 insn AND 0x1F) (GET_RS1 insn s);
        case r of None \<Rightarrow> not_emulated s
        | Some (uint_val, negative) \<Rightarrow>
            let (float64, fl) = ui64_to_f64 (tp s) uint_val;
                float64 = (if negative then float64 XOR 0x8000000000000000 else float64)
            in if GET_PRECISION insn = PRECISION_S
               then let (float32, fl') = f64_to_f32 (tp s) float64
                    in set_result32 H insn mepc (float32, fl OR fl') s
               else set_result64 H insn mepc (float64, fl) s })"

text \<open>\<open>(result, limit, limit_result)\<close> of the \<open>switch\<close> in \<open>emulate_fcvt_if\<close>.\<close>

definition fcvt_if_limits :: "u32 \<Rightarrow> bool \<Rightarrow> u64 \<Rightarrow> u64 \<times> u64 \<times> u64" where
  "fcvt_if_limits rs2_num negative uint_val =
     (if rs2_num = 0 then
        if negative then (scast (ucast (- uint_val) :: u32), 0x80000000, 0x80000000)
        else (scast (ucast uint_val :: u32), 0x7FFFFFFF, 0x7FFFFFFF)
      else if rs2_num = 1 then
        if negative then (0, 0, 0xFFFFFFFF)
        else (ucast (ucast uint_val :: u32), 0xFFFFFFFF, 0xFFFFFFFF)
      else if rs2_num = 2 then
        if negative then (- uint_val, 0x8000000000000000, 0x8000000000000000)
        else (uint_val, 0x7FFFFFFFFFFFFFFF, 0x7FFFFFFFFFFFFFFF)
      else
        if negative then (0, 0, 0xFFFFFFFFFFFFFFFF)
        else (uint_val, 0xFFFFFFFFFFFFFFFF, 0xFFFFFFFFFFFFFFFF))"

definition emulate_fcvt_if :: "'fr hw \<Rightarrow> u64 \<Rightarrow> u32 \<Rightarrow> u64 \<Rightarrow> u64 \<Rightarrow> 'fr hart \<Rightarrow> (u64 \<times> 'fr hart) option"
  where
  "emulate_fcvt_if H mcause insn mstatus mepc s =
     (let rs2_num = drop_bit 20 insn AND 0x1F
      in if 4 \<le> rs2_num then not_emulated s
         else if GET_PRECISION insn \<noteq> PRECISION_S \<and> GET_PRECISION insn \<noteq> PRECISION_D then not_emulated s
         else do {
           (float64, fl) \<leftarrow>
             (if GET_PRECISION insn = PRECISION_S
              then do { rs1 \<leftarrow> GET_F32_REG H insn 15 s; Some (f32_to_f64 rs1) }
              else do { rs1 \<leftarrow> GET_F64_REG H insn 15 s; Some (rs1, 0) });
           let negative = (sint float64 < 0);
           let float64 = (if negative then float64 XOR 0x8000000000000000 else float64);
           let (uint_val, fl') = f64_to_ui64 float64 (tp s) True;
           let (result, limit, limit_result) = fcvt_if_limits rs2_num negative uint_val;
           let s = softfloat_raiseFlags (fl OR fl') s;
           let (result, s) = (if limit < uint_val
                              then (limit_result, softfloat_raiseFlags softfloat_flag_invalid s)
                              else (result, s));
           emulated mepc (SET_RD insn result (SET_FS_DIRTY s)) })"

text \<open>\<open>rm\<close> 0 is \<open>FLE\<close>, 1 \<open>FLT\<close>, 2 \<open>FEQ\<close>.\<close>

definition fcmp_result :: "u32 \<Rightarrow> bool \<times> u8 \<Rightarrow> bool \<times> u8 \<Rightarrow> bool \<times> u8" where
  "fcmp_result rm eqv ltv =
     (if rm = 1 then ltv
      else if rm = 0 \<and> \<not> fst eqv then (fst ltv, snd eqv OR snd ltv)
      else eqv)"

definition emulate_fcmp :: "'fr hw \<Rightarrow> u64 \<Rightarrow> u32 \<Rightarrow> u64 \<Rightarrow> u64 \<Rightarrow> 'fr hart \<Rightarrow> (u64 \<times> 'fr hart) option" where
  "emulate_fcmp H mcause insn mstatus mepc s =
     (let rm = GET_RM insn
      in if 3 \<le> rm then not_emulated s
         else if GET_PRECISION insn = PRECISION_S then do {
           rs1 \<leftarrow> GET_F32_REG H insn 15 s;
           rs2 \<leftarrow> GET_F32_REG H insn 20 s;
           let (result, fl) = fcmp_result rm (f32_eq rs1 rs2) (f32_lt rs1 rs2);
           emulated mepc (SET_RD insn (b2w result) (softfloat_raiseFlags fl s)) }
         else if GET_PRECISION insn = PRECISION_D then do {
           rs1 \<leftarrow> GET_F64_REG H insn 15 s;
           rs2 \<leftarrow> GET_F64_REG H insn 20 s;
           let (result, fl) = fcmp_result rm (f64_eq rs1 rs2) (f64_lt rs1 rs2);
           emulated mepc (SET_RD insn (b2w result) (softfloat_raiseFlags fl s)) }
         else not_emulated s)"

definition emulate_fmv_if :: "'fr hw \<Rightarrow> u64 \<Rightarrow> u32 \<Rightarrow> u64 \<Rightarrow> u64 \<Rightarrow> 'fr hart \<Rightarrow> (u64 \<times> 'fr hart) option" where
  "emulate_fmv_if H mcause insn mstatus mepc s =
     (if insn AND MASK_FMV_X_S = MATCH_FMV_X_S then do {
        rs1 \<leftarrow> GET_F32_REG H insn 15 s; emulated mepc (SET_RD insn (scast rs1) s) }
      else if insn AND MASK_FMV_X_D = MATCH_FMV_X_D then do {
        rs1 \<leftarrow> GET_F64_REG H insn 15 s; emulated mepc (SET_RD insn rs1 s) }
      else not_emulated s)"

definition emulate_fmv_fi :: "'fr hw \<Rightarrow> u64 \<Rightarrow> u32 \<Rightarrow> u64 \<Rightarrow> u64 \<Rightarrow> 'fr hart \<Rightarrow> (u64 \<times> 'fr hart) option" where
  "emulate_fmv_fi H mcause insn mstatus mepc s =
     (let rs1 = GET_RS1 insn s
      in if insn AND MASK_FMV_S_X = MATCH_FMV_S_X then do {
           s \<leftarrow> SET_F32_RD H insn (ucast rs1) s; emulated mepc s }
         else if insn AND MASK_FMV_D_X = MATCH_FMV_D_X then do {
           s \<leftarrow> SET_F64_RD H insn rs1 s; emulated mepc s }
         else not_emulated s)"

definition fp_emulation_table :: "('fr hw \<Rightarrow> u64 \<Rightarrow> u32 \<Rightarrow> u64 \<Rightarrow> u64 \<Rightarrow> 'fr hart \<Rightarrow> (u64 \<times> 'fr hart) option) list"
  where
  "fp_emulation_table = [
     emulate_fadd, emulate_fsub, emulate_fmul, emulate_fdiv,
     emulate_fsgnj, emulate_fmin, truly_illegal_insn, truly_illegal_insn,
     emulate_fcvt_ff, truly_illegal_insn, truly_illegal_insn, emulate_fsqrt,
     truly_illegal_insn, truly_illegal_insn, truly_illegal_insn, truly_illegal_insn,
     truly_illegal_insn, truly_illegal_insn, truly_illegal_insn, truly_illegal_insn,
     emulate_fcmp, truly_illegal_insn, truly_illegal_insn, truly_illegal_insn,
     emulate_fcvt_if, truly_illegal_insn, emulate_fcvt_fi, truly_illegal_insn,
     emulate_fmv_if, truly_illegal_insn, emulate_fmv_fi, truly_illegal_insn]"

definition emulate_fp :: "'fr hw \<Rightarrow> u64 \<Rightarrow> u32 \<Rightarrow> u64 \<Rightarrow> u64 \<Rightarrow> 'fr hart \<Rightarrow> (u64 \<times> 'fr hart) option" where
  "emulate_fp H mcause insn mstatus mepc s =
     (if mstatus AND MSTATUS_FS = 0 then not_emulated s
      else
        let f = fp_emulation_table ! (unat (drop_bit 25 insn AND 0x7C) div 4)
        in case SETUP_STATIC_ROUNDING insn s of
             None \<Rightarrow> not_emulated s
           | Some s \<Rightarrow> f H mcause insn mstatus mepc s)"

definition emulate_any_fmadd :: "'fr hw \<Rightarrow> u32 \<Rightarrow> u32 \<Rightarrow> u64 \<Rightarrow> u64 \<Rightarrow> 'fr hart \<Rightarrow> (u64 \<times> 'fr hart) option" where
  "emulate_any_fmadd H opr insn mstatus mepc s =
     (if mstatus AND MSTATUS_FS = 0 then not_emulated s
      else case SETUP_STATIC_ROUNDING insn s of
        None \<Rightarrow> not_emulated s
      | Some s \<Rightarrow>
          if GET_PRECISION insn = PRECISION_S then do {
            rs1 \<leftarrow> GET_F32_REG H insn 15 s;
            rs2 \<leftarrow> GET_F32_REG H insn 20 s;
            rs3 \<leftarrow> GET_F32_REG H insn 27 s;
            set_result32 H insn mepc (softfloat_mulAddF32 (tp s) opr rs1 rs2 rs3) s }
          else if GET_PRECISION insn = PRECISION_D then do {
            rs1 \<leftarrow> GET_F64_REG H insn 15 s;
            rs2 \<leftarrow> GET_F64_REG H insn 20 s;
            rs3 \<leftarrow> GET_F64_REG H insn 27 s;
            set_result64 H insn mepc (softfloat_mulAddF64 (tp s) opr rs1 rs2 rs3) s }
          else not_emulated s)"

definition emulate_fmadd :: "'fr hw \<Rightarrow> u64 \<Rightarrow> u32 \<Rightarrow> u64 \<Rightarrow> u64 \<Rightarrow> 'fr hart \<Rightarrow> (u64 \<times> 'fr hart) option" where
  "emulate_fmadd H mcause insn mstatus mepc s = emulate_any_fmadd H 0 insn mstatus mepc s"

definition emulate_fmsub :: "'fr hw \<Rightarrow> u64 \<Rightarrow> u32 \<Rightarrow> u64 \<Rightarrow> u64 \<Rightarrow> 'fr hart \<Rightarrow> (u64 \<times> 'fr hart) option" where
  "emulate_fmsub H mcause insn mstatus mepc s = emulate_any_fmadd H 1 insn mstatus mepc s"

definition emulate_fnmadd :: "'fr hw \<Rightarrow> u64 \<Rightarrow> u32 \<Rightarrow> u64 \<Rightarrow> u64 \<Rightarrow> 'fr hart \<Rightarrow> (u64 \<times> 'fr hart) option" where
  "emulate_fnmadd H mcause insn mstatus mepc s = emulate_any_fmadd H (1 OR 2) insn mstatus mepc s"

definition emulate_fnmsub :: "'fr hw \<Rightarrow> u64 \<Rightarrow> u32 \<Rightarrow> u64 \<Rightarrow> u64 \<Rightarrow> 'fr hart \<Rightarrow> (u64 \<times> 'fr hart) option" where
  "emulate_fnmsub H mcause insn mstatus mepc s = emulate_any_fmadd H 2 insn mstatus mepc s"

section \<open>Dispatch\<close>

definition illegal_insn_trap_table
  :: "('fr hw \<Rightarrow> u64 \<Rightarrow> u32 \<Rightarrow> u64 \<Rightarrow> u64 \<Rightarrow> 'fr hart \<Rightarrow> (u64 \<times> 'fr hart) option) list" where
  "illegal_insn_trap_table = [
     truly_illegal_insn, emulate_float_load, truly_illegal_insn, truly_illegal_insn,
     truly_illegal_insn, truly_illegal_insn, truly_illegal_insn, truly_illegal_insn,
     truly_illegal_insn, emulate_float_store, truly_illegal_insn, truly_illegal_insn,
     emulate_mul_div, truly_illegal_insn, emulate_mul_div32, truly_illegal_insn,
     emulate_fmadd, emulate_fmsub, emulate_fnmsub, emulate_fnmadd,
     emulate_fp, truly_illegal_insn, truly_illegal_insn, truly_illegal_insn,
     truly_illegal_insn, truly_illegal_insn, truly_illegal_insn, truly_illegal_insn,
     emulate_system, truly_illegal_insn, truly_illegal_insn, truly_illegal_insn]"

definition illegal_insn_trap :: "'fr hw \<Rightarrow> u64 \<Rightarrow> 'fr hart \<Rightarrow> (u64 \<times> 'fr hart) option" where
  "illegal_insn_trap H mcause s =
     (let mstatus = csr_mstatus s;
          mepc = csr_mepc s;
          (fetch, s) = get_insn H mcause mstatus mepc s;
          insn = f_insn fetch
      in if f_error fetch \<or> insn AND 3 \<noteq> 3 then not_emulated s
         else (illegal_insn_trap_table ! (unat (insn AND 0x7C) div 4)) H mcause insn mstatus mepc s)"

end
