(* ===== verification/Diskio.thy ===== *)
theory Diskio
  imports Devices
begin

text \<open>
  \<open>driver/diskio.c\<close>: the SD card driver in SPI mode.  The state adds the driver's \<open>Stat\<close> and
  \<open>CardType\<close> and the memory of the buffers to the device state of \<open>Devices\<close>.  Every function
  has an \<open>option\<close> result: the SPI transfers poll the controller, and \<open>xmit_datablock\<close> waits
  without a time limit for the card to release the data line; \<open>None\<close> also stands for the two
  shifts of \<open>disk_ioctl\<close> by an amount the card can make negative.
\<close>

section \<open>State\<close>

record 'd disk_sys =
  sd_dev :: 'd
  sd_mem :: mem
  Stat :: u8
  CardType :: u8

abbreviation (input) CMD0 :: u8 where "CMD0 \<equiv> 0"
abbreviation (input) CMD1 :: u8 where "CMD1 \<equiv> 1"
abbreviation (input) ACMD41 :: u8 where "ACMD41 \<equiv> 0xA9"
abbreviation (input) CMD8 :: u8 where "CMD8 \<equiv> 8"
abbreviation (input) CMD9 :: u8 where "CMD9 \<equiv> 9"
abbreviation (input) CMD10 :: u8 where "CMD10 \<equiv> 10"
abbreviation (input) CMD12 :: u8 where "CMD12 \<equiv> 12"
abbreviation (input) ACMD13 :: u8 where "ACMD13 \<equiv> 0x8D"
abbreviation (input) CMD16 :: u8 where "CMD16 \<equiv> 16"
abbreviation (input) CMD17 :: u8 where "CMD17 \<equiv> 17"
abbreviation (input) CMD18 :: u8 where "CMD18 \<equiv> 18"
abbreviation (input) ACMD23 :: u8 where "ACMD23 \<equiv> 0x97"
abbreviation (input) CMD24 :: u8 where "CMD24 \<equiv> 24"
abbreviation (input) CMD25 :: u8 where "CMD25 \<equiv> 25"
abbreviation (input) CMD55 :: u8 where "CMD55 \<equiv> 55"
abbreviation (input) CMD58 :: u8 where "CMD58 \<equiv> 58"

abbreviation (input) STA_NOINIT :: u8 where "STA_NOINIT \<equiv> 0x01"
abbreviation (input) STA_NODISK :: u8 where "STA_NODISK \<equiv> 0x02"
abbreviation (input) STA_PROTECT :: u8 where "STA_PROTECT \<equiv> 0x04"

abbreviation (input) CT_MMC :: u8 where "CT_MMC \<equiv> 0x01"
abbreviation (input) CT_SD1 :: u8 where "CT_SD1 \<equiv> 0x02"
abbreviation (input) CT_SD2 :: u8 where "CT_SD2 \<equiv> 0x04"
abbreviation (input) CT_SDC :: u8 where "CT_SDC \<equiv> 0x06"
abbreviation (input) CT_BLOCK :: u8 where "CT_BLOCK \<equiv> 0x08"

datatype DRESULT = RES_OK | RES_ERROR | RES_WRPRT | RES_NOTRDY | RES_PARERR

section \<open>Transfers\<close>

definition power_on :: "'d bus \<Rightarrow> 'd disk_sys \<Rightarrow> 'd disk_sys" where
  "power_on B s = s\<lparr>sd_dev := spi_init B (sd_dev s)\<rparr>"

definition power_off :: "'d bus \<Rightarrow> 'd disk_sys \<Rightarrow> 'd disk_sys" where
  "power_off B s = s\<lparr>sd_dev := spi_disable B (sd_dev s)\<rparr>"

definition xchg_spi :: "'d bus \<Rightarrow> u8 \<Rightarrow> 'd disk_sys \<Rightarrow> (u8 \<times> 'd disk_sys) option" where
  "xchg_spi B dat s = do { (v, d) \<leftarrow> spi_send B dat (sd_dev s); Some (v, s\<lparr>sd_dev := d\<rparr>) }"

text \<open>\<open>n\<close> exchanges of \<open>0xFF\<close> whose answers are collected.\<close>

fun xchg_n :: "'d bus \<Rightarrow> nat \<Rightarrow> 'd disk_sys \<Rightarrow> (u8 list \<times> 'd disk_sys) option" where
  "xchg_n B 0 s = Some ([], s)"
| "xchg_n B (Suc n) s = do {
     (b, s) \<leftarrow> xchg_spi B 0xFF s;
     (bs, s) \<leftarrow> xchg_n B n s;
     Some (b # bs, s) }"

text \<open>The block loops, 16 bytes at a time.\<close>

function xmit_loop :: "'d bus \<Rightarrow> u8 list \<Rightarrow> 'd \<Rightarrow> 'd option" where
  "xmit_loop B bs d =
     (if bs = [] then Some d
      else do { d \<leftarrow> spi_send_multi B (take 16 bs) d; xmit_loop B (drop 16 bs) d })"
  by pat_completeness auto
termination by (relation "measure (\<lambda>(B, bs, d). length bs)") auto

definition xmit_spi_multi :: "'d bus \<Rightarrow> u64 \<Rightarrow> nat \<Rightarrow> 'd disk_sys \<Rightarrow> 'd disk_sys option" where
  "xmit_spi_multi B p cnt s = do {
     d \<leftarrow> xmit_loop B (mem_read (sd_mem s) p cnt) (sd_dev s);
     Some (s\<lparr>sd_dev := d\<rparr>) }"

function rcvr_loop :: "'d bus \<Rightarrow> nat \<Rightarrow> 'd \<Rightarrow> (u8 list \<times> 'd) option" where
  "rcvr_loop B cnt d =
     (if cnt = 0 then Some ([], d)
      else do {
        (bs, d) \<leftarrow> spi_recv_multi B (min 16 cnt) d;
        (bs', d) \<leftarrow> rcvr_loop B (cnt - 16) d;
        Some (bs @ bs', d) })"
  by pat_completeness auto
termination by (relation "measure (\<lambda>(B, cnt, d). cnt)") auto

declare xmit_loop.simps [simp del] rcvr_loop.simps [simp del]

definition rcvr_spi_multi :: "'d bus \<Rightarrow> u64 \<Rightarrow> nat \<Rightarrow> 'd disk_sys \<Rightarrow> 'd disk_sys option" where
  "rcvr_spi_multi B p cnt s = do {
     (bs, d) \<leftarrow> rcvr_loop B cnt (sd_dev s);
     Some (s\<lparr>sd_dev := d, sd_mem := mem_write (sd_mem s) p bs\<rparr>) }"

section \<open>Card protocol\<close>

text \<open>\<open>do { d = xchg_spi(0xFF); timeout--; } while (go_on d && timeout);\<close>  The counter is a 32-bit
  word; \<open>n\<close> iterations are left, none meaning \<open>2 ^ 32\<close> for a counter that starts at 0.\<close>

fun xchg_until :: "'d bus \<Rightarrow> (u8 \<Rightarrow> bool) \<Rightarrow> nat \<Rightarrow> 'd disk_sys \<Rightarrow> (u8 \<times> 'd disk_sys) option" where
  "xchg_until B go_on 0 s = xchg_spi B 0xFF s"
| "xchg_until B go_on (Suc n) s = do {
     (d, s) \<leftarrow> xchg_spi B 0xFF s;
     if go_on d then xchg_until B go_on n s else Some (d, s) }"

definition wait_ready :: "'d bus \<Rightarrow> u32 \<Rightarrow> 'd disk_sys \<Rightarrow> (bool \<times> 'd disk_sys) option" where
  "wait_ready B wt s = do {
     (d, s) \<leftarrow> xchg_until B (\<lambda>d. d \<noteq> 0xFF) (unat (wt * 5000 - 1)) s;
     Some (d = 0xFF, s) }"

definition deselect :: "'d bus \<Rightarrow> 'd disk_sys \<Rightarrow> 'd disk_sys" where
  "deselect B s = s\<lparr>sd_dev := spi_deselect_slave B (sd_dev s)\<rparr>"

definition select :: "'d bus \<Rightarrow> 'd disk_sys \<Rightarrow> (bool \<times> 'd disk_sys) option" where
  "select B s = do {
     (ok, s) \<leftarrow> wait_ready B 500 (s\<lparr>sd_dev := spi_select_slave B (sd_dev s)\<rparr>);
     Some (if ok then (True, s) else (False, deselect B s)) }"

definition rcvr_datablock :: "'d bus \<Rightarrow> u64 \<Rightarrow> nat \<Rightarrow> 'd disk_sys \<Rightarrow> (bool \<times> 'd disk_sys) option" where
  "rcvr_datablock B buff btr s = do {
     (token, s) \<leftarrow> xchg_until B (\<lambda>token. token = 0xFF) (200 * 5000 - 1) s;
     if token \<noteq> 0xFE then Some (False, s)
     else do {
       s \<leftarrow> rcvr_spi_multi B buff btr s;
       (_, s) \<leftarrow> xchg_spi B 0xFF s;
       (_, s) \<leftarrow> xchg_spi B 0xFF s;
       Some (True, s) } }"

text \<open>\<open>while (xchg_spi(0xFF) == 0x00);\<close>\<close>

partial_function (option) skip_zeros :: "'d bus \<Rightarrow> 'd disk_sys \<Rightarrow> 'd disk_sys option" where
  "skip_zeros B s = do { (v, s) \<leftarrow> xchg_spi B 0xFF s; if v = 0 then skip_zeros B s else Some s }"

declare skip_zeros.simps [code]

definition xmit_datablock :: "'d bus \<Rightarrow> u64 \<Rightarrow> u8 \<Rightarrow> 'd disk_sys \<Rightarrow> (bool \<times> 'd disk_sys) option" where
  "xmit_datablock B buff token s = do {
     (ok, s) \<leftarrow> wait_ready B 500 s;
     if \<not> ok then Some (False, s)
     else do {
       (_, s) \<leftarrow> xchg_spi B token s;
       (accepted, s) \<leftarrow>
         (if token \<noteq> 0xFD
          then do {
            s \<leftarrow> xmit_spi_multi B buff 512 s;
            s \<leftarrow> skip_zeros B s;
            s \<leftarrow> skip_zeros B s;
            (resp, s) \<leftarrow> xchg_spi B 0xFF s;
            Some (resp AND 0x1F = 0x05, s) }
          else Some (True, s));
       if \<not> accepted then Some (False, s)
       else do {
         (_, s) \<leftarrow> wait_ready B 500 s;
         Some (True, s) } } }"

text \<open>The packet of a plain command and its response; \<open>cmd\<close> has bit 7 clear here.\<close>

definition send_plain_cmd :: "'d bus \<Rightarrow> u8 \<Rightarrow> u32 \<Rightarrow> 'd disk_sys \<Rightarrow> (u8 \<times> 'd disk_sys) option" where
  "send_plain_cmd B cmd arg s = do {
     (ready, s) \<leftarrow> (if cmd \<noteq> CMD12 then select B (deselect B s) else Some (True, s));
     if \<not> ready then Some (0xFF, s)
     else do {
       (_, s) \<leftarrow> xchg_spi B (0x40 OR cmd) s;
       (_, s) \<leftarrow> xchg_spi B (ucast (drop_bit 24 arg)) s;
       (_, s) \<leftarrow> xchg_spi B (ucast (drop_bit 16 arg)) s;
       (_, s) \<leftarrow> xchg_spi B (ucast (drop_bit 8 arg)) s;
       (_, s) \<leftarrow> xchg_spi B (ucast arg) s;
       let n = (if cmd = CMD8 then 0x87 else if cmd = CMD0 then 0x95 else 0x01);
       (_, s) \<leftarrow> xchg_spi B n s;
       (_, s) \<leftarrow> (if cmd = CMD12 then xchg_spi B 0xFF s else Some (0, s));
       xchg_until B (\<lambda>res. res AND 0x80 \<noteq> 0) (10 - 1) s } }"

definition send_cmd :: "'d bus \<Rightarrow> u8 \<Rightarrow> u32 \<Rightarrow> 'd disk_sys \<Rightarrow> (u8 \<times> 'd disk_sys) option" where
  "send_cmd B cmd arg s =
     (if cmd AND 0x80 \<noteq> 0
      then do {
        (res, s) \<leftarrow> send_plain_cmd B CMD55 0 s;
        if 1 < res then Some (res, s) else send_plain_cmd B (cmd AND 0x7F) arg s }
      else send_plain_cmd B cmd arg s)"

section \<open>Initialisation\<close>

text \<open>\<open>timeout-- && send_cmd(cmd, arg)\<close>: the command is sent only if the counter was not 0; the
  counter is decremented in any case.\<close>

definition timed_cmd :: "'d bus \<Rightarrow> u32 \<Rightarrow> u8 \<Rightarrow> u32 \<Rightarrow> 'd disk_sys
    \<Rightarrow> (u8 option \<times> u32 \<times> 'd disk_sys) option" where
  "timed_cmd B timeout cmd arg s =
     (if timeout = 0 then Some (None, timeout - 1, s)
      else do { (res, s) \<leftarrow> send_cmd B cmd arg s; Some (Some res, timeout - 1, s) })"

text \<open>\<open>while (timeout-- && send_cmd(cmd, arg));\<close>\<close>

function idle_loop :: "'d bus \<Rightarrow> u32 \<Rightarrow> u8 \<Rightarrow> u32 \<Rightarrow> 'd disk_sys \<Rightarrow> (u32 \<times> 'd disk_sys) option" where
  "idle_loop B timeout cmd arg s =
     (if timeout = 0 then Some (timeout - 1, s)
      else do {
        (res, s) \<leftarrow> send_cmd B cmd arg s;
        if res \<noteq> 0 then idle_loop B (timeout - 1) cmd arg s else Some (timeout - 1, s) })"
  by pat_completeness auto
termination
  by (relation "measure (\<lambda>(B, timeout, cmd, arg, s). unat timeout)") (auto simp: unat_minus_one unat_gt_0)

declare idle_loop.simps [simp del]

definition init_sd2 :: "'d bus \<Rightarrow> u32 \<Rightarrow> 'd disk_sys \<Rightarrow> (u8 \<times> 'd disk_sys) option" where
  "init_sd2 B timeout s = do {
     (ocr, s) \<leftarrow> xchg_n B 4 s;
     if ocr ! 2 = 0x01 \<and> ocr ! 3 = 0xAA
     then do {
       (timeout, s) \<leftarrow> idle_loop B timeout ACMD41 (push_bit 30 1) s;
       (res, timeout, s) \<leftarrow> timed_cmd B timeout CMD58 0 s;
       if res = Some 0
       then do {
         (ocr, s) \<leftarrow> xchg_n B 4 s;
         Some (if ocr ! 0 AND 0x40 \<noteq> 0 then CT_SD2 OR CT_BLOCK else CT_SD2, s) }
       else Some (0, s) }
     else Some (0, s) }"

text \<open>\<open>if (timeout-- || send_cmd(CMD16, 512) != 0) ty = 0;\<close> sends the command only if the counter
  is 0.\<close>

definition init_sd1_mmc :: "'d bus \<Rightarrow> u32 \<Rightarrow> 'd disk_sys \<Rightarrow> (u8 \<times> 'd disk_sys) option" where
  "init_sd1_mmc B timeout s = do {
     (res, timeout, s) \<leftarrow> timed_cmd B timeout ACMD41 0 s;
     let (ty, cmd) = (case res of Some r \<Rightarrow> if r \<le> 1 then (CT_SD1, ACMD41) else (CT_MMC, CMD1)
                      | None \<Rightarrow> (CT_MMC, CMD1));
     (timeout, s) \<leftarrow> idle_loop B timeout cmd 0 s;
     if timeout \<noteq> 0 then Some (0, s)
     else do {
       (res, s) \<leftarrow> send_cmd B CMD16 512 s;
       Some (if res \<noteq> 0 then 0 else ty, s) } }"

definition disk_initialize :: "'d bus \<Rightarrow> u8 \<Rightarrow> 'd disk_sys \<Rightarrow> (u8 \<times> 'd disk_sys) option" where
  "disk_initialize B pdrv s =
     (if pdrv \<noteq> 0 then Some (STA_NOINIT, s)
      else
        let s = power_off B s
        in if Stat s AND STA_NODISK \<noteq> 0 then Some (Stat s, s)
           else do {
             (_, s) \<leftarrow> xchg_n B 10 (power_on B s);
             (res, s) \<leftarrow> send_cmd B CMD0 0 s;
             (ty, s) \<leftarrow>
               (if res = 1
                then do {
                  (res, timeout, s) \<leftarrow> timed_cmd B (1000 * 1000) CMD8 0x1AA s;
                  if res = Some 1 then init_sd2 B timeout s else init_sd1_mmc B timeout s }
                else Some (0, s));
             let s = deselect B (s\<lparr>CardType := ty\<rparr>);
             let s = (if ty \<noteq> 0 then s\<lparr>Stat := Stat s AND NOT STA_NOINIT\<rparr> else power_off B s);
             Some (Stat s, s) })"

definition disk_status :: "u8 \<Rightarrow> 'd disk_sys \<Rightarrow> u8" where
  "disk_status pdrv s = (if pdrv \<noteq> 0 then STA_NOINIT else Stat s)"

section \<open>Reading and writing sectors\<close>

text \<open>\<open>do { if (!block) break; buff += 512; } while (--count);\<close>; the result is the count left.\<close>

fun read_blocks :: "'d bus \<Rightarrow> nat \<Rightarrow> u64 \<Rightarrow> 'd disk_sys \<Rightarrow> (nat \<times> 'd disk_sys) option" where
  "read_blocks B 0 buff s = Some (0, s)"
| "read_blocks B (Suc n) buff s = do {
     (ok, s) \<leftarrow> rcvr_datablock B buff 512 s;
     if \<not> ok then Some (Suc n, s) else read_blocks B n (buff + 512) s }"

definition block_address :: "'d disk_sys \<Rightarrow> u32 \<Rightarrow> u32" where
  "block_address s sector = (if CardType s AND CT_BLOCK = 0 then sector * 512 else sector)"

definition disk_read :: "'d bus \<Rightarrow> u8 \<Rightarrow> u64 \<Rightarrow> u32 \<Rightarrow> u32 \<Rightarrow> 'd disk_sys
    \<Rightarrow> (DRESULT \<times> 'd disk_sys) option" where
  "disk_read B pdrv buff sector count s =
     (if pdrv \<noteq> 0 \<or> count = 0 then Some (RES_PARERR, s)
      else if Stat s AND STA_NOINIT \<noteq> 0 then Some (RES_NOTRDY, s)
      else do {
        let cmd = (if 1 < count then CMD18 else CMD17);
        (res, s) \<leftarrow> send_cmd B cmd (block_address s sector) s;
        (left, s) \<leftarrow>
          (if res = 0
           then do {
             (left, s) \<leftarrow> read_blocks B (unat count) buff s;
             (_, s) \<leftarrow> (if cmd = CMD18 then send_cmd B CMD12 0 s else Some (0, s));
             Some (left, s) }
           else Some (unat count, s));
        Some (if left \<noteq> 0 then RES_ERROR else RES_OK, deselect B s) })"

fun write_blocks :: "'d bus \<Rightarrow> nat \<Rightarrow> u64 \<Rightarrow> 'd disk_sys \<Rightarrow> (nat \<times> 'd disk_sys) option" where
  "write_blocks B 0 buff s = Some (0, s)"
| "write_blocks B (Suc n) buff s = do {
     (ok, s) \<leftarrow> xmit_datablock B buff 0xFC s;
     if \<not> ok then Some (Suc n, s) else write_blocks B n (buff + 512) s }"

definition disk_write :: "'d bus \<Rightarrow> u8 \<Rightarrow> u64 \<Rightarrow> u32 \<Rightarrow> u32 \<Rightarrow> 'd disk_sys
    \<Rightarrow> (DRESULT \<times> 'd disk_sys) option" where
  "disk_write B pdrv buff sector count s =
     (if pdrv \<noteq> 0 \<or> count = 0 then Some (RES_PARERR, s)
      else if Stat s AND STA_NOINIT \<noteq> 0 then Some (RES_NOTRDY, s)
      else if Stat s AND STA_PROTECT \<noteq> 0 then Some (RES_WRPRT, s)
      else do {
        let sector = block_address s sector;
        (left, s) \<leftarrow>
          (if count = 1
           then do {
             (res, s) \<leftarrow> send_cmd B CMD24 sector s;
             if res = 0
             then do {
               (ok, s) \<leftarrow> xmit_datablock B buff 0xFE s;
               Some (if ok then 0 else unat count, s) }
             else Some (unat count, s) }
           else do {
             (_, s) \<leftarrow> (if CardType s AND CT_SDC \<noteq> 0 then send_cmd B ACMD23 count s else Some (0, s));
             (res, s) \<leftarrow> send_cmd B CMD25 sector s;
             if res = 0
             then do {
               (left, s) \<leftarrow> write_blocks B (unat count) buff s;
               (ok, s) \<leftarrow> xmit_datablock B 0 0xFD s;
               Some (if ok then left else 1, s) }
             else Some (unat count, s) });
        Some (if left \<noteq> 0 then RES_ERROR else RES_OK, deselect B s) })"

section \<open>Control\<close>

definition wr32 :: "mem \<Rightarrow> u64 \<Rightarrow> u32 \<Rightarrow> mem" where
  "wr32 m a v = mem_write m a (le_bytes 4 v)"

text \<open>The sector count a \<open>CSD\<close> register gives, in both layouts.  The card supplies the shift
  amounts; a negative one has no meaning in C.\<close>

definition csd_sector_count :: "u8 list \<Rightarrow> u32 option" where
  "csd_sector_count csd =
     (let c = (\<lambda>i. (ucast (csd ! i) :: u32))
      in if drop_bit 6 (csd ! 0) = 1
         then let csize = c 9 + push_bit 8 (c 8) + push_bit 16 (c 7 AND 63) + 1 in Some (push_bit 10 csize)
         else let n = (c 5 AND 15) + drop_bit 7 (c 10 AND 128) + push_bit 1 (c 9 AND 3) + 2;
                  csize = drop_bit 6 (c 8) + push_bit 2 (c 7) + push_bit 10 (c 6 AND 3) + 1
              in if n < 9 then None else Some (push_bit (unat (n - 9)) csize))"

definition erase_block_sd1 :: "u8 list \<Rightarrow> u32 option" where
  "erase_block_sd1 csd =
     (let c = (\<lambda>i. (ucast (csd ! i) :: u32))
      in if drop_bit 6 (c 13) = 0 then None
         else Some (push_bit (unat (drop_bit 6 (c 13) - 1))
                      (push_bit 1 (c 10 AND 63) + drop_bit 7 (c 11 AND 128) + 1)))"

definition erase_block_mmc :: "u8 list \<Rightarrow> u32" where
  "erase_block_mmc csd =
     (let c = (\<lambda>i. (ucast (csd ! i) :: u32))
      in (drop_bit 2 (c 10 AND 124) + 1) * (push_bit 3 (c 11 AND 3) + drop_bit 5 (c 11 AND 224) + 1))"

text \<open>\<open>send_cmd(cmd, 0) == 0 && rcvr_datablock(a, n)\<close>\<close>

definition cmd_block :: "'d bus \<Rightarrow> u8 \<Rightarrow> u64 \<Rightarrow> nat \<Rightarrow> 'd disk_sys \<Rightarrow> (bool \<times> 'd disk_sys) option" where
  "cmd_block B cmd a n s = do {
     (res, s) \<leftarrow> send_cmd B cmd 0 s;
     if res = 0 then rcvr_datablock B a n s else Some (False, s) }"

text \<open>\<open>csd\<close> is the address of the local 16-byte buffer.\<close>

definition ioctl_block_size :: "'d bus \<Rightarrow> u64 \<Rightarrow> u64 \<Rightarrow> 'd disk_sys \<Rightarrow> (DRESULT \<times> 'd disk_sys) option" where
  "ioctl_block_size B csd buff s =
     (if CardType s AND CT_SD2 \<noteq> 0
      then do {
        (res, s) \<leftarrow> send_cmd B ACMD13 0 s;
        if res = 0
        then do {
          (_, s) \<leftarrow> xchg_spi B 0xFF s;
          (ok, s) \<leftarrow> rcvr_datablock B csd 16 s;
          if ok
          then do {
            (_, s) \<leftarrow> xchg_n B (64 - 16) s;
            let c = mem_read (sd_mem s) csd 16;
            Some (RES_OK, s\<lparr>sd_mem := wr32 (sd_mem s) buff (push_bit (unat (drop_bit 4 (c ! 10))) 16)\<rparr>) }
          else Some (RES_ERROR, s) }
        else Some (RES_ERROR, s) }
      else do {
        (ok, s) \<leftarrow> cmd_block B CMD9 csd 16 s;
        if ok
        then do {
          let c = mem_read (sd_mem s) csd 16;
          v \<leftarrow> (if CardType s AND CT_SD1 \<noteq> 0 then erase_block_sd1 c else Some (erase_block_mmc c));
          Some (RES_OK, s\<lparr>sd_mem := wr32 (sd_mem s) buff v\<rparr>) }
        else Some (RES_ERROR, s) })"

definition disk_ioctl :: "'d bus \<Rightarrow> u64 \<Rightarrow> u8 \<Rightarrow> u8 \<Rightarrow> u64 \<Rightarrow> 'd disk_sys
    \<Rightarrow> (DRESULT \<times> 'd disk_sys) option" where
  "disk_ioctl B csd pdrv cmd buff s =
     (let result = (\<lambda>ok. if ok then RES_OK else RES_ERROR)
      in if pdrv \<noteq> 0 then Some (RES_PARERR, s)
         else if Stat s AND STA_NOINIT \<noteq> 0 then Some (RES_NOTRDY, s)
         else do {
           (res, s) \<leftarrow>
             (if cmd = 0 then do { (ok, s) \<leftarrow> select B s; Some (result ok, s) }
              else if cmd = 1 then do {
                (ok, s) \<leftarrow> cmd_block B CMD9 csd 16 s;
                if ok
                then do {
                  v \<leftarrow> csd_sector_count (mem_read (sd_mem s) csd 16);
                  Some (RES_OK, s\<lparr>sd_mem := wr32 (sd_mem s) buff v\<rparr>) }
                else Some (RES_ERROR, s) }
              else if cmd = 3 then ioctl_block_size B csd buff s
              else if cmd = 50 then Some (RES_OK, s\<lparr>sd_mem := (sd_mem s)(buff := CardType s)\<rparr>)
              else if cmd = 51 then do { (ok, s) \<leftarrow> cmd_block B CMD9 buff 16 s; Some (result ok, s) }
              else if cmd = 52 then do { (ok, s) \<leftarrow> cmd_block B CMD10 buff 16 s; Some (result ok, s) }
              else if cmd = 53 then do {
                (res, s) \<leftarrow> send_cmd B CMD58 0 s;
                if res = 0
                then do {
                  (bs, s) \<leftarrow> xchg_n B 4 s;
                  Some (RES_OK, s\<lparr>sd_mem := mem_write (sd_mem s) buff bs\<rparr>) }
                else Some (RES_ERROR, s) }
              else if cmd = 54 then do {
                (res, s) \<leftarrow> send_cmd B ACMD13 0 s;
                if res = 0
                then do {
                  (_, s) \<leftarrow> xchg_spi B 0xFF s;
                  (ok, s) \<leftarrow> rcvr_datablock B buff 64 s;
                  Some (result ok, s) }
                else Some (RES_ERROR, s) }
              else if cmd = 7 then
                (let s = power_off B s in Some (RES_OK, s\<lparr>Stat := Stat s OR STA_NOINIT\<rparr>))
              else Some (RES_PARERR, s));
           Some (res, deselect B s) })"

end
