(* ===== verification/Ff_Fat.thy ===== *)
theory Ff_Fat
  imports Diskio
begin

text \<open>
  \<open>driver/ff.c\<close>, first part: the file system object, its one-sector window on the disk, the file
  allocation table (FAT) and the cluster chains.  The configuration is that of \<open>driver/ffconf.h\<close>: sectors of
  512 bytes, read and write access, no long names.  The disk functions of \<open>diskio.h\<close> are the parameter
  \<open>drive\<close>: a read gets what the buffer held and gives what it then holds, a write gets the
  bytes.  A result code \<open>FRESULT\<close> is a number, 0 is \<open>FR_OK\<close>.
\<close>

section \<open>Data\<close>

record FATFS =
  fs_type :: u8
  drv :: u8
  csize :: u8
  n_fats :: u8
  wflag :: u8
  fsi_flag :: u8
  fs_id :: u16
  n_rootdir :: u16
  last_clust :: u32
  free_clust :: u32
  cdir :: u32
  n_fatent :: u32
  fs_fsize :: u32
  volbase :: u32
  fatbase :: u32
  dirbase :: u32
  database :: u32
  winsect :: u32
  win :: "u8 list"

record 'd volume = FATFS +
  media :: 'd

record 'd drive =
  d_read :: "u8 \<Rightarrow> u8 list \<Rightarrow> u32 \<Rightarrow> u32 \<Rightarrow> 'd \<Rightarrow> (DRESULT \<times> u8 list \<times> 'd) option"
  d_write :: "u8 \<Rightarrow> u8 list \<Rightarrow> u32 \<Rightarrow> u32 \<Rightarrow> 'd \<Rightarrow> (DRESULT \<times> 'd) option"
  d_sync :: "u8 \<Rightarrow> 'd \<Rightarrow> (DRESULT \<times> 'd) option"
  d_status :: "u8 \<Rightarrow> 'd \<Rightarrow> u8"
  d_init :: "u8 \<Rightarrow> 'd \<Rightarrow> (u8 \<times> 'd) option"

abbreviation (input) FS_FAT12 :: u8 where "FS_FAT12 \<equiv> 1"
abbreviation (input) FS_FAT16 :: u8 where "FS_FAT16 \<equiv> 2"
abbreviation (input) FS_FAT32 :: u8 where "FS_FAT32 \<equiv> 3"
abbreviation (input) SS :: u32 where "SS \<equiv> 512"
abbreviation (input) FR_OK :: u32 where "FR_OK \<equiv> 0"
abbreviation (input) FR_DISK_ERR :: u32 where "FR_DISK_ERR \<equiv> 1"
abbreviation (input) FR_INT_ERR :: u32 where "FR_INT_ERR \<equiv> 2"

text \<open>\<open>LD_WORD\<close>, \<open>LD_DWORD\<close>, \<open>ST_WORD\<close> and \<open>ST_DWORD\<close> at a place of a buffer.\<close>

definition LD_WORD :: "u8 list \<Rightarrow> nat \<Rightarrow> u16" where
  "LD_WORD b i = push_bit 8 (ucast (b ! (i + 1))) OR ucast (b ! i)"

definition LD_DWORD :: "u8 list \<Rightarrow> nat \<Rightarrow> u32" where
  "LD_DWORD b i = push_bit 24 (ucast (b ! (i + 3))) OR push_bit 16 (ucast (b ! (i + 2))) OR push_bit 8 (ucast (b ! (i + 1))) OR ucast (b ! i)"

definition ST_WORD :: "u8 list \<Rightarrow> nat \<Rightarrow> u16 \<Rightarrow> u8 list" where
  "ST_WORD b i v = b[i := ucast v, i + 1 := ucast (drop_bit 8 v)]"

definition ST_DWORD :: "u8 list \<Rightarrow> nat \<Rightarrow> u32 \<Rightarrow> u8 list" where
  "ST_DWORD b i v = b[i := ucast v, i + 1 := ucast (drop_bit 8 v), i + 2 := ucast (drop_bit 16 v), i + 3 := ucast (drop_bit 24 v)]"

section \<open>The window\<close>

text \<open>The other copies of the table; the result of these writes is not looked at.\<close>

fun reflect :: "'d drive \<Rightarrow> nat \<Rightarrow> u32 \<Rightarrow> 'd volume \<Rightarrow> 'd volume option" where
  "reflect D 0 wsect s = Some s"
| "reflect D (Suc n) wsect s = do {
     (_, d) \<leftarrow> d_write D (drv s) (win s) (wsect + fs_fsize s) 1 (media s);
     reflect D n (wsect + fs_fsize s) (s\<lparr>media := d\<rparr>) }"

definition sync_window :: "'d drive \<Rightarrow> 'd volume \<Rightarrow> (u32 \<times> 'd volume) option" where
  "sync_window D s =
     (if wflag s \<noteq> 0 then do {
        (r, d) \<leftarrow> d_write D (drv s) (win s) (winsect s) 1 (media s);
        let s = s\<lparr>media := d\<rparr>;
        if r \<noteq> RES_OK then Some (FR_DISK_ERR, s)
        else do {
          let s = s\<lparr>wflag := 0\<rparr>;
          s \<leftarrow> (if winsect s - fatbase s < fs_fsize s then reflect D (unat (n_fats s) - 1) (winsect s) s else Some s);
          Some (FR_OK, s) } }
      else Some (FR_OK, s))"

definition move_window :: "'d drive \<Rightarrow> u32 \<Rightarrow> 'd volume \<Rightarrow> (u32 \<times> 'd volume) option" where
  "move_window D sector s =
     (if sector \<noteq> winsect s then do {
        (res, s) \<leftarrow> sync_window D s;
        if res = FR_OK then do {
          (r, w, d) \<leftarrow> d_read D (drv s) (win s) sector 1 (media s);
          let s = s\<lparr>win := w, media := d\<rparr>;
          if r \<noteq> RES_OK then Some (FR_DISK_ERR, s\<lparr>winsect := 0xFFFFFFFF\<rparr>)
          else Some (FR_OK, s\<lparr>winsect := sector\<rparr>) }
        else Some (res, s) }
      else Some (FR_OK, s))"

abbreviation (input) BS_55AA :: nat where "BS_55AA \<equiv> 510"
abbreviation (input) FSI_LeadSig :: nat where "FSI_LeadSig \<equiv> 0"
abbreviation (input) FSI_StrucSig :: nat where "FSI_StrucSig \<equiv> 484"
abbreviation (input) FSI_Free_Count :: nat where "FSI_Free_Count \<equiv> 488"
abbreviation (input) FSI_Nxt_Free :: nat where "FSI_Nxt_Free \<equiv> 492"

definition fsinfo_sector :: "'d volume \<Rightarrow> u8 list" where
  "fsinfo_sector s =
     (let w = replicate 512 0;
          w = ST_WORD w BS_55AA 0xAA55;
          w = ST_DWORD w FSI_LeadSig 0x41615252;
          w = ST_DWORD w FSI_StrucSig 0x61417272;
          w = ST_DWORD w FSI_Free_Count (free_clust s)
      in ST_DWORD w FSI_Nxt_Free (last_clust s))"

definition sync_fs :: "'d drive \<Rightarrow> 'd volume \<Rightarrow> (u32 \<times> 'd volume) option" where
  "sync_fs D s = do {
     (res, s) \<leftarrow> sync_window D s;
     if res = FR_OK then do {
       s \<leftarrow> (if fs_type s = FS_FAT32 \<and> fsi_flag s = 1 then do {
               let s = s\<lparr>win := fsinfo_sector s, winsect := volbase s + 1\<rparr>;
               (_, d) \<leftarrow> d_write D (drv s) (win s) (winsect s) 1 (media s);
               Some (s\<lparr>media := d, fsi_flag := 0\<rparr>) }
             else Some s);
       (r, d) \<leftarrow> d_sync D (drv s) (media s);
       Some (if r \<noteq> RES_OK then FR_DISK_ERR else res, s\<lparr>media := d\<rparr>) }
     else Some (res, s) }"

definition clust2sect :: "('d, 'z) volume_scheme \<Rightarrow> u32 \<Rightarrow> u32" where
  "clust2sect s clst = (if n_fatent s - 2 \<le> clst - 2 then 0 else (clst - 2) * ucast (csize s) + database s)"

section \<open>Entries of the table\<close>

definition get_fat :: "'d drive \<Rightarrow> u32 \<Rightarrow> 'd volume \<Rightarrow> (u32 \<times> 'd volume) option" where
  "get_fat D clst s =
     (if clst < 2 \<or> n_fatent s \<le> clst then Some (1, s)
      else if fs_type s = FS_FAT12 then do {
        let bc = clst + clst div 2;
        (res, s) \<leftarrow> move_window D (fatbase s + bc div SS) s;
        if res \<noteq> FR_OK then Some (0xFFFFFFFF, s)
        else do {
          let wc = ucast (win s ! unat (bc mod SS));
          let bc = bc + 1;
          (res, s) \<leftarrow> move_window D (fatbase s + bc div SS) s;
          if res \<noteq> FR_OK then Some (0xFFFFFFFF, s)
          else let wc = wc OR push_bit 8 (ucast (win s ! unat (bc mod SS)))
          in Some (if clst AND 1 \<noteq> 0 then drop_bit 4 wc else wc AND 0xFFF, s) } }
      else if fs_type s = FS_FAT16 then do {
        (res, s) \<leftarrow> move_window D (fatbase s + clst div (SS div 2)) s;
        if res \<noteq> FR_OK then Some (0xFFFFFFFF, s)
        else Some (ucast (LD_WORD (win s) (unat (clst * 2 mod SS))), s) }
      else if fs_type s = FS_FAT32 then do {
        (res, s) \<leftarrow> move_window D (fatbase s + clst div (SS div 4)) s;
        if res \<noteq> FR_OK then Some (0xFFFFFFFF, s)
        else Some (LD_DWORD (win s) (unat (clst * 4 mod SS)) AND 0x0FFFFFFF, s) }
      else Some (1, s))"

definition put_fat :: "'d drive \<Rightarrow> u32 \<Rightarrow> u32 \<Rightarrow> 'd volume \<Rightarrow> (u32 \<times> 'd volume) option" where
  "put_fat D clst val s =
     (if clst < 2 \<or> n_fatent s \<le> clst then Some (FR_INT_ERR, s)
      else if fs_type s = FS_FAT12 then do {
        let bc = clst + clst div 2;
        (res, s) \<leftarrow> move_window D (fatbase s + bc div SS) s;
        if res \<noteq> FR_OK then Some (res, s)
        else do {
          let p = unat (bc mod SS);
          let s = s\<lparr>win := (win s)[p := (if clst AND 1 \<noteq> 0 then (win s ! p AND 0x0F) OR push_bit 4 (ucast val) else ucast val)], wflag := 1\<rparr>;
          let bc = bc + 1;
          (res, s) \<leftarrow> move_window D (fatbase s + bc div SS) s;
          if res \<noteq> FR_OK then Some (res, s)
          else let p = unat (bc mod SS)
          in Some (FR_OK, s\<lparr>win := (win s)[p := (if clst AND 1 \<noteq> 0 then ucast (drop_bit 4 val)
                else (win s ! p AND 0xF0) OR (ucast (drop_bit 8 val) AND 0x0F))], wflag := 1\<rparr>) } }
      else if fs_type s = FS_FAT16 then do {
        (res, s) \<leftarrow> move_window D (fatbase s + clst div (SS div 2)) s;
        if res \<noteq> FR_OK then Some (res, s)
        else Some (FR_OK, s\<lparr>win := ST_WORD (win s) (unat (clst * 2 mod SS)) (ucast val), wflag := 1\<rparr>) }
      else if fs_type s = FS_FAT32 then do {
        (res, s) \<leftarrow> move_window D (fatbase s + clst div (SS div 4)) s;
        if res \<noteq> FR_OK then Some (res, s)
        else let p = unat (clst * 4 mod SS)
        in Some (FR_OK, s\<lparr>win := ST_DWORD (win s) p (val OR (LD_DWORD (win s) p AND 0xF0000000)), wflag := 1\<rparr>) }
      else Some (FR_INT_ERR, s))"

section \<open>Chains\<close>

partial_function (option) remove_chain_loop :: "'d drive \<Rightarrow> u32 \<Rightarrow> 'd volume \<Rightarrow> (u32 \<times> 'd volume) option" where
  "remove_chain_loop D clst s =
     (if clst < n_fatent s then do {
        (nxt, s) \<leftarrow> get_fat D clst s;
        if nxt = 0 then Some (FR_OK, s)
        else if nxt = 1 then Some (FR_INT_ERR, s)
        else if nxt = 0xFFFFFFFF then Some (FR_DISK_ERR, s)
        else do {
          (res, s) \<leftarrow> put_fat D clst 0 s;
          if res \<noteq> FR_OK then Some (res, s)
          else remove_chain_loop D nxt
            (if free_clust s \<noteq> 0xFFFFFFFF then s\<lparr>free_clust := free_clust s + 1, fsi_flag := fsi_flag s OR 1\<rparr> else s) } }
      else Some (FR_OK, s))"

declare remove_chain_loop.simps [code]

definition remove_chain :: "'d drive \<Rightarrow> u32 \<Rightarrow> 'd volume \<Rightarrow> (u32 \<times> 'd volume) option" where
  "remove_chain D clst s =
     (if clst < 2 \<or> n_fatent s \<le> clst then Some (FR_INT_ERR, s) else remove_chain_loop D clst s)"

text \<open>The search for a free cluster: \<open>Inl\<close> is what \<open>create_chain\<close> returns with, \<open>Inr\<close> the cluster found.\<close>

partial_function (option) find_free :: "'d drive \<Rightarrow> u32 \<Rightarrow> u32 \<Rightarrow> 'd volume \<Rightarrow> ((u32 + u32) \<times> 'd volume) option" where
  "find_free D scl ncl s =
     (let ncl = ncl + 1;
          wrap = n_fatent s \<le> ncl;
          ncl = (if wrap then 2 else ncl)
      in if wrap \<and> scl < ncl then Some (Inl 0, s)
         else do {
           (cs, s) \<leftarrow> get_fat D ncl s;
           if cs = 0 then Some (Inr ncl, s)
           else if cs = 0xFFFFFFFF \<or> cs = 1 then Some (Inl cs, s)
           else if ncl = scl then Some (Inl 0, s)
           else find_free D scl ncl s })"

declare find_free.simps [code]

definition link_cluster :: "'d drive \<Rightarrow> u32 \<Rightarrow> u32 \<Rightarrow> 'd volume \<Rightarrow> (u32 \<times> 'd volume) option" where
  "link_cluster D clst ncl s = do {
     (res, s) \<leftarrow> put_fat D ncl 0x0FFFFFFF s;
     (res, s) \<leftarrow> (if res = FR_OK \<and> clst \<noteq> 0 then put_fat D clst ncl s else Some (res, s));
     if res = FR_OK then
       let s = s\<lparr>last_clust := ncl\<rparr>
       in Some (ncl, if free_clust s \<noteq> 0xFFFFFFFF then s\<lparr>free_clust := free_clust s - 1, fsi_flag := fsi_flag s OR 1\<rparr> else s)
     else Some (if res = FR_DISK_ERR then 0xFFFFFFFF else 1, s) }"

definition create_chain :: "'d drive \<Rightarrow> u32 \<Rightarrow> 'd volume \<Rightarrow> (u32 \<times> 'd volume) option" where
  "create_chain D clst s = do {
     (e, s) \<leftarrow>
       (if clst = 0 then Some (Inr (if last_clust s = 0 \<or> n_fatent s \<le> last_clust s then 1 else last_clust s), s)
        else do {
          (cs, s) \<leftarrow> get_fat D clst s;
          Some (if cs < 2 then Inl 1 else if cs = 0xFFFFFFFF then Inl cs else if cs < n_fatent s then Inl cs else Inr clst, s) });
     case e of
       Inl r \<Rightarrow> Some (r, s)
     | Inr scl \<Rightarrow> do {
         (e, s) \<leftarrow> find_free D scl scl s;
         case e of Inl r \<Rightarrow> Some (r, s) | Inr ncl \<Rightarrow> link_cluster D clst ncl s } }"

end
