(* ===== verification/Ff_Table.thy ===== *)
theory Ff_Table
  imports Ff_Fat
begin

text \<open>
  The file allocation table as a map from clusters to entries.  \<open>drive_ok\<close> is what \<open>diskio.h\<close> promises;
  \<open>view\<close> shows a sector through the window, \<open>entry_of\<close> an entry of the table through the sectors.  The window
  operations change no view, \<open>get_fat\<close> reads the map and \<open>put_fat\<close> updates it at one place, for the
  three formats of the table.
\<close>

section \<open>The table as a map\<close>

definition fat_entry :: "u8 \<Rightarrow> (nat \<Rightarrow> u8) \<Rightarrow> nat \<Rightarrow> u32" where
  "fat_entry ty f c =
     (if ty = FS_FAT12 then
        let w = ucast (f (c + c div 2)) OR push_bit 8 (ucast (f (c + c div 2 + 1)))
        in if odd c then drop_bit 4 w else w AND 0xFFF
      else if ty = FS_FAT16 then push_bit 8 (ucast (f (2 * c + 1))) OR ucast (f (2 * c))
      else (push_bit 24 (ucast (f (4 * c + 3))) OR push_bit 16 (ucast (f (4 * c + 2))) OR push_bit 8 (ucast (f (4 * c + 1)))
            OR ucast (f (4 * c))) AND 0x0FFFFFFF)"

definition fat_mask :: "u8 \<Rightarrow> u32" where
  "fat_mask ty = (if ty = FS_FAT12 then 0xFFF else if ty = FS_FAT16 then 0xFFFF else 0x0FFFFFFF)"

lemma mask_nums:
  "(0xF :: 'a::len word) = mask 4" "(0xFFF :: 'a word) = mask 12" "(0xFFFF :: 'a word) = mask 16" "(0x0FFFFFFF :: 'a word) = mask 28"
  "(0xF0 :: u8) = push_bit 4 (mask 4)" "(0xF0000000 :: u32) = push_bit 28 (mask 4)"
  by (simp_all add: mask_eq_exp_minus_1)

lemma fat12_own:
  fixes v :: u32 and x :: u8
  shows "(ucast (ucast v :: u8) OR push_bit 8 (ucast ((x AND 0xF0) OR (ucast (drop_bit 8 v) AND 0x0F)))) AND 0xFFF = v AND 0xFFF"
    and "drop_bit 4 (ucast ((x AND 0x0F) OR push_bit 4 (ucast v)) OR push_bit 8 (ucast (ucast (drop_bit 4 v) :: u8))) = v AND 0xFFF"
  by (rule bit_word_eqI; auto simp: mask_nums bit_simps)+

lemma fat12_neighbour:
  fixes x y :: u8 and z :: u32
  shows "drop_bit 4 (ucast ((x AND 0xF0) OR (y AND 0x0F)) OR push_bit 8 z) = drop_bit 4 (ucast x OR push_bit 8 z)"
    and "(z OR push_bit 8 (ucast ((x AND 0x0F) OR push_bit 4 y))) AND 0xFFF = (z OR push_bit 8 (ucast x)) AND 0xFFF"
  by (rule bit_word_eqI; auto simp: mask_nums bit_simps dest: bit_imp_le_length)+

lemma fat12_entry:
  "fat_entry 1 f (2 * a) = (ucast (f (3 * a)) OR push_bit 8 (ucast (f (3 * a + 1)))) AND 0xFFF"
  "fat_entry 1 f (2 * a + 1) = drop_bit 4 (ucast (f (3 * a + 1)) OR push_bit 8 (ucast (f (3 * a + 2))))"
  by (simp_all add: fat_entry_def algebra_simps)

lemma fat12_store_even:
  "fat_entry 1 (f(3 * a := ucast v, 3 * a + 1 := (f (3 * a + 1) AND 0xF0) OR (ucast (drop_bit 8 v) AND 0x0F))) c
    = (if c = 2 * a then v AND 0xFFF else fat_entry 1 f c)" for v :: u32
proof (cases "even c")
  case True
  then obtain b where "c = 2 * b" by (elim evenE)
  moreover have "3 * b \<noteq> 3 * a + 1" "3 * b + 1 \<noteq> 3 * a" by presburger+
  ultimately show ?thesis by (simp only: fat12_entry) (auto simp: fat12_own simp del: drop_bit_or)
next
  case False
  then obtain b where "c = 2 * b + 1" by (elim oddE)
  moreover have "3 * b + 2 \<noteq> 3 * a + 1" "3 * b + 1 \<noteq> 3 * a" "3 * b + 2 \<noteq> 3 * a" "2 * b + 1 \<noteq> 2 * a" by presburger+
  ultimately show ?thesis by (simp only: fat12_entry) (auto simp: fat12_neighbour simp del: drop_bit_or)
qed

lemma fat12_store_odd:
  "fat_entry 1 (f(3 * a + 1 := (f (3 * a + 1) AND 0x0F) OR push_bit 4 (ucast v), 3 * a + 2 := ucast (drop_bit 4 v))) c
    = (if c = 2 * a + 1 then v AND 0xFFF else fat_entry 1 f c)" for v :: u32
proof (cases "even c")
  case True
  then obtain b where "c = 2 * b" by (elim evenE)
  moreover have "3 * b \<noteq> 3 * a + 1" "3 * b \<noteq> 3 * a + 2" "3 * b + 1 \<noteq> 3 * a + 2" "2 * b \<noteq> 2 * a + 1" by presburger+
  ultimately show ?thesis by (simp only: fat12_entry) (auto simp: fat12_neighbour simp del: drop_bit_or)
next
  case False
  then obtain b where "c = 2 * b + 1" by (elim oddE)
  moreover have "3 * b + 2 \<noteq> 3 * a + 1" "3 * b + 1 \<noteq> 3 * a + 2" by presburger+
  ultimately show ?thesis by (simp only: fat12_entry) (auto simp: fat12_own simp del: drop_bit_or)
qed

lemma fat12_store:
  fixes f :: "nat \<Rightarrow> u8" and v :: u32 and c :: nat
  defines "i \<equiv> c + c div 2"
  defines "b \<equiv> (if odd c then (f i AND 0x0F) OR push_bit 4 (ucast v) else ucast v)"
  defines "b' \<equiv> (if odd c then ucast (drop_bit 4 v) else (f (i + 1) AND 0xF0) OR (ucast (drop_bit 8 v) AND 0x0F))"
  shows "fat_entry 1 (f(i := b, i + 1 := b')) c' = (if c' = c then v AND 0xFFF else fat_entry 1 f c')"
proof (cases "even c")
  case True
  then obtain a where c: "c = 2 * a" by (elim evenE)
  then have "i = 3 * a" by (simp add: i_def)
  with True c show ?thesis using fat12_store_even [of f a v c'] by (simp add: b_def b'_def)
next
  case False
  then obtain a where c: "c = 2 * a + 1" by (elim oddE)
  then have "i = 3 * a + 1" by (simp add: i_def)
  with False c show ?thesis using fat12_store_odd [of f a v c'] by (simp add: b_def b'_def)
qed

lemma fat16_store:
  fixes v :: u32
  shows "fat_entry 2 (f(2 * c := ucast (ucast v :: u16), 2 * c + 1 := ucast (drop_bit 8 (ucast v :: u16)))) c' = (if c' = c then v AND 0xFFFF else fat_entry 2 f c')"
proof -
  have "push_bit 8 (ucast (ucast (drop_bit 8 (ucast v :: u16)) :: u8)) OR ucast (ucast (ucast v :: u16) :: u8) = v AND 0xFFFF"
    by (rule bit_word_eqI) (auto simp: mask_nums bit_simps)
  moreover have "2 * c' + 1 \<noteq> 2 * c" "2 * c' \<noteq> 2 * c + 1" by presburger+
  ultimately show ?thesis by (simp add: fat_entry_def)
qed

lemma fat32_store:
  fixes v :: u32 and f :: "nat \<Rightarrow> u8" and c :: nat
  defines "w \<equiv> v OR ((push_bit 24 (ucast (f (4 * c + 3))) OR push_bit 16 (ucast (f (4 * c + 2))) OR push_bit 8 (ucast (f (4 * c + 1)))
            OR ucast (f (4 * c))) AND 0xF0000000)"
  shows "fat_entry 3 (f(4 * c := ucast w, 4 * c + 1 := ucast (drop_bit 8 w), 4 * c + 2 := ucast (drop_bit 16 w), 4 * c + 3 := ucast (drop_bit 24 w))) c'
    = (if c' = c then v AND 0x0FFFFFFF else fat_entry 3 f c')"
proof -
  have "(push_bit 24 (ucast (ucast (drop_bit 24 x) :: u8)) OR push_bit 16 (ucast (ucast (drop_bit 16 x) :: u8))
      OR push_bit 8 (ucast (ucast (drop_bit 8 x) :: u8)) OR ucast (ucast x :: u8)) = x" (is "?l x = x") for x :: u32
  proof (rule bit_word_eqI)
    fix n assume "n < LENGTH(32)"
    consider "n < 8" | "8 \<le> n \<and> n < 16" | "16 \<le> n \<and> n < 24" | "24 \<le> n" by linarith
    then show "bit (?l x) n = bit x n" by cases (use \<open>n < LENGTH(32)\<close> in \<open>auto simp: bit_simps\<close>)
  qed
  moreover have "w AND 0x0FFFFFFF = v AND 0x0FFFFFFF" unfolding w_def
    by (rule bit_word_eqI) (auto simp: mask_nums bit_simps)
  moreover have "4 * c' + 1 \<noteq> 4 * c" "4 * c' + 2 \<noteq> 4 * c" "4 * c' + 3 \<noteq> 4 * c" "4 * c' \<noteq> 4 * c + 1" "4 * c' \<noteq> 4 * c + 2" "4 * c' \<noteq> 4 * c + 3"
    "4 * c' + 1 \<noteq> 4 * c + 2" "4 * c' + 1 \<noteq> 4 * c + 3" "4 * c' + 2 \<noteq> 4 * c + 1" "4 * c' + 2 \<noteq> 4 * c + 3" "4 * c' + 3 \<noteq> 4 * c + 1" "4 * c' + 3 \<noteq> 4 * c + 2"
    by presburger+
  ultimately show ?thesis by (simp add: fat_entry_def)
qed

section \<open>The drive and the window\<close>

text \<open>What \<open>diskio.h\<close> promises of a drive whose sectors are \<open>sec\<close>: the functions return, a read changes no sector
  and after \<open>RES_OK\<close> has filled the buffer, a write changes the sectors it names and no other.\<close>

definition drive_ok :: "'d drive \<Rightarrow> ('d \<Rightarrow> u32 \<Rightarrow> u8 list) \<Rightarrow> bool" where
  "drive_ok D sec \<longleftrightarrow> (\<forall>d k. length (sec d k) = 512)
     \<and> (\<forall>p b k n d. length b = 512 * unat n \<longrightarrow> (\<exists>r b' d'. d_read D p b k n d = Some (r, b', d') \<and> sec d' = sec d \<and> length b' = length b
          \<and> (r = RES_OK \<longrightarrow> b' = concat (map (\<lambda>i. sec d (k + of_nat i)) [0..<unat n]))))
     \<and> (\<forall>p b k n d. length b = 512 * unat n \<longrightarrow> (\<exists>r d'. d_write D p b k n d = Some (r, d')
          \<and> (\<forall>j. unat n \<le> unat (j - k) \<longrightarrow> sec d' j = sec d j)
          \<and> (r = RES_OK \<longrightarrow> (\<forall>i<unat n. sec d' (k + of_nat i) = take 512 (drop (512 * i) b)))))
     \<and> (\<forall>p d. \<exists>r d'. d_sync D p d = Some (r, d') \<and> sec d' = sec d)"

lemma drive_read:
  assumes "drive_ok D sec" "length b = 512 * unat n"
  shows "\<exists>r b' d'. d_read D p b k n d = Some (r, b', d') \<and> sec d' = sec d \<and> length b' = length b
    \<and> (r = RES_OK \<longrightarrow> b' = concat (map (\<lambda>i. sec d (k + of_nat i)) [0..<unat n]))"
  using assms unfolding drive_ok_def by blast

lemma drive_write:
  assumes "drive_ok D sec" "length b = 512 * unat n"
  shows "\<exists>r d'. d_write D p b k n d = Some (r, d') \<and> (\<forall>j. unat n \<le> unat (j - k) \<longrightarrow> sec d' j = sec d j)
    \<and> (r = RES_OK \<longrightarrow> (\<forall>i<unat n. sec d' (k + of_nat i) = take 512 (drop (512 * i) b)))"
  using assms unfolding drive_ok_def by blast

lemma drive_read1:
  assumes "drive_ok D sec" "length b = 512"
  obtains r b' d' where "d_read D p b k 1 d = Some (r, b', d')" "sec d' = sec d" "length b' = 512" "r = RES_OK \<Longrightarrow> b' = sec d k"
proof -
  have "\<exists>r b' d'. d_read D p b k 1 d = Some (r, b', d') \<and> sec d' = sec d \<and> length b' = length b
      \<and> (r = RES_OK \<longrightarrow> b' = concat (map (\<lambda>i. sec d (k + of_nat i)) [0..<unat (1::u32)]))"
    using drive_read [OF assms(1), of b 1] assms(2) by simp
  then show ?thesis using that assms(2) by auto
qed

lemma drive_write1:
  assumes "drive_ok D sec" "length b = 512"
  obtains r d' where "d_write D p b k 1 d = Some (r, d')" "\<And>j. j \<noteq> k \<Longrightarrow> sec d' j = sec d j" "r = RES_OK \<Longrightarrow> sec d' k = b"
proof -
  obtain r d' where w: "d_write D p b k 1 d = Some (r, d')" "\<forall>j. unat (1::u32) \<le> unat (j - k) \<longrightarrow> sec d' j = sec d j"
    "r = RES_OK \<longrightarrow> (\<forall>i<unat (1::u32). sec d' (k + of_nat i) = take 512 (drop (512 * i) b))"
    using drive_write [OF assms(1), of b 1 p k d] assms(2) by auto
  have "sec d' j = sec d j" if "j \<noteq> k" for j
  proof -
    have "unat (j - k) \<noteq> 0" using that by (simp add: unat_eq_0)
    then show ?thesis using w(2) by (simp add: Suc_le_eq)
  qed
  moreover have "r = RES_OK \<Longrightarrow> sec d' k = b" using w(3) assms(2) by (auto dest: spec [of _ 0])
  ultimately show ?thesis using that w(1) by blast
qed

definition view :: "('d \<Rightarrow> u32 \<Rightarrow> u8 list) \<Rightarrow> 'd volume \<Rightarrow> u32 \<Rightarrow> u8 list" where
  "view sec s k = (if k = winsect s then win s else sec (media s) k)"

definition win_ok :: "('d \<Rightarrow> u32 \<Rightarrow> u8 list) \<Rightarrow> 'd volume \<Rightarrow> bool" where
  "win_ok sec s \<longleftrightarrow> length (win s) = 512 \<and> (if wflag s = 0 then winsect s = 0xFFFFFFFF \<or> win s = sec (media s) (winsect s) else winsect s \<noteq> 0xFFFFFFFF)"

text \<open>The sectors of the further copies of the table.\<close>

definition in_copy :: "('d, 'z) volume_scheme \<Rightarrow> u32 \<Rightarrow> bool" where
  "in_copy s k \<longleftrightarrow> unat (fs_fsize s) \<le> unat (k - fatbase s) \<and> unat (k - fatbase s) < unat (n_fats s) * unat (fs_fsize s)"

definition fat_placed :: "('d, 'z) volume_scheme \<Rightarrow> bool" where
  "fat_placed s \<longleftrightarrow> unat (fatbase s) + unat (n_fats s) * unat (fs_fsize s) < 2 ^ 32 \<and> 0 < n_fats s"

definition window_moved :: "'d volume \<Rightarrow> 'd volume \<Rightarrow> bool" where
  "window_moved s s' \<longleftrightarrow> s'\<lparr>win := win s, wflag := wflag s, winsect := winsect s, media := media s\<rparr> = s"

lemma window_moved_upd [simp]:
  "window_moved s s" "window_moved s (t\<lparr>win := w\<rparr>) = window_moved s t" "window_moved s (t\<lparr>wflag := f\<rparr>) = window_moved s t"
  "window_moved s (t\<lparr>winsect := k\<rparr>) = window_moved s t" "window_moved s (t\<lparr>media := d\<rparr>) = window_moved s t"
  by (simp_all add: window_moved_def)

lemma window_moved_trans: "window_moved s t \<Longrightarrow> window_moved t u \<Longrightarrow> window_moved s u"
  by (cases s; cases t; cases u) (simp add: window_moved_def)

lemma window_moved_fields:
  assumes "window_moved s s'"
  shows "fs_type s' = fs_type s" "drv s' = drv s" "csize s' = csize s" "n_fats s' = n_fats s" "n_fatent s' = n_fatent s" "fs_fsize s' = fs_fsize s"
    "fatbase s' = fatbase s" "database s' = database s" "in_copy s' = in_copy s" "fat_placed s' = fat_placed s" "last_clust s' = last_clust s"
    "free_clust s' = free_clust s" "fsi_flag s' = fsi_flag s" "clust2sect s' = clust2sect s" "fs_id s' = fs_id s"
  using assms by (cases s; cases s'; simp add: window_moved_def in_copy_def fat_placed_def clust2sect_def fun_eq_iff)+

text \<open>What every operation on the window keeps: nothing but the window and the disk changes, and the sectors outside the copies look as before.\<close>

definition same_view :: "('d \<Rightarrow> u32 \<Rightarrow> u8 list) \<Rightarrow> 'd volume \<Rightarrow> 'd volume \<Rightarrow> bool" where
  "same_view sec s s' \<longleftrightarrow> (\<forall>k. \<not> in_copy s k \<longrightarrow> k \<noteq> 0xFFFFFFFF \<longrightarrow> view sec s' k = view sec s k)"

lemma reflect_ok:
  assumes "drive_ok D sec" "length (win s) = 512"
  shows "\<exists>d. reflect D n w s = Some (s\<lparr>media := d\<rparr>) \<and> (\<forall>k. (\<forall>i\<in>{1..n}. k \<noteq> w + of_nat i * fs_fsize s) \<longrightarrow> sec d k = sec (media s) k)"
  using assms(2)
proof (induction n arbitrary: w s)
  case 0
  show ?case by (rule exI [of _ "media s"]) simp
next
  case (Suc n)
  obtain r d1 where 1: "d_write D (drv s) (win s) (w + fs_fsize s) 1 (media s) = Some (r, d1)" "\<And>j. j \<noteq> w + fs_fsize s \<Longrightarrow> sec d1 j = sec (media s) j"
    "r = RES_OK \<Longrightarrow> sec d1 (w + fs_fsize s) = win s" by (rule drive_write1 [OF assms(1) Suc.prems, of "drv s" "w + fs_fsize s" "media s"]) (rule that)
  obtain d2 where 2: "reflect D n (w + fs_fsize s) (s\<lparr>media := d1\<rparr>) = Some (s\<lparr>media := d2\<rparr>)"
    "\<And>k. (\<forall>i\<in>{1..n}. k \<noteq> w + fs_fsize s + of_nat i * fs_fsize s) \<Longrightarrow> sec d2 k = sec d1 k"
    using Suc.IH [of "s\<lparr>media := d1\<rparr>" "w + fs_fsize s"] Suc.prems by auto
  have "sec d2 k = sec (media s) k" if k: "\<forall>i\<in>{1..Suc n}. k \<noteq> w + of_nat i * fs_fsize s" for k
  proof -
    have "k \<noteq> w + of_nat (Suc i) * fs_fsize s" if "i \<le> n" for i
      using bspec [OF k, of "Suc i"] that by (simp only: atLeastAtMost_iff) simp
    then have "k \<noteq> w + fs_fsize s + of_nat i * fs_fsize s" if "i \<le> n" for i using that by (simp add: algebra_simps)
    then show ?thesis using 1(2) 2(2) k by (metis add.right_neutral atLeastAtMost_iff le0 mult_zero_left of_nat_0)
  qed
  then show ?case using 1 2 by auto
qed

lemma copy_target:
  assumes "fat_placed s" "w - fatbase s < fs_fsize s" "i \<in> {1..unat (n_fats s) - 1}"
  shows "in_copy s (w + of_nat i * fs_fsize s)"
proof -
  have lt: "unat (w - fatbase s) < unat (fs_fsize s)" using assms(2) by (simp add: word_less_nat_alt)
  have "(i + 1) * unat (fs_fsize s) \<le> unat (n_fats s) * unat (fs_fsize s)" using assms(3) by (intro mult_right_mono) auto
  then have b: "unat (w - fatbase s) + i * unat (fs_fsize s) < unat (n_fats s) * unat (fs_fsize s)"
    "unat (n_fats s) * unat (fs_fsize s) < 2 ^ 32" using lt assms(1) by (auto simp: fat_placed_def)
  have "w + of_nat i * fs_fsize s - fatbase s = of_nat (unat (w - fatbase s) + i * unat (fs_fsize s))" by simp
  then have "unat (w + of_nat i * fs_fsize s - fatbase s) = unat (w - fatbase s) + i * unat (fs_fsize s)"
    using b by (simp only: unat_of_nat) simp
  moreover have "1 * unat (fs_fsize s) \<le> i * unat (fs_fsize s)" using assms(3) by (intro mult_right_mono) auto
  ultimately show ?thesis using b unfolding in_copy_def by linarith
qed

lemma sync_window_ok:
  assumes "drive_ok D sec" "win_ok sec s" "fat_placed s"
  obtains r s' where "sync_window D s = Some (r, s')" "window_moved s s'" "win_ok sec s'" "same_view sec s s'"
    "winsect s' = winsect s" "win s' = win s" "r = FR_OK \<Longrightarrow> wflag s' = 0" "r \<noteq> FR_OK \<Longrightarrow> r = FR_DISK_ERR"
proof (cases "wflag s = 0")
  case True
  then show ?thesis using that [of FR_OK s] assms by (simp add: sync_window_def same_view_def)
next
  case False
  have l: "length (win s) = 512" and ws: "winsect s \<noteq> 0xFFFFFFFF" using assms(2) False by (simp_all add: win_ok_def)
  obtain r d where w: "d_write D (drv s) (win s) (winsect s) 1 (media s) = Some (r, d)" "\<And>j. j \<noteq> winsect s \<Longrightarrow> sec d j = sec (media s) j"
    "r = RES_OK \<Longrightarrow> sec d (winsect s) = win s" by (rule drive_write1 [OF assms(1) l, of "drv s" "winsect s" "media s"]) (rule that)
  show ?thesis
  proof (cases "r = RES_OK")
    case no: False
    have "sync_window D s = Some (FR_DISK_ERR, s\<lparr>media := d\<rparr>)" using no False w(1) by (simp add: sync_window_def)
    then show ?thesis
      by (rule that) (use False assms(2) w(2) in \<open>simp_all add: win_ok_def same_view_def view_def\<close>)
  next
    case True
    define t where "t = s\<lparr>media := d, wflag := 0\<rparr>"
    define e where "e = (if winsect t - fatbase t < fs_fsize t then reflect D (unat (n_fats t) - 1) (winsect t) t else Some t)"
    obtain d' where d': "e = Some (t\<lparr>media := d'\<rparr>)" "\<And>k. \<not> in_copy s k \<Longrightarrow> sec d' k = sec d k" "sec d' (winsect s) = sec d (winsect s)"
    proof (cases "winsect s - fatbase s < fs_fsize s")
      case True
      obtain d' where e': "reflect D (unat (n_fats t) - 1) (winsect t) t = Some (t\<lparr>media := d'\<rparr>)"
        and s': "\<forall>k. (\<forall>i\<in>{1..unat (n_fats s) - 1}. k \<noteq> winsect s + of_nat i * fs_fsize s) \<longrightarrow> sec d' k = sec d k"
        using reflect_ok [OF assms(1), of t "unat (n_fats s) - 1" "winsect s"] l by (auto simp: t_def)
      have keep: "sec d' k = sec d k" if "\<not> in_copy s k" for k
      proof (rule s' [rule_format])
        fix i assume "i \<in> {1..unat (n_fats s) - 1}"
        from copy_target [OF assms(3) True this] that show "k \<noteq> winsect s + of_nat i * fs_fsize s" by metis
      qed
      show ?thesis
      proof (rule that [OF _ keep])
        show "e = Some (t\<lparr>media := d'\<rparr>)" using e' True by (simp add: e_def t_def)
        show "sec d' (winsect s) = sec d (winsect s)" using True by (intro keep) (simp add: in_copy_def word_less_nat_alt)
      qed
    next
      case False
      then show ?thesis using that [of d] by (simp add: e_def t_def)
    qed
    have own: "sec d' (winsect s) = win s" using d'(3) w(3) True by simp
    have "sync_window D s = Option.bind e (\<lambda>s. Some (FR_OK, s))"
      using False w(1) True by (simp add: sync_window_def e_def t_def Let_def)
    then have "sync_window D s = Some (FR_OK, t\<lparr>media := d'\<rparr>)" using d'(1) by simp
    then show ?thesis
    proof (rule that)
      show "same_view sec s (t\<lparr>media := d'\<rparr>)" using d'(2) w(2) by (auto simp: t_def same_view_def view_def)
      show "win_ok sec (t\<lparr>media := d'\<rparr>)" using l own by (simp add: t_def win_ok_def)
    qed (simp_all add: t_def)
  qed
qed


lemma move_window_ok:
  assumes "drive_ok D sec" "win_ok sec s" "fat_placed s" "\<not> in_copy s k" "k \<noteq> 0xFFFFFFFF"
  obtains r s' where "move_window D k s = Some (r, s')" "window_moved s s'" "win_ok sec s'" "same_view sec s s'"
    "r = FR_OK \<Longrightarrow> winsect s' = k \<and> win s' = view sec s k" "r \<noteq> FR_OK \<Longrightarrow> r = FR_DISK_ERR"
proof (cases "k = winsect s")
  case True
  then have "move_window D k s = Some (FR_OK, s)" by (simp add: move_window_def)
  then show ?thesis by (rule that) (use True assms(2) in \<open>simp_all add: same_view_def view_def\<close>)
next
  case False
  obtain r t where t: "sync_window D s = Some (r, t)" "window_moved s t" "win_ok sec t" "same_view sec s t"
    "winsect t = winsect s" "win t = win s" "r = FR_OK \<Longrightarrow> wflag t = 0" "r \<noteq> FR_OK \<Longrightarrow> r = FR_DISK_ERR"
    by (rule sync_window_ok [OF assms(1-3)]) (rule that)
  show ?thesis
  proof (cases "r = FR_OK")
    case no: False
    then have "move_window D k s = Some (r, t)" using False t(1) by (simp add: move_window_def)
    then show ?thesis by (rule that [OF _ t(2-4)]) (use no t(8) in auto)
  next
    case True
    have l: "length (win t) = 512" using t(3) by (simp add: win_ok_def)
    obtain q b d where rd: "d_read D (drv t) (win t) k 1 (media t) = Some (q, b, d)" "sec d = sec (media t)" "length b = 512" "q = RES_OK \<Longrightarrow> b = sec (media t) k"
      by (rule drive_read1 [OF assms(1) l, of "drv t" k "media t"]) (rule that)
    have own: "winsect t = 0xFFFFFFFF \<or> win t = sec (media t) (winsect t)" using t(3,7) True by (simp add: win_ok_def)
    define k' where "k' = (if q = RES_OK then k else 0xFFFFFFFF)"
    define s' where "s' = t\<lparr>win := b, media := d, winsect := k'\<rparr>"
    have "view sec s' j = view sec s j" if "\<not> in_copy s j" "j \<noteq> 0xFFFFFFFF" for j
    proof -
      have "view sec s' j = view sec t j" using that own rd by (auto simp: s'_def k'_def view_def)
      then show ?thesis using t(4) that by (simp add: same_view_def)
    qed
    then have "same_view sec s s'" by (simp add: same_view_def)
    moreover have "view sec s k = view sec t k" using t(4) assms(4,5) by (simp add: same_view_def)
    then have "q = RES_OK \<Longrightarrow> b = view sec s k" using rd(4) False t(5) by (simp add: view_def)
    moreover have "move_window D k s = Some (if q = RES_OK then FR_OK else FR_DISK_ERR, s')"
      using False t(1) True rd(1) by (simp add: move_window_def s'_def k'_def)
    moreover have "win_ok sec s'" using t(7) True rd by (auto simp: win_ok_def s'_def k'_def)
    ultimately show ?thesis using t(2)
      by (intro that [of "if q = RES_OK then FR_OK else FR_DISK_ERR" s']) (simp_all add: s'_def k'_def split: if_splits)
  qed
qed

section \<open>Bytes and entries\<close>

definition fat_byte :: "('d \<Rightarrow> u32 \<Rightarrow> u8 list) \<Rightarrow> 'd volume \<Rightarrow> nat \<Rightarrow> u8" where
  "fat_byte sec s i = view sec s (fatbase s + of_nat (i div 512)) ! (i mod 512)"

definition entry_of :: "('d \<Rightarrow> u32 \<Rightarrow> u8 list) \<Rightarrow> 'd volume \<Rightarrow> nat \<Rightarrow> u32" where
  "entry_of sec s c = fat_entry (fs_type s) (fat_byte sec s) c"

definition fat_geometry :: "('d, 'z) volume_scheme \<Rightarrow> bool" where
  "fat_geometry s \<longleftrightarrow> fat_placed s \<and>
     (fs_type s = FS_FAT12 \<and> n_fatent s \<le> 0xFF7 \<and> (3 * unat (n_fatent s) + 1) div 2 \<le> 512 * unat (fs_fsize s)
      \<or> fs_type s = FS_FAT16 \<and> n_fatent s \<le> 0xFFF7 \<and> 2 * unat (n_fatent s) \<le> 512 * unat (fs_fsize s)
      \<or> fs_type s = FS_FAT32 \<and> n_fatent s \<le> 0x0FFFFFF7 \<and> 4 * unat (n_fatent s) \<le> 512 * unat (fs_fsize s))"

definition vol_ok :: "('d \<Rightarrow> u32 \<Rightarrow> u8 list) \<Rightarrow> 'd volume \<Rightarrow> bool" where
  "vol_ok sec s \<longleftrightarrow> win_ok sec s \<and> fat_geometry s"

text \<open>The sectors outside the table and its copies look as before.\<close>

definition same_data :: "('d \<Rightarrow> u32 \<Rightarrow> u8 list) \<Rightarrow> 'd volume \<Rightarrow> 'd volume \<Rightarrow> bool" where
  "same_data sec s s' \<longleftrightarrow> (\<forall>k. unat (n_fats s) * unat (fs_fsize s) \<le> unat (k - fatbase s) \<longrightarrow> k \<noteq> 0xFFFFFFFF \<longrightarrow> view sec s' k = view sec s k)"

lemma same_view_data: "same_view sec s s' \<Longrightarrow> same_data sec s s'"
  by (auto simp: same_view_def same_data_def in_copy_def)

lemma same_data_trans: "same_data sec s t \<Longrightarrow> window_moved s t \<Longrightarrow> same_data sec t u \<Longrightarrow> same_data sec s u"
  by (auto simp: same_data_def window_moved_fields)

lemma fat_placed_le:
  assumes "fat_placed s"
  shows "unat (fs_fsize s) \<le> unat (n_fats s) * unat (fs_fsize s)" "unat (fatbase s) + unat (fs_fsize s) < 2 ^ 32"
proof -
  show *: "unat (fs_fsize s) \<le> unat (n_fats s) * unat (fs_fsize s)"
    using assms by (simp add: fat_placed_def word_less_nat_alt)
  show "unat (fatbase s) + unat (fs_fsize s) < 2 ^ 32" using * assms unfolding fat_placed_def by linarith
qed

lemma fat_sector:
  assumes "fat_placed s" "q < unat (fs_fsize s)"
  shows "\<not> in_copy s (fatbase s + of_nat q)" "fatbase s + of_nat q \<noteq> 0xFFFFFFFF" "unat (fatbase s + of_nat q) = unat (fatbase s) + q"
proof -
  have b: "unat (fatbase s) + q + 1 < 2 ^ 32" "q < 2 ^ 32" using fat_placed_le [OF assms(1)] assms(2) by linarith+
  have "fatbase s + of_nat q = of_nat (unat (fatbase s) + q)" by simp
  then show u: "unat (fatbase s + of_nat q) = unat (fatbase s) + q" using b by (simp only: unat_of_nat) simp
  show "fatbase s + of_nat q \<noteq> 0xFFFFFFFF"
  proof
    assume "fatbase s + of_nat q = 0xFFFFFFFF"
    then show False using u b by simp
  qed
  have "unat (of_nat q :: u32) = q" using b by (simp only: unat_of_nat) simp
  then show "\<not> in_copy s (fatbase s + of_nat q)" using assms(2) by (simp add: in_copy_def)
qed

lemma fat_byte_same:
  assumes "same_view sec s s'" "window_moved s s'" "fat_placed s" "i < 512 * unat (fs_fsize s)"
  shows "fat_byte sec s' i = fat_byte sec s i"
proof -
  have "i div 512 < unat (fs_fsize s)" using assms(4) by (simp add: less_mult_imp_div_less mult.commute)
  then show ?thesis using assms fat_sector [OF assms(3)] by (simp add: fat_byte_def same_view_def window_moved_fields)
qed

definition moved :: "('d \<Rightarrow> u32 \<Rightarrow> u8 list) \<Rightarrow> 'd volume \<Rightarrow> 'd volume \<Rightarrow> bool" where
  "moved sec s s' \<longleftrightarrow> window_moved s s' \<and> win_ok sec s' \<and> same_view sec s s'"

lemma load_byte:
  assumes "drive_ok D sec" "win_ok sec s" "fat_placed s" "i < 512 * unat (fs_fsize s)"
  obtains r s' where "move_window D (fatbase s + of_nat (i div 512)) s = Some (r, s')" "moved sec s s'"
    "r = FR_OK \<Longrightarrow> winsect s' = fatbase s + of_nat (i div 512)" "r = FR_OK \<Longrightarrow> win s' = view sec s (fatbase s + of_nat (i div 512))"
    "r \<noteq> FR_OK \<Longrightarrow> r = FR_DISK_ERR"
proof -
  have "i div 512 < unat (fs_fsize s)" using assms(4) by (simp add: less_mult_imp_div_less mult.commute)
  note sect = fat_sector(1,2) [OF assms(3) this]
  obtain r s' where m: "move_window D (fatbase s + of_nat (i div 512)) s = Some (r, s')" "window_moved s s'" "win_ok sec s'" "same_view sec s s'"
    "r = FR_OK \<Longrightarrow> winsect s' = fatbase s + of_nat (i div 512) \<and> win s' = view sec s (fatbase s + of_nat (i div 512))" "r \<noteq> FR_OK \<Longrightarrow> r = FR_DISK_ERR"
    by (rule move_window_ok [OF assms(1-3) sect]) (rule that)
  have "moved sec s s'" using m(2-4) by (simp add: moved_def)
  with m(1) show ?thesis by (rule that) (use m(5,6) in simp_all)
qed

lemma store_byte:
  fixes b :: u8
  assumes "win_ok sec s" "fat_placed s" "i < 512 * unat (fs_fsize s)" "winsect s = fatbase s + of_nat (i div 512)"
  defines "s' \<equiv> s\<lparr>win := (win s)[i mod 512 := b], wflag := 1\<rparr>"
  shows "win_ok sec s'" "same_data sec s s'" "j < 512 * unat (fs_fsize s) \<Longrightarrow> fat_byte sec s' j = (if j = i then b else fat_byte sec s j)"
proof -
  have q: "i div 512 < unat (fs_fsize s)" using assms(3) by (simp add: less_mult_imp_div_less mult.commute)
  note sect = fat_sector [OF assms(2) q]
  have l: "length (win s) = 512" using assms(1) by (simp add: win_ok_def)
  then show "win_ok sec s'" using sect assms(4) by (simp add: win_ok_def s'_def)
  have "unat (winsect s - fatbase s) = i div 512"
    using assms(4) sect(3) q unat_bound [of "fs_fsize s"] by (simp add: unat_of_nat)
  then have "k \<noteq> winsect s" if "unat (n_fats s) * unat (fs_fsize s) \<le> unat (k - fatbase s)" for k
    using q fat_placed_le(1) [OF assms(2)] that by force
  then show "same_data sec s s'" by (simp add: same_data_def view_def s'_def)
  assume "j < 512 * unat (fs_fsize s)"
  then have "j div 512 < unat (fs_fsize s)" by (simp add: less_mult_imp_div_less mult.commute)
  then have "unat (fatbase s + of_nat (j div 512)) = unat (fatbase s) + j div 512" by (rule fat_sector [OF assms(2)])
  then have "fatbase s + of_nat (j div 512) = winsect s \<longleftrightarrow> j div 512 = i div 512"
    using sect(3) assms(4) by (metis add_left_imp_eq)
  moreover have "j = i \<longleftrightarrow> j div 512 = i div 512 \<and> j mod 512 = i mod 512" by (metis div_mult_mod_eq)
  ultimately show "fat_byte sec s' j = (if j = i then b else fat_byte sec s j)"
    using l by (cases "j div 512 = i div 512") (simp_all add: fat_byte_def view_def s'_def nth_list_update)
qed

lemma of_nat_unat: "of_nat (unat x) = x" for x :: "'a::len word"
  by simp

lemma word_pos:
  fixes w :: u32
  assumes "unat w = i"
  shows "w div 512 = of_nat (i div 512)" "unat (w mod 512) = i mod 512"
proof -
  have "unat (w div 512) = i div 512" using assms by (simp add: unat_div)
  then show "w div 512 = of_nat (i div 512)" by (metis of_nat_unat)
  show "unat (w mod 512) = i mod 512" using assms by (simp add: unat_mod)
qed

lemma fat12_pos:
  fixes c :: u32
  assumes "c \<le> 0xFF7"
  defines "i \<equiv> unat c + unat c div 2"
  shows "unat (c + c div 2) = i" "unat (c + c div 2 + 1) = i + 1" "c AND 1 \<noteq> 0 \<longleftrightarrow> odd (unat c)"
proof -
  have "unat c \<le> 0xFF7" using assms(1) by (simp add: word_le_nat_alt)
  then show u: "unat (c + c div 2) = i" by (simp add: i_def unat_word_ariths unat_div)
  then show "unat (c + c div 2 + 1) = i + 1" using \<open>unat c \<le> 0xFF7\<close> by (simp add: i_def unat_word_ariths(1) [of "c + c div 2"])
  have "unat (c AND 1) = unat c mod 2" by (simp add: and_one_eq unat_mod)
  then show "c AND 1 \<noteq> 0 \<longleftrightarrow> odd (unat c)" by (metis even_iff_mod_2_eq_zero unat_0 unat_eq_zero)
qed

lemma block_pos:
  fixes a k n m :: nat
  assumes "k < n"
  shows "(n * a + k) div (n * m) = n * a div (n * m)" "(n * a + k) mod (n * m) = n * a mod (n * m) + k"
  using assms by (simp_all add: div_mult2_eq mod_mult2_eq)

lemma unat_mul_mod: "unat (c * n mod 512) = unat c * unat n mod 512" for c n :: u32
proof -
  have "(512 :: nat) dvd 2 ^ 32" by simp
  then have "x mod 2 ^ 32 mod 512 = x mod 512" for x :: nat by (rule mod_mod_cancel)
  then show ?thesis using unat_word_ariths(2) [of c n] by (simp add: unat_mod)
qed

lemma fat16_pos:
  fixes c :: u32
  shows "c div 256 = of_nat (2 * unat c div 512)" "unat (c * 2 mod 512) = 2 * unat c mod 512"
    "(2 * unat c + 1) div 512 = 2 * unat c div 512" "(2 * unat c + 1) mod 512 = 2 * unat c mod 512 + 1"
proof -
  have "unat (c div 256) = 2 * unat c div 512" by (simp add: unat_div)
  then show "c div 256 = of_nat (2 * unat c div 512)" by (metis of_nat_unat)
  show "unat (c * 2 mod 512) = 2 * unat c mod 512" using unat_mul_mod [of c 2] by (simp add: mult.commute)
  show "(2 * unat c + 1) div 512 = 2 * unat c div 512" "(2 * unat c + 1) mod 512 = 2 * unat c mod 512 + 1"
    using block_pos [of 1 2 "unat c" 256] by simp_all
qed

lemma fat32_pos:
  fixes c :: u32
  shows "c div 128 = of_nat (4 * unat c div 512)" "unat (c * 4 mod 512) = 4 * unat c mod 512"
    "k < 4 \<Longrightarrow> (4 * unat c + k) div 512 = 4 * unat c div 512" "k < 4 \<Longrightarrow> (4 * unat c + k) mod 512 = 4 * unat c mod 512 + k"
proof -
  have "unat (c div 128) = 4 * unat c div 512" by (simp add: unat_div)
  then show "c div 128 = of_nat (4 * unat c div 512)" by (metis of_nat_unat)
  show "unat (c * 4 mod 512) = 4 * unat c mod 512" using unat_mul_mod [of c 4] by (simp add: mult.commute)
  show "(4 * unat c + k) div 512 = 4 * unat c div 512" "(4 * unat c + k) mod 512 = 4 * unat c mod 512 + k" if "k < 4"
    using block_pos [OF that, of "unat c" 128] by simp_all
qed

lemma LD_entries:
  "w = view sec s (fatbase s + of_nat (2 * unat c div 512)) \<Longrightarrow> ucast (LD_WORD w (2 * unat c mod 512)) = fat_entry 2 (fat_byte sec s) (unat c)"
  "w = view sec s (fatbase s + of_nat (4 * unat c div 512)) \<Longrightarrow> LD_DWORD w (4 * unat c mod 512) AND 0x0FFFFFFF = fat_entry 3 (fat_byte sec s) (unat c)"
  for c :: u32
proof -
  assume w: "w = view sec s (fatbase s + of_nat (2 * unat c div 512))"
  have b: "fat_byte sec s (2 * unat c) = w ! (2 * unat c mod 512)" "fat_byte sec s (2 * unat c + 1) = w ! (2 * unat c mod 512 + 1)"
    by (simp_all only: w fat_byte_def fat16_pos)
  have "ucast (push_bit 8 (ucast x) OR ucast y :: u16) = (push_bit 8 (ucast x) OR ucast y :: u32)" for x y :: u8
    by (rule bit_word_eqI) (auto simp: bit_simps dest: bit_imp_le_length)
  then show "ucast (LD_WORD w (2 * unat c mod 512)) = fat_entry 2 (fat_byte sec s) (unat c)"
    using b by (simp add: LD_WORD_def fat_entry_def)
next
  assume w: "w = view sec s (fatbase s + of_nat (4 * unat c div 512))"
  have b: "fat_byte sec s (4 * unat c) = w ! (4 * unat c mod 512)" and "fat_byte sec s (4 * unat c + k) = w ! (4 * unat c mod 512 + k)" if "k < 4" for k
    using that by (simp_all only: w fat_byte_def fat32_pos)
  from this [of 1] this [of 2] this [of 3] show "LD_DWORD w (4 * unat c mod 512) AND 0x0FFFFFFF = fat_entry 3 (fat_byte sec s) (unat c)"
    by (simp add: LD_DWORD_def fat_entry_def)
qed

lemma fat_room:
  assumes "fat_geometry s" "c < n_fatent s"
  shows "fs_type s = 1 \<Longrightarrow> unat c + unat c div 2 + 1 < 512 * unat (fs_fsize s)" "fs_type s = 1 \<Longrightarrow> c \<le> 0xFF7"
    "fs_type s = 2 \<Longrightarrow> 2 * unat c + 1 < 512 * unat (fs_fsize s)" "fs_type s = 3 \<Longrightarrow> 4 * unat c + 3 < 512 * unat (fs_fsize s)"
    "fs_type s \<in> {1, 2, 3}" "fat_placed s"
  using assms by (auto simp: fat_geometry_def word_less_nat_alt word_le_nat_alt)

lemma moved_trans: "moved sec s t \<Longrightarrow> moved sec t u \<Longrightarrow> moved sec s u"
  by (auto simp: moved_def same_view_def window_moved_fields intro: window_moved_trans)

lemma fat_geometry_moved: "window_moved s s' \<Longrightarrow> fat_geometry s' = fat_geometry s"
  by (simp add: fat_geometry_def window_moved_fields)

lemma vol_ok_moved: "vol_ok sec s \<Longrightarrow> moved sec s s' \<Longrightarrow> vol_ok sec s'"
  by (auto simp: vol_ok_def moved_def fat_geometry_moved)

lemma fat_entry_cong:
  assumes "\<And>i. i < 512 * unat (fs_fsize s) \<Longrightarrow> f i = g i" "fat_geometry s" "c < unat (n_fatent s)"
  shows "fat_entry (fs_type s) f c = fat_entry (fs_type s) g c"
proof -
  have c: "unat (of_nat c :: u32) = c" using assms(3) unat_bound [of "n_fatent s"] by (simp add: unat_of_nat)
  then have "of_nat c < n_fatent s" using assms(3) by (simp add: word_less_nat_alt)
  note r = fat_room [OF assms(2) this, unfolded c]
  from r(5) consider "fs_type s = 1" | "fs_type s = 2" | "fs_type s = 3" by auto
  then show ?thesis by cases (use r(1,3,4) assms(1) in \<open>simp_all add: fat_entry_def\<close>)
qed

lemma entry_moved:
  assumes "moved sec s s'" "vol_ok sec s" "c < unat (n_fatent s)"
  shows "entry_of sec s' c = entry_of sec s c"
proof -
  have w: "window_moved s s'" "same_view sec s s'" "fat_geometry s" "fat_placed s"
    using assms by (simp_all add: moved_def vol_ok_def fat_geometry_def)
  show ?thesis
    using fat_entry_cong [OF fat_byte_same [OF w(2,1,4)] w(3) assms(3)] by (simp add: entry_of_def window_moved_fields(1) [OF w(1)])
qed

lemma get_fat_ok:
  assumes D: "drive_ok D sec" and s: "vol_ok sec s" and c: "2 \<le> c" "c < n_fatent s"
  obtains v s' where "get_fat D c s = Some (v, s')" "moved sec s s'" "v = 0xFFFFFFFF \<or> v = entry_of sec s (unat c)"
proof -
  have w: "win_ok sec s" and g: "fat_geometry s" using s by (simp_all add: vol_ok_def)
  note r = fat_room [OF g c(2)]
  have c': "\<not> (c < 2 \<or> n_fatent s \<le> c)" using c by (simp add: not_less not_le)
  from r(5) consider (1) "fs_type s = 1" | (2) "fs_type s = 2" | (3) "fs_type s = 3" by auto
  then show ?thesis
  proof cases
    case 1
    let ?i = "unat c + unat c div 2"
    note pos = word_pos [OF fat12_pos(1) [OF r(2) [OF 1]]] word_pos [OF fat12_pos(2) [OF r(2) [OF 1]]] fat12_pos(3) [OF r(2) [OF 1]]
    obtain q t where t: "move_window D (fatbase s + of_nat (?i div 512)) s = Some (q, t)" "moved sec s t"
      "q = FR_OK \<Longrightarrow> winsect t = fatbase s + of_nat (?i div 512)" "q = FR_OK \<Longrightarrow> win t = view sec s (fatbase s + of_nat (?i div 512))" "q \<noteq> FR_OK \<Longrightarrow> q = FR_DISK_ERR"
      by (rule load_byte [OF D w r(6), of ?i]) (use r(1) 1 in simp, rule that)
    show ?thesis
    proof (cases "q = FR_OK")
      case False
      then have "get_fat D c s = Some (0xFFFFFFFF, t)" using c' 1 t(1) by (simp add: get_fat_def pos)
      then show ?thesis by (rule that [OF _ t(2)]) simp
    next
      case True
      have tf: "fatbase t = fatbase s" "fs_fsize t = fs_fsize s" "fat_placed t" "win_ok sec t" "window_moved s t" "same_view sec s t"
        using t(2) r(6) by (simp_all add: moved_def window_moved_fields [of s t])
      obtain p u where u: "move_window D (fatbase t + of_nat ((?i + 1) div 512)) t = Some (p, u)" "moved sec t u"
        "p = FR_OK \<Longrightarrow> winsect u = fatbase t + of_nat ((?i + 1) div 512)" "p = FR_OK \<Longrightarrow> win u = view sec t (fatbase t + of_nat ((?i + 1) div 512))" "p \<noteq> FR_OK \<Longrightarrow> p = FR_DISK_ERR"
        by (rule load_byte [OF D tf(4,3), of "?i + 1"]) (use r(1) 1 tf in simp, rule that)
      have b1: "win t ! (?i mod 512) = fat_byte sec s ?i" using t(4) True by (simp add: fat_byte_def)
      have b2: "p = FR_OK \<Longrightarrow> win u ! ((?i + 1) mod 512) = fat_byte sec s (?i + 1)"
        using u(4) fat_byte_same [OF tf(6,5) r(6), of "?i + 1"] r(1) 1 by (simp add: fat_byte_def)
      have "get_fat D c s = Some (if p = FR_OK then entry_of sec s (unat c) else 0xFFFFFFFF, u)"
        using c' 1 t(1) True u(1) b1 b2 tf(1) by (simp add: get_fat_def pos entry_of_def fat_entry_def Let_def)
      then show ?thesis by (rule that [OF _ moved_trans [OF t(2) u(2)]]) simp
    qed
  next
    case 2
    obtain q t where t: "move_window D (fatbase s + of_nat (2 * unat c div 512)) s = Some (q, t)" "moved sec s t"
      "q = FR_OK \<Longrightarrow> winsect t = fatbase s + of_nat (2 * unat c div 512)" "q = FR_OK \<Longrightarrow> win t = view sec s (fatbase s + of_nat (2 * unat c div 512))" "q \<noteq> FR_OK \<Longrightarrow> q = FR_DISK_ERR"
      by (rule load_byte [OF D w r(6), of "2 * unat c"]) (use r(3) 2 in simp, rule that)
    have "get_fat D c s = Some (if q = FR_OK then entry_of sec s (unat c) else 0xFFFFFFFF, t)"
      using c' 2 t(1) LD_entries(1) [OF t(4)] by (simp add: get_fat_def fat16_pos(1,2) entry_of_def del: div_mult_mult1_if)
    then show ?thesis by (rule that [OF _ t(2)]) simp
  next
    case 3
    obtain q t where t: "move_window D (fatbase s + of_nat (4 * unat c div 512)) s = Some (q, t)" "moved sec s t"
      "q = FR_OK \<Longrightarrow> winsect t = fatbase s + of_nat (4 * unat c div 512)" "q = FR_OK \<Longrightarrow> win t = view sec s (fatbase s + of_nat (4 * unat c div 512))" "q \<noteq> FR_OK \<Longrightarrow> q = FR_DISK_ERR"
      by (rule load_byte [OF D w r(6), of "4 * unat c"]) (use r(4) 3 in simp, rule that)
    have "get_fat D c s = Some (if q = FR_OK then entry_of sec s (unat c) else 0xFFFFFFFF, t)"
      using c' 3 t(1) LD_entries(2) [OF t(4)] by (simp add: get_fat_def fat32_pos(1,2) entry_of_def)
    then show ?thesis by (rule that [OF _ t(2)]) simp
  qed
qed

section \<open>Updates of the table\<close>

text \<open>Bytes stored through the window, and the map of bytes they give.\<close>

fun put_bytes :: "nat \<Rightarrow> u8 list \<Rightarrow> 'd volume \<Rightarrow> 'd volume" where
  "put_bytes i [] s = s"
| "put_bytes i (b # bs) s = put_bytes (i + 1) bs (s\<lparr>win := (win s)[i mod 512 := b], wflag := 1\<rparr>)"

fun upd_bytes :: "nat \<Rightarrow> u8 list \<Rightarrow> (nat \<Rightarrow> u8) \<Rightarrow> nat \<Rightarrow> u8" where
  "upd_bytes i [] f = f"
| "upd_bytes i (b # bs) f = upd_bytes (i + 1) bs (f(i := b))"

definition bytes_put :: "('d \<Rightarrow> u32 \<Rightarrow> u8 list) \<Rightarrow> nat \<Rightarrow> u8 list \<Rightarrow> 'd volume \<Rightarrow> 'd volume \<Rightarrow> bool" where
  "bytes_put sec i bs s s' \<longleftrightarrow> window_moved s s' \<and> win_ok sec s' \<and> same_data sec s s'
     \<and> (\<forall>j < 512 * unat (fs_fsize s). fat_byte sec s' j = upd_bytes i bs (fat_byte sec s) j)"

lemma upd_bytes_append: "upd_bytes i (bs @ bs') f = upd_bytes (i + length bs) bs' (upd_bytes i bs f)"
  by (induction bs arbitrary: i f) simp_all

lemma upd_bytes_cong: "(\<And>j. j < n \<Longrightarrow> f j = g j) \<Longrightarrow> j < n \<Longrightarrow> upd_bytes i bs f j = upd_bytes i bs g j"
proof (induction bs arbitrary: i f g)
  case (Cons b bs)
  show ?case unfolding upd_bytes.simps by (rule Cons.IH [OF _ Cons.prems(2)]) (simp add: Cons.prems(1))
qed simp

lemma bytes_put_moved: "moved sec s s' \<Longrightarrow> fat_placed s \<Longrightarrow> bytes_put sec i [] s s'"
  by (simp add: bytes_put_def moved_def same_view_data fat_byte_same)

lemma bytes_put_trans:
  assumes "bytes_put sec i bs s t" "bytes_put sec (i + length bs) bs' t u"
  shows "bytes_put sec i (bs @ bs') s u"
proof -
  have st: "window_moved s t" "same_data sec s t" and tu: "window_moved t u" "same_data sec t u" "win_ok sec u"
    using assms by (simp_all add: bytes_put_def)
  have "fat_byte sec u j = upd_bytes i (bs @ bs') (fat_byte sec s) j" if j: "j < 512 * unat (fs_fsize s)" for j
  proof -
    have "fat_byte sec u j = upd_bytes (i + length bs) bs' (fat_byte sec t) j"
      using assms(2) j window_moved_fields(6) [OF st(1)] by (simp add: bytes_put_def)
    also have "\<dots> = upd_bytes (i + length bs) bs' (upd_bytes i bs (fat_byte sec s)) j"
      using assms(1) by (intro upd_bytes_cong [OF _ j]) (simp add: bytes_put_def)
    finally show ?thesis by (simp add: upd_bytes_append)
  qed
  then show ?thesis using window_moved_trans [OF st(1) tu(1)] same_data_trans [OF st(2,1) tu(2)] tu(3) by (simp add: bytes_put_def)
qed

lemma bytes_put_one:
  assumes "win_ok sec s" "fat_placed s" "i < 512 * unat (fs_fsize s)" "winsect s = fatbase s + of_nat (i div 512)"
  shows "bytes_put sec i [b] s (s\<lparr>win := (win s)[i mod 512 := b], wflag := 1\<rparr>)"
  using store_byte [OF assms, where b = b] by (simp add: bytes_put_def)

lemma put_bytes_ok:
  assumes "win_ok sec s" "fat_placed s" "i + length bs \<le> 512 * unat (fs_fsize s)" "winsect s = fatbase s + of_nat (q div 512)"
    "\<forall>k < length bs. (i + k) div 512 = q div 512"
  shows "bytes_put sec i bs s (put_bytes i bs s)"
  using assms
proof (induction bs arbitrary: i s)
  case Nil
  then show ?case by (simp add: bytes_put_def same_data_def)
next
  case (Cons b bs)
  let ?s = "s\<lparr>win := (win s)[i mod 512 := b], wflag := 1\<rparr>"
  have i: "i < 512 * unat (fs_fsize s)" "winsect s = fatbase s + of_nat (i div 512)" using Cons.prems(3-5) by auto
  note one = bytes_put_one [OF Cons.prems(1,2) i, of b]
  have "bytes_put sec (i + 1) bs ?s (put_bytes (i + 1) bs ?s)"
  proof (rule Cons.IH)
    show "win_ok sec ?s" using one by (simp add: bytes_put_def)
    show "fat_placed ?s" using Cons.prems(2) by (simp add: fat_placed_def)
    show "i + 1 + length bs \<le> 512 * unat (fs_fsize ?s)" using Cons.prems(3) by simp
    show "winsect ?s = fatbase ?s + of_nat (q div 512)" using Cons.prems(4) by simp
    show "\<forall>k<length bs. (i + 1 + k) div 512 = q div 512" using Cons.prems(5) by (auto dest: spec [of _ "Suc _"])
  qed
  with bytes_put_trans [OF one, of bs "put_bytes (i + 1) bs ?s"] show ?case by simp
qed

text \<open>What an update of entry \<open>c\<close> leaves, successful or not.\<close>

definition entry_put :: "('d \<Rightarrow> u32 \<Rightarrow> u8 list) \<Rightarrow> u32 \<Rightarrow> u32 \<Rightarrow> 'd volume \<Rightarrow> u32 \<Rightarrow> 'd volume \<Rightarrow> bool" where
  "entry_put sec c v s r s' \<longleftrightarrow> window_moved s s' \<and> win_ok sec s' \<and> same_data sec s s' \<and> (r = FR_OK \<or> r = FR_DISK_ERR)
     \<and> (r = FR_OK \<longrightarrow> (\<forall>c' < unat (n_fatent s). entry_of sec s' c' = (if c' = unat c then v AND fat_mask (fs_type s) else entry_of sec s c')))"

lemma entry_put_failed: "bytes_put sec i bs s s' \<Longrightarrow> entry_put sec c v s FR_DISK_ERR s'"
  by (simp add: entry_put_def bytes_put_def)

lemma entry_put_bytes:
  assumes "bytes_put sec i bs s s'" "fat_geometry s"
    "\<And>c'. fat_entry (fs_type s) (upd_bytes i bs (fat_byte sec s)) c' = (if c' = unat c then v AND fat_mask (fs_type s) else fat_entry (fs_type s) (fat_byte sec s) c')"
  shows "entry_put sec c v s FR_OK s'"
proof -
  have "fat_entry (fs_type s) (fat_byte sec s') c' = fat_entry (fs_type s) (upd_bytes i bs (fat_byte sec s)) c'"
    if "c' < unat (n_fatent s)" for c'
    by (rule fat_entry_cong [OF _ assms(2) that]) (use assms(1) in \<open>simp add: bytes_put_def\<close>)
  moreover have "fs_type s' = fs_type s" using assms(1) window_moved_fields(1) by (auto simp: bytes_put_def)
  ultimately show ?thesis using assms(1,3) by (simp add: entry_put_def bytes_put_def entry_of_def)
qed

lemma put_fat16_ok:
  assumes D: "drive_ok D sec" and s: "vol_ok sec s" and c: "2 \<le> c" "c < n_fatent s" and ty: "fs_type s = 2"
  obtains r s' where "put_fat D c v s = Some (r, s')" "entry_put sec c v s r s'"
proof -
  have w: "win_ok sec s" and g: "fat_geometry s" using s by (simp_all add: vol_ok_def)
  note r = fat_room [OF g c(2)]
  have c': "\<not> (c < 2 \<or> n_fatent s \<le> c)" using c by (simp add: not_less not_le)
  let ?i = "2 * unat c" and ?bs = "[ucast (ucast v :: u16), ucast (drop_bit 8 (ucast v :: u16))] :: u8 list"
  obtain q t where t: "move_window D (fatbase s + of_nat (?i div 512)) s = Some (q, t)" "moved sec s t"
    "q = FR_OK \<Longrightarrow> winsect t = fatbase s + of_nat (?i div 512)" "q = FR_OK \<Longrightarrow> win t = view sec s (fatbase s + of_nat (?i div 512))" "q \<noteq> FR_OK \<Longrightarrow> q = FR_DISK_ERR"
    by (rule load_byte [OF D w r(6), of ?i]) (use r(3) ty in simp, rule that)
  note mv = bytes_put_moved [OF t(2) r(6), of ?i]
  have tf: "fat_placed t" "win_ok sec t" "fs_fsize t = fs_fsize s" "fatbase t = fatbase s"
    using t(2) r(6) by (simp_all add: moved_def window_moved_fields [of s t])
  show ?thesis
  proof (cases "q = FR_OK")
    case False
    then have "put_fat D c v s = Some (FR_DISK_ERR, t)" using c' ty t(1) t(5) by (simp add: put_fat_def fat16_pos(1))
    then show ?thesis by (rule that [OF _ entry_put_failed [OF mv]])
  next
    case True
    have "bytes_put sec ?i ?bs t (put_bytes ?i ?bs t)"
      by (rule put_bytes_ok [OF tf(2,1), where q = ?i])
        (use t(3) True tf r(3) ty block_pos(1) [of _ 2 "unat c" 256] in simp_all)
    then have "bytes_put sec ?i ([] @ ?bs) s (put_bytes ?i ?bs t)" by (intro bytes_put_trans [OF mv]) simp
    then have "entry_put sec c v s FR_OK (put_bytes ?i ?bs t)"
      by (rule entry_put_bytes [OF _ g]) (use fat16_store [of "fat_byte sec s" "unat c" v] ty in \<open>simp add: fat_mask_def\<close>)
    moreover have "put_fat D c v s = Some (FR_OK, put_bytes ?i ?bs t)"
      using c' ty t(1) True fat16_pos(4) [of c] by (simp add: put_fat_def fat16_pos(1,2) ST_WORD_def del: div_mult_mult1_if)
    ultimately show ?thesis by (intro that)
  qed
qed

lemma put_fat32_ok:
  assumes D: "drive_ok D sec" and s: "vol_ok sec s" and c: "2 \<le> c" "c < n_fatent s" and ty: "fs_type s = 3"
  obtains r s' where "put_fat D c v s = Some (r, s')" "entry_put sec c v s r s'"
proof -
  have w: "win_ok sec s" and g: "fat_geometry s" using s by (simp_all add: vol_ok_def)
  note r = fat_room [OF g c(2)]
  have c': "\<not> (c < 2 \<or> n_fatent s \<le> c)" using c by (simp add: not_less not_le)
  let ?i = "4 * unat c" and ?f = "fat_byte sec s"
  obtain q t where t: "move_window D (fatbase s + of_nat (?i div 512)) s = Some (q, t)" "moved sec s t"
    "q = FR_OK \<Longrightarrow> winsect t = fatbase s + of_nat (?i div 512)" "q = FR_OK \<Longrightarrow> win t = view sec s (fatbase s + of_nat (?i div 512))" "q \<noteq> FR_OK \<Longrightarrow> q = FR_DISK_ERR"
    by (rule load_byte [OF D w r(6), of ?i]) (use r(4) ty in simp, rule that)
  note mv = bytes_put_moved [OF t(2) r(6), of ?i]
  have tf: "fat_placed t" "win_ok sec t" "fs_fsize t = fs_fsize s" "fatbase t = fatbase s"
    using t(2) r(6) by (simp_all add: moved_def window_moved_fields [of s t])
  show ?thesis
  proof (cases "q = FR_OK")
    case False
    then have "put_fat D c v s = Some (FR_DISK_ERR, t)" using c' ty t(1) t(5) by (simp add: put_fat_def fat32_pos(1))
    then show ?thesis by (rule that [OF _ entry_put_failed [OF mv]])
  next
    case True
    define x where "x = v OR (LD_DWORD (win t) (?i mod 512) AND 0xF0000000)"
    let ?bs = "[ucast x, ucast (drop_bit 8 x), ucast (drop_bit 16 x), ucast (drop_bit 24 x)] :: u8 list"
    have b: "?f (?i + k) = win t ! (?i mod 512 + k)" if "k < 4" for k
      using that t(4) True by (simp only: fat_byte_def fat32_pos)
    have x: "x = v OR ((push_bit 24 (ucast (?f (?i + 3))) OR push_bit 16 (ucast (?f (?i + 2))) OR push_bit 8 (ucast (?f (?i + 1))) OR ucast (?f ?i)) AND 0xF0000000)"
      using b [of 0] b [of 1] b [of 2] b [of 3] by (simp add: x_def LD_DWORD_def)
    have "bytes_put sec ?i ?bs t (put_bytes ?i ?bs t)"
      by (rule put_bytes_ok [OF tf(2,1), where q = ?i])
        (use t(3) True tf r(4) ty block_pos(1) [of _ 4 "unat c" 128] in simp_all)
    then have "bytes_put sec ?i ([] @ ?bs) s (put_bytes ?i ?bs t)" by (intro bytes_put_trans [OF mv]) simp
    then have "entry_put sec c v s FR_OK (put_bytes ?i ?bs t)"
      by (rule entry_put_bytes [OF _ g]) (use fat32_store [of ?f "unat c" v, folded x] ty in \<open>simp add: fat_mask_def numeral_eq_Suc\<close>)
    moreover have "put_fat D c v s = Some (FR_OK, t\<lparr>win := ST_DWORD (win t) (?i mod 512) x, wflag := 1\<rparr>)"
      using c' ty t(1) True by (simp add: put_fat_def fat32_pos(1,2) Let_def x_def)
    moreover have "put_bytes ?i ?bs t = t\<lparr>win := ST_DWORD (win t) (?i mod 512) x, wflag := 1\<rparr>"
      using fat32_pos(4) [of 1 c] fat32_pos(4) [of 2 c] fat32_pos(4) [of 3 c] by (simp add: ST_DWORD_def add.commute [of 3])
    ultimately show ?thesis using that by simp
  qed
qed

lemma put_fat12_ok:
  assumes D: "drive_ok D sec" and s: "vol_ok sec s" and c: "2 \<le> c" "c < n_fatent s" and ty: "fs_type s = 1"
  obtains r s' where "put_fat D c v s = Some (r, s')" "entry_put sec c v s r s'"
proof -
  have w: "win_ok sec s" and g: "fat_geometry s" using s by (simp_all add: vol_ok_def)
  note r = fat_room [OF g c(2)]
  have c': "\<not> (c < 2 \<or> n_fatent s \<le> c)" using c by (simp add: not_less not_le)
  let ?i = "unat c + unat c div 2" and ?f = "fat_byte sec s"
  define b where "b = (if odd (unat c) then (?f ?i AND 0x0F) OR push_bit 4 (ucast v) else ucast v)"
  define b' where "b' = (if odd (unat c) then ucast (drop_bit 4 v) else (?f (?i + 1) AND 0xF0) OR (ucast (drop_bit 8 v) AND 0x0F))"
  note pos = word_pos [OF fat12_pos(1) [OF r(2) [OF ty]]] word_pos [OF fat12_pos(2) [OF r(2) [OF ty]]] fat12_pos(3) [OF r(2) [OF ty]]
  obtain q t where t: "move_window D (fatbase s + of_nat (?i div 512)) s = Some (q, t)" "moved sec s t"
    "q = FR_OK \<Longrightarrow> winsect t = fatbase s + of_nat (?i div 512)" "q = FR_OK \<Longrightarrow> win t = view sec s (fatbase s + of_nat (?i div 512))" "q \<noteq> FR_OK \<Longrightarrow> q = FR_DISK_ERR"
    by (rule load_byte [OF D w r(6), of ?i]) (use r(1) ty in simp, rule that)
  note mv = bytes_put_moved [OF t(2) r(6), of ?i]
  have tf: "fat_placed t" "win_ok sec t" "fs_fsize t = fs_fsize s" "fatbase t = fatbase s"
    using t(2) r(6) by (simp_all add: moved_def window_moved_fields [of s t])
  show ?thesis
  proof (cases "q = FR_OK")
    case False
    then have "put_fat D c v s = Some (FR_DISK_ERR, t)" using c' ty t(1) t(5) by (simp add: put_fat_def pos)
    then show ?thesis by (rule that [OF _ entry_put_failed [OF mv]])
  next
    case True
    define u where "u = t\<lparr>win := (win t)[?i mod 512 := b], wflag := 1\<rparr>"
    have "bytes_put sec ?i [b] t u" unfolding u_def
      by (rule bytes_put_one [OF tf(2,1)]) (use t(3) True tf r(1) ty in simp_all)
    then have su: "bytes_put sec ?i ([] @ [b]) s u" by (intro bytes_put_trans [OF mv]) simp
    have uf: "fat_placed u" "win_ok sec u" "fs_fsize u = fs_fsize s" "fatbase u = fatbase s"
      using su r(6) by (simp_all add: bytes_put_def window_moved_fields [of s u])
    obtain p x where x: "move_window D (fatbase u + of_nat ((?i + 1) div 512)) u = Some (p, x)" "moved sec u x"
      "p = FR_OK \<Longrightarrow> winsect x = fatbase u + of_nat ((?i + 1) div 512)" "p = FR_OK \<Longrightarrow> win x = view sec u (fatbase u + of_nat ((?i + 1) div 512))" "p \<noteq> FR_OK \<Longrightarrow> p = FR_DISK_ERR"
      by (rule load_byte [OF D uf(2,1), of "?i + 1"]) (use r(1) ty uf in simp, rule that)
    have sx: "bytes_put sec ?i [b] s x" using bytes_put_trans [OF su bytes_put_moved [OF x(2) uf(1)]] by simp
    have xf: "fat_placed x" "win_ok sec x" "fs_fsize x = fs_fsize s" "fatbase x = fatbase s"
      using sx r(6) by (simp_all add: bytes_put_def window_moved_fields [of s x])
    have b: "b = (if c AND 1 \<noteq> 0 then (win t ! (?i mod 512) AND 0x0F) OR push_bit 4 (ucast v) else ucast v)"
      using t(4) True pos(5) by (simp add: b_def fat_byte_def)
    show ?thesis
    proof (cases "p = FR_OK")
      case False
      then have "put_fat D c v s = Some (FR_DISK_ERR, x)"
        using c' ty t(1) True x(1,5) b tf(4) uf(4) by (simp add: put_fat_def pos Let_def u_def)
      then show ?thesis by (rule that [OF _ entry_put_failed [OF sx]])
    next
      case ok: True
      have "fat_byte sec u (?i + 1) = ?f (?i + 1)" using su r(1) ty by (simp add: bytes_put_def)
      then have b': "b' = (if c AND 1 \<noteq> 0 then ucast (drop_bit 4 v) else (win x ! ((?i + 1) mod 512) AND 0xF0) OR (ucast (drop_bit 8 v) AND 0x0F))"
        using x(4) ok pos(5) uf(4) by (simp add: b'_def fat_byte_def)
      let ?s = "x\<lparr>win := (win x)[(?i + 1) mod 512 := b'], wflag := 1\<rparr>"
      have "bytes_put sec (?i + 1) [b'] x ?s"
        by (rule bytes_put_one [OF xf(2,1)]) (use x(3) ok xf uf r(1) ty in simp_all)
      then have "bytes_put sec ?i ([b] @ [b']) s ?s" by (intro bytes_put_trans [OF sx]) simp
      then have "entry_put sec c v s FR_OK ?s"
        by (rule entry_put_bytes [OF _ g]) (use fat12_store [of ?f "unat c" v] ty in \<open>simp add: fat_mask_def b_def b'_def\<close>)
      moreover have "put_fat D c v s = Some (FR_OK, ?s)"
        using c' ty t(1) True x(1) ok b b' tf(4) uf(4) by (simp add: put_fat_def pos Let_def u_def)
      ultimately show ?thesis by (intro that)
    qed
  qed
qed

lemma put_fat_ok:
  assumes D: "drive_ok D sec" and s: "vol_ok sec s" and c: "2 \<le> c" "c < n_fatent s"
  obtains r s' where "put_fat D c v s = Some (r, s')" "entry_put sec c v s r s'"
proof -
  have "fat_geometry s" using s by (simp add: vol_ok_def)
  with fat_room(5) [OF this c(2)] consider "fs_type s = 1" | "fs_type s = 2" | "fs_type s = 3" by auto
  then show ?thesis by cases (blast intro: that put_fat12_ok [OF D s c] put_fat16_ok [OF D s c] put_fat32_ok [OF D s c])+
qed

lemma entry_put_vol_ok: "vol_ok sec s \<Longrightarrow> entry_put sec c v s r s' \<Longrightarrow> vol_ok sec s'"
  by (auto simp: vol_ok_def entry_put_def fat_geometry_moved)

end
