(* ===== verification/Ff_Props.thy ===== *)
theory Ff_Props
  imports Ff_Table
begin

text \<open>
  Properties of the file allocation table, and a drive in memory, with a small FAT12 volume on it, for which the
  promises of \<open>drive_ok\<close> hold.
\<close>

section \<open>A drive in memory\<close>

definition store_sector :: "(u32 \<Rightarrow> u8 list) \<Rightarrow> u32 \<Rightarrow> u8 list" where
  "store_sector d k = take 512 (d k @ replicate 512 0)"

definition store_drive :: "(u32 \<Rightarrow> u8 list) drive" where
  "store_drive =
     \<lparr>d_read = (\<lambda>p b k n d. Some (RES_OK, concat (map (\<lambda>i. store_sector d (k + of_nat i)) [0..<unat n]), d)),
      d_write = (\<lambda>p b k n d. Some (RES_OK, \<lambda>j. if unat (j - k) < unat n then take 512 (drop (512 * unat (j - k)) b) else d j)),
      d_sync = (\<lambda>p d. Some (RES_OK, d)), d_status = (\<lambda>p d. 0), d_init = (\<lambda>p d. Some (0, d))\<rparr>"

lemma length_sectors: "length (concat (map (\<lambda>i. store_sector d (k + of_nat i)) xs)) = 512 * length xs"
  by (induction xs) (simp_all add: store_sector_def)

lemma store_drive_ok: "drive_ok store_drive store_sector"
proof -
  have "store_sector (\<lambda>j. if unat (j - k) < unat n then take 512 (drop (512 * unat (j - k)) b) else d j) (k + of_nat i) = take 512 (drop (512 * i) b)"
    if "i < unat n" "length b = 512 * unat n" for i b and k n :: u32 and d :: "u32 \<Rightarrow> u8 list"
  proof -
    have "i < 2 ^ 32" using that(1) unat_bound [of n] by simp
    then have u: "unat (of_nat i :: u32) = i" by (simp add: unat_of_nat)
    have "512 * i + 512 \<le> length b" using that by simp
    then show ?thesis using that(1) u by (simp add: store_sector_def)
  qed
  moreover have "length (store_sector d k) = 512" for d k by (simp add: store_sector_def)
  moreover have "store_sector (\<lambda>j. if unat (j - k) < unat n then take 512 (drop (512 * unat (j - k)) b) else d j) j = store_sector d j"
    if "unat n \<le> unat (j - k)" for j k n :: u32 and b d using that by (simp add: store_sector_def)
  ultimately show ?thesis by (simp add: drive_ok_def store_drive_def length_sectors)
qed

definition fat_example :: "(u32 \<Rightarrow> u8 list) volume" where
  "fat_example = \<lparr>fs_type = FS_FAT12, drv = 0, csize = 1, n_fats = 2, wflag = 0, fsi_flag = 0x80, fs_id = 1, n_rootdir = 16,
     last_clust = 0xFFFFFFFF, free_clust = 0xFFFFFFFF, cdir = 0, n_fatent = 100, fs_fsize = 1, volbase = 0, fatbase = 1, dirbase = 3,
     database = 4, winsect = 1, win = replicate 512 0, media = (\<lambda>_. [])\<rparr>"

lemma fat_example_ok: "vol_ok store_sector fat_example"
  by (simp add: vol_ok_def win_ok_def fat_geometry_def fat_placed_def fat_example_def store_sector_def)

section \<open>Reading what was written\<close>

text \<open>C11: Round trip of the file allocation table, in each of its three formats and through the window with its write-back cache:
  after \<open>put_fat\<close> has stored a value for a cluster, \<open>get_fat\<close> gives that value, cut to the width of an
  entry, for this cluster, and for every other cluster what it gave before, neighbours that share a
  byte with it included.  The drive may fail at any time; a failed call is reported as such.\<close>

theorem fat_roundtrip:
  assumes "drive_ok D sec" "vol_ok sec s" "2 \<le> c" "c < n_fatent s" "2 \<le> c'" "c' < n_fatent s"
    and "get_fat D c' s = Some (x, s0)" "x \<noteq> 0xFFFFFFFF"
    and "put_fat D c v s0 = Some (FR_OK, s1)"
    and "get_fat D c' s1 = Some (y, s2)" "y \<noteq> 0xFFFFFFFF"
  shows "y = (if c' = c then v AND fat_mask (fs_type s) else x)"
proof -
  obtain x' t where t: "get_fat D c' s = Some (x', t)" "moved sec s t" "x' = 0xFFFFFFFF \<or> x' = entry_of sec s (unat c')"
    by (rule get_fat_ok [OF assms(1,2,5,6)]) (rule that)
  have [simp]: "t = s0" "x' = x" using t(1) assms(7) by simp_all
  have wm: "window_moved s s0" and v0: "vol_ok sec s0" using t(2) vol_ok_moved [OF assms(2) t(2)] by (simp_all add: moved_def)
  note f = window_moved_fields [OF wm]
  obtain r u where u: "put_fat D c v s0 = Some (r, u)" "entry_put sec c v s0 r u"
    by (rule put_fat_ok [OF assms(1) v0 assms(3), of v]) (use assms(4) f(5) in simp, rule that)
  have [simp]: "r = FR_OK" "u = s1" using u(1) assms(9) by simp_all
  have v1: "vol_ok sec s1" and n1: "n_fatent s1 = n_fatent s"
    using entry_put_vol_ok [OF v0 u(2)] u(2) f(5) window_moved_fields(5) [of s0 s1] by (simp_all add: entry_put_def)
  obtain y' w where w: "get_fat D c' s1 = Some (y', w)" "y' = 0xFFFFFFFF \<or> y' = entry_of sec s1 (unat c')"
    by (rule get_fat_ok [OF assms(1) v1 assms(5)]) (use assms(6) n1 in simp, blast intro: that)
  have "unat c' < unat (n_fatent s)" using assms(6) by (simp add: word_less_nat_alt)
  then have "entry_of sec s1 (unat c') = (if unat c' = unat c then v AND fat_mask (fs_type s) else entry_of sec s (unat c'))"
    using u(2) f(1,5) entry_moved [OF t(2) assms(2)] by (simp add: entry_put_def)
  then show ?thesis using w assms(8,10,11) t(3) by (auto simp: word_unat_eq_iff)
qed

lemma fat_example_calls:
  "\<exists>s1 y s2 z s3. put_fat store_drive 4 0x1ABC fat_example = Some (FR_OK, s1) \<and> get_fat store_drive 4 s1 = Some (y, s2) \<and> y \<noteq> 0xFFFFFFFF
    \<and> get_fat store_drive 5 s1 = Some (z, s3) \<and> z \<noteq> 0xFFFFFFFF"
  "get_fat store_drive 4 fat_example = Some (0, fat_example)" "get_fat store_drive 5 fat_example = Some (0, fat_example)"
  by (simp_all add: get_fat_def put_fat_def move_window_def fat_example_def Let_def)

theorem fat_roundtrip_witness:
  "\<exists>s1 s2 s3. put_fat store_drive 4 0x1ABC fat_example = Some (FR_OK, s1) \<and> get_fat store_drive 4 s1 = Some (0xABC, s2)
    \<and> get_fat store_drive 5 s1 = Some (0, s3)"
proof -
  obtain s1 y s2 z s3 where c: "put_fat store_drive 4 0x1ABC fat_example = Some (FR_OK, s1)" "get_fat store_drive 4 s1 = Some (y, s2)" "y \<noteq> 0xFFFFFFFF"
    "get_fat store_drive 5 s1 = Some (z, s3)" "z \<noteq> 0xFFFFFFFF" using fat_example_calls(1) by blast
  have n: "n_fatent fat_example = 100" "fs_type fat_example = 1" by (simp_all add: fat_example_def)
  have "y = 0xABC" using fat_roundtrip [OF store_drive_ok fat_example_ok _ _ _ _ fat_example_calls(2) _ c(1,2,3)] n by (simp add: fat_mask_def)
  moreover have "z = 0" using fat_roundtrip [OF store_drive_ok fat_example_ok _ _ _ _ fat_example_calls(3) _ c(1,4,5)] n by simp
  ultimately show ?thesis using c by blast
qed

end
