(* ===== verification/Spec2Isabelle.thy ===== *)
theory Spec2Isabelle
  imports Vm_Props Float_Mul Float_Div Float_Add Float_Compare Ipi Boot_Props Emulation Ff_Props
begin

text \<open>
  Verification of the board firmware of the tagged-memory RISC-V system, \<open>src/fpga/board/kc705\<close>.

  \<^bold>\<open>The program.\<close>  \<open>bbl\<close> runs in machine mode below a supervisor: it emulates instructions the
  processor lacks or finds misaligned (\<open>bbl/emulation.c\<close>, with the floating-point library
  \<open>softfloat\<close>), manages the memory of the program it loads (\<open>bbl/vm.c\<close>, \<open>bbl/file.c\<close>) and reaches
  the SD card and the serial line through the drivers of \<open>driver\<close>.

  \<^bold>\<open>Theories.\<close>
  \<^item> \<open>Prelude\<close>, \<open>Encoding\<close>: machine integers, byte memory, the macros of \<open>bbl.h\<close> and \<open>encoding.h\<close>.
  \<^item> \<open>Sync\<close>: \<open>bbl/atomic.h\<close>.  The locks as one caller sees them (taking a lock that is held does not
    return) and as a step relation of any number of harts, with mutual exclusion by rule induction.
  \<^item> \<open>File\<close>: \<open>bbl/file.c\<close>.  The file table with reference counts; a file is closed at the last drop.
  \<^item> \<open>Vm\<close>: \<open>bbl/vm.c\<close>, function by function.  \<open>Vm_Table\<close> gives the page tables their meaning as a map
    from pages to entries (\<open>look\<close>) and shows that the walks implement it; \<open>Vm_Region\<close> has the
    invariant \<open>vm_inv\<close> and the locale \<open>page_update\<close> of the loops over pages, interpreted for
    unmapping, mapping and populating; \<open>Vm_Map\<close> and \<open>Vm_Props\<close> have the system calls.
  \<^item> \<open>Softfloat_Prims\<close>, \<open>Softfloat_F32\<close>, \<open>Softfloat_F64\<close>: \<open>softfloat\<close>, routine by routine.  A routine
    takes the rounding mode and returns its result and the flags it raises.
  \<^item> \<open>Softfloat_Exact\<close>: the multi-word primitives compute the exact sums and products, and the quotient
    estimate is at most two too large.
  \<^item> \<open>Float_Round\<close>, \<open>Float_Pack\<close>, \<open>Float_Operand\<close>: what correct rounding is (\<open>rounds\<close>, over the
    magnitudes of the encodings), the packing step for both precisions through one locale
    \<open>round_pack\<close>, and the decoding of operands.  \<open>Float_Mul\<close>, \<open>Float_Div\<close>, \<open>Float_Add\<close>: the four
    operations are correctly rounded in every mode.  \<open>Float_Compare\<close>: the comparisons, with NaNs told by
    their encoding.
  \<^item> \<open>Libc\<close>: \<open>bbl/string.c\<close>.  The word and the byte loops of \<open>memcpy\<close> and \<open>memset\<close> are block writes,
    by a locale each.  \<open>Console\<close>: \<open>bbl/console.c\<close>; the formatter against the text a format stands for, which has its own
    digits and numbers.
  \<^item> \<open>Emulation\<close>: \<open>bbl/emulation.c\<close>, the macros of \<open>bbl/mtrap.h\<close> and \<open>illegal_insn_trap\<close>.
  \<^item> \<open>Mtrap\<close>: \<open>bbl/mtrap.c\<close> and the decisions of \<open>bbl/mentry.S\<close>.  \<open>Mtrap_Queue\<close> describes the device
    queues as lists, with the locale \<open>fifo_queue\<close>; \<open>Mtrap_Props\<close> has the properties of the calls and
    \<open>Ipi\<close> the interprocessor interrupts with the harts interleaved, tied to a hart's state through its flags and its writes
    to \<open>send_ipi\<close>.
  \<^item> \<open>Elf\<close>, \<open>Elf_Props\<close>: \<open>bbl/elf.c\<close> and \<open>driver/elf.c\<close>.  The image loader places the segments one after
    the other; the supervisor's loader stays within the memory it may use.
  \<^item> \<open>Boot\<close>, \<open>Boot_Props\<close>: \<open>bbl/minit.c\<close>, \<open>bbl/init.c\<close>, \<open>bbl/bbl.c\<close>, \<open>bbl/sbi_impl.c\<close>.  Start-up, from
    \<open>machine_init\<close> through the loader to the \<open>eret\<close> that enters the program; the processor's status register is that of
    \<open>csr.scala\<close> in \<open>src/rocket\<close>.
  \<^item> \<open>Devices\<close>, \<open>Diskio\<close>: \<open>driver/uart.c\<close>, \<open>driver/spi.c\<close>, \<open>driver/diskio.c\<close>.
  \<^item> \<open>Ff_Fat\<close>: \<open>driver/ff.c\<close>, the window on the disk, the file allocation table and the cluster chains.  \<open>Ff_Table\<close>
    gives the table its meaning as a map from clusters to entries, for the three formats; \<open>Ff_Props\<close> has the round
    trip of its entries.

  \<^bold>\<open>Conventions.\<close>  A C function that changes state takes and returns the state in an \<open>option\<close>; \<open>None\<close>
  means that it does not return (panic, failed assertion, endless wait) or that C gives the execution
  no meaning.  Loops that need not end are \<open>partial_function (option)\<close>; no fuel is used.  Integers
  keep their width.

  \<^bold>\<open>Parameters.\<close>  \<open>fatfs\<close> is the FatFs interface, \<open>hw\<close> what the processor does when a floating-point
  register is moved or an access faults, \<open>bus\<close> the device registers, \<open>drive\<close> the disk functions FatFs calls, \<open>cpu\<close> what
  the processor reports of itself and keeps of \<open>mstatus\<close>, with \<open>rocket\<close> for the repository's processor.

  \<^bold>\<open>Not modelled.\<close>  The directories and files of FatFs and the assembly stubs of start-up; the Chisel and Verilog hardware but for the status register, the tool chain,
  the simulator and the test programs, which are not part of the firmware.
\<close>

end
